(* ===== verification/Prelude.thy ===== *)
theory Prelude
  imports Main
begin

text \<open>
  What every component of the model shares: Python exceptions as values, the result type of
  code that may raise, sequencing of such code, and the list notions (adjacent pairs, slices
  from the end, stable grouping) the source takes from \<^verbatim>\<open>itertools\<close> and from slicing.
\<close>

section \<open>Exceptions as values\<close>

text \<open>
  One constructor per exception class the source raises, catches or lets escape.
  \<open>OperationalError\<close> and \<open>PsycopgError\<close> are psycopg's connection-loss error and any other
  of its errors; \<open>MqttError\<close> is aiomqtt's.
\<close>

datatype py_exc =
    ZeroDivisionError
  | OverflowError
  | ValueError
  | TypeError
  | StatisticsError
  | KeyError
  | OperationalError
  | PsycopgError
  | OSError
  | MqttError
  | NotImplementedError
  | TimeoutError
  | RecursionError
  | AssertionError
  | KeyboardInterrupt
  | SystemExit int

type_synonym 'a res = "py_exc + 'a"

definition rbind :: "'a res \<Rightarrow> ('a \<Rightarrow> 'b res) \<Rightarrow> 'b res" where
  "rbind m f = (case m of Inl e \<Rightarrow> Inl e | Inr x \<Rightarrow> f x)"

lemma rbind_simps [simp]:
  "rbind (Inl e) f = Inl e"
  "rbind (Inr x) f = f x"
  by (simp_all add: rbind_def)

lemma rbind_Inr_iff: "rbind m f = Inr y \<longleftrightarrow> (\<exists>x. m = Inr x \<and> f x = Inr y)"
  by (cases m) simp_all

lemma rbind_InrE [elim!]:
  assumes "rbind m f = Inr y"
  obtains x where "m = Inr x" and "f x = Inr y"
  using assms by (auto simp: rbind_Inr_iff)

lemma rbind_Inl_iff: "rbind m f = Inl e \<longleftrightarrow> m = Inl e \<or> (\<exists>x. m = Inr x \<and> f x = Inl e)"
  by (cases m) simp_all

text \<open>A comprehension whose body may raise: the first exception wins, in list order.\<close>

fun rmap :: "('a \<Rightarrow> 'b res) \<Rightarrow> 'a list \<Rightarrow> 'b list res" where
  "rmap f [] = Inr []"
| "rmap f (x # xs) = rbind (f x) (\<lambda>y. rbind (rmap f xs) (\<lambda>ys. Inr (y # ys)))"

lemma rmap_Inr: "(\<And>x. x \<in> set xs \<Longrightarrow> f x = Inr (g x)) \<Longrightarrow> rmap f xs = Inr (map g xs)"
  by (induction xs) auto

lemma rmap_InrD:
  "rmap f xs = Inr ys \<Longrightarrow> length ys = length xs \<and> (\<forall>i < length xs. f (xs ! i) = Inr (ys ! i))"
proof (induction xs arbitrary: ys)
  case (Cons x xs)
  then obtain y zs where y: "f x = Inr y" and zs: "rmap f xs = Inr zs" and "ys = y # zs"
    by auto
  moreover from Cons.IH [OF zs] have "length zs = length xs"
    and "\<And>i. i < length xs \<Longrightarrow> f (xs ! i) = Inr (zs ! i)" by auto
  ultimately show ?case by (auto simp: nth_Cons split: nat.splits)
qed simp

text \<open>A filtering comprehension whose condition may raise.\<close>

fun rfilter :: "('a \<Rightarrow> bool res) \<Rightarrow> 'a list \<Rightarrow> 'a list res" where
  "rfilter p [] = Inr []"
| "rfilter p (x # xs) = rbind (p x) (\<lambda>b. rbind (rfilter p xs) (\<lambda>ys. Inr (if b then x # ys else ys)))"

lemma rfilter_Inr: "(\<And>x. x \<in> set xs \<Longrightarrow> p x = Inr (q x)) \<Longrightarrow> rfilter p xs = Inr (filter q xs)"
  by (induction xs) auto

section \<open>Lists\<close>

text \<open>\<^verbatim>\<open>itertools.pairwise\<close>: the adjacent pairs, in order.\<close>

definition pairwise_list :: "'a list \<Rightarrow> ('a \<times> 'a) list" where
  "pairwise_list xs = zip xs (tl xs)"

lemma pairwise_list_simps [simp]:
  "pairwise_list [] = []"
  "pairwise_list [x] = []"
  "pairwise_list (x # y # zs) = (x, y) # pairwise_list (y # zs)"
  by (simp_all add: pairwise_list_def)

lemma length_pairwise_list [simp]: "length (pairwise_list xs) = length xs - 1"
  by (simp add: pairwise_list_def)

lemma nth_pairwise_list [simp]: "Suc i < length xs \<Longrightarrow> pairwise_list xs ! i = (xs ! i, xs ! Suc i)"
  by (simp add: pairwise_list_def nth_tl)

lemma pairwise_append_last:
  "xs \<noteq> [] \<Longrightarrow> ys \<noteq> [] \<Longrightarrow> pairwise_list (xs @ ys) = pairwise_list xs @ (last xs, hd ys) # pairwise_list ys"
proof (induction xs rule: induct_list012)
  case (2 x)
  then show ?case by (cases ys) simp_all
qed simp_all

lemma set_pairwise_list_subset: "set (pairwise_list xs) \<subseteq> set xs \<times> set xs"
  by (induction xs rule: induct_list012) auto

text \<open>
  A relation that is transitive and holds on adjacent elements holds on all ordered pairs;
  stated once for the strictly increasing timestamps of a series.
\<close>

lemma pairwise_sorted_wrt:
  assumes "transp R"
  shows "(\<forall>(a, b) \<in> set (pairwise_list xs). R a b) \<longleftrightarrow> sorted_wrt R xs"
proof (induction xs rule: induct_list012)
  case (3 x y zs)
  then show ?case using assms by (auto dest: transpD)
qed simp_all

text \<open>
  Python's \<open>xs[-k:]\<close> for an integer \<open>k\<close>: a negative start counts from the end and is cut off
  at 0, so \<open>k = 0\<close> gives the whole list (the start is then 0) and a \<open>k\<close> beyond the length too.
\<close>

definition slice_last :: "int \<Rightarrow> 'a list \<Rightarrow> 'a list" where
  "slice_last k xs =
     (let n = int (length xs); start = - k
      in if start < 0 then drop (nat (max 0 (n + start))) xs else drop (nat start) xs)"

lemma slice_last_pos: "0 < k \<Longrightarrow> slice_last k xs = drop (length xs - nat k) xs"
  by (simp add: slice_last_def Let_def nat_diff_distrib max_def)

lemma length_slice_last: "0 < k \<Longrightarrow> length (slice_last k xs) = min (nat k) (length xs)"
  by (simp add: slice_last_pos)

lemma last_slice_last: "0 < k \<Longrightarrow> xs \<noteq> [] \<Longrightarrow> last (slice_last k xs) = last xs"
  by (simp add: slice_last_pos)

lemma slice_last_neq_Nil: "0 < k \<Longrightarrow> xs \<noteq> [] \<Longrightarrow> slice_last k xs \<noteq> []"
  by (cases xs) (auto simp: slice_last_pos)

text \<open>Maps read as Python dictionaries.\<close>

lemma map_upd_same_iff: "m(k \<mapsto> v) = m \<longleftrightarrow> m k = Some v"
  by (auto simp: fun_eq_iff)

section \<open>Text\<close>

text \<open>Decimal digits and the joining of strings, as \<^verbatim>\<open>str(n)\<close> and \<^verbatim>\<open>sep.join(parts)\<close> write them.\<close>

definition digit_char :: "nat \<Rightarrow> char" where
  "digit_char d = char_of (48 + d)"

fun show_nat :: "nat \<Rightarrow> string" where
  "show_nat n = (if n < 10 then [digit_char n] else show_nat (n div 10) @ [digit_char (n mod 10)])"

declare show_nat.simps [simp del]

fun join_str :: "string \<Rightarrow> string list \<Rightarrow> string" where
  "join_str sep [] = []"
| "join_str sep [p] = p"
| "join_str sep (p # q # ps) = p @ sep @ join_str sep (q # ps)"

definition show_int :: "int \<Rightarrow> string" where
  "show_int i = (if i < 0 then ''-'' @ show_nat (nat (- i)) else show_nat (nat i))"

section \<open>State and exceptions\<close>

text \<open>
  Code that mutates state and may raise: the state reached is kept whether or not an exception
  escapes, as assignments made before a \<^verbatim>\<open>raise\<close> are.
\<close>

type_synonym ('s, 'a) act = "'s \<Rightarrow> 'a res \<times> 's"

definition ret :: "'a \<Rightarrow> ('s, 'a) act" where
  "ret x s = (Inr x, s)"

definition raise :: "py_exc \<Rightarrow> ('s, 'a) act" where
  "raise e s = (Inl e, s)"

definition modify :: "('s \<Rightarrow> 's) \<Rightarrow> ('s, unit) act" where
  "modify f s = (Inr (), f s)"

definition andthen :: "('s, 'a) act \<Rightarrow> ('a \<Rightarrow> ('s, 'b) act) \<Rightarrow> ('s, 'b) act" where
  "andthen m f s = (case m s of (Inl e, s') \<Rightarrow> (Inl e, s') | (Inr x, s') \<Rightarrow> f x s')"

named_theorems act_simps

lemma act_basic [act_simps]:
  "ret x s = (Inr x, s)"
  "raise e s = (Inl e, s)"
  "modify f s = (Inr (), f s)"
  by (simp_all add: ret_def raise_def modify_def)

lemma andthen_eq [act_simps]:
  "m s = (Inl e, s') \<Longrightarrow> andthen m f s = (Inl e, s')"
  "m s = (Inr x, s') \<Longrightarrow> andthen m f s = f x s'"
  by (simp_all add: andthen_def)

text \<open>A predicate that every step keeps is kept by a sequence.\<close>

definition keeps :: "('s \<Rightarrow> bool) \<Rightarrow> ('s, 'a) act \<Rightarrow> bool" where
  "keeps P m \<longleftrightarrow> (\<forall>s. P s \<longrightarrow> P (snd (m s)))"

lemma keeps_ret [intro, simp]: "keeps P (ret x)"
  by (simp add: keeps_def act_simps)

lemma keeps_raise [intro, simp]: "keeps P (raise e)"
  by (simp add: keeps_def act_simps)

lemma keeps_modify: "(\<And>s. P s \<Longrightarrow> P (f s)) \<Longrightarrow> keeps P (modify f)"
  by (simp add: keeps_def act_simps)

lemma keeps_andthen: "keeps P m \<Longrightarrow> (\<And>x. keeps P (f x)) \<Longrightarrow> keeps P (andthen m f)"
  by (fastforce simp: keeps_def andthen_def split: prod.splits sum.splits)

text \<open>\<^verbatim>\<open>for x in xs: f(x)\<close>: an exception leaves the loop.\<close>

fun afor :: "'a list \<Rightarrow> ('a \<Rightarrow> ('s, unit) act) \<Rightarrow> ('s, unit) act" where
  "afor [] f = ret ()"
| "afor (x # xs) f = andthen (f x) (\<lambda>_. afor xs f)"

lemma keeps_afor: "(\<And>x. x \<in> set xs \<Longrightarrow> keeps P (f x)) \<Longrightarrow> keeps P (afor xs f)"
  by (induction xs) (auto intro: keeps_andthen)

lemma keepsD: "keeps P m \<Longrightarrow> P s \<Longrightarrow> m s = (r, s') \<Longrightarrow> P s'"
  by (metis keeps_def snd_conv)

end
