(* ===== verification/Binary64.thy ===== *)
theory Binary64
  imports Prelude Complex_Main "HOL-Library.Log_Nat"
begin

text \<open>
  Rounding to IEEE 754 binary64, on exact rational values. A Python \<^verbatim>\<open>float\<close> operation is
  the exact operation followed by this rounding (round to nearest, ties to even, 53 bits of
  precision, gradual underflow at \<open>2\<^sup>-\<^sup>1\<^sup>0\<^sup>7\<^sup>4\<close>). The theory holds the rounding function and the
  laws the rest of the model uses: it is monotone, idempotent, odd, exact on dyadic numbers
  of at most 53 bits, and never rounds the difference of two different floats to zero.
  The laws a client may rely on are the locale \<open>rounding\<close>, interpreted on \<open>rnd\<close> at the end.
\<close>

section \<open>The interface\<close>

locale rounding =
  fixes r :: "rat \<Rightarrow> rat"
  assumes mono: "x \<le> y \<Longrightarrow> r x \<le> r y"
    and zero: "r 0 = 0"
    and idem: "r (r x) = r x"
    and double: "r x = x \<Longrightarrow> r (2 * x) = 2 * x"
begin

lemma fixed_between: "r lo = lo \<Longrightarrow> r hi = hi \<Longrightarrow> lo \<le> x \<Longrightarrow> x \<le> hi \<Longrightarrow> lo \<le> r x \<and> r x \<le> hi"
  using mono [of lo x] mono [of x hi] by simp

lemma nonneg: "0 \<le> x \<Longrightarrow> 0 \<le> r x"
  using mono [of 0 x] zero by simp

lemma nonpos: "x \<le> 0 \<Longrightarrow> r x \<le> 0"
  using mono [of x 0] zero by simp

text \<open>The midpoint of two values of the format, computed as a rounded sum and a rounded halving.\<close>

lemma midpoint_between:
  assumes "r a = a" and "r b = b" and "a \<le> b"
  shows "a \<le> r (r (a + b) / 2) \<and> r (r (a + b) / 2) \<le> b"
proof -
  have "2 * a \<le> r (a + b)" and "r (a + b) \<le> 2 * b"
    using fixed_between [of "2 * a" "2 * b" "a + b"] assms double by auto
  then have "a \<le> r (a + b) / 2" and "r (a + b) / 2 \<le> b" by simp_all
  then show ?thesis using fixed_between assms by blast
qed

end

section \<open>Powers of two and the binary exponent\<close>

lemma powi_of_int: "0 \<le> k \<Longrightarrow> (2::rat) powi k = of_int (2 ^ nat k)"
  by (simp add: power_int_def)

lemma powi_pos [simp]: "(0::rat) < 2 powi k" "\<not> 2 powi k < (0::rat)" "\<not> 2 powi k \<le> (0::rat)"
  using zero_less_power_int [of "2::rat" k] by (simp_all only: not_less not_le order_less_imp_le simp_thms)

lemma powi_split: "(2::rat) powi (i + j) = 2 powi i * 2 powi j"
  by (simp add: power_int_add)

lemma powi_le: "i \<le> j \<Longrightarrow> (2::rat) powi i \<le> 2 powi j"
  by (simp add: power_int_increasing)

lemma powi_less_cancel: "(2::rat) powi i < 2 powi j \<Longrightarrow> i < j"
  using powi_le [of j i] by (meson leD le_less_linear)

definition ilog2 :: "rat \<Rightarrow> int" where
  "ilog2 x =
     (let (p, q) = quotient_of x; e = bitlen p - bitlen q
      in if 2 powi e \<le> x then e else e - 1)"

lemma bitlen_powi:
  assumes "0 < p"
  shows "(2::rat) powi (bitlen p - 1) \<le> of_int p" and "of_int p < (2::rat) powi bitlen p"
proof -
  have b: "1 \<le> bitlen p"
    using assms bitlen_nonneg [of p] bitlen_eq_zero_iff [of p] by linarith
  have "2 ^ nat (bitlen p - 1) \<le> p" and "p < 2 ^ nat (bitlen p)"
    using bitlen_bounds [OF assms] by auto
  then have "(of_int (2 ^ nat (bitlen p - 1)) :: rat) \<le> of_int p"
    and "(of_int p :: rat) < of_int (2 ^ nat (bitlen p))"
    by (simp_all only: of_int_le_iff of_int_less_iff)
  then show "(2::rat) powi (bitlen p - 1) \<le> of_int p" and "of_int p < (2::rat) powi bitlen p"
    using b by (simp_all only: powi_of_int bitlen_nonneg diff_ge_0_iff_ge)
qed

lemma ilog2_bounds:
  assumes "0 < x"
  shows "2 powi ilog2 x \<le> x" and "x < 2 powi (ilog2 x + 1)"
proof -
  obtain p q where pq: "quotient_of x = (p, q)" by force
  have x: "x = of_int p / of_int q" using pq by (rule quotient_of_div)
  have q: "0 < q" using pq by (rule quotient_of_denom_pos)
  have p: "0 < p" using assms x q by (simp add: zero_less_divide_iff)
  define e where "e = bitlen p - bitlen q"
  have qr: "(0::rat) < of_int q" using q by simp
  have "(2::rat) powi (e - 1) * of_int q \<le> 2 powi (e - 1) * 2 powi bitlen q"
    by (rule mult_left_mono) (use bitlen_powi(2) [OF q] in simp_all)
  also have "\<dots> = 2 powi (bitlen p - 1)" unfolding e_def
    by (simp add: power_int_add [symmetric])
  also have "\<dots> \<le> of_int p" by (rule bitlen_powi(1) [OF p])
  finally have lo: "2 powi (e - 1) \<le> x" using qr x by (simp add: pos_le_divide_eq)
  have "(of_int p :: rat) < 2 powi bitlen p" by (rule bitlen_powi(2) [OF p])
  also have "\<dots> = 2 powi (e + 1) * 2 powi (bitlen q - 1)" unfolding e_def
    by (simp add: power_int_add [symmetric])
  also have "\<dots> \<le> 2 powi (e + 1) * of_int q"
    by (rule mult_left_mono) (use bitlen_powi(1) [OF q] in simp_all)
  finally have hi: "x < 2 powi (e + 1)" using qr x by (simp add: pos_divide_less_eq)
  show "2 powi ilog2 x \<le> x" and "x < 2 powi (ilog2 x + 1)"
    using lo hi by (auto simp: ilog2_def pq e_def [symmetric])
qed

lemma ilog2_mono: "0 < x \<Longrightarrow> x \<le> y \<Longrightarrow> ilog2 x \<le> ilog2 y"
proof -
  assume a: "0 < x" "x \<le> y"
  have "2 powi ilog2 x < (2::rat) powi (ilog2 y + 1)"
    using ilog2_bounds [of x] ilog2_bounds [of y] a by linarith
  then show ?thesis by (drule_tac powi_less_cancel) simp
qed

section \<open>Rounding an exact value to an integer, ties to even\<close>

definition round_half_even :: "rat \<Rightarrow> int" where
  "round_half_even x =
     (let f = \<lfloor>x\<rfloor>; d = x - of_int f
      in if d < 1 / 2 then f else if d > 1 / 2 then f + 1 else if even f then f else f + 1)"

lemma round_half_even_of_int [simp]: "round_half_even (of_int k) = k"
  by (simp add: round_half_even_def)

lemma round_half_even_bounds: "\<lfloor>x\<rfloor> \<le> round_half_even x \<and> round_half_even x \<le> \<lfloor>x\<rfloor> + 1"
  by (simp add: round_half_even_def Let_def)

lemma round_half_even_mono:
  assumes "x \<le> y"
  shows "round_half_even x \<le> round_half_even y"
proof (cases "\<lfloor>x\<rfloor> = \<lfloor>y\<rfloor>")
  case True
  then show ?thesis using assms by (auto simp: round_half_even_def Let_def)
next
  case False
  then have "\<lfloor>x\<rfloor> + 1 \<le> \<lfloor>y\<rfloor>" using floor_mono [OF assms] by linarith
  then show ?thesis using round_half_even_bounds [of x] round_half_even_bounds [of y] by linarith
qed

lemma round_half_even_error: "\<bar>of_int (round_half_even x) - x\<bar> \<le> 1 / 2"
proof -
  have "of_int \<lfloor>x\<rfloor> \<le> x" and "x < of_int \<lfloor>x\<rfloor> + 1" using floor_correct [of x] by simp_all
  then show ?thesis by (auto simp: round_half_even_def Let_def)
qed

lemma round_half_even_minus: "round_half_even (- x) = - round_half_even x"
proof (cases "x \<in> \<int>")
  case True
  then obtain k where "x = of_int k" by (auto elim: Ints_cases)
  then show ?thesis using round_half_even_of_int [of "- k"] by simp
next
  case False
  then have "\<lfloor>- x\<rfloor> = - \<lfloor>x\<rfloor> - 1"
    by (metis Ints_of_int ceiling_altdef ceiling_def minus_diff_minus diff_minus_eq_add
        add_diff_cancel_right' minus_minus uminus_add_conv_diff)
  then show ?thesis by (auto simp: round_half_even_def Let_def)
qed

lemma round_half_even_le_int: "x \<le> of_int k \<Longrightarrow> round_half_even x \<le> k"
  using round_half_even_mono [of x "of_int k"] by simp

lemma int_le_round_half_even: "of_int k \<le> x \<Longrightarrow> k \<le> round_half_even x"
  using round_half_even_mono [of "of_int k" x] by simp

section \<open>Rounding to 53 bits\<close>

text \<open>
  \<open>quantum x\<close> is the spacing of binary64 numbers around \<open>x\<close> (with an unbounded upper range;
  overflow is decided after rounding), \<open>rnd x\<close> the nearest multiple of it.
\<close>

definition quantum :: "rat \<Rightarrow> rat" where
  "quantum x = 2 powi max (ilog2 \<bar>x\<bar> - 52) (- 1074)"

definition rnd :: "rat \<Rightarrow> rat" where
  "rnd x = of_int (round_half_even (x / quantum x)) * quantum x"

lemma quantum_pos [simp]: "0 < quantum x"
  by (simp add: quantum_def)

lemma rnd_zero [simp]: "rnd 0 = 0"
  using round_half_even_of_int [of 0] by (simp add: rnd_def)

lemma quantum_minus [simp]: "quantum (- x) = quantum x"
  by (simp add: quantum_def)

lemma rnd_minus [simp]: "rnd (- x) = - rnd x"
  by (simp add: rnd_def round_half_even_minus)

lemma rnd_le_grid: "x \<le> of_int k * quantum x \<Longrightarrow> rnd x \<le> of_int k * quantum x"
  unfolding rnd_def
  by (rule mult_right_mono) (simp_all add: round_half_even_le_int pos_divide_le_eq order_less_imp_le)

lemma grid_le_rnd: "of_int k * quantum x \<le> x \<Longrightarrow> of_int k * quantum x \<le> rnd x"
  unfolding rnd_def
  by (rule mult_right_mono) (simp_all add: int_le_round_half_even pos_le_divide_eq order_less_imp_le)

lemma rnd_nonneg: "0 \<le> x \<Longrightarrow> 0 \<le> rnd x"
  using grid_le_rnd [of 0 x] by simp

lemma powi_multiple_of_quantum:
  assumes "max (ilog2 \<bar>x\<bar> - 52) (- 1074) \<le> k"
  shows "2 powi k = of_int (2 ^ nat (k - max (ilog2 \<bar>x\<bar> - 52) (- 1074))) * quantum x"
proof -
  let ?e = "max (ilog2 \<bar>x\<bar> - 52) (- 1074)"
  have "(2::rat) powi k = 2 powi (k - ?e) * 2 powi ?e"
    by (simp add: power_int_add [symmetric])
  then show ?thesis
    using assms by (simp only: powi_of_int quantum_def diff_ge_0_iff_ge)
qed

lemma rnd_le_powi: "max (ilog2 \<bar>x\<bar> - 52) (- 1074) \<le> k \<Longrightarrow> x \<le> 2 powi k \<Longrightarrow> rnd x \<le> 2 powi k"
  using rnd_le_grid [of x "2 ^ nat (k - max (ilog2 \<bar>x\<bar> - 52) (- 1074))"]
  by (simp only: powi_multiple_of_quantum)

lemma powi_le_rnd: "max (ilog2 \<bar>x\<bar> - 52) (- 1074) \<le> k \<Longrightarrow> 2 powi k \<le> x \<Longrightarrow> 2 powi k \<le> rnd x"
  using grid_le_rnd [of "2 ^ nat (k - max (ilog2 \<bar>x\<bar> - 52) (- 1074))" x]
  by (simp only: powi_multiple_of_quantum)

lemma rnd_mono_pos:
  assumes "0 < x" and "x \<le> y"
  shows "rnd x \<le> rnd y"
proof (cases "quantum x = quantum y")
  case True
  have "x / quantum y \<le> y / quantum y"
    using assms by (simp add: divide_right_mono order_less_imp_le)
  then show ?thesis
    by (simp add: rnd_def True round_half_even_mono mult_right_mono order_less_imp_le)
next
  case False
  let ?p = "2 powi ilog2 y :: rat"
  have le: "ilog2 x \<le> ilog2 y" using ilog2_mono assms by blast
  have ne: "max (ilog2 x - 52) (- 1074) \<noteq> max (ilog2 y - 52) (- 1074)"
    using False assms by (auto simp: quantum_def)
  then have lt: "ilog2 x < ilog2 y" and e: "- 1022 < ilog2 y" using le by (auto simp: max_def split: if_splits)
  have "x \<le> ?p"
    using ilog2_bounds(2) [OF assms(1)] powi_le [of "ilog2 x + 1" "ilog2 y"] lt by linarith
  then have "rnd x \<le> ?p"
    by (rule rnd_le_powi [rotated]) (use lt e assms in simp)
  moreover have "?p \<le> y" using ilog2_bounds(1) [of y] assms by simp
  then have "?p \<le> rnd y"
    by (rule powi_le_rnd [rotated]) (use e assms in simp)
  ultimately show ?thesis by simp
qed

lemma rnd_mono: "x \<le> y \<Longrightarrow> rnd x \<le> rnd y"
proof -
  assume le: "x \<le> y"
  consider "0 < x" | "x \<le> 0" "0 \<le> y" | "y < 0" by linarith
  then show ?thesis
  proof cases
    case 2
    then show ?thesis using rnd_nonneg [of y] rnd_nonneg [of "- x"] by simp
  next
    case 3
    then show ?thesis using rnd_mono_pos [of "- y" "- x"] le by simp
  qed (use le rnd_mono_pos in simp)
qed

lemma rnd_of_multiple: "x = of_int k * quantum x \<Longrightarrow> rnd x = x"
  using rnd_le_grid [of x k] grid_le_rnd [of k x] by simp

text \<open>Exactness: an integer of at most 53 bits times a power of two is not changed.\<close>

lemma ilog2_le: "0 < x \<Longrightarrow> x < 2 powi (k + 1) \<Longrightarrow> ilog2 x \<le> k"
  using ilog2_bounds(1) [of x] powi_less_cancel [of "ilog2 x" "k + 1"] by linarith

lemma rnd_dyadic_less:
  assumes "\<bar>m\<bar> < 2 ^ 53" and "- 1074 \<le> k"
  shows "rnd (of_int m * 2 powi k) = of_int m * 2 powi k"
proof (cases "m = 0")
  case False
  let ?x = "of_int m * 2 powi k :: rat"
  have ax: "\<bar>?x\<bar> = of_int \<bar>m\<bar> * 2 powi k" by (simp add: abs_mult)
  have "(of_int \<bar>m\<bar> :: rat) < of_int (2 ^ 53)" using assms(1) by (simp only: of_int_less_iff)
  then have "of_int \<bar>m\<bar> * 2 powi k < (2::rat) powi k * of_int (2 ^ 53)" by simp
  also have "\<dots> = 2 powi (k + 52 + 1)" by (simp add: power_int_add)
  finally have "\<bar>?x\<bar> < 2 powi (k + 52 + 1)" using ax by simp
  then have "ilog2 \<bar>?x\<bar> \<le> k + 52" using False by (intro ilog2_le) simp_all
  then have "2 powi k = of_int (2 ^ nat (k - max (ilog2 \<bar>?x\<bar> - 52) (- 1074))) * quantum ?x"
    by (intro powi_multiple_of_quantum) (use assms(2) in simp)
  then have "?x = of_int (m * 2 ^ nat (k - max (ilog2 \<bar>?x\<bar> - 52) (- 1074))) * quantum ?x"
    by simp
  then show ?thesis by (rule rnd_of_multiple)
qed simp

lemma rnd_dyadic:
  assumes "\<bar>m\<bar> \<le> 2 ^ 53" and "- 1074 \<le> k"
  shows "rnd (of_int m * 2 powi k) = of_int m * 2 powi k"
proof (cases "\<bar>m\<bar> = 2 ^ 53")
  case True
  then consider "m = 2 ^ 53" | "m = - (2 ^ 53)" by linarith
  then have m2: "m = 2 * (m div 2)" and small: "\<bar>m div 2\<bar> < 2 ^ 53"
    by (cases; simp)+
  have "(of_int m :: rat) = of_int (2 * (m div 2))" using m2 by presburger
  then have "of_int m * (2::rat) powi k = of_int (m div 2) * 2 powi (k + 1)"
    by (simp add: powi_split)
  then show ?thesis using rnd_dyadic_less [OF small, of "k + 1"] assms(2) by simp
qed (use assms rnd_dyadic_less in simp)

lemma rnd_powi: "- 1074 \<le> k \<Longrightarrow> rnd (2 powi k) = 2 powi k"
  using rnd_dyadic [of 1 k] by simp

lemma rnd_of_int: "\<bar>m\<bar> \<le> 2 ^ 53 \<Longrightarrow> rnd (of_int m) = of_int m"
  using rnd_dyadic [of m 0] by simp

lemma rnd_form:
  obtains m k where "rnd x = of_int m * 2 powi k" and "\<bar>m\<bar> \<le> 2 ^ 53" and "- 1074 \<le> k"
proof -
  let ?k = "max (ilog2 \<bar>x\<bar> - 52) (- 1074)" and ?m = "round_half_even (x / quantum x)"
  have "\<bar>x\<bar> \<le> of_int (2 ^ 53) * quantum x"
  proof (cases "x = 0")
    case False
    then have "\<bar>x\<bar> < 2 powi (ilog2 \<bar>x\<bar> + 1)" by (intro ilog2_bounds(2)) simp
    also have "\<dots> \<le> 2 powi (53 + ?k)" by (intro powi_le) simp
    also have "\<dots> = of_int (2 ^ 53) * quantum x" by (simp add: powi_split quantum_def)
    finally show ?thesis by simp
  qed (simp add: order_less_imp_le)
  then have "\<bar>x / quantum x\<bar> \<le> of_int (2 ^ 53)"
    by (simp only: abs_divide abs_of_pos [OF quantum_pos] pos_divide_le_eq [OF quantum_pos])
  then have "- (2 ^ 53) \<le> ?m" and "?m \<le> 2 ^ 53"
    using round_half_even_le_int [of "x / quantum x" "2 ^ 53"]
      int_le_round_half_even [of "- (2 ^ 53)" "x / quantum x"]
    by (simp_all only: abs_le_iff of_int_minus) linarith+
  then have "\<bar>?m\<bar> \<le> 2 ^ 53" by (simp add: abs_le_iff)
  then show ?thesis by (intro that [of ?m ?k]) (simp_all add: rnd_def quantum_def)
qed

lemma rnd_idem [simp]: "rnd (rnd x) = rnd x"
  using rnd_form [of x] by (metis rnd_dyadic)

lemma rnd_double: "rnd x = x \<Longrightarrow> rnd (2 * x) = 2 * x"
proof -
  assume fixed: "rnd x = x"
  obtain m k where "rnd x = of_int m * 2 powi k" and m: "\<bar>m\<bar> \<le> 2 ^ 53" "- 1074 \<le> k"
    by (rule rnd_form)
  with fixed have "2 * x = of_int m * 2 powi (k + 1)" by (simp add: powi_split)
  then show ?thesis using rnd_dyadic [of m "k + 1"] m by simp
qed

interpretation b64: rounding rnd
  by unfold_locales (simp_all add: rnd_mono rnd_double)

text \<open>
  Gradual underflow: two different numbers of the format have a difference of at least
  \<open>2\<^sup>-\<^sup>1\<^sup>0\<^sup>7\<^sup>4\<close>, which the rounding does not lose.
\<close>

lemma rnd_multiple_of_min: "\<exists>n. rnd x = of_int n * 2 powi (- 1074)"
proof -
  obtain m k where mk: "rnd x = of_int m * 2 powi k" and k: "- 1074 \<le> k" by (rule rnd_form)
  have "(2::rat) powi k = 2 powi (k + 1074) * 2 powi (- 1074)"
    using powi_split [of "k + 1074" "- 1074"] by (simp only: add_uminus_conv_diff add_diff_cancel)
  also have "\<dots> = of_int (2 ^ nat (k + 1074)) * 2 powi (- 1074)"
    using k by (simp only: powi_of_int)
  finally have "rnd x = of_int (m * 2 ^ nat (k + 1074)) * 2 powi (- 1074)" using mk by simp
  then show ?thesis by blast
qed

lemma rnd_diff_nonzero:
  assumes "rnd a = a" and "rnd b = b" and "a \<noteq> b"
  shows "rnd (a - b) \<noteq> 0"
proof -
  obtain m n where m: "a = of_int m * 2 powi (- 1074)" and n: "b = of_int n * 2 powi (- 1074)"
    using rnd_multiple_of_min [of a] rnd_multiple_of_min [of b] assms by auto
  then have d: "a - b = of_int (m - n) * 2 powi (- 1074)" by (simp add: algebra_simps)
  have "m \<noteq> n" using assms(3) m n by blast
  then have "1 \<le> \<bar>m - n\<bar>" by simp
  then have "(1::rat) \<le> of_int \<bar>m - n\<bar>" by linarith
  then have "2 powi (- 1074) \<le> \<bar>a - b\<bar>"
    unfolding d abs_mult by (simp add: mult_le_cancel_right1)
  then have "2 powi (- 1074) \<le> rnd \<bar>a - b\<bar>"
    using rnd_mono [of "2 powi (- 1074)" "\<bar>a - b\<bar>"] rnd_powi [of "- 1074"] by simp
  then have "0 < rnd \<bar>a - b\<bar>" using powi_pos(1) [of "- 1074"] by linarith
  moreover have "rnd \<bar>a - b\<bar> = rnd (a - b) \<or> rnd \<bar>a - b\<bar> = - rnd (a - b)"
    unfolding abs_if by (simp only: rnd_minus split: if_split) blast
  ultimately show ?thesis by auto
qed

end
