(* ===== verification/Py_Float.thy ===== *)
theory Py_Float
  imports Binary64
begin

text \<open>
  Python floats: finite binary64 values as exact rationals, the two infinities and NaN, with
  the operations the source uses. Every arithmetic result is the exact result rounded by
  \<open>rnd\<close>, and overflows to an infinity. The sign of zero is not kept (no branch of the source
  depends on it). Comparisons are Python's, false on NaN; the \<open>linorder\<close> instance is only the
  order \<open>sorted\<close> uses, and agrees with them on everything but NaN, which it puts last.
\<close>

section \<open>Values and their order\<close>

datatype pyfloat = NInf | Fin rat | PInf | NaN

fun finite_float :: "pyfloat \<Rightarrow> bool" where
  "finite_float (Fin r) = True"
| "finite_float f = False"

lemma finite_float_iff: "finite_float f \<longleftrightarrow> (\<exists>r. f = Fin r)"
  by (cases f) auto

instantiation pyfloat :: linorder
begin

fun less_eq_pyfloat :: "pyfloat \<Rightarrow> pyfloat \<Rightarrow> bool" where
  "less_eq_pyfloat NInf g = True"
| "less_eq_pyfloat (Fin a) (Fin b) = (a \<le> b)"
| "less_eq_pyfloat (Fin a) NInf = False"
| "less_eq_pyfloat (Fin a) g = True"
| "less_eq_pyfloat PInf PInf = True"
| "less_eq_pyfloat PInf NaN = True"
| "less_eq_pyfloat PInf g = False"
| "less_eq_pyfloat NaN g = (g = NaN)"

definition less_pyfloat :: "pyfloat \<Rightarrow> pyfloat \<Rightarrow> bool" where
  "less_pyfloat f g \<longleftrightarrow> f \<le> g \<and> \<not> g \<le> f"

instance
proof
  fix f g h :: pyfloat
  show "f < g \<longleftrightarrow> f \<le> g \<and> \<not> g \<le> f" by (rule less_pyfloat_def)
  show "f \<le> f" by (cases f) simp_all
  show "f \<le> g \<Longrightarrow> g \<le> h \<Longrightarrow> f \<le> h" by (cases f; cases g; cases h) simp_all
  show "f \<le> g \<Longrightarrow> g \<le> f \<Longrightarrow> f = g" by (cases f; cases g) simp_all
  show "f \<le> g \<or> g \<le> f" by (cases f; cases g) auto
qed

end

lemma less_pyfloat_simps [simp]:
  "Fin a < Fin b \<longleftrightarrow> a < b"
  "NInf < Fin a" "Fin a < PInf" "NInf < PInf" "\<not> Fin a < NInf" "\<not> PInf < Fin a" "\<not> PInf < NInf"
  by (auto simp: less_pyfloat_def)

text \<open>Python's comparison operators: false when either side is NaN.\<close>

definition fle :: "pyfloat \<Rightarrow> pyfloat \<Rightarrow> bool" where
  "fle a b \<longleftrightarrow> a \<noteq> NaN \<and> b \<noteq> NaN \<and> a \<le> b"

definition flt :: "pyfloat \<Rightarrow> pyfloat \<Rightarrow> bool" where
  "flt a b \<longleftrightarrow> a \<noteq> NaN \<and> b \<noteq> NaN \<and> a < b"

definition feq :: "pyfloat \<Rightarrow> pyfloat \<Rightarrow> bool" where
  "feq a b \<longleftrightarrow> a \<noteq> NaN \<and> a = b"

lemma fcmp_Fin [simp]:
  "fle (Fin a) (Fin b) \<longleftrightarrow> a \<le> b" "flt (Fin a) (Fin b) \<longleftrightarrow> a < b" "feq (Fin a) (Fin b) \<longleftrightarrow> a = b"
  "\<not> fle NaN a'" "\<not> fle a' NaN" "\<not> flt NaN a'" "\<not> flt a' NaN" "\<not> feq NaN a'" "\<not> feq a' NaN"
  by (auto simp: fle_def flt_def feq_def)

lemma not_flt_iff: "a \<noteq> NaN \<Longrightarrow> b \<noteq> NaN \<Longrightarrow> \<not> flt a b \<longleftrightarrow> fle b a"
  by (auto simp: flt_def fle_def)

text \<open>The builtins \<open>max(a, b)\<close> and \<open>min(a, b)\<close>: the first argument unless the second beats it.\<close>

definition py_max :: "pyfloat \<Rightarrow> pyfloat \<Rightarrow> pyfloat" where
  "py_max a b = (if flt a b then b else a)"

definition py_min :: "pyfloat \<Rightarrow> pyfloat \<Rightarrow> pyfloat" where
  "py_min a b = (if flt b a then b else a)"

lemma py_max_Fin [simp]: "py_max (Fin a) (Fin b) = Fin (max a b)"
  by (simp add: py_max_def max_def)

lemma py_min_Fin [simp]: "py_min (Fin a) (Fin b) = Fin (min a b)"
  by (simp add: py_min_def min_def)

section \<open>Rounding into the format\<close>

definition fl :: "rat \<Rightarrow> pyfloat" where
  "fl x = (let y = rnd x in
     if 2 ^ 1024 \<le> y then PInf else if y \<le> - (2 ^ 1024) then NInf else Fin y)"

text \<open>The values of the type: \<open>representable\<close> rationals, and the three special values.\<close>

definition representable :: "rat \<Rightarrow> bool" where
  "representable x \<longleftrightarrow> rnd x = x \<and> \<bar>x\<bar> < 2 ^ 1024"

fun wf_float :: "pyfloat \<Rightarrow> bool" where
  "wf_float (Fin r) = representable r"
| "wf_float f = True"

lemma fl_representable: "representable x \<Longrightarrow> fl x = Fin x"
  unfolding fl_def representable_def by (simp only: Let_def) (auto simp: abs_less_iff)

lemma wf_fl [simp]: "wf_float (fl x)"
  unfolding fl_def Let_def by (auto simp: representable_def abs_less_iff)

lemma fl_not_NaN [simp]: "fl x \<noteq> NaN"
  by (simp add: fl_def Let_def)

lemma fl_mono: "x \<le> y \<Longrightarrow> fl x \<le> fl y"
  using rnd_mono [of x y] unfolding fl_def Let_def by auto

lemma fl_FinD: "fl x = Fin y \<Longrightarrow> y = rnd x \<and> \<bar>rnd x\<bar> < 2 ^ 1024"
  unfolding fl_def Let_def by (auto simp: abs_less_iff split: if_splits)

lemma representable_zero [simp]: "representable 0"
  by (simp add: representable_def)

lemma representable_of_int: "\<bar>k\<bar> \<le> 2 ^ 53 \<Longrightarrow> representable (of_int k)"
proof -
  assume k: "\<bar>k\<bar> \<le> 2 ^ 53"
  then have "(of_int \<bar>k\<bar> :: rat) \<le> of_int (2 ^ 53)" by (simp only: of_int_le_iff)
  then have "\<bar>of_int k :: rat\<bar> \<le> 2 ^ 53" by simp
  also have "(2::rat) ^ 53 < 2 ^ 1024" by (rule power_strict_increasing) simp_all
  finally show ?thesis using k by (simp add: representable_def rnd_of_int)
qed

lemma fl_zero [simp]: "fl 0 = Fin 0"
  by (simp add: fl_representable)

text \<open>Between two values of the format, rounding stays between them.\<close>

lemma fl_between:
  "representable lo \<Longrightarrow> representable hi \<Longrightarrow> lo \<le> x \<Longrightarrow> x \<le> hi
   \<Longrightarrow> \<exists>y. fl x = Fin y \<and> lo \<le> y \<and> y \<le> hi"
proof -
  assume a: "representable lo" "representable hi" "lo \<le> x" "x \<le> hi"
  have "Fin lo \<le> fl x" and "fl x \<le> Fin hi"
    using fl_mono [OF a(3)] fl_mono [OF a(4)] a(1,2) by (simp_all add: fl_representable)
  then show ?thesis by (cases "fl x") simp_all
qed

lemma fl_nonneg: "0 \<le> x \<Longrightarrow> Fin 0 \<le> fl x"
  using fl_mono [of 0 x] by simp

lemma fl_nonpos: "x \<le> 0 \<Longrightarrow> fl x \<le> Fin 0"
  using fl_mono [of x 0] by simp

section \<open>Arithmetic\<close>

fun fneg :: "pyfloat \<Rightarrow> pyfloat" where
  "fneg (Fin a) = Fin (- a)"
| "fneg PInf = NInf"
| "fneg NInf = PInf"
| "fneg NaN = NaN"

fun fabs :: "pyfloat \<Rightarrow> pyfloat" where
  "fabs (Fin a) = Fin \<bar>a\<bar>"
| "fabs PInf = PInf"
| "fabs NInf = PInf"
| "fabs NaN = NaN"

fun fadd :: "pyfloat \<Rightarrow> pyfloat \<Rightarrow> pyfloat" where
  "fadd (Fin a) (Fin b) = fl (a + b)"
| "fadd NaN g = NaN"
| "fadd f NaN = NaN"
| "fadd PInf NInf = NaN"
| "fadd NInf PInf = NaN"
| "fadd PInf g = PInf"
| "fadd f PInf = PInf"
| "fadd NInf g = NInf"
| "fadd f NInf = NInf"

definition fsub :: "pyfloat \<Rightarrow> pyfloat \<Rightarrow> pyfloat" where
  "fsub a b = fadd a (fneg b)"

text \<open>The infinity of a sign, and NaN for the sign of zero: \<open>inf * x\<close> for a finite \<open>x\<close>.\<close>

definition signed_inf :: "rat \<Rightarrow> pyfloat" where
  "signed_inf s = (if 0 < s then PInf else if s < 0 then NInf else NaN)"

fun fmul :: "pyfloat \<Rightarrow> pyfloat \<Rightarrow> pyfloat" where
  "fmul (Fin a) (Fin b) = fl (a * b)"
| "fmul NaN g = NaN"
| "fmul f NaN = NaN"
| "fmul PInf (Fin b) = signed_inf b"
| "fmul NInf (Fin b) = signed_inf (- b)"
| "fmul (Fin a) PInf = signed_inf a"
| "fmul (Fin a) NInf = signed_inf (- a)"
| "fmul PInf PInf = PInf"
| "fmul NInf NInf = PInf"
| "fmul f g = NInf"

text \<open>Division raises \<open>ZeroDivisionError\<close> on a zero divisor, whatever the dividend.\<close>

fun fdiv :: "pyfloat \<Rightarrow> pyfloat \<Rightarrow> pyfloat res" where
  "fdiv f (Fin b) =
     (if b = 0 then Inl ZeroDivisionError
      else Inr (case f of
         Fin a \<Rightarrow> fl (a / b)
       | NaN \<Rightarrow> NaN
       | PInf \<Rightarrow> signed_inf b
       | NInf \<Rightarrow> signed_inf (- b)))"
| "fdiv f NaN = Inr NaN"
| "fdiv (Fin a) g = Inr (Fin 0)"
| "fdiv f g = Inr NaN"

text \<open>Conversion of a Python integer to a float, as in mixed arithmetic.\<close>

definition float_of_int :: "int \<Rightarrow> pyfloat res" where
  "float_of_int k = (case fl (of_int k) of Fin r \<Rightarrow> Inr (Fin r) | _ \<Rightarrow> Inl OverflowError)"

text \<open>\<^verbatim>\<open>math.floor\<close> and \<^verbatim>\<open>math.ceil\<close>: exact, raising on the special values.\<close>

fun math_floor :: "pyfloat \<Rightarrow> int res" where
  "math_floor (Fin a) = Inr \<lfloor>a\<rfloor>"
| "math_floor NaN = Inl ValueError"
| "math_floor f = Inl OverflowError"

fun math_ceil :: "pyfloat \<Rightarrow> int res" where
  "math_ceil (Fin a) = Inr \<lceil>a\<rceil>"
| "math_ceil NaN = Inl ValueError"
| "math_ceil f = Inl OverflowError"

lemma float_of_int_small: "\<bar>k\<bar> \<le> 2 ^ 53 \<Longrightarrow> float_of_int k = Inr (Fin (of_int k))"
  by (simp add: float_of_int_def fl_representable representable_of_int)

lemma fsub_Fin [simp]: "fsub (Fin a) (Fin b) = fl (a - b)"
  by (simp add: fsub_def)

lemma wf_signed_inf [simp]: "wf_float (signed_inf s)"
  by (simp add: signed_inf_def)

lemma wf_fneg [simp]: "wf_float f \<Longrightarrow> wf_float (fneg f)"
  by (cases f) (simp_all add: representable_def)

lemma wf_fadd [simp]: "wf_float (fadd f g)"
  by (cases f; cases g) simp_all

lemma wf_fsub [simp]: "wf_float (fsub f g)"
  by (simp add: fsub_def)

lemma wf_fmul [simp]: "wf_float (fmul f g)"
  by (cases f; cases g) simp_all

lemma wf_fdiv: "fdiv f g = Inr h \<Longrightarrow> wf_float h"
  by (cases f; cases g) (auto split: if_splits)

text \<open>Gradual underflow: different finite floats have a nonzero difference.\<close>

lemma fsub_eq_zero_iff:
  assumes "wf_float (Fin a)" and "wf_float (Fin b)"
  shows "fsub (Fin a) (Fin b) = Fin 0 \<longleftrightarrow> a = b"
proof
  assume "fsub (Fin a) (Fin b) = Fin 0"
  then have "rnd (a - b) = 0" by (auto dest: fl_FinD)
  then show "a = b" using rnd_diff_nonzero [of a b] assms by (auto simp: representable_def)
qed simp

end
