(* ===== verification/Py_Time.thy ===== *)
theory Py_Time
  imports Py_Float
begin

text \<open>
  Python's \<^verbatim>\<open>datetime\<close>, as far as the source uses it. A datetime is naive (its wall-clock
  reading, in microseconds since 1970-01-01T00:00:00) or aware (the instant it denotes, in
  microseconds since that moment in UTC); a \<^verbatim>\<open>timedelta\<close> is its number of microseconds. Both
  types are bounded, and arithmetic that leaves the bounds raises \<open>OverflowError\<close>; comparing
  or subtracting a naive and an aware value raises \<open>TypeError\<close>. Subtraction of aware values
  is that of instants, as for the fixed-offset zones the pipeline stores (all UTC).
\<close>

section \<open>Values and bounds\<close>

datatype py_datetime = Naive int | Aware int

fun is_aware :: "py_datetime \<Rightarrow> bool" where
  "is_aware (Aware t) = True"
| "is_aware (Naive t) = False"

text \<open>\<^verbatim>\<open>datetime.min\<close> and \<^verbatim>\<open>datetime.max\<close>: years 1 to 9999.\<close>

definition dt_min :: int where
  "dt_min = - 62135596800000000"

definition dt_max :: int where
  "dt_max = 253402300799999999"

definition dt_ok :: "int \<Rightarrow> bool" where
  "dt_ok t \<longleftrightarrow> dt_min \<le> t \<and> t \<le> dt_max"

text \<open>\<^verbatim>\<open>timedelta\<close>: between \<open>-999999999\<close> and \<open>999999999\<close> days.\<close>

definition td_ok :: "int \<Rightarrow> bool" where
  "td_ok d \<longleftrightarrow> - 86399999913600000000 \<le> d \<and> d < 86400000000000000000"

definition mk_timedelta :: "int \<Rightarrow> int res" where
  "mk_timedelta d = (if td_ok d then Inr d else Inl OverflowError)"

section \<open>Arithmetic\<close>

fun dt_sub :: "py_datetime \<Rightarrow> py_datetime \<Rightarrow> int res" where
  "dt_sub (Aware a) (Aware b) = Inr (a - b)"
| "dt_sub (Naive a) (Naive b) = Inr (a - b)"
| "dt_sub a b = Inl TypeError"

fun dt_add :: "py_datetime \<Rightarrow> int \<Rightarrow> py_datetime res" where
  "dt_add (Aware a) d = (if dt_ok (a + d) then Inr (Aware (a + d)) else Inl OverflowError)"
| "dt_add (Naive a) d = (if dt_ok (a + d) then Inr (Naive (a + d)) else Inl OverflowError)"

fun dt_less :: "py_datetime \<Rightarrow> py_datetime \<Rightarrow> bool res" where
  "dt_less (Aware a) (Aware b) = Inr (a < b)"
| "dt_less (Naive a) (Naive b) = Inr (a < b)"
| "dt_less a b = Inl TypeError"

text \<open>\<^verbatim>\<open>timedelta.total_seconds()\<close>: the true quotient by a million, rounded once.\<close>

definition total_seconds :: "int \<Rightarrow> pyfloat" where
  "total_seconds d = fl (of_int d / 1000000)"

text \<open>
  \<^verbatim>\<open>timedelta(hours=h)\<close> and \<^verbatim>\<open>timedelta(seconds=s)\<close> for a float argument: the integral part is
  scaled exactly, the fractional part by a float multiplication, and the sum is rounded
  half to even. Infinities raise \<open>OverflowError\<close>, NaN raises \<open>ValueError\<close>, and so does a
  result outside the type's bounds (with \<open>OverflowError\<close>).
\<close>

definition trunc :: "rat \<Rightarrow> int" where
  "trunc x = (if 0 \<le> x then \<lfloor>x\<rfloor> else \<lceil>x\<rceil>)"

definition scaled_us :: "int \<Rightarrow> rat \<Rightarrow> int res" where
  "scaled_us factor x =
     (let w = trunc x; f = x - of_int w
      in if f = 0 then Inr (w * factor)
         else case fl (of_int factor * f) of
             Fin p \<Rightarrow> Inr (round_half_even (of_int (w * factor) + p))
           | _ \<Rightarrow> Inl OverflowError)"

fun timedelta_of :: "int \<Rightarrow> pyfloat \<Rightarrow> int res" where
  "timedelta_of factor (Fin x) = rbind (scaled_us factor x) mk_timedelta"
| "timedelta_of factor NaN = Inl ValueError"
| "timedelta_of factor f = Inl OverflowError"

abbreviation us_per_hour :: int where
  "us_per_hour \<equiv> 3600000000"

abbreviation us_per_second :: int where
  "us_per_second \<equiv> 1000000"

section \<open>Laws\<close>

lemma dt_sub_aware: "is_aware a \<Longrightarrow> is_aware b \<Longrightarrow> \<exists>d. dt_sub a b = Inr d"
  by (cases a; cases b) simp_all

lemma dt_add_aware: "dt_add (Aware a) d = Inr t \<longleftrightarrow> dt_ok (a + d) \<and> t = Aware (a + d)"
  by auto

lemma wf_total_seconds [simp]: "wf_float (total_seconds d)"
  by (simp add: total_seconds_def)

lemma total_seconds_mono: "a \<le> b \<Longrightarrow> total_seconds a \<le> total_seconds b"
  unfolding total_seconds_def by (rule fl_mono) (simp add: divide_right_mono)

lemma total_seconds_zero [simp]: "total_seconds 0 = Fin 0"
  by (simp add: total_seconds_def)

lemma total_seconds_not_NaN [simp]: "total_seconds d \<noteq> NaN"
  by (simp add: total_seconds_def)

text \<open>Durations up to \<open>2\<^sup>5\<^sup>3\<close> seconds, which covers every difference of two datetimes, are finite.\<close>

lemma total_seconds_finite:
  assumes "\<bar>d\<bar> \<le> 2 ^ 53 * 1000000"
  shows "\<exists>s. total_seconds d = Fin s \<and> \<bar>s\<bar> \<le> 2 ^ 53 \<and> rnd s = s"
proof -
  have rep: "representable (of_int (2 ^ 53))" "representable (of_int (- (2 ^ 53)))"
    by (rule representable_of_int, simp)+
  have "(of_int d :: rat) \<le> of_int (2 ^ 53 * 1000000)" "(of_int (- (2 ^ 53 * 1000000)) :: rat) \<le> of_int d"
    using assms by (simp_all only: of_int_le_iff abs_le_iff minus_le_iff)
  then have "of_int (- (2 ^ 53)) \<le> (of_int d / 1000000 :: rat)" "(of_int d / 1000000 :: rat) \<le> of_int (2 ^ 53)"
    by simp_all
  from fl_between [OF rep(2,1) this]
  obtain s where s: "total_seconds d = Fin s" "of_int (- (2 ^ 53)) \<le> s" "s \<le> of_int (2 ^ 53)"
    by (auto simp: total_seconds_def)
  moreover have "rnd s = s" using s(1) wf_total_seconds [of d] by (simp add: representable_def)
  ultimately show ?thesis by (auto simp: abs_le_iff)
qed

lemma dt_diff_bound: "dt_ok a \<Longrightarrow> dt_ok b \<Longrightarrow> \<bar>a - b\<bar> \<le> 2 ^ 53 * 1000000"
  by (auto simp: dt_ok_def dt_min_def dt_max_def abs_le_iff)

lemma total_seconds_diff_finite:
  "dt_ok a \<Longrightarrow> dt_ok b \<Longrightarrow> \<exists>s. total_seconds (a - b) = Fin s \<and> \<bar>s\<bar> \<le> 2 ^ 53 \<and> rnd s = s"
  using total_seconds_finite dt_diff_bound by blast

text \<open>A positive difference is a positive number of seconds: one microsecond does not underflow.\<close>

lemma total_seconds_pos:
  assumes "0 < d"
  shows "Fin 0 < total_seconds d"
proof -
  have "Fin 0 < Fin (2 powi (- 20))" by simp
  also have "\<dots> = fl (2 powi (- 20))"
  proof -
    have "\<bar>2 powi (- 20) :: rat\<bar> < 2 ^ 1024"
      using powi_le [of "- 20" 0] one_less_power [of "2::rat" 1024] by simp
    moreover have "rnd (2 powi (- 20)) = 2 powi (- 20)" by (rule rnd_powi) simp
    ultimately have "representable (2 powi (- 20))" unfolding representable_def by (rule conjI [rotated])
    then show ?thesis by (rule fl_representable [symmetric])
  qed
  also have "\<dots> \<le> total_seconds d" unfolding total_seconds_def
  proof (rule fl_mono)
    have "(1::rat) \<le> of_int d" using assms by linarith
    then show "2 powi (- 20) \<le> (of_int d / 1000000 :: rat)" by (simp add: power_int_def field_simps)
  qed
  finally show ?thesis .
qed

lemma total_seconds_le_zero: "d \<le> 0 \<Longrightarrow> total_seconds d \<le> Fin 0"
  using total_seconds_mono [of d 0] by simp

lemma total_seconds_pos_iff: "flt (Fin 0) (total_seconds d) \<longleftrightarrow> 0 < d"
  using total_seconds_pos [of d] total_seconds_le_zero [of d]
  by (cases "0 < d") (auto simp: flt_def not_less dest: leD)

end
