(* ===== verification/Py_Stats.thy ===== *)
theory Py_Stats
  imports Py_Float
begin

text \<open>
  The library functions of \<^verbatim>\<open>statistics\<close> and \<^verbatim>\<open>math\<close> the forecast uses: \<open>median\<close> with its
  order-statistics laws (it lies between bounds that all, or just a majority, of the data
  respect), and the correctly rounded square root.
\<close>

section \<open>Order statistics of a sorted list\<close>

lemma sorted_nth_ge:
  assumes "sorted xs" and "i < length xs" and "length (filter (\<lambda>x. x < lo) xs) \<le> i"
  shows "lo \<le> xs ! i"
proof (rule ccontr)
  assume "\<not> lo \<le> xs ! i"
  then have "xs ! j < lo" if "j < Suc i" for j
    using sorted_nth_mono [of xs j i] that assms(1,2) by (meson le_less_trans less_Suc_eq_le not_le)
  then have "filter (\<lambda>x. x < lo) (take (Suc i) xs) = take (Suc i) xs"
    by (auto simp: filter_id_conv in_set_conv_nth)
  then have "length (filter (\<lambda>x. x < lo) (take (Suc i) xs)) = Suc i" using assms(2) by simp
  moreover have "length (filter (\<lambda>x. x < lo) (take (Suc i) xs)) \<le> length (filter (\<lambda>x. x < lo) xs)"
    by (metis append_take_drop_id filter_append length_append le_add1)
  ultimately show False using assms(3) by simp
qed

lemma sorted_nth_le:
  assumes "sorted xs" and "i < length xs" and "length (filter (\<lambda>x. hi < x) xs) < length xs - i"
  shows "xs ! i \<le> hi"
proof (rule ccontr)
  assume "\<not> xs ! i \<le> hi"
  then have "hi < xs ! (i + j)" if "j < length xs - i" for j
    using sorted_nth_mono [of xs i "i + j"] that assms(1) by (simp add: not_le less_diff_conv add.commute)
  then have "filter (\<lambda>x. hi < x) (drop i xs) = drop i xs"
    by (auto simp: filter_id_conv in_set_conv_nth)
  then have "length (filter (\<lambda>x. hi < x) (drop i xs)) = length xs - i" by simp
  moreover have "length (filter (\<lambda>x. hi < x) (drop i xs)) \<le> length (filter (\<lambda>x. hi < x) xs)"
    by (metis append_take_drop_id filter_append length_append le_add2)
  ultimately show False using assms(3) by simp
qed

lemma sort_eq_Nil [simp]: "sort xs = [] \<longleftrightarrow> xs = []"
  by (metis length_0_conv length_sort)

lemma length_filter_sort: "length (filter P (sort xs)) = length (filter P xs)"
  by (metis filter_sort length_sort)

lemma length_filter_partition:
  "length (filter P xs) + length (filter (\<lambda>x. \<not> P x) xs) = length xs"
  by (rule sum_length_filter_compl)

lemma middle_index_arith:
  "(n::nat) < 2 * c \<Longrightarrow> 0 < n \<Longrightarrow> a \<le> n - c \<Longrightarrow> i = n div 2 \<or> i = (n - 1) div 2 \<Longrightarrow> a \<le> i \<and> a < n - i"
proof -
  assume a: "n < 2 * c" "0 < n" "a \<le> n - c" and i: "i = n div 2 \<or> i = (n - 1) div 2"
  have "2 * a < n" using a by linarith
  moreover have "n \<le> 2 * i + 2" and "2 * i \<le> n" using i by auto
  ultimately show "a \<le> i \<and> a < n - i" by linarith
qed

text \<open>With a strict majority of the elements in \<open>[lo, hi]\<close>, the middle elements are there too.\<close>

lemma sorted_middle_in:
  fixes xs :: "'a::linorder list"
  assumes maj: "length xs < 2 * length (filter (\<lambda>x. lo \<le> x \<and> x \<le> hi) xs)"
    and i: "i = length xs div 2 \<or> i = (length xs - 1) div 2"
  shows "lo \<le> sort xs ! i \<and> sort xs ! i \<le> hi"
proof -
  let ?P = "\<lambda>x. lo \<le> x \<and> x \<le> hi" and ?n = "length xs"
  have n: "0 < ?n" using maj by (cases xs) auto
  then have il: "i < ?n" using i n by presburger
  have part: "length (filter (\<lambda>x. \<not> ?P x) xs) = ?n - length (filter ?P xs)"
    using length_filter_partition [of ?P xs] by simp
  have "length (filter (\<lambda>x. x < lo) xs) \<le> length (filter (\<lambda>x. \<not> ?P x) xs)"
    and "length (filter (\<lambda>x. hi < x) xs) \<le> length (filter (\<lambda>x. \<not> ?P x) xs)"
    by (induction xs) auto
  then have "length (filter (\<lambda>x. x < lo) (sort xs)) \<le> i"
    and "length (filter (\<lambda>x. hi < x) (sort xs)) < ?n - i"
    using middle_index_arith [OF maj n _ i] part by (simp_all only: length_filter_sort)
  then show ?thesis using sorted_nth_ge [of "sort xs" i lo] sorted_nth_le [of "sort xs" i hi] il by simp
qed

section \<open>\<^verbatim>\<open>statistics.median\<close>\<close>

definition median :: "pyfloat list \<Rightarrow> pyfloat res" where
  "median data =
     (let d = sort data; n = length d
      in if n = 0 then Inl StatisticsError
         else if odd n then Inr (d ! (n div 2))
         else fdiv (fadd (d ! (n div 2 - 1)) (d ! (n div 2))) (Fin 2))"

lemma median_Nil [simp]: "median [] = Inl StatisticsError"
  by (simp add: median_def)

lemma median_total: "xs \<noteq> [] \<Longrightarrow> \<exists>m. median xs = Inr m"
  by (simp add: median_def Let_def)

lemma median_mset_cong: "sort xs = sort ys \<Longrightarrow> median xs = median ys"
  by (simp add: median_def)

text \<open>
  The average of two values of the format that are at most \<open>2\<^sup>1\<^sup>0\<^sup>2\<^sup>3\<close> stays between them: the
  sum does not overflow, and \<open>b64.midpoint_between\<close> is the law of the rounding interface.
\<close>

definition halvable :: "rat \<Rightarrow> bool" where
  "halvable x \<longleftrightarrow> rnd x = x \<and> \<bar>x\<bar> < 2 ^ 1023"

lemma halvable_representable: "halvable x \<Longrightarrow> representable x"
proof -
  have "(2::rat) ^ 1023 < 2 ^ 1024" by (rule power_strict_increasing) simp_all
  then show "halvable x \<Longrightarrow> representable x"
    unfolding halvable_def representable_def by (meson order_less_trans)
qed

lemma average_between:
  assumes a: "rnd a = a" and b: "rnd b = b" and lo: "halvable lo" and hi: "halvable hi"
    and "lo \<le> a" and "a \<le> hi" and "lo \<le> b" and "b \<le> hi"
  shows "\<exists>m. fdiv (fadd (Fin a) (Fin b)) (Fin 2) = Inr (Fin m) \<and> lo \<le> m \<and> m \<le> hi"
proof -
  have dbl: "representable (2 * x)" if "halvable x" for x
  proof -
    have "2 * \<bar>x\<bar> < 2 * 2 ^ 1023" using that unfolding halvable_def by linarith
    also have "\<dots> = (2::rat) ^ 1024" by (simp only: power_Suc [symmetric]) simp
    finally show ?thesis using that by (simp add: representable_def halvable_def rnd_double abs_mult)
  qed
  have "2 * lo \<le> a + b" and "a + b \<le> 2 * hi" using assms(5-8) by simp_all
  then obtain s where s: "fl (a + b) = Fin s" and sb: "2 * lo \<le> s" "s \<le> 2 * hi"
    using fl_between [OF dbl [OF lo] dbl [OF hi]] by blast
  have "\<exists>m. fl (s / 2) = Fin m \<and> lo \<le> m \<and> m \<le> hi"
    using sb by (intro fl_between halvable_representable lo hi) simp_all
  then show ?thesis using s by auto
qed

text \<open>A list of finite values of the format; what every clean column of a series is.\<close>

definition float_list :: "pyfloat list \<Rightarrow> bool" where
  "float_list xs \<longleftrightarrow> (\<forall>x \<in> set xs. wf_float x \<and> finite_float x)"

lemma median_majority:
  assumes lo: "halvable lo" and hi: "halvable hi" and wf: "\<forall>x \<in> set xs. wf_float x"
    and maj: "length xs < 2 * length (filter (\<lambda>x. Fin lo \<le> x \<and> x \<le> Fin hi) xs)"
  shows "\<exists>m. median xs = Inr (Fin m) \<and> lo \<le> m \<and> m \<le> hi"
proof -
  let ?n = "length xs"
  have n: "0 < ?n" using maj by (cases xs) auto
  have mid: "\<exists>r. sort xs ! i = Fin r \<and> lo \<le> r \<and> r \<le> hi \<and> rnd r = r"
    if i: "i = ?n div 2 \<or> i = (?n - 1) div 2" for i
  proof -
    have "Fin lo \<le> sort xs ! i \<and> sort xs ! i \<le> Fin hi" using sorted_middle_in [OF maj i] .
    moreover have "i < ?n" using i n by presburger
    then have "sort xs ! i \<in> set xs" by (metis length_sort nth_mem set_sort)
    then have "wf_float (sort xs ! i)" using wf by blast
    ultimately show ?thesis by (cases "sort xs ! i") (auto simp: representable_def)
  qed
  show ?thesis
  proof (cases "odd ?n")
    case True
    then show ?thesis using mid [of "?n div 2"] n by (auto simp: median_def Let_def)
  next
    case False
    then have "(?n - 1) div 2 = ?n div 2 - 1" using n by (auto elim!: evenE)
    then obtain a b where "sort xs ! (?n div 2 - 1) = Fin a" and "sort xs ! (?n div 2) = Fin b"
      and "lo \<le> a" "a \<le> hi" "rnd a = a" and "lo \<le> b" "b \<le> hi" "rnd b = b"
      using mid [of "?n div 2"] mid [of "(?n - 1) div 2"] by auto
    then show ?thesis
      using average_between [of a b lo hi] lo hi False n by (simp add: median_def Let_def)
  qed
qed

lemma median_between:
  assumes "halvable lo" and "halvable hi" and "xs \<noteq> []"
    and "\<And>x. x \<in> set xs \<Longrightarrow> wf_float x \<and> Fin lo \<le> x \<and> x \<le> Fin hi"
  shows "\<exists>m. median xs = Inr (Fin m) \<and> lo \<le> m \<and> m \<le> hi"
proof -
  have "filter (\<lambda>x. Fin lo \<le> x \<and> x \<le> Fin hi) xs = xs"
    using assms(4) by (simp add: filter_id_conv)
  then show ?thesis using assms by (intro median_majority) simp_all
qed

text \<open>The median of a constant column is the constant.\<close>

lemma median_const:
  assumes "halvable c" and "xs \<noteq> []" and "\<And>x. x \<in> set xs \<Longrightarrow> x = Fin c"
  shows "median xs = Inr (Fin c)"
  using median_between [of c c xs] assms halvable_representable by force

section \<open>\<^verbatim>\<open>math.sqrt\<close>\<close>

text \<open>The integer square root, by recursion on the base-4 digits.\<close>

fun isqrt :: "nat \<Rightarrow> nat" where
  "isqrt n =
     (if n = 0 then 0
      else let r = 2 * isqrt (n div 4) in if (r + 1) * (r + 1) \<le> n then r + 1 else r)"

declare isqrt.simps [simp del]

lemma isqrt_bounds: "isqrt n * isqrt n \<le> n \<and> n < (isqrt n + 1) * (isqrt n + 1)"
proof (induction n rule: isqrt.induct)
  case (1 n)
  show ?case
  proof (cases "n = 0")
    case False
    define q where "q = isqrt (n div 4)"
    have IH: "q * q \<le> n div 4" "n div 4 < (q + 1) * (q + 1)" using 1 False by (simp_all add: q_def)
    have "4 * (q * q) \<le> n" using IH(1) by linarith
    moreover have "n < 4 * ((q + 1) * (q + 1))" using IH(2) by linarith
    ultimately show ?thesis
      using False by (simp add: isqrt.simps [of n] Let_def q_def [symmetric] algebra_simps)
  qed (simp add: isqrt.simps)
qed

text \<open>
  The square root of a nonnegative rational, to at least 55 bits and a sticky bit for what is
  cut off, then rounded: the cut-off part cannot cross a rounding boundary, so the result is
  the correctly rounded square root.
\<close>

definition sqrt_scale :: "rat \<Rightarrow> nat" where
  "sqrt_scale x = nat (max 0 ((111 - ilog2 x) div 2))"

definition math_sqrt_approx :: "rat \<Rightarrow> rat" where
  "math_sqrt_approx x =
     (let s = sqrt_scale x; n = nat \<lfloor>x * 4 ^ s\<rfloor>; r = isqrt n
      in of_nat (2 * r + (if of_nat (r * r) = x * 4 ^ s then 0 else 1)) / 2 ^ (s + 1))"

fun math_sqrt :: "pyfloat \<Rightarrow> pyfloat res" where
  "math_sqrt (Fin x) = (if x < 0 then Inl ValueError else Inr (fl (math_sqrt_approx x)))"
| "math_sqrt NInf = Inl ValueError"
| "math_sqrt f = Inr f"

lemma math_sqrt_approx_nonneg: "0 \<le> math_sqrt_approx x"
  by (simp add: math_sqrt_approx_def Let_def)

text \<open>The approximation brackets the exact root to within one unit of its last place.\<close>

lemma math_sqrt_approx_bracket:
  assumes "0 \<le> x"
  defines "u \<equiv> 1 / 2 ^ (sqrt_scale x + 1) :: rat"
  shows "math_sqrt_approx x - u < 0 \<or> (math_sqrt_approx x - u)\<^sup>2 \<le> x"
    and "x \<le> (math_sqrt_approx x + u)\<^sup>2"
proof -
  define s n where "s = sqrt_scale x" and "n = nat \<lfloor>x * 4 ^ s\<rfloor>"
  define r where "r = isqrt n"
  define k where "k = 2 * r + (if of_nat (r * r) = x * 4 ^ s then 0 else 1)"
  have ap: "math_sqrt_approx x = of_nat k * u"
    by (simp add: math_sqrt_approx_def Let_def s_def n_def r_def k_def u_def)
  have uu: "u * u = 1 / (4 * 4 ^ s)"
    by (simp add: u_def s_def [symmetric] power_mult_distrib [symmetric])
  have fl: "of_nat n \<le> x * 4 ^ s" "x * 4 ^ s < of_nat n + 1"
    using assms(1) by (simp_all add: n_def of_nat_nat) linarith
  have r: "r * r \<le> n" "n + 1 \<le> (r + 1) * (r + 1)" using isqrt_bounds [of n] by (simp_all add: r_def)
  have lo: "(of_nat (r * r) :: rat) \<le> x * 4 ^ s" using r(1) fl(1) by (meson of_nat_mono order_trans)
  have "(of_nat (n + 1) :: rat) \<le> of_nat ((r + 1) * (r + 1))" using r(2) by (rule of_nat_mono)
  then have hi: "x * 4 ^ s < of_nat ((r + 1) * (r + 1))" using fl(2) by simp
  show "math_sqrt_approx x - u < 0 \<or> (math_sqrt_approx x - u)\<^sup>2 \<le> x"
  proof (cases "k = 0")
    case False
    then have "(of_nat (k - 1) :: rat) \<le> of_nat (2 * r)" and ge: "1 \<le> k" by (auto simp: k_def)
    then have "(of_nat k - 1 :: rat) * (of_nat k - 1) \<le> of_nat (2 * r) * of_nat (2 * r)"
      by (intro mult_mono) (simp_all add: of_nat_diff)
    also have "\<dots> \<le> 4 * (x * 4 ^ s)" using lo by simp
    finally have "(of_nat k - 1) * (of_nat k - 1) * (u * u) \<le> 4 * (x * 4 ^ s) * (u * u)"
      by (intro mult_right_mono) simp_all
    moreover have "4 * (x * 4 ^ s) * (u * u) = x" by (simp add: uu)
    moreover have "(of_nat k - 1) * (of_nat k - 1) * (u * u) = (math_sqrt_approx x - u)\<^sup>2"
      by (simp add: ap power2_eq_square algebra_simps)
    ultimately show ?thesis by simp
  qed (simp add: ap u_def)
  have "x * 4 ^ s \<le> of_nat ((k + 1) * (k + 1)) / 4"
  proof (cases "of_nat (r * r) = x * 4 ^ s")
    case True
    then show ?thesis by (simp add: k_def True [symmetric] algebra_simps)
  next
    case False
    then show ?thesis using hi by (simp add: k_def algebra_simps)
  qed
  then have "x * 4 ^ s * (4 * (u * u)) \<le> of_nat ((k + 1) * (k + 1)) / 4 * (4 * (u * u))"
    by (intro mult_right_mono) simp_all
  moreover have "x * 4 ^ s * (4 * (u * u)) = x" by (simp add: uu)
  moreover have "of_nat ((k + 1) * (k + 1)) / 4 * (4 * (u * u)) = (math_sqrt_approx x + u)\<^sup>2"
    by (simp add: ap power2_eq_square algebra_simps)
  ultimately show "x \<le> (math_sqrt_approx x + u)\<^sup>2" by simp
qed

end
