(* ===== verification/Segments.thy ===== *)
theory Segments
  imports Py_Time Py_Stats
begin

text \<open>
  The data model of the forecasting core (\<^verbatim>\<open>analytics/model.py\<close>): samples, metrics, the series
  check, the observed cadence, and the cutting of a series into depletion segments. The loop
  of \<open>split_segments\<close> works on indices and slices; \<open>cut_at\<close> is the reference it is proved equal
  to, and the laws of a segmentation are proved on the reference.
\<close>

section \<open>Samples and metrics\<close>

record sample =
  sample_at :: py_datetime
  sample_value :: pyfloat

record metric =
  metric_kind :: string
  metric_unit :: string
  target :: pyfloat
  refill_jump :: pyfloat
  min_points :: int
  min_span_seconds :: pyfloat
  max_fit_points :: int
  lookback_seconds :: pyfloat
  gap_factor :: pyfloat
  stale_after_seconds :: pyfloat
  max_horizon_seconds :: pyfloat
  alert_horizon_seconds :: pyfloat

definition WATER :: metric where
  "WATER = \<lparr>
     metric_kind = ''water'',
     metric_unit = ''pct'',
     target = Fin 10,
     refill_jump = Fin 5,
     min_points = 36,
     min_span_seconds = Fin (3 * 3600),
     max_fit_points = 300,
     lookback_seconds = Fin (10 * 86400),
     gap_factor = Fin 6,
     stale_after_seconds = Fin 1800,
     max_horizon_seconds = Fin (30 * 86400),
     alert_horizon_seconds = Fin (2 * 86400)\<rparr>"

definition BATTERY :: metric where
  "BATTERY = \<lparr>
     metric_kind = ''battery'',
     metric_unit = ''V'',
     target = fl (34 / 10),
     refill_jump = fl (5 / 100),
     min_points = 144,
     min_span_seconds = Fin (12 * 3600),
     max_fit_points = 300,
     lookback_seconds = Fin (35 * 86400),
     gap_factor = Fin 6,
     stale_after_seconds = Fin 1800,
     max_horizon_seconds = Fin (60 * 86400),
     alert_horizon_seconds = Fin (3 * 86400)\<rparr>"

definition METRICS :: "metric list" where
  "METRICS = [WATER, BATTERY]"

section \<open>The series check and the cadence\<close>

definition is_valid_series :: "sample list \<Rightarrow> bool" where
  "is_valid_series samples \<longleftrightarrow>
     list_all (\<lambda>s. finite_float (sample_value s) \<and> is_aware (sample_at s)) samples \<and>
     list_all (\<lambda>(a, b). dt_less (sample_at a) (sample_at b) = Inr True) (pairwise_list samples)"

definition gap_seconds :: "sample \<Rightarrow> sample \<Rightarrow> pyfloat res" where
  "gap_seconds a b = rbind (dt_sub (sample_at b) (sample_at a)) (\<lambda>d. Inr (total_seconds d))"

definition cadence_seconds :: "sample list \<Rightarrow> pyfloat option res" where
  "cadence_seconds samples =
     rbind (rmap (\<lambda>(a, b). gap_seconds a b) (pairwise_list samples)) (\<lambda>ds.
       let deltas = filter (\<lambda>d. flt (Fin 0) d) ds
       in if deltas = [] then Inr None else rbind (median deltas) (\<lambda>m. Inr (Some m)))"

section \<open>Cutting into segments\<close>

definition seg_break :: "pyfloat \<Rightarrow> pyfloat \<Rightarrow> sample \<Rightarrow> sample \<Rightarrow> bool res" where
  "seg_break jump gap_limit a b =
     (if fle jump (fsub (sample_value b) (sample_value a)) then Inr True
      else rbind (gap_seconds a b) (\<lambda>d. Inr (flt gap_limit d)))"

text \<open>
  The loop over \<^verbatim>\<open>enumerate(pairwise(series), start=1)\<close>: \<open>start\<close> is where the current
  segment begins, \<open>segs\<close> the segments closed so far.
\<close>

fun split_loop ::
  "(sample \<Rightarrow> sample \<Rightarrow> bool res) \<Rightarrow> sample list \<Rightarrow> (nat \<times> sample \<times> sample) list \<Rightarrow> nat
   \<Rightarrow> sample list list \<Rightarrow> sample list list res" where
  "split_loop brk series [] start segs = Inr (segs @ [drop start series])"
| "split_loop brk series ((index, a, b) # rest) start segs =
     rbind (brk a b) (\<lambda>c.
       if c then split_loop brk series rest index (segs @ [take (index - start) (drop start series)])
       else split_loop brk series rest start segs)"

definition split_segments :: "sample list \<Rightarrow> pyfloat \<Rightarrow> pyfloat \<Rightarrow> sample list list res" where
  "split_segments samples jump factor =
     (if length samples < 2 then Inr (if samples \<noteq> [] then [samples] else [])
      else rbind (cadence_seconds samples) (\<lambda>cadence.
        let gap_limit = (case cadence of Some c \<Rightarrow> fmul c factor | None \<Rightarrow> PInf)
        in split_loop (seg_break jump gap_limit) samples (enumerate 1 (pairwise_list samples)) 0 []))"

section \<open>The reference segmentation\<close>

fun cut_at :: "('a \<Rightarrow> 'a \<Rightarrow> bool) \<Rightarrow> 'a list \<Rightarrow> 'a list list" where
  "cut_at brk [] = []"
| "cut_at brk [x] = [[x]]"
| "cut_at brk (x # y # zs) =
     (if brk x y then [x] # cut_at brk (y # zs)
      else case cut_at brk (y # zs) of [] \<Rightarrow> [[x]] | s # ss \<Rightarrow> (x # s) # ss)"

text \<open>
  What a segmentation promises: nothing lost or reordered, no empty segment, no break inside
  a segment, a break at every boundary. These laws determine it (\<open>is_cut_unique\<close>).
\<close>

fun boundaries_break :: "('a \<Rightarrow> 'a \<Rightarrow> bool) \<Rightarrow> 'a list list \<Rightarrow> bool" where
  "boundaries_break brk (s # t # ss) = (brk (last s) (hd t) \<and> boundaries_break brk (t # ss))"
| "boundaries_break brk _ = True"

definition is_cut :: "('a \<Rightarrow> 'a \<Rightarrow> bool) \<Rightarrow> 'a list \<Rightarrow> 'a list list \<Rightarrow> bool" where
  "is_cut brk xs segs \<longleftrightarrow>
     concat segs = xs \<and> [] \<notin> set segs \<and>
     (\<forall>s \<in> set segs. \<forall>(a, b) \<in> set (pairwise_list s). \<not> brk a b) \<and> boundaries_break brk segs"

lemma cut_at_Cons_form: "\<exists>s ss. cut_at brk (x # xs) = (x # s) # ss"
  by (induction xs arbitrary: x) (auto split: list.splits)

lemma cut_at_is_cut: "is_cut brk xs (cut_at brk xs)"
proof (induction brk xs rule: cut_at.induct)
  case (3 brk x y zs)
  obtain s ss where c: "cut_at brk (y # zs) = (y # s) # ss"
    using cut_at_Cons_form [of brk y zs] by blast
  have IH: "is_cut brk (y # zs) ((y # s) # ss)" using 3 c by (cases "brk x y") simp_all
  then show ?case by (cases ss) (auto simp: is_cut_def c)
qed (simp_all add: is_cut_def)

lemma is_cut_Cons2:
  assumes "is_cut brk (x # y # zs) segs"
  shows "brk x y \<and> (\<exists>ss. segs = [x] # ss \<and> is_cut brk (y # zs) ss) \<or>
         \<not> brk x y \<and> (\<exists>s ss. segs = (x # y # s) # ss \<and> is_cut brk (y # zs) ((y # s) # ss))"
proof -
  from assms obtain s ss where segs: "segs = s # ss" and "s \<noteq> []"
    by (cases segs) (auto simp: is_cut_def)
  then obtain s' where s: "s = x # s'" using assms by (cases s) (auto simp: is_cut_def)
  show ?thesis
  proof (cases s')
    case Nil
    then have ne: "concat ss = y # zs" using assms segs s by (simp add: is_cut_def)
    then obtain t ts where ss: "ss = t # ts" and "t \<noteq> []"
      using assms segs by (cases ss) (auto simp: is_cut_def)
    then have "hd t = y" using ne by (cases t) simp_all
    then show ?thesis using assms segs s Nil ss ne by (auto simp: is_cut_def)
  next
    case (Cons y' s'')
    then have "y' = y" using assms segs s by (simp add: is_cut_def)
    then show ?thesis using assms segs s Cons by (cases ss) (auto simp: is_cut_def)
  qed
qed

lemma is_cut_unique: "is_cut brk xs segs \<Longrightarrow> segs = cut_at brk xs"
proof (induction brk xs arbitrary: segs rule: cut_at.induct)
  case (1 brk)
  then show ?case by (cases segs) (auto simp: is_cut_def)
next
  case (2 brk x)
  then obtain s ss where "segs = s # ss" "s \<noteq> []" by (cases segs) (auto simp: is_cut_def)
  then show ?case using 2 by (cases s; cases ss) (auto simp: is_cut_def)
next
  case (3 brk x y zs)
  from is_cut_Cons2 [OF "3.prems"] show ?case
  proof (elim disjE conjE exE)
    fix ss assume "brk x y" "segs = [x] # ss" "is_cut brk (y # zs) ss"
    then show ?thesis using "3.IH"(1) by simp
  next
    fix s ss assume nb: "\<not> brk x y" and segs: "segs = (x # y # s) # ss"
      and c: "is_cut brk (y # zs) ((y # s) # ss)"
    have "cut_at brk (y # zs) = (y # s) # ss" using "3.IH"(2) [OF nb c] by (rule sym)
    then show ?thesis using nb segs by simp
  qed
qed

section \<open>What the forecast relies on\<close>

text \<open>
  The interface between the segmentation and its client: any cutting function that keeps the
  laws of \<open>is_cut\<close>. The client only ever looks at the newest (last) segment.
\<close>

locale segmenter =
  fixes brk :: "'a \<Rightarrow> 'a \<Rightarrow> bool"
    and cut :: "'a list \<Rightarrow> 'a list list"
  assumes cuts: "is_cut brk xs (cut xs)"
begin

lemma concat_cut: "concat (cut xs) = xs"
  using cuts [of xs] by (simp add: is_cut_def)

lemma cut_neq_Nil: "xs \<noteq> [] \<Longrightarrow> cut xs \<noteq> []"
  using concat_cut [of xs] by (cases "cut xs") auto

lemma newest_neq_Nil: "xs \<noteq> [] \<Longrightarrow> last (cut xs) \<noteq> []"
  using cuts [of xs] last_in_set [OF cut_neq_Nil [of xs]] by (auto simp: is_cut_def)

lemma newest_suffix: "xs \<noteq> [] \<Longrightarrow> \<exists>pre. xs = pre @ last (cut xs)"
  using concat_cut [of xs] cut_neq_Nil [of xs]
  by (metis append_butlast_last_id concat_append concat.simps append_Nil2)

lemma last_newest: "xs \<noteq> [] \<Longrightarrow> last (last (cut xs)) = last xs"
  using newest_suffix [of xs] newest_neq_Nil [of xs] by (metis last_appendR)

lemma no_break_in_newest:
  "xs \<noteq> [] \<Longrightarrow> (a, b) \<in> set (pairwise_list (last (cut xs))) \<Longrightarrow> \<not> brk a b"
  using cuts [of xs] last_in_set [OF cut_neq_Nil [of xs]] by (fastforce simp: is_cut_def)

lemma unique: "is_cut brk xs segs \<Longrightarrow> segs = cut xs"
  using is_cut_unique [of brk xs segs] is_cut_unique [OF cuts, of xs] by simp

text \<open>One segment is the whole series exactly when nothing in it breaks.\<close>

lemma single_iff:
  assumes "xs \<noteq> []"
  shows "length (cut xs) = 1 \<longleftrightarrow> (\<forall>(a, b) \<in> set (pairwise_list xs). \<not> brk a b)"
proof
  assume "length (cut xs) = 1"
  then obtain s where "cut xs = [s]" by (auto simp: length_Suc_conv)
  then show "\<forall>(a, b) \<in> set (pairwise_list xs). \<not> brk a b"
    using cuts [of xs] by (auto simp: is_cut_def)
next
  assume "\<forall>(a, b) \<in> set (pairwise_list xs). \<not> brk a b"
  then have "is_cut brk xs [xs]" using assms by (simp add: is_cut_def)
  then show "length (cut xs) = 1" using unique by force
qed

end

interpretation seg: segmenter brk "cut_at brk" for brk
  by unfold_locales (rule cut_at_is_cut)

section \<open>The loop computes the reference\<close>

lemma split_loop_cut_at:
  assumes "\<And>a b. (a, b) \<in> set (pairwise_list (x # zs)) \<Longrightarrow> brk a b = Inr (b' a b)"
  shows "split_loop brk (pre @ cur @ x # zs)
           (enumerate (length pre + length cur + 1) (pairwise_list (x # zs))) (length pre) segs =
         Inr (segs @ (case cut_at b' (x # zs) of [] \<Rightarrow> [] | s # ss \<Rightarrow> (cur @ s) # ss))"
  using assms
proof (induction zs arbitrary: pre cur x segs)
  case (Cons z zs)
  obtain s ss where c: "cut_at b' (z # zs) = (z # s) # ss"
    using cut_at_Cons_form [of b' z zs] by blast
  have brk: "brk x z = Inr (b' x z)" using Cons.prems by simp
  show ?case
  proof (cases "b' x z")
    case True
    then show ?thesis
      using Cons.IH [of z "pre @ cur @ [x]" "[]" "segs @ [cur @ [x]]"] Cons.prems brk c by simp
  next
    case False
    then show ?thesis
      using Cons.IH [of z pre "cur @ [x]" segs] Cons.prems brk c by simp
  qed
qed simp

text \<open>
  On an aware series no gap computation raises, the break test is the boolean
  \<open>is_break\<close>, and the segmentation is the reference one.
\<close>

definition aware_series :: "sample list \<Rightarrow> bool" where
  "aware_series xs \<longleftrightarrow> (\<forall>s \<in> set xs. is_aware (sample_at s))"

definition gap_us :: "sample \<Rightarrow> sample \<Rightarrow> int" where
  "gap_us a b = (case dt_sub (sample_at b) (sample_at a) of Inr d \<Rightarrow> d | Inl _ \<Rightarrow> 0)"

definition is_break :: "pyfloat \<Rightarrow> pyfloat \<Rightarrow> sample \<Rightarrow> sample \<Rightarrow> bool" where
  "is_break jump gap_limit a b \<longleftrightarrow>
     fle jump (fsub (sample_value b) (sample_value a)) \<or> flt gap_limit (total_seconds (gap_us a b))"

lemma gap_seconds_aware:
  "is_aware (sample_at a) \<Longrightarrow> is_aware (sample_at b) \<Longrightarrow> gap_seconds a b = Inr (total_seconds (gap_us a b))"
  using dt_sub_aware [of "sample_at b" "sample_at a"] by (auto simp: gap_seconds_def gap_us_def)

lemma seg_break_aware:
  "is_aware (sample_at a) \<Longrightarrow> is_aware (sample_at b) \<Longrightarrow>
   seg_break jump gap_limit a b = Inr (is_break jump gap_limit a b)"
  by (auto simp: seg_break_def is_break_def gap_seconds_aware)

lemma aware_pairD:
  "aware_series xs \<Longrightarrow> (a, b) \<in> set (pairwise_list xs) \<Longrightarrow> is_aware (sample_at a) \<and> is_aware (sample_at b)"
  using set_pairwise_list_subset [of xs] by (auto simp: aware_series_def)

text \<open>The cadence as a value: the median of the positive gaps.\<close>

definition positive_gaps :: "sample list \<Rightarrow> pyfloat list" where
  "positive_gaps xs =
     filter (\<lambda>d. flt (Fin 0) d) (map (\<lambda>(a, b). total_seconds (gap_us a b)) (pairwise_list xs))"

definition cadence_value :: "sample list \<Rightarrow> pyfloat option" where
  "cadence_value xs =
     (case median (positive_gaps xs) of Inl _ \<Rightarrow> None | Inr m \<Rightarrow> Some m)"

lemma cadence_seconds_aware:
  assumes "aware_series xs"
  shows "cadence_seconds xs = Inr (cadence_value xs)"
proof -
  have "rmap (\<lambda>(a, b). gap_seconds a b) (pairwise_list xs) =
        Inr (map (\<lambda>(a, b). total_seconds (gap_us a b)) (pairwise_list xs))"
    by (rule rmap_Inr) (use aware_pairD [OF assms] gap_seconds_aware in auto)
  then show ?thesis
    using median_total [of "positive_gaps xs"]
    by (cases "positive_gaps xs = []")
       (auto simp: cadence_seconds_def cadence_value_def positive_gaps_def Let_def)
qed

definition gap_limit_of :: "sample list \<Rightarrow> pyfloat \<Rightarrow> pyfloat" where
  "gap_limit_of xs factor = (case cadence_value xs of Some c \<Rightarrow> fmul c factor | None \<Rightarrow> PInf)"

lemma split_segments_aware:
  assumes "aware_series xs"
  shows "split_segments xs jump factor = Inr (cut_at (is_break jump (gap_limit_of xs factor)) xs)"
proof (cases "length xs < 2")
  case True
  then show ?thesis by (cases xs) (auto simp: split_segments_def)
next
  case False
  then obtain x y zs where xs: "xs = x # y # zs" by (cases xs; cases "tl xs") auto
  let ?b = "is_break jump (gap_limit_of xs factor)" and ?r = "seg_break jump (gap_limit_of xs factor)"
  have "?r a b = Inr (?b a b)" if "(a, b) \<in> set (pairwise_list (x # y # zs))" for a b
    using assms xs aware_pairD seg_break_aware that by blast
  then have "split_loop ?r xs (enumerate 1 (pairwise_list xs)) 0 [] =
    Inr (case cut_at ?b xs of [] \<Rightarrow> [] | s # ss \<Rightarrow> s # ss)"
    using split_loop_cut_at [of x "y # zs" ?r ?b "[]" "[]" "[]"] xs by (simp split: list.splits)
  moreover have "(case cut_at ?b xs of [] \<Rightarrow> [] | s # ss \<Rightarrow> s # ss) = cut_at ?b xs"
    by (simp split: list.split)
  ultimately show ?thesis
    using assms False by (simp add: split_segments_def cadence_seconds_aware gap_limit_of_def)
qed

end
