(* ===== verification/Float_Bounds.thy ===== *)
theory Float_Bounds
  imports Py_Stats Py_Time
begin

text \<open>
  Magnitude bookkeeping: \<open>bounded k f\<close> says that \<open>f\<close> is a finite float of magnitude at most
  \<open>2\<^sup>k\<close>. Every operation of the fit maps bounded arguments to a bounded result, which is how
  the components show that nothing overflows and no NaN appears.
\<close>

definition bounded :: "nat \<Rightarrow> pyfloat \<Rightarrow> bool" where
  "bounded k f \<longleftrightarrow> (\<exists>r. f = Fin r \<and> representable r \<and> \<bar>r\<bar> \<le> 2 ^ k)"

lemma boundedE:
  assumes "bounded k f"
  obtains r where "f = Fin r" and "representable r" and "\<bar>r\<bar> \<le> 2 ^ k"
  using assms by (auto simp: bounded_def)

lemma bounded_Fin [simp]: "bounded k (Fin r) \<longleftrightarrow> representable r \<and> \<bar>r\<bar> \<le> 2 ^ k"
  by (simp add: bounded_def)

lemma bounded_not_NaN: "bounded k f \<Longrightarrow> f \<noteq> NaN"
  by (auto simp: bounded_def)

lemma bounded_wf: "bounded k f \<Longrightarrow> wf_float f \<and> finite_float f"
  by (auto simp: bounded_def)

lemma bounded_mono: "bounded j f \<Longrightarrow> j \<le> k \<Longrightarrow> bounded k f"
proof (elim boundedE)
  fix r assume jk: "j \<le> k" and r: "f = Fin r" "representable r" "\<bar>r\<bar> \<le> 2 ^ j"
  have "(2::rat) ^ j \<le> 2 ^ k" using jk by (rule power_increasing) simp
  then show "bounded k f" using r order_trans [OF r(3)] by simp
qed

lemma bounded_interval: "bounded k f \<Longrightarrow> Fin (- (2 ^ k)) \<le> f \<and> f \<le> Fin (2 ^ k)"
  by (auto simp: bounded_def abs_le_iff)

lemma rnd_pow [simp]: "rnd (2 ^ k) = 2 ^ k"
  using rnd_powi [of "int k"] by (simp add: power_int_def)

lemma representable_pow: "k \<le> 1023 \<Longrightarrow> representable (2 ^ k)"
  unfolding representable_def
  using power_strict_increasing [of k 1024 "2::rat"] by simp

lemma halvable_pow: "k \<le> 1022 \<Longrightarrow> halvable (2 ^ k)"
  unfolding halvable_def
  using power_strict_increasing [of k 1023 "2::rat"] by simp

lemma representable_minus [simp]: "representable (- x) \<longleftrightarrow> representable x"
  by (simp add: representable_def)

lemma halvable_minus [simp]: "halvable (- x) \<longleftrightarrow> halvable x"
  by (simp add: halvable_def)

lemma bounded_fl: "\<bar>x\<bar> \<le> 2 ^ k \<Longrightarrow> k \<le> 1023 \<Longrightarrow> bounded k (fl x)"
proof -
  assume x: "\<bar>x\<bar> \<le> 2 ^ k" and k: "k \<le> 1023"
  have rep: "representable (2 ^ k)" using representable_pow [OF k] .
  have "\<exists>y. fl x = Fin y \<and> - (2 ^ k) \<le> y \<and> y \<le> 2 ^ k"
    by (rule fl_between) (use x rep in \<open>simp_all add: abs_le_iff\<close>)
  then obtain y where y: "fl x = Fin y" "\<bar>y\<bar> \<le> 2 ^ k" by (auto simp: abs_le_iff)
  moreover have "wf_float (Fin y)" using wf_fl [of x] y(1) by (simp del: wf_fl)
  ultimately show ?thesis by simp
qed

lemma bounded_fneg: "bounded k f \<Longrightarrow> bounded k (fneg f)"
  by (auto elim!: boundedE)

lemma bounded_fabs: "bounded k f \<Longrightarrow> bounded k (fabs f)"
  by (auto elim!: boundedE simp: abs_if)

lemma bounded_fadd:
  assumes "bounded k f" and "bounded k g" and "Suc k \<le> 1023"
  shows "bounded (Suc k) (fadd f g)"
proof -
  obtain a b where ab: "f = Fin a" "g = Fin b" "\<bar>a\<bar> \<le> 2 ^ k" "\<bar>b\<bar> \<le> 2 ^ k"
    using assms by (auto simp: bounded_def)
  then have "\<bar>a + b\<bar> \<le> 2 ^ Suc k" by (simp add: abs_le_iff)
  then show ?thesis using ab assms(3) bounded_fl by simp
qed

lemma bounded_fsub:
  "bounded k f \<Longrightarrow> bounded k g \<Longrightarrow> Suc k \<le> 1023 \<Longrightarrow> bounded (Suc k) (fsub f g)"
  by (simp add: fsub_def bounded_fadd bounded_fneg)

lemma bounded_fmul:
  assumes "bounded i f" and "bounded j g" and "i + j \<le> 1023"
  shows "bounded (i + j) (fmul f g)"
proof -
  obtain a b where ab: "f = Fin a" "g = Fin b" "\<bar>a\<bar> \<le> 2 ^ i" "\<bar>b\<bar> \<le> 2 ^ j"
    using assms by (auto simp: bounded_def)
  then have "\<bar>a * b\<bar> \<le> 2 ^ i * 2 ^ j" unfolding abs_mult by (intro mult_mono) simp_all
  then show ?thesis using ab assms(3) bounded_fl by (simp add: power_add)
qed

lemma bounded_fdiv:
  assumes "bounded i f" and "2 powi (- int j) \<le> \<bar>d\<bar>" and "i + j \<le> 1023"
  shows "\<exists>q. fdiv f (Fin d) = Inr q \<and> bounded (i + j) q"
proof -
  obtain a where a: "f = Fin a" "\<bar>a\<bar> \<le> 2 ^ i" using assms by (auto simp: bounded_def)
  have d0: "d \<noteq> 0" using assms(2) by auto
  have inv: "(2::rat) powi (- int j) * 2 ^ j = 1" by (simp add: power_int_minus)
  have "\<bar>a\<bar> \<le> 2 ^ i * (2 powi (- int j) * 2 ^ j)" using a(2) inv by simp
  also have "\<dots> = 2 ^ i * 2 ^ j * 2 powi (- int j)" by simp
  also have "\<dots> \<le> 2 ^ i * 2 ^ j * \<bar>d\<bar>" by (rule mult_left_mono [OF assms(2)]) simp
  finally have "\<bar>a / d\<bar> \<le> 2 ^ (i + j)"
    using d0 by (simp add: pos_divide_le_eq power_add)
  then show ?thesis using a d0 assms(3) bounded_fl by simp
qed

lemma bounded_median:
  assumes "xs \<noteq> []" and "\<And>x. x \<in> set xs \<Longrightarrow> bounded k x" and "k \<le> 1022"
  shows "\<exists>m. median xs = Inr m \<and> bounded k m"
proof -
  have hp: "halvable (2 ^ k)" using halvable_pow [OF assms(3)] .
  have "wf_float x \<and> Fin (- (2 ^ k)) \<le> x \<and> x \<le> Fin (2 ^ k)" if "x \<in> set xs" for x
    using bounded_interval [OF assms(2) [OF that]] bounded_wf [OF assms(2) [OF that]] by blast
  then have "\<exists>m. median xs = Inr (Fin m) \<and> - (2 ^ k) \<le> m \<and> m \<le> 2 ^ k"
    using hp assms(1) by (intro median_between) simp_all
  then obtain m where m: "median xs = Inr (Fin m)" "\<bar>m\<bar> \<le> 2 ^ k" by (auto simp: abs_le_iff)
  moreover have "wf_float (Fin m)" if "median xs = Inr (Fin m)" for m
  proof (cases "odd (length xs)")
    case True
    then have "sort xs ! (length xs div 2) = Fin m"
      using that by (simp add: median_def Let_def split: if_splits)
    moreover have "sort xs ! (length xs div 2) \<in> set xs"
      using assms(1) by (metis div_less_dividend length_greater_0_conv length_sort nth_mem one_less_numeral_iff
          semiring_norm(76) set_sort)
    ultimately show ?thesis using assms(2) bounded_wf by metis
  next
    case False
    then have "fdiv (fadd (sort xs ! (length xs div 2 - 1)) (sort xs ! (length xs div 2))) (Fin 2) = Inr (Fin m)"
      using that assms(1) by (simp add: median_def Let_def del: fdiv.simps)
    then show ?thesis by (rule wf_fdiv)
  qed
  ultimately show ?thesis by auto
qed

text \<open>A nonzero result whose exact value is not small has no bits below a known place.\<close>

lemma rnd_grid_above:
  assumes "2 powi k \<le> \<bar>x\<bar>" and "- 1022 \<le> k"
  shows "\<exists>n. rnd x = of_int n * 2 powi (k - 52)"
proof -
  have x0: "0 < \<bar>x\<bar>" using assms(1) powi_pos(1) [of k] by linarith
  have "2 powi k < (2::rat) powi (ilog2 \<bar>x\<bar> + 1)"
    using ilog2_bounds(2) [OF x0] assms(1) by linarith
  then have le: "k - 52 \<le> max (ilog2 \<bar>x\<bar> - 52) (- 1074)" by (drule_tac powi_less_cancel) simp
  let ?e = "max (ilog2 \<bar>x\<bar> - 52) (- 1074)"
  have "(2::rat) powi ?e = 2 powi (?e - (k - 52)) * 2 powi (k - 52)"
    by (simp add: power_int_add [symmetric])
  also have "\<dots> = of_int (2 ^ nat (?e - (k - 52))) * 2 powi (k - 52)"
    using le by (simp only: powi_of_int diff_ge_0_iff_ge)
  finally have q: "quantum x = of_int (2 ^ nat (?e - (k - 52))) * 2 powi (k - 52)"
    by (simp only: quantum_def)
  have "rnd x = of_int (round_half_even (x / quantum x) * 2 ^ nat (?e - (k - 52))) * 2 powi (k - 52)"
    unfolding rnd_def by (subst (2) q) simp
  then show ?thesis by blast
qed

lemma grid_diff_lower:
  fixes a b :: rat
  assumes "a = of_int m * 2 powi k" and "b = of_int n * 2 powi k" and "a \<noteq> b"
  shows "2 powi k \<le> \<bar>a - b\<bar>"
proof -
  have "m \<noteq> n" using assms by blast
  then have "(1::rat) \<le> \<bar>of_int (m - n)\<bar>" by (simp flip: of_int_diff of_int_abs)
  then show ?thesis
    unfolding assms(1,2) by (simp add: left_diff_distrib [symmetric] abs_mult mult_le_cancel_right1)
qed

lemma abs_fl_ge:
  assumes "representable lo" and "lo \<le> \<bar>x\<bar>" and "fl x = Fin y"
  shows "lo \<le> \<bar>y\<bar>"
proof -
  have "rnd lo \<le> rnd \<bar>x\<bar>" using assms(2) by (rule rnd_mono)
  then have "lo \<le> rnd \<bar>x\<bar>" using assms(1) by (simp add: representable_def)
  also have "rnd \<bar>x\<bar> \<le> \<bar>rnd x\<bar>" by (cases "0 \<le> x") (simp_all add: abs_if)
  finally show ?thesis using fl_FinD [OF assms(3)] by simp
qed

end
