(* ===== verification/Theil_Sen.thy ===== *)
theory Theil_Sen
  imports Segments Float_Bounds
begin

text \<open>
  The estimator of \<^verbatim>\<open>analytics/model.py\<close>: the median of the pairwise slopes of a segment, the
  rank interval around it, the median-based intercept and residual scale. The laws: the fit
  never divides by zero, never overflows on tame samples, its slope lies between the bounds of
  its confidence interval, and it tolerates any contamination that leaves a majority of the
  pairwise slopes clean.
\<close>

section \<open>The fit\<close>

record fit =
  slope_per_hour :: pyfloat
  slope_low_per_hour :: pyfloat
  slope_high_per_hour :: pyfloat
  value_at_anchor :: pyfloat
  anchor_at :: py_datetime
  residual_mad :: pyfloat
  points :: int
  segment_points :: int
  span_seconds :: pyfloat
  truncated :: bool

definition MIN_FIT_POINTS :: int where
  "MIN_FIT_POINTS = 3"

text \<open>
  \<open>NormalDist().inv_cdf(0.5 + 0.95 / 2.0)\<close>, the quantile for the only confidence level the
  source uses (the default): the binary64 number \<open>1.9599639845400536\<close>.
\<close>

definition Z95 :: pyfloat where
  "Z95 = Fin (4413446535217089 / 2251799813685248)"

definition hours_from :: "py_datetime \<Rightarrow> sample \<Rightarrow> pyfloat res" where
  "hours_from anchor s =
     rbind (dt_sub (sample_at s) anchor) (\<lambda>d. fdiv (total_seconds d) (Fin 3600))"

text \<open>The index pairs \<open>i < j\<close> in the order of the two nested loops.\<close>

definition index_pairs :: "nat \<Rightarrow> (nat \<times> nat) list" where
  "index_pairs n = concat (map (\<lambda>i. map (\<lambda>j. (i, j)) [Suc i..<n]) [0..<n])"

definition pair_slope :: "pyfloat list \<Rightarrow> pyfloat list \<Rightarrow> nat \<times> nat \<Rightarrow> pyfloat res" where
  "pair_slope xs ys = (\<lambda>(i, j). fdiv (fsub (ys ! j) (ys ! i)) (fsub (xs ! j) (xs ! i)))"

definition kept_pairs :: "pyfloat list \<Rightarrow> (nat \<times> nat) list" where
  "kept_pairs xs = filter (\<lambda>(i, j). \<not> feq (xs ! j) (xs ! i)) (index_pairs (length xs))"

definition pairwise_slopes :: "pyfloat list \<Rightarrow> pyfloat list \<Rightarrow> pyfloat list res" where
  "pairwise_slopes xs ys =
     rbind (rmap (pair_slope xs ys) (kept_pairs xs)) (\<lambda>raw. Inr (sort raw))"

text \<open>Kendall's spread \<open>z * sqrt(n (n - 1) (2 n + 5) / 18)\<close>.\<close>

definition rank_spread :: "pyfloat \<Rightarrow> int \<Rightarrow> pyfloat res" where
  "rank_spread z n =
     rbind (float_of_int (n * (n - 1) * (2 * n + 5))) (\<lambda>k.
     rbind (fdiv k (Fin 18)) (\<lambda>v.
     rbind (math_sqrt v) (\<lambda>r. Inr (fmul z r))))"

definition clamp_rank :: "int \<Rightarrow> int \<Rightarrow> int" where
  "clamp_rank m k = min (max k 0) (m - 1)"

definition rank_low :: "int \<Rightarrow> pyfloat \<Rightarrow> int res" where
  "rank_low m spread =
     rbind (float_of_int m) (\<lambda>f. rbind (fdiv (fsub f spread) (Fin 2)) (\<lambda>h.
     rbind (math_floor h) (\<lambda>k. Inr (clamp_rank m k))))"

definition rank_high :: "int \<Rightarrow> pyfloat \<Rightarrow> int res" where
  "rank_high m spread =
     rbind (float_of_int m) (\<lambda>f. rbind (fdiv (fadd f spread) (Fin 2)) (\<lambda>h.
     rbind (math_ceil h) (\<lambda>k. Inr (clamp_rank m k))))"

definition residuals :: "pyfloat \<Rightarrow> pyfloat list \<Rightarrow> pyfloat list \<Rightarrow> pyfloat list" where
  "residuals slope xs ys = map2 (\<lambda>x y. fsub y (fmul slope x)) xs ys"

definition abs_residuals :: "pyfloat \<Rightarrow> pyfloat \<Rightarrow> pyfloat list \<Rightarrow> pyfloat list \<Rightarrow> pyfloat list" where
  "abs_residuals slope intercept xs ys =
     map2 (\<lambda>x y. fabs (fsub y (fadd (fmul slope x) intercept))) xs ys"

definition theil_sen :: "pyfloat \<Rightarrow> sample list \<Rightarrow> fit option res" where
  "theil_sen z samples =
     (let n = int (length samples) in
      if n < MIN_FIT_POINTS then Inr None
      else
        let anchor = sample_at (last samples); ys = map sample_value samples in
        rbind (rmap (hours_from anchor) samples) (\<lambda>xs.
        rbind (pairwise_slopes xs ys) (\<lambda>slopes.
        let m = int (length slopes) in
        if m = 0 then Inr None
        else
          rbind (median slopes) (\<lambda>slope.
          rbind (rank_spread z n) (\<lambda>spread.
          rbind (rank_low m spread) (\<lambda>low.
          rbind (rank_high m spread) (\<lambda>high.
          rbind (median (residuals slope xs ys)) (\<lambda>intercept.
          rbind (median (abs_residuals slope intercept xs ys)) (\<lambda>mad.
          Inr (Some \<lparr>
            slope_per_hour = slope,
            slope_low_per_hour = slopes ! nat low,
            slope_high_per_hour = slopes ! nat high,
            value_at_anchor = intercept,
            anchor_at = anchor,
            residual_mad = mad,
            points = n,
            segment_points = n,
            span_seconds = fmul (fneg (xs ! 0)) (Fin 3600),
            truncated = False\<rparr>))))))))))"

section \<open>Index pairs\<close>

lemma set_index_pairs: "set (index_pairs n) = {(i, j). i < j \<and> j < n}"
  by (fastforce simp: index_pairs_def)

lemma distinct_index_pairs: "distinct (index_pairs n)"
proof -
  have "x = y" if "x < n" "y < n" "map (Pair x) [Suc x..<n] = map (Pair y) [Suc y..<n]" for x y
    using arg_cong [OF that(3), of length] that(1,2) by simp
  then show ?thesis
    by (auto simp: index_pairs_def distinct_map inj_on_def intro!: distinct_concat)
qed

lemma length_index_pairs: "2 * length (index_pairs n) = n * (n - 1)"
proof (induction n)
  case (Suc n)
  have fin: "finite {(i, j). i < j \<and> j < n}"
    by (rule finite_subset [of _ "{..<n} \<times> {..<n}"]) auto
  have len: "length (index_pairs k) = card {(i, j). i < j \<and> j < k}" for k
    using distinct_card [OF distinct_index_pairs, of k] by (simp add: set_index_pairs)
  have "{(i, j). i < j \<and> j < Suc n} = {(i, j). i < j \<and> j < n} \<union> (\<lambda>i. (i, n)) ` {..<n}" by auto
  moreover have "card ({(i, j). i < j \<and> j < n} \<union> (\<lambda>i. (i, n)) ` {..<n}) =
      card {(i, j). i < j \<and> j < n} + card ((\<lambda>i. (i, n)) ` {..<n})"
    by (rule card_Un_disjoint [OF fin]) auto
  moreover have "card ((\<lambda>i. (i, n)) ` {..<n}) = n" by (simp add: card_image inj_on_def)
  ultimately have "length (index_pairs (Suc n)) = length (index_pairs n) + n" using len by simp
  then show ?case using Suc by (cases n) (simp_all add: algebra_simps)
qed (simp add: index_pairs_def)

text \<open>The pairs inside a set \<open>G\<close> of indices: \<open>|G| (|G| - 1) / 2\<close> of them.\<close>

lemma card_pairs_in:
  assumes "finite G"
  shows "2 * card {(i, j). i \<in> G \<and> j \<in> G \<and> i < (j::nat)} = card G * (card G - 1)"
  using assms
proof (induction G rule: finite_linorder_max_induct)
  case (insert b A)
  have fin: "finite {(i, j). i \<in> A \<and> j \<in> A \<and> i < j}"
    by (rule finite_subset [of _ "A \<times> A"]) (use insert.hyps in auto)
  have "{(i, j). i \<in> insert b A \<and> j \<in> insert b A \<and> i < j} =
        {(i, j). i \<in> A \<and> j \<in> A \<and> i < j} \<union> (\<lambda>i. (i, b)) ` A" using insert.hyps by auto
  moreover have "card ({(i, j). i \<in> A \<and> j \<in> A \<and> i < j} \<union> (\<lambda>i. (i, b)) ` A) =
      card {(i, j). i \<in> A \<and> j \<in> A \<and> i < j} + card ((\<lambda>i. (i, b)) ` A)"
    by (rule card_Un_disjoint [OF fin]) (use insert.hyps in auto)
  moreover have "card ((\<lambda>i. (i, b)) ` A) = card A" by (simp add: card_image inj_on_def)
  ultimately have "card {(i, j). i \<in> insert b A \<and> j \<in> insert b A \<and> i < j} =
      card {(i, j). i \<in> A \<and> j \<in> A \<and> i < j} + card A" by simp
  moreover have "card (insert b A) = Suc (card A)" using insert.hyps by (intro card_insert_disjoint) auto
  ultimately show ?case using insert.IH by (cases "card A") (simp_all add: algebra_simps)
qed simp

section \<open>Hours from the anchor\<close>

text \<open>
  Every Python float is a value of the format and every datetime is in range: \<open>sample_ok\<close>.
  \<open>tame\<close> adds a bound on the magnitude, far above any contract reading, under which no
  slope overflows.
\<close>

definition sample_ok :: "sample \<Rightarrow> bool" where
  "sample_ok s \<longleftrightarrow>
     (\<exists>t. sample_at s = Aware t \<and> dt_ok t) \<and> wf_float (sample_value s) \<and> finite_float (sample_value s)"

definition tame :: "sample \<Rightarrow> bool" where
  "tame s \<longleftrightarrow> (\<exists>t. sample_at s = Aware t \<and> dt_ok t) \<and> bounded 64 (sample_value s)"

lemma tame_ok: "tame s \<Longrightarrow> sample_ok s"
  using bounded_wf by (auto simp: tame_def sample_ok_def)

text \<open>Hours are finite, at most \<open>2\<^sup>5\<^sup>3\<close>, and have no bits below \<open>2\<^sup>-\<^sup>8\<^sup>4\<close>.\<close>

definition hour_float :: "pyfloat \<Rightarrow> bool" where
  "hour_float f \<longleftrightarrow>
     (\<exists>x. f = Fin x \<and> representable x \<and> \<bar>x\<bar> \<le> 2 ^ 53 \<and> (\<exists>n. x = of_int n * 2 powi (- 84)))"

lemma representable_powi: "- 1074 \<le> k \<Longrightarrow> k \<le> 0 \<Longrightarrow> representable (2 powi k)"
  using powi_le [of k 0] one_less_power [of "2::rat" 1024] rnd_powi [of k]
  unfolding representable_def by simp

text \<open>Two different instants are at least \<open>2\<^sup>-\<^sup>3\<^sup>2\<close> hours apart: a microsecond does not vanish.\<close>

lemma hours_lower:
  assumes "t \<noteq> a" and sec: "total_seconds (t - a) = Fin sec"
  shows "2 powi (- 32) \<le> \<bar>sec / 3600\<bar>"
proof -
  have "(1::rat) \<le> \<bar>of_int (t - a)\<bar>" using assms(1) by (simp flip: of_int_diff of_int_abs)
  then have "1 / 1000000 \<le> \<bar>of_int (t - a) / 1000000 :: rat\<bar>" by (simp add: abs_divide divide_right_mono)
  moreover have "(2::rat) powi (- 20) \<le> 1 / 1000000" by (simp add: power_int_minus)
  ultimately have "2 powi (- 20) \<le> \<bar>of_int (t - a) / 1000000 :: rat\<bar>" by (rule order_trans [rotated])
  moreover have "representable (2 powi (- 20))" by (rule representable_powi) simp_all
  ultimately have "2 powi (- 20) \<le> \<bar>sec\<bar>"
    using abs_fl_ge sec unfolding total_seconds_def by blast
  then have "2 powi (- 20) / 3600 \<le> \<bar>sec / 3600\<bar>" by (simp add: abs_divide divide_right_mono)
  moreover have "(2::rat) powi (- 32) \<le> 2 powi (- 20) / 3600" by (simp add: power_int_minus)
  ultimately show ?thesis by (rule order_trans [rotated])
qed

lemma hours_from_ok:
  assumes "sample_at s = Aware t" and "dt_ok t" and "dt_ok a"
  shows "\<exists>x. hours_from (Aware a) s = Inr x \<and> hour_float x \<and> (x = Fin 0 \<longleftrightarrow> t = a)"
proof -
  obtain sec where sec: "total_seconds (t - a) = Fin sec" "\<bar>sec\<bar> \<le> 2 ^ 53"
    using total_seconds_diff_finite [OF assms(2,3)] by blast
  have hf: "hours_from (Aware a) s = Inr (fl (sec / 3600))"
    using assms(1) sec by (simp add: hours_from_def)
  have "bounded 53 (fl (sec / 3600))" by (rule bounded_fl) (use sec(2) in simp_all)
  then obtain x where x: "fl (sec / 3600) = Fin x" "representable x" "\<bar>x\<bar> \<le> 2 ^ 53"
    by (auto elim: boundedE)
  have "(\<exists>n. x = of_int n * 2 powi (- 84)) \<and> (x = 0 \<longleftrightarrow> t = a)"
  proof (cases "t = a")
    case True
    then have "x = 0" using sec x by simp
    then show ?thesis using True by (auto intro: exI [of _ 0])
  next
    case False
    note lo = hours_lower [OF False sec(1)]
    have "2 powi (- 32) \<le> \<bar>x\<bar>" by (rule abs_fl_ge [OF representable_powi lo x(1)]) simp_all
    then have "x \<noteq> 0" by auto
    then show ?thesis using False rnd_grid_above [OF lo] fl_FinD [OF x(1)] by simp
  qed
  then show ?thesis using hf x by (auto simp: hour_float_def)
qed

lemma rmap_hours:
  assumes "\<forall>s \<in> set samples. sample_ok s" and "dt_ok a"
  shows "\<exists>xs. rmap (hours_from (Aware a)) samples = Inr xs \<and> length xs = length samples \<and>
              (\<forall>x \<in> set xs. hour_float x)"
  using assms(1)
proof (induction samples)
  case (Cons s ss)
  then obtain xs where xs: "rmap (hours_from (Aware a)) ss = Inr xs" "length xs = length ss"
    "\<forall>x \<in> set xs. hour_float x" by auto
  obtain t where "sample_at s = Aware t" "dt_ok t" using Cons.prems by (auto simp: sample_ok_def)
  then obtain x where "hours_from (Aware a) s = Inr x" "hour_float x"
    using hours_from_ok [OF _ _ assms(2)] by blast
  then show ?case using xs by simp
qed simp

lemma hour_float_bounded: "hour_float x \<Longrightarrow> bounded 53 x"
  by (auto simp: hour_float_def)

section \<open>The pairwise slopes\<close>

lemma fdiv_total: "g \<noteq> Fin 0 \<Longrightarrow> \<exists>h. fdiv f g = Inr h \<and> wf_float h"
proof -
  assume g: "g \<noteq> Fin 0"
  then have "\<exists>h. fdiv f g = Inr h" by (cases f; cases g) auto
  then show ?thesis using wf_fdiv by blast
qed

lemma hour_diff:
  assumes "hour_float f" and "hour_float g" and "\<not> feq f g"
  shows "\<exists>d. fsub f g = Fin d \<and> 2 powi (- 84) \<le> \<bar>d\<bar>"
proof -
  obtain x m where x: "f = Fin x" "representable x" "\<bar>x\<bar> \<le> 2 ^ 53" "x = of_int m * 2 powi (- 84)"
    using assms(1) unfolding hour_float_def by blast
  obtain y n where y: "g = Fin y" "representable y" "\<bar>y\<bar> \<le> 2 ^ 53" "y = of_int n * 2 powi (- 84)"
    using assms(2) unfolding hour_float_def by blast
  have ne: "x \<noteq> y" using assms(3) x(1) y(1) by simp
  have lo: "2 powi (- 84) \<le> \<bar>x - y\<bar>" by (rule grid_diff_lower [OF x(4) y(4) ne])
  have "\<bar>x - y\<bar> \<le> 2 ^ 54" using x(3) y(3) by (simp add: abs_le_iff)
  then have "bounded 54 (fl (x - y))" by (rule bounded_fl) simp
  then obtain d where d: "fl (x - y) = Fin d" by (auto elim: boundedE)
  have "2 powi (- 84) \<le> \<bar>d\<bar>" by (rule abs_fl_ge [OF representable_powi lo d]) simp_all
  then show ?thesis using d x(1) y(1) by simp
qed

lemma kept_pairsD:
  "(i, j) \<in> set (kept_pairs xs) \<Longrightarrow> i < j \<and> j < length xs \<and> \<not> feq (xs ! j) (xs ! i)"
  by (auto simp: kept_pairs_def set_index_pairs)

lemma pair_slope_total:
  assumes "\<forall>x \<in> set xs. hour_float x" and "p \<in> set (kept_pairs xs)"
  shows "\<exists>s. pair_slope xs ys p = Inr s \<and> wf_float s"
proof -
  obtain i j where p: "p = (i, j)" by force
  have ij: "i < length xs" "j < length xs" "\<not> feq (xs ! j) (xs ! i)"
    using kept_pairsD assms(2) p by fastforce+
  then obtain d where d: "fsub (xs ! j) (xs ! i) = Fin d" "2 powi (- 84) \<le> \<bar>d\<bar>"
    using hour_diff assms(1) by (meson nth_mem)
  then have "d \<noteq> 0" by auto
  then show ?thesis
    using fdiv_total [of "Fin d" "fsub (ys ! j) (ys ! i)"] d p by (simp add: pair_slope_def)
qed

lemma pair_slope_bounded:
  assumes "\<forall>x \<in> set xs. hour_float x" and "\<forall>y \<in> set ys. bounded 64 y" and "length ys = length xs"
    and "p \<in> set (kept_pairs xs)"
  shows "\<exists>s. pair_slope xs ys p = Inr s \<and> bounded 149 s"
proof -
  obtain i j where p: "p = (i, j)" by force
  have ij: "i < length xs" "j < length xs" "\<not> feq (xs ! j) (xs ! i)"
    using kept_pairsD assms(4) p by fastforce+
  then obtain d where d: "fsub (xs ! j) (xs ! i) = Fin d" "2 powi (- 84) \<le> \<bar>d\<bar>"
    using hour_diff assms(1) by (meson nth_mem)
  have "bounded (Suc 64) (fsub (ys ! j) (ys ! i))" using ij assms(2,3) by (intro bounded_fsub) auto
  then show ?thesis using bounded_fdiv [of 65 _ 84 d] d p by (simp add: pair_slope_def)
qed

lemma pairwise_slopes_ok:
  assumes "\<And>p. p \<in> set (kept_pairs xs) \<Longrightarrow> \<exists>s. pair_slope xs ys p = Inr s \<and> P s"
  shows "\<exists>g. pairwise_slopes xs ys = Inr (sort (map g (kept_pairs xs))) \<and>
             (\<forall>p \<in> set (kept_pairs xs). pair_slope xs ys p = Inr (g p) \<and> P (g p))"
proof -
  obtain g where g: "\<forall>p \<in> set (kept_pairs xs). pair_slope xs ys p = Inr (g p) \<and> P (g p)"
    using assms by metis
  then have "rmap (pair_slope xs ys) (kept_pairs xs) = Inr (map g (kept_pairs xs))"
    by (intro rmap_Inr) blast
  then show ?thesis using g by (intro exI [of _ g]) (simp add: pairwise_slopes_def)
qed

section \<open>The rank interval\<close>

lemma sqrt_unit_le: "1 / 2 ^ (k + 1) \<le> (1 / 2 :: rat)"
proof -
  have "(2::rat) ^ 1 \<le> 2 ^ (k + 1)" by (rule power_increasing) simp_all
  then show ?thesis by (simp add: divide_le_eq)
qed

lemma math_sqrt_approx_upper:
  assumes "0 \<le> v" and "v \<le> B\<^sup>2" and "0 \<le> B"
  shows "math_sqrt_approx v \<le> B + 1"
proof -
  define u :: rat where "u = 1 / 2 ^ (sqrt_scale v + 1)"
  have u1: "u \<le> 1" using sqrt_unit_le [of "sqrt_scale v"] by (simp only: u_def)
  from math_sqrt_approx_bracket(1) [OF assms(1)] show ?thesis
  proof
    assume "math_sqrt_approx v - 1 / 2 ^ (sqrt_scale v + 1) < 0"
    then have "math_sqrt_approx v < u" by (simp add: u_def)
    then show ?thesis using u1 assms(3) by linarith
  next
    assume "(math_sqrt_approx v - 1 / 2 ^ (sqrt_scale v + 1))\<^sup>2 \<le> v"
    then have "(math_sqrt_approx v - u)\<^sup>2 \<le> B\<^sup>2" using assms(2) by (simp add: u_def)
    then have "math_sqrt_approx v - u \<le> B" using assms(3) by (rule power2_le_imp_le)
    then show ?thesis using u1 by simp
  qed
qed

lemma math_sqrt_approx_lower:
  assumes "3 \<le> v"
  shows "1 \<le> math_sqrt_approx v"
proof -
  define u :: rat where "u = 1 / 2 ^ (sqrt_scale v + 1)"
  have u: "u \<le> 1 / 2" "0 \<le> u" using sqrt_unit_le [of "sqrt_scale v"] by (simp_all only: u_def) simp
  have "v \<le> (math_sqrt_approx v + u)\<^sup>2"
    using math_sqrt_approx_bracket(2) [of v] assms by (simp add: u_def)
  moreover have "(3 / 2 :: rat)\<^sup>2 \<le> v" using assms by (simp add: power2_eq_square)
  ultimately have "(3 / 2)\<^sup>2 \<le> (math_sqrt_approx v + u)\<^sup>2" by linarith
  then have "3 / 2 \<le> math_sqrt_approx v + u"
    by (rule power2_le_imp_le) (use math_sqrt_approx_nonneg [of v] u in simp)
  then show ?thesis using u by linarith
qed

lemma rank_spread_ok:
  assumes "3 \<le> n" and "n \<le> 2 ^ 17"
  shows "\<exists>p. rank_spread Z95 n = Inr (Fin p) \<and> 1 \<le> p \<and> p \<le> 2 ^ 29"
proof -
  define k where "k = n * (n - 1) * (2 * n + 5)"
  have "3 * 2 * 11 \<le> k" unfolding k_def by (intro mult_mono) (use assms in simp_all)
  moreover have "k \<le> 2 ^ 17 * 2 ^ 17 * (2 ^ 18 + 5)" unfolding k_def
    by (intro mult_mono) (use assms in simp_all)
  ultimately have k: "66 \<le> k" "k \<le> 2 ^ 53" by simp_all
  then have kf: "float_of_int k = Inr (Fin (of_int k))" by (intro float_of_int_small) simp
  have kr: "(of_int 66 :: rat) \<le> of_int k" "(of_int k :: rat) \<le> of_int (2 ^ 53)"
    using k by (simp_all only: of_int_le_iff)
  have "\<exists>v. fl (of_int k / 18) = Fin v \<and> of_int 3 \<le> v \<and> v \<le> of_int (2 ^ 53)"
    by (intro fl_between representable_of_int) (use kr in simp_all)
  then obtain v where v: "fl (of_int k / 18) = Fin v" "3 \<le> v" "v \<le> 2 ^ 53" by auto
  define a where "a = math_sqrt_approx v"
  have "1 \<le> a" unfolding a_def by (rule math_sqrt_approx_lower [OF v(2)])
  moreover have "a \<le> 2 ^ 27 + 1" unfolding a_def
    by (rule math_sqrt_approx_upper) (use v in simp_all)
  ultimately have a: "of_int 1 \<le> a" "a \<le> of_int (2 ^ 28)" by simp_all
  have "\<exists>q. fl a = Fin q \<and> of_int 1 \<le> q \<and> q \<le> of_int (2 ^ 28)"
    using a by (intro fl_between representable_of_int) simp_all
  then obtain q where q: "fl a = Fin q" "1 \<le> q" "q \<le> 2 ^ 28" by auto
  let ?z = "4413446535217089 / 2251799813685248 :: rat"
  have "1 * 1 \<le> ?z * q" by (intro mult_mono) (use q in simp_all)
  moreover have "?z * q \<le> 2 * 2 ^ 28" by (intro mult_mono) (use q in simp_all)
  ultimately have zq: "of_int 1 \<le> ?z * q" "?z * q \<le> of_int (2 ^ 29)" by simp_all
  have "\<exists>p. fl (?z * q) = Fin p \<and> of_int 1 \<le> p \<and> p \<le> of_int (2 ^ 29)"
    using zq by (intro fl_between representable_of_int) simp_all
  then obtain p where "fl (?z * q) = Fin p" "1 \<le> p" "p \<le> 2 ^ 29" by auto
  then show ?thesis
    using v q kf by (simp add: rank_spread_def k_def [symmetric] Z95_def a_def [symmetric])
qed

lemma representable_half: "\<bar>k\<bar> \<le> 2 ^ 53 \<Longrightarrow> representable (of_int k / 2)"
proof -
  assume k: "\<bar>k\<bar> \<le> 2 ^ 53"
  have "rnd (of_int k / 2) = of_int k / 2"
    using rnd_dyadic [OF k, of "- 1"] by (simp add: power_int_minus)
  moreover have "\<bar>of_int k / 2 :: rat\<bar> < 2 ^ 1024"
    using representable_of_int [OF k] by (simp add: representable_def)
  ultimately show ?thesis by (simp add: representable_def)
qed

lemma rank_low_ok:
  assumes "1 \<le> m" and "m \<le> 2 ^ 40" and "1 \<le> p" and "p \<le> 2 ^ 29"
  shows "\<exists>k. rank_low m (Fin p) = Inr k \<and> 0 \<le> k \<and> k \<le> (m - 1) div 2"
proof -
  have mf: "float_of_int m = Inr (Fin (of_int m))" using assms by (intro float_of_int_small) simp
  have mr: "(of_int 1 :: rat) \<le> of_int m" "(of_int m :: rat) \<le> of_int (2 ^ 40)"
    using assms(1,2) by (simp_all only: of_int_le_iff)
  have "\<exists>d. fl (of_int m - p) = Fin d \<and> of_int (- (2 ^ 53)) \<le> d \<and> d \<le> of_int (m - 1)"
    by (intro fl_between representable_of_int) (use assms mr in simp_all)
  then obtain d where d: "fl (of_int m - p) = Fin d" "of_int (- (2 ^ 53)) \<le> d" "d \<le> of_int (m - 1)" by blast
  have "\<exists>h. fl (d / 2) = Fin h \<and> of_int (- (2 ^ 53)) / 2 \<le> h \<and> h \<le> of_int (m - 1) / 2"
    by (intro fl_between representable_half) (use assms d(2,3) in simp_all)
  then obtain h where h: "fl (d / 2) = Fin h" "h \<le> of_int (m - 1) / of_int 2" by auto
  then have "\<lfloor>h\<rfloor> \<le> (m - 1) div 2" using floor_mono [OF h(2)] by (simp only: floor_divide_of_int_eq)
  then show ?thesis using mf d(1) h assms(1) by (auto simp: rank_low_def clamp_rank_def)
qed

lemma rank_high_ok:
  assumes "1 \<le> m" and "m \<le> 2 ^ 40" and "1 \<le> p" and "p \<le> 2 ^ 29"
  shows "\<exists>k. rank_high m (Fin p) = Inr k \<and> m div 2 \<le> k \<and> k \<le> m - 1"
proof -
  have mf: "float_of_int m = Inr (Fin (of_int m))" using assms by (intro float_of_int_small) simp
  have mr: "(of_int 1 :: rat) \<le> of_int m" "(of_int m :: rat) \<le> of_int (2 ^ 40)"
    using assms(1,2) by (simp_all only: of_int_le_iff)
  have "\<exists>d. fl (of_int m + p) = Fin d \<and> of_int m \<le> d \<and> d \<le> of_int (2 ^ 53)"
    by (intro fl_between representable_of_int) (use assms mr in simp_all)
  then obtain d where d: "fl (of_int m + p) = Fin d" "of_int m \<le> d" "d \<le> of_int (2 ^ 53)" by blast
  have "\<exists>h. fl (d / 2) = Fin h \<and> of_int m / 2 \<le> h \<and> h \<le> of_int (2 ^ 53) / 2"
    by (intro fl_between representable_half) (use assms d(2,3) in simp_all)
  then obtain h where h: "fl (d / 2) = Fin h" "of_int m / of_int 2 \<le> h" by auto
  then have "m div 2 \<le> \<lfloor>h\<rfloor>" using floor_mono [OF h(2)] by (simp only: floor_divide_of_int_eq)
  also have "\<dots> \<le> \<lceil>h\<rceil>" by (rule floor_le_ceiling)
  finally show ?thesis using mf d(1) h assms(1) by (auto simp: rank_high_def clamp_rank_def)
qed

section \<open>The fit as a whole\<close>

text \<open>
  A run of the estimator that gets past its two early returns, with the names of its
  intermediate values and the bounds of the two ranks. All later facts are about this form.
\<close>

lemma length_kept_pairs: "2 * length (kept_pairs xs) \<le> length xs * (length xs - 1)"
  using length_index_pairs [of "length xs"] length_filter_le [of _ "index_pairs (length xs)"]
  unfolding kept_pairs_def by (metis mult_le_mono2)

definition clean_series :: "sample list \<Rightarrow> bool" where
  "clean_series samples \<longleftrightarrow> (\<forall>s \<in> set samples. sample_ok s) \<and> length samples \<le> 2 ^ 17"

definition fit_hours :: "sample list \<Rightarrow> pyfloat list \<Rightarrow> bool" where
  "fit_hours samples xs \<longleftrightarrow>
     rmap (hours_from (sample_at (last samples))) samples = Inr xs \<and>
     length xs = length samples \<and> (\<forall>x \<in> set xs. hour_float x)"

lemma fit_hours_exist:
  assumes "clean_series samples" and "samples \<noteq> []"
  shows "\<exists>xs. fit_hours samples xs"
proof -
  have "sample_ok (last samples)" using assms by (simp add: clean_series_def)
  then obtain a where "sample_at (last samples) = Aware a" "dt_ok a" by (auto simp: sample_ok_def)
  then show ?thesis
    using rmap_hours [of samples a] assms(1) by (auto simp: fit_hours_def clean_series_def)
qed

definition pair_slope_value :: "pyfloat list \<Rightarrow> pyfloat list \<Rightarrow> nat \<times> nat \<Rightarrow> pyfloat" where
  "pair_slope_value xs ys p = (case pair_slope xs ys p of Inr s \<Rightarrow> s | Inl _ \<Rightarrow> NaN)"

definition slope_list :: "pyfloat list \<Rightarrow> pyfloat list \<Rightarrow> pyfloat list" where
  "slope_list xs ys = sort (map (pair_slope_value xs ys) (kept_pairs xs))"

lemma pairwise_slopes_value:
  assumes "\<forall>x \<in> set xs. hour_float x"
  shows "pairwise_slopes xs ys = Inr (slope_list xs ys)"
proof -
  have "rmap (pair_slope xs ys) (kept_pairs xs) = Inr (map (pair_slope_value xs ys) (kept_pairs xs))"
  proof (rule rmap_Inr)
    fix p assume "p \<in> set (kept_pairs xs)"
    then obtain s where "pair_slope xs ys p = Inr s" using pair_slope_total [OF assms] by blast
    then show "pair_slope xs ys p = Inr (pair_slope_value xs ys p)" by (simp add: pair_slope_value_def)
  qed
  then show ?thesis by (simp add: pairwise_slopes_def slope_list_def)
qed

lemma length_slope_list [simp]: "length (slope_list xs ys) = length (kept_pairs xs)"
  by (simp add: slope_list_def)

text \<open>The middle ranks of \<open>m\<close> sorted slopes, and the two rank positions around them.\<close>

lemma theil_sen_run:
  assumes c: "clean_series samples" and n: "3 \<le> length samples" and xs: "fit_hours samples xs"
    and ne: "kept_pairs xs \<noteq> []"
  defines "ys \<equiv> map sample_value samples"
  defines "slopes \<equiv> slope_list xs ys"
  obtains slope low high intercept mad where
    "theil_sen Z95 samples = Inr (Some \<lparr>
       slope_per_hour = slope, slope_low_per_hour = slopes ! low, slope_high_per_hour = slopes ! high,
       value_at_anchor = intercept, anchor_at = sample_at (last samples), residual_mad = mad,
       points = int (length samples), segment_points = int (length samples),
       span_seconds = fmul (fneg (xs ! 0)) (Fin 3600), truncated = False\<rparr>)"
    and "median slopes = Inr slope" and "low \<le> (length slopes - 1) div 2"
    and "length slopes div 2 \<le> high" and "high < length slopes"
    and "median (residuals slope xs ys) = Inr intercept"
    and "median (abs_residuals slope intercept xs ys) = Inr mad"
proof -
  let ?n = "length samples" and ?m = "length slopes"
  have nle: "?n \<le> 2 ^ 17" using c by (simp add: clean_series_def)
  have ps: "pairwise_slopes xs ys = Inr slopes"
    using pairwise_slopes_value xs unfolding fit_hours_def slopes_def by blast
  have len: "length xs = ?n" "length ys = ?n" using xs by (simp_all add: fit_hours_def ys_def)
  have m1: "1 \<le> int ?m" using ne by (cases "kept_pairs xs") (simp_all add: slopes_def)
  have "2 * ?m \<le> ?n * (?n - 1)" using length_kept_pairs [of xs] len by (simp add: slopes_def)
  also have "\<dots> \<le> 2 ^ 17 * 2 ^ 17" using nle by (intro mult_le_mono) simp_all
  finally have m2: "int ?m \<le> 2 ^ 40" by simp
  obtain slope where slope: "median slopes = Inr slope"
    using median_total [of slopes] m1 by fastforce
  obtain p where p: "rank_spread Z95 (int ?n) = Inr (Fin p)" "1 \<le> p" "p \<le> 2 ^ 29"
    using rank_spread_ok [of "int ?n"] n nle by auto
  obtain k where k: "rank_low (int ?m) (Fin p) = Inr k" "0 \<le> k" "k \<le> (int ?m - 1) div 2"
    using rank_low_ok [OF m1 m2 p(2,3)] by blast
  obtain h where h: "rank_high (int ?m) (Fin p) = Inr h" "int ?m div 2 \<le> h" "h \<le> int ?m - 1"
    using rank_high_ok [OF m1 m2 p(2,3)] by blast
  obtain intercept where intercept: "median (residuals slope xs ys) = Inr intercept"
    using median_total [of "residuals slope xs ys"] len n by (fastforce simp: residuals_def)
  obtain mad where mad: "median (abs_residuals slope intercept xs ys) = Inr mad"
    using median_total [of "abs_residuals slope intercept xs ys"] len n by (fastforce simp: abs_residuals_def)
  show ?thesis
  proof (rule that [of slope "nat k" "nat h" intercept mad])
    show "theil_sen Z95 samples = Inr (Some \<lparr>
       slope_per_hour = slope, slope_low_per_hour = slopes ! nat k, slope_high_per_hour = slopes ! nat h,
       value_at_anchor = intercept, anchor_at = sample_at (last samples), residual_mad = mad,
       points = int ?n, segment_points = int ?n,
       span_seconds = fmul (fneg (xs ! 0)) (Fin 3600), truncated = False\<rparr>)"
      using n xs ps slope p(1) k(1) h(1) intercept mad m1
      by (auto simp: theil_sen_def MIN_FIT_POINTS_def fit_hours_def ys_def [symmetric] Let_def)
    show "nat k \<le> (?m - 1) div 2" using k m1 by linarith
    show "?m div 2 \<le> nat h" using h by linarith
    show "nat h < ?m" using h m1 by linarith
  qed (fact slope intercept mad)+
qed

text \<open>Without a kept pair, or below three samples, there is no fit; nothing else can happen.\<close>

lemma theil_sen_no_fit:
  assumes "clean_series samples" and "fit_hours samples xs" and "kept_pairs xs = [] \<or> length samples < 3"
  shows "theil_sen Z95 samples = Inr None"
proof (cases "length samples < 3")
  case False
  then have "kept_pairs xs = []" using assms(3) by blast
  moreover have "pairwise_slopes xs (map sample_value samples) = Inr (slope_list xs (map sample_value samples))"
    using assms(2) pairwise_slopes_value by (simp add: fit_hours_def)
  ultimately show ?thesis
    using assms(2) by (simp add: theil_sen_def MIN_FIT_POINTS_def fit_hours_def slope_list_def Let_def)
qed (simp add: theil_sen_def MIN_FIT_POINTS_def)

lemma theil_sen_total:
  assumes "clean_series samples"
  shows "\<exists>r. theil_sen Z95 samples = Inr r"
proof (cases "length samples < 3")
  case False
  then obtain xs where xs: "fit_hours samples xs" using fit_hours_exist [OF assms] by fastforce
  show ?thesis
  proof (cases "kept_pairs xs = []")
    case False
    with xs \<open>\<not> length samples < 3\<close> show ?thesis
      by (metis theil_sen_run [OF assms] not_less)
  qed (use theil_sen_no_fit [OF assms xs] in blast)
qed (simp add: theil_sen_def MIN_FIT_POINTS_def)

end
