(* ===== verification/Fit_Laws.thy ===== *)
theory Fit_Laws
  imports Theil_Sen
begin

text \<open>
  What a fit promises its caller: on readings of sane magnitude every number in it is finite,
  the slope lies inside its interval, the scale is not negative; and a contaminated minority of
  the samples cannot move the slope out of the range of the clean pairs.
\<close>

section \<open>Order statistics\<close>

lemma bounded_nth_sort: "\<forall>x \<in> set xs. bounded k x \<Longrightarrow> i < length xs \<Longrightarrow> bounded k (sort xs ! i)"
  by (metis length_sort nth_mem set_sort)

lemma median_ranks:
  assumes b: "\<forall>x \<in> set xs. bounded k x" and k: "k \<le> 1022"
    and lo: "lo \<le> (length xs - 1) div 2" and hi: "length xs div 2 \<le> hi" "hi < length xs"
  shows "\<exists>m. median xs = Inr m \<and> bounded k m \<and> sort xs ! lo \<le> m \<and> m \<le> sort xs ! hi"
proof -
  let ?n = "length xs" and ?d = "sort xs"
  have n: "0 < ?n" using hi(2) by linarith
  obtain m where m: "median xs = Inr m" "bounded k m" using bounded_median [of xs k] b k n by auto
  have mid: "(?n - 1) div 2 < ?n" "(?n - 1) div 2 \<le> ?n div 2" "?n div 2 < ?n"
    using n by presburger+
  obtain a where a: "?d ! ((?n - 1) div 2) = Fin a" "representable a" "\<bar>a\<bar> \<le> 2 ^ k"
    using bounded_nth_sort [OF b mid(1)] by (auto elim: boundedE)
  obtain c where c: "?d ! (?n div 2) = Fin c" "representable c" "\<bar>c\<bar> \<le> 2 ^ k"
    using bounded_nth_sort [OF b mid(3)] by (auto elim: boundedE)
  have ac: "a \<le> c" using sorted_nth_mono [of ?d, OF sorted_sort mid(2)] mid a c by simp
  have half: "halvable x" if "representable x" "\<bar>x\<bar> \<le> 2 ^ k" for x
    using that halvable_pow [OF k] by (auto simp: halvable_def representable_def)
  have "Fin a \<le> m \<and> m \<le> Fin c"
  proof (cases "odd ?n")
    case True
    then have "(?n - 1) div 2 = ?n div 2" by (auto elim!: oddE)
    then show ?thesis using True m(1) a(1) c(1) n by (auto simp: median_def Let_def)
  next
    case False
    then have e: "(?n - 1) div 2 = ?n div 2 - 1" using n by (auto elim!: evenE)
    have "\<exists>q. fdiv (fadd (Fin a) (Fin c)) (Fin 2) = Inr (Fin q) \<and> a \<le> q \<and> q \<le> c"
      by (rule average_between) (use a c ac half in \<open>simp_all add: representable_def\<close>)
    moreover have "median xs = fdiv (fadd (Fin a) (Fin c)) (Fin 2)"
      using False n a(1) c(1) e by (simp add: median_def Let_def del: fdiv.simps)
    ultimately show ?thesis using m(1) by auto
  qed
  moreover have "?d ! lo \<le> Fin a"
    using sorted_nth_mono [of ?d lo "(?n - 1) div 2"] lo mid a(1) by simp
  moreover have "Fin c \<le> ?d ! hi"
    using sorted_nth_mono [of ?d "?n div 2" hi] hi c(1) by simp
  ultimately show ?thesis using m by (auto intro: order_trans)
qed

section \<open>The numbers of a fit\<close>

definition tame_series :: "sample list \<Rightarrow> bool" where
  "tame_series samples \<longleftrightarrow> (\<forall>s \<in> set samples. tame s) \<and> length samples \<le> 2 ^ 17"

lemma tame_clean: "tame_series samples \<Longrightarrow> clean_series samples"
  using tame_ok by (auto simp: tame_series_def clean_series_def)

lemma tame_slopes:
  assumes "tame_series samples" and "fit_hours samples xs"
  shows "\<forall>s \<in> set (map (pair_slope_value xs (map sample_value samples)) (kept_pairs xs)). bounded 149 s"
proof -
  have "bounded 149 (pair_slope_value xs (map sample_value samples) p)" if p: "p \<in> set (kept_pairs xs)" for p
    using pair_slope_bounded [of xs "map sample_value samples" p] assms p
    by (fastforce simp: fit_hours_def tame_series_def tame_def pair_slope_value_def)
  then show ?thesis by simp
qed

lemma fit_Some_kept:
  assumes "clean_series samples" and "theil_sen Z95 samples = Inr (Some f)"
  obtains xs where "fit_hours samples xs" and "kept_pairs xs \<noteq> []" and "3 \<le> length samples"
proof -
  have "\<not> length samples < 3" using assms(2) by (intro notI) (simp add: theil_sen_def MIN_FIT_POINTS_def)
  then have n: "3 \<le> length samples" by simp
  then obtain xs where xs: "fit_hours samples xs" using fit_hours_exist [OF assms(1)] by force
  then have "kept_pairs xs \<noteq> []" using theil_sen_no_fit [OF assms(1) xs] assms(2) by auto
  with xs n that show thesis by blast
qed

text \<open>Three samples whose ends are apart always have a fit: the pair of the two ends is kept.\<close>

lemma theil_sen_Some:
  assumes c: "clean_series samples" and n: "3 \<le> length samples"
    and ends: "sample_at (hd samples) \<noteq> sample_at (last samples)"
  shows "\<exists>f. theil_sen Z95 samples = Inr (Some f)"
proof -
  have ne: "samples \<noteq> []" using n by auto
  obtain xs where xs: "fit_hours samples xs" using fit_hours_exist [OF c ne] by blast
  have ok: "sample_ok (samples ! 0)" "sample_ok (last samples)" using c ne by (auto simp: clean_series_def)
  obtain a where a: "sample_at (last samples) = Aware a" "dt_ok a" using ok by (auto simp: sample_ok_def)
  obtain t where t: "sample_at (samples ! 0) = Aware t" "dt_ok t" using ok by (auto simp: sample_ok_def)
  have ta: "t \<noteq> a" using ends a t ne by (simp add: hd_conv_nth)
  have h: "hours_from (Aware a) (samples ! i) = Inr (xs ! i)" if "i < length samples" for i
    using xs a that rmap_InrD by (auto simp: fit_hours_def)
  have len: "length xs = length samples" using xs by (simp add: fit_hours_def)
  have "xs ! 0 \<noteq> Fin 0" using hours_from_ok [OF t a(2)] h [of 0] ta ne by auto
  moreover have "xs ! (length samples - 1) = Fin 0"
    using hours_from_ok [OF a(1) a(2) a(2)] h [of "length samples - 1"] ne by (simp add: last_conv_nth)
  ultimately have "(0, length samples - 1) \<in> set (kept_pairs xs)"
    using n len by (auto simp: kept_pairs_def set_index_pairs feq_def)
  then have "kept_pairs xs \<noteq> []" by force
  then show ?thesis using theil_sen_run [OF c n xs] by metis
qed

lemma bounded_residuals:
  assumes "bounded 149 m" and "\<forall>x \<in> set xs. hour_float x" and "\<forall>y \<in> set ys. bounded 64 y"
    and "r \<in> set (residuals m xs ys)"
  shows "bounded 203 r"
proof -
  obtain x y where r: "r = fsub y (fmul m x)" and xy: "x \<in> set xs" "y \<in> set ys"
    using assms(4) by (auto simp: residuals_def dest: set_zip_leftD set_zip_rightD)
  have "bounded 202 (fmul m x)" using bounded_fmul [of 149 m 53 x] assms(1,2) xy hour_float_bounded by simp
  moreover have "bounded 202 y" using assms(3) xy bounded_mono [of 64 y 202] by simp
  ultimately show ?thesis using bounded_fsub [of 202 y "fmul m x"] r by simp
qed

lemma bounded_abs_residuals:
  assumes "bounded 149 m" and "bounded 203 b" and "\<forall>x \<in> set xs. hour_float x"
    and "\<forall>y \<in> set ys. bounded 64 y" and "r \<in> set (abs_residuals m b xs ys)"
  shows "bounded 205 r \<and> Fin 0 \<le> r"
proof -
  obtain x y where r: "r = fabs (fsub y (fadd (fmul m x) b))" and xy: "x \<in> set xs" "y \<in> set ys"
    using assms(5) by (auto simp: abs_residuals_def dest: set_zip_leftD set_zip_rightD)
  have "bounded 203 (fmul m x)"
    using bounded_fmul [of 149 m 53 x] bounded_mono [of 202 "fmul m x" 203] assms(1,3) xy hour_float_bounded
    by simp
  then have "bounded 204 (fadd (fmul m x) b)" using bounded_fadd [of 203 "fmul m x" b] assms(2) by simp
  then have "bounded 205 (fsub y (fadd (fmul m x) b))"
    using bounded_fsub [of 204 y] assms(4) xy bounded_mono [of 64 y 204] by simp
  then show ?thesis using r bounded_fabs by (auto elim!: boundedE)
qed

definition sane_fit :: "fit \<Rightarrow> bool" where
  "sane_fit f \<longleftrightarrow>
     bounded 149 (slope_low_per_hour f) \<and> bounded 149 (slope_per_hour f) \<and>
     bounded 149 (slope_high_per_hour f) \<and>
     slope_low_per_hour f \<le> slope_per_hour f \<and> slope_per_hour f \<le> slope_high_per_hour f \<and>
     bounded 203 (value_at_anchor f) \<and> bounded 205 (residual_mad f) \<and> Fin 0 \<le> residual_mad f"

lemma theil_sen_sane:
  assumes t: "tame_series samples" and f: "theil_sen Z95 samples = Inr (Some f)"
  shows "sane_fit f \<and> anchor_at f = sample_at (last samples) \<and>
         points f = int (length samples) \<and> segment_points f = int (length samples) \<and> \<not> truncated f"
proof -
  note c = tame_clean [OF t]
  obtain xs where xs: "fit_hours samples xs" and ne: "kept_pairs xs \<noteq> []" and n: "3 \<le> length samples"
    using fit_Some_kept [OF c f] by blast
  define ys where "ys = map sample_value samples"
  define raw where "raw = map (pair_slope_value xs ys) (kept_pairs xs)"
  have srt: "slope_list xs ys = sort raw" by (simp add: slope_list_def raw_def)
  have raw: "\<forall>s \<in> set raw. bounded 149 s" using tame_slopes [OF t xs] by (simp add: raw_def ys_def)
  have yb: "\<forall>y \<in> set ys. bounded 64 y" using t by (auto simp: ys_def tame_series_def tame_def)
  have hx: "\<forall>x \<in> set xs. hour_float x" "length xs = length ys" using xs by (simp_all add: fit_hours_def ys_def)
  obtain slope low high intercept mad where run:
    "theil_sen Z95 samples = Inr (Some \<lparr>
       slope_per_hour = slope, slope_low_per_hour = sort raw ! low, slope_high_per_hour = sort raw ! high,
       value_at_anchor = intercept, anchor_at = sample_at (last samples), residual_mad = mad,
       points = int (length samples), segment_points = int (length samples),
       span_seconds = fmul (fneg (xs ! 0)) (Fin 3600), truncated = False\<rparr>)"
    and med: "median (sort raw) = Inr slope" and low: "low \<le> (length (sort raw) - 1) div 2"
    and high: "length (sort raw) div 2 \<le> high" "high < length (sort raw)"
    and ic: "median (residuals slope xs ys) = Inr intercept"
    and md: "median (abs_residuals slope intercept xs ys) = Inr mad"
    using theil_sen_run [OF c n xs ne] unfolding ys_def [symmetric] srt by blast
  have med': "median raw = Inr slope" using med median_mset_cong [of "sort raw" raw] by (simp add: sorted_sort_id)
  have low': "low \<le> (length raw - 1) div 2" and high': "length raw div 2 \<le> high" "high < length raw"
    using low high by simp_all
  have band: "bounded 149 slope" "sort raw ! low \<le> slope" "slope \<le> sort raw ! high"
    using median_ranks [OF raw _ low' high'] med' by auto
  have ends: "bounded 149 (sort raw ! low)" "bounded 149 (sort raw ! high)"
    using bounded_nth_sort [OF raw] low' high' by auto
  have ysn: "ys \<noteq> []" using n by (auto simp: ys_def)
  have rn: "residuals slope xs ys \<noteq> []" "abs_residuals slope intercept xs ys \<noteq> []"
    using ysn hx(2) by (cases xs; cases ys; simp add: residuals_def abs_residuals_def)+
  have ib: "bounded 203 intercept"
    using bounded_median [OF rn(1), of 203] bounded_residuals [OF band(1) hx(1) yb] ic by auto
  have ab: "bounded 205 r \<and> Fin 0 \<le> r" if "r \<in> set (abs_residuals slope intercept xs ys)" for r
    by (rule bounded_abs_residuals [OF band(1) ib hx(1) yb that])
  have mb: "bounded 205 mad" using bounded_median [OF rn(2), of 205] ab md by auto
  have wr: "wf_float r \<and> Fin 0 \<le> r \<and> r \<le> Fin (2 ^ 205)"
    if "r \<in> set (abs_residuals slope intercept xs ys)" for r
    using ab [OF that] bounded_interval [of 205 r] bounded_wf [of 205 r] by blast
  have "\<exists>m. median (abs_residuals slope intercept xs ys) = Inr (Fin m) \<and> 0 \<le> m \<and> m \<le> 2 ^ 205"
    by (rule median_between [OF _ halvable_pow rn(2) wr]) (simp_all add: halvable_def [of 0])
  then have "Fin 0 \<le> mad" using md by auto
  then show ?thesis using run f band ends ib mb by (simp add: sane_fit_def)
qed

section \<open>Contamination\<close>

text \<open>
  The number of pairs inside a set \<open>G\<close> of positions, against the number of all pairs: with
  \<open>n (n - 1) < 2 g (g - 1)\<close> (asymptotically \<open>g > n / \<surd>2\<close>, the 29 percent of the literature) the
  clean pairs are a strict majority.
\<close>

lemma clean_pairs_majority:
  assumes len: "length xs = n" and G: "G \<subseteq> {..<n}" and maj: "n * (n - 1) < 2 * (card G * (card G - 1))"
    and clean: "\<forall>i \<in> G. \<forall>j \<in> G. i < j \<longrightarrow> (i, j) \<in> set (kept_pairs xs) \<and> P (i, j)"
  shows "length (kept_pairs xs) < 2 * length (filter P (kept_pairs xs))"
proof -
  have fin: "finite G" using G finite_subset by blast
  have dist: "distinct (filter P (kept_pairs xs))"
    by (simp add: kept_pairs_def distinct_index_pairs)
  have "{(i, j). i \<in> G \<and> j \<in> G \<and> i < j} \<subseteq> set (filter P (kept_pairs xs))" using clean by auto
  then have "card {(i, j). i \<in> G \<and> j \<in> G \<and> i < j} \<le> length (filter P (kept_pairs xs))"
    using card_mono [of "set (filter P (kept_pairs xs))"] distinct_card [OF dist] by simp
  moreover have "2 * length (kept_pairs xs) \<le> n * (n - 1)" using length_kept_pairs [of xs] len by simp
  ultimately show ?thesis using card_pairs_in [OF fin] maj by linarith
qed

lemma pair_slope_keptI:
  assumes "pair_slope xs ys (i, j) = Inr s" and "\<forall>x \<in> set xs. hour_float x" and "i < j" and "j < length xs"
  shows "(i, j) \<in> set (kept_pairs xs)"
proof -
  have "hour_float (xs ! i)" using assms(2-4) by simp
  then obtain a where a: "xs ! i = Fin a" by (auto simp: hour_float_def)
  have "\<not> feq (xs ! j) (xs ! i)" using assms(1) a by (auto simp: pair_slope_def feq_def)
  then show ?thesis using assms(3,4) by (simp add: kept_pairs_def set_index_pairs)
qed

lemma theil_sen_contaminated:
  assumes c: "clean_series samples" and xs: "fit_hours samples xs"
    and card3: "3 \<le> length samples" and G: "G \<subseteq> {..<length samples}"
    and maj: "length samples * (length samples - 1) < 2 * (card G * (card G - 1))"
    and lo: "halvable lo" and hi: "halvable hi"
    and clean: "\<forall>i \<in> G. \<forall>j \<in> G. i < j \<longrightarrow>
        (\<exists>s. pair_slope xs (map sample_value samples) (i, j) = Inr s \<and> Fin lo \<le> s \<and> s \<le> Fin hi)"
  shows "\<exists>f. theil_sen Z95 samples = Inr (Some f) \<and> Fin lo \<le> slope_per_hour f \<and> slope_per_hour f \<le> Fin hi"
proof -
  define ys where "ys = map sample_value samples"
  let ?P = "\<lambda>p. Fin lo \<le> pair_slope_value xs ys p \<and> pair_slope_value xs ys p \<le> Fin hi"
  have len: "length xs = length samples" and hx: "\<forall>x \<in> set xs. hour_float x"
    using xs by (simp_all add: fit_hours_def)
  have P: "(i, j) \<in> set (kept_pairs xs) \<and> ?P (i, j)" if "i \<in> G" "j \<in> G" "i < j" for i j
    using clean that G len pair_slope_keptI [OF _ hx, of ys i j]
    by (fastforce simp: ys_def pair_slope_value_def)
  have m: "length (kept_pairs xs) < 2 * length (filter ?P (kept_pairs xs))"
    by (rule clean_pairs_majority [OF len G maj]) (use P in blast)
  have ne: "kept_pairs xs \<noteq> []" using m by auto
  have "wf_float (pair_slope_value xs ys p)" if "p \<in> set (kept_pairs xs)" for p
    using pair_slope_total [OF hx that, of ys] by (auto simp: pair_slope_value_def)
  then have wf: "\<forall>s \<in> set (slope_list xs ys). wf_float s" by (simp add: slope_list_def)
  have "length (filter (\<lambda>x. Fin lo \<le> x \<and> x \<le> Fin hi) (slope_list xs ys)) = length (filter ?P (kept_pairs xs))"
    by (simp add: slope_list_def length_filter_sort filter_map o_def)
  then have "\<exists>r. median (slope_list xs ys) = Inr (Fin r) \<and> lo \<le> r \<and> r \<le> hi"
    using m by (intro median_majority [OF lo hi wf]) simp
  moreover obtain f where "theil_sen Z95 samples = Inr (Some f)"
    and "median (slope_list xs ys) = Inr (slope_per_hour f)"
    using theil_sen_run [OF c card3 xs ne] unfolding ys_def [symmetric] by (metis fit.select_convs(1))
  ultimately show ?thesis by auto
qed

end
