(* ===== verification/Forecast.thy ===== *)
theory Forecast
  imports Fit_Laws
begin

text \<open>
  The entry point of \<^verbatim>\<open>analytics/model.py\<close>: samples in, a dated crossing or a status out. The
  estimator is the one of \<open>Theil_Sen\<close>, the segmentation the one of \<open>Segments\<close>. Exceptions are
  values, so that "total by construction" is a statement about the function.
\<close>

section \<open>Statuses and forecasts\<close>

datatype status =
    OK
  | NO_DATA
  | STALE
  | INVALID_SERIES
  | INSUFFICIENT_POINTS
  | INSUFFICIENT_SPAN
  | AT_OR_BELOW_TARGET
  | NOT_DEPLETING
  | BEYOND_HORIZON

definition CROSSING_STATUSES :: "status set" where
  "CROSSING_STATUSES = {OK, BEYOND_HORIZON, AT_OR_BELOW_TARGET}"

record forecast_record =
  fc_kind :: string
  fc_status :: status
  as_of :: "py_datetime option"
  fc_target :: pyfloat
  latest_value :: "pyfloat option"
  crosses_at :: "py_datetime option"
  crosses_at_earliest :: "py_datetime option"
  crosses_at_latest :: "py_datetime option"
  fc_fit :: "fit option"

section \<open>The crossing of one line\<close>

definition crossing :: "pyfloat \<Rightarrow> pyfloat \<Rightarrow> pyfloat \<Rightarrow> py_datetime \<Rightarrow> py_datetime option res" where
  "crossing value_now tgt slope anchor =
     (if fle (Fin 0) slope then Inr None
      else rbind (fdiv (fsub value_now tgt) (fneg slope)) (\<lambda>q.
           rbind (timedelta_of us_per_hour (py_max (Fin 0) q)) (\<lambda>d.
           rbind (dt_add anchor d) (\<lambda>t. Inr (Some t)))))"

section \<open>The entry point\<close>

definition no_crossing ::
  "metric \<Rightarrow> status \<Rightarrow> py_datetime option \<Rightarrow> pyfloat option \<Rightarrow> forecast_record" where
  "no_crossing m st as_of' latest = \<lparr>
     fc_kind = metric_kind m, fc_status = st, as_of = as_of', fc_target = target m,
     latest_value = latest, crosses_at = None, crosses_at_earliest = None,
     crosses_at_latest = None, fc_fit = None\<rparr>"

definition stale_limit :: "metric \<Rightarrow> pyfloat option \<Rightarrow> pyfloat" where
  "stale_limit m cadence = (case cadence of
       None \<Rightarrow> stale_after_seconds m
     | Some c \<Rightarrow> py_max (stale_after_seconds m) (fmul c (gap_factor m)))"

definition seconds_between :: "py_datetime \<Rightarrow> py_datetime \<Rightarrow> pyfloat res" where
  "seconds_between a b = rbind (dt_sub a b) (\<lambda>d. Inr (total_seconds d))"

text \<open>Did the lookback edge, rather than the device's history, choose where the segment begins?\<close>

definition reached_edge ::
  "metric \<Rightarrow> pyfloat option \<Rightarrow> sample list \<Rightarrow> py_datetime option \<Rightarrow> bool res" where
  "reached_edge m cadence segment window_start = (case window_start of
       None \<Rightarrow> Inr True
     | Some w \<Rightarrow>
         rbind (seconds_between (sample_at (hd segment)) w) (\<lambda>d.
         Inr (fle d (case cadence of Some c \<Rightarrow> fmul c (gap_factor m) | None \<Rightarrow> Fin 0))))"

text \<open>The end of \<^verbatim>\<open>forecast\<close>: a fit in hand, from the crossing to the record.\<close>

definition with_fit :: "metric \<Rightarrow> sample \<Rightarrow> fit \<Rightarrow> forecast_record res" where
  "with_fit m newest f =
     rbind (crossing (value_at_anchor f) (target m) (slope_per_hour f) (anchor_at f)) (\<lambda>c.
       case c of
         None \<Rightarrow> Inr \<lparr>
           fc_kind = metric_kind m, fc_status = NOT_DEPLETING, as_of = Some (sample_at newest),
           fc_target = target m, latest_value = Some (sample_value newest), crosses_at = None,
           crosses_at_earliest = None, crosses_at_latest = None, fc_fit = Some f\<rparr>
       | Some t \<Rightarrow>
           rbind (seconds_between t (anchor_at f)) (\<lambda>h.
           let st = (if flt (max_horizon_seconds m) h then BEYOND_HORIZON else OK) in
           rbind (crossing (value_at_anchor f) (target m) (slope_low_per_hour f) (anchor_at f)) (\<lambda>early.
           rbind (crossing (value_at_anchor f) (target m) (slope_high_per_hour f) (anchor_at f)) (\<lambda>late.
           Inr \<lparr>
             fc_kind = metric_kind m, fc_status = st, as_of = Some (sample_at newest),
             fc_target = target m, latest_value = Some (sample_value newest), crosses_at = Some t,
             crosses_at_earliest = early, crosses_at_latest = late, fc_fit = Some f\<rparr>))))"

text \<open>The middle: the newest segment, its gates, the fit.\<close>

definition with_series ::
  "metric \<Rightarrow> sample list \<Rightarrow> pyfloat option \<Rightarrow> py_datetime option \<Rightarrow> forecast_record res" where
  "with_series m samples cadence window_start =
     (let newest = last samples;
          give_up = (\<lambda>st. no_crossing m st (Some (sample_at newest)) (Some (sample_value newest))) in
      rbind (split_segments samples (refill_jump m) (gap_factor m)) (\<lambda>segments.
      let segment = last segments in
      if int (length segment) < min_points m then Inr (give_up INSUFFICIENT_POINTS)
      else
        let fit_samples = slice_last (max_fit_points m) segment in
        rbind (seconds_between (sample_at (last fit_samples)) (sample_at (hd fit_samples))) (\<lambda>span.
        if flt span (min_span_seconds m) then Inr (give_up INSUFFICIENT_SPAN)
        else
          rbind (theil_sen Z95 fit_samples) (\<lambda>r. case r of
            None \<Rightarrow> Inr (give_up INSUFFICIENT_POINTS)
          | Some f \<Rightarrow>
              rbind (reached_edge m cadence segment window_start) (\<lambda>edge.
              with_fit m newest (f\<lparr>segment_points := int (length segment),
                                  truncated := length segments = 1 \<and> edge\<rparr>))))))"

definition forecast ::
  "sample list \<Rightarrow> metric \<Rightarrow> py_datetime \<Rightarrow> py_datetime option \<Rightarrow> forecast_record res" where
  "forecast samples m now_data_time window_start =
     (if samples = [] then Inr (no_crossing m NO_DATA None None)
      else
        let newest = last samples in
        if \<not> is_valid_series samples \<or> \<not> is_aware now_data_time then
          Inr (no_crossing m INVALID_SERIES
            (if is_aware (sample_at newest) then Some (sample_at newest) else None)
            (if finite_float (sample_value newest) then Some (sample_value newest) else None))
        else
          rbind (cadence_seconds samples) (\<lambda>cadence.
          rbind (seconds_between now_data_time (sample_at newest)) (\<lambda>age.
          if flt (stale_limit m cadence) age then
            Inr (no_crossing m STALE (Some (sample_at newest)) (Some (sample_value newest)))
          else if fle (sample_value newest) (target m) then
            Inr \<lparr>
              fc_kind = metric_kind m, fc_status = AT_OR_BELOW_TARGET, as_of = Some (sample_at newest),
              fc_target = target m, latest_value = Some (sample_value newest),
              crosses_at = Some (sample_at newest), crosses_at_earliest = Some (sample_at newest),
              crosses_at_latest = Some (sample_at newest), fc_fit = None\<rparr>
          else with_series m samples cadence window_start)))"

end
