(* ===== verification/Crossing.thy ===== *)
theory Crossing
  imports Forecast
begin

text \<open>
  Laws of the extrapolation: \<open>timedelta\<close> construction and the crossing time are monotone, so a
  shallower slope crosses later; the only exception a crossing can raise is \<open>OverflowError\<close>.
\<close>

section \<open>\<^verbatim>\<open>timedelta(hours=...)\<close>\<close>

lemma representable_small_int: "\<bar>k\<bar> \<le> 2 ^ 53 \<Longrightarrow> fl (of_int k) = Fin (of_int k)"
  by (simp add: fl_representable representable_of_int)

lemma fraction_us:
  assumes "0 < factor" and "factor \<le> 2 ^ 53" and "0 \<le> f" and "f < 1"
  shows "\<exists>p. fl (of_int factor * f) = Fin p \<and> 0 \<le> p \<and> p \<le> of_int factor"
proof -
  have "of_int factor * f \<le> of_int factor * 1" using assms by (intro mult_left_mono) simp_all
  then have "\<exists>p. fl (of_int factor * f) = Fin p \<and> of_int 0 \<le> p \<and> p \<le> of_int factor"
    using assms by (intro fl_between representable_of_int) simp_all
  then show ?thesis by simp
qed

lemma scaled_us_nonneg:
  assumes "0 < factor" and "factor \<le> 2 ^ 53" and "0 \<le> x"
  shows "\<exists>p. scaled_us factor x = Inr (round_half_even (of_int (\<lfloor>x\<rfloor> * factor) + p)) \<and>
             fl (of_int factor * (x - of_int \<lfloor>x\<rfloor>)) = Fin p \<and> 0 \<le> p \<and> p \<le> of_int factor"
proof -
  have "0 \<le> x - of_int \<lfloor>x\<rfloor>" and "x - of_int \<lfloor>x\<rfloor> < 1" by linarith+
  from fraction_us [OF assms(1,2) this] obtain p
    where p: "fl (of_int factor * (x - of_int \<lfloor>x\<rfloor>)) = Fin p" "0 \<le> p" "p \<le> of_int factor" by blast
  show ?thesis
  proof (cases "x - of_int \<lfloor>x\<rfloor> = 0")
    case True
    then have "p = 0" using p(1) by simp
    then have "round_half_even (of_int (\<lfloor>x\<rfloor> * factor) + p) = \<lfloor>x\<rfloor> * factor"
      by (simp only: add_0_right round_half_even_of_int)
    then show ?thesis using True p assms(3) by (simp add: scaled_us_def trunc_def Let_def)
  next
    case False
    then show ?thesis using p assms(3) by (simp add: scaled_us_def trunc_def Let_def)
  qed
qed

lemma scaled_us_mono:
  assumes "0 < factor" and "factor \<le> 2 ^ 53" and "0 \<le> x" and "x \<le> y"
    and "scaled_us factor x = Inr a" and "scaled_us factor y = Inr b"
  shows "0 \<le> a \<and> a \<le> b"
proof -
  obtain p where p: "a = round_half_even (of_int (\<lfloor>x\<rfloor> * factor) + p)"
    "fl (of_int factor * (x - of_int \<lfloor>x\<rfloor>)) = Fin p" "0 \<le> p" "p \<le> of_int factor"
    using scaled_us_nonneg [OF assms(1-3)] assms(5) by auto
  obtain q where q: "b = round_half_even (of_int (\<lfloor>y\<rfloor> * factor) + q)"
    "fl (of_int factor * (y - of_int \<lfloor>y\<rfloor>)) = Fin q" "0 \<le> q" "q \<le> of_int factor"
    using scaled_us_nonneg [OF assms(1,2), of y] assms(3,4,6) by auto
  have "of_int (\<lfloor>x\<rfloor> * factor) + p \<le> of_int (\<lfloor>y\<rfloor> * factor) + q"
  proof (cases "\<lfloor>x\<rfloor> = \<lfloor>y\<rfloor>")
    case True
    then have "of_int factor * (x - of_int \<lfloor>x\<rfloor>) \<le> of_int factor * (y - of_int \<lfloor>y\<rfloor>)"
      using assms(1,4) by (intro mult_left_mono) simp_all
    from fl_mono [OF this] have "p \<le> q" using p(2) q(2) by simp
    then show ?thesis using True by simp
  next
    case False
    then have "\<lfloor>x\<rfloor> + 1 \<le> \<lfloor>y\<rfloor>" using floor_mono [OF assms(4)] by linarith
    then have "(\<lfloor>x\<rfloor> + 1) * factor \<le> \<lfloor>y\<rfloor> * factor" using assms(1) by (intro mult_right_mono) simp_all
    then have "of_int (\<lfloor>x\<rfloor> * factor) + of_int factor \<le> (of_int (\<lfloor>y\<rfloor> * factor) :: rat)"
      by (simp only: of_int_le_iff distrib_right mult_1 of_int_add [symmetric])
    then show ?thesis using p(4) q(3) by linarith
  qed
  moreover have "0 \<le> \<lfloor>x\<rfloor> * factor" using assms(1,3) by simp
  then have "(0::rat) \<le> of_int (\<lfloor>x\<rfloor> * factor)" by (simp only: of_int_0_le_iff)
  then have "of_int 0 \<le> of_int (\<lfloor>x\<rfloor> * factor) + p" using p(3) by simp
  then have "0 \<le> a" using round_half_even_mono [of "of_int 0"] p(1) by (simp only: round_half_even_of_int)
  ultimately show ?thesis using round_half_even_mono p(1) q(1) by blast
qed

lemma timedelta_hours_mono:
  assumes "Fin 0 \<le> x" and "x \<le> y" and "timedelta_of us_per_hour x = Inr a"
    and "timedelta_of us_per_hour y = Inr b"
  shows "0 \<le> a \<and> a \<le> b"
proof -
  obtain u v where "x = Fin u" and "y = Fin v" using assms by (cases x; cases y) auto
  then show ?thesis
    using assms scaled_us_mono [of us_per_hour u v]
    by (auto simp: mk_timedelta_def split: if_splits)
qed

lemma timedelta_hours_exc:
  assumes "Fin 0 \<le> x" and "x \<noteq> NaN" and "timedelta_of us_per_hour x = Inl e"
  shows "e = OverflowError"
proof (cases x)
  case (Fin u)
  then obtain p where "scaled_us us_per_hour u = Inr p"
    using scaled_us_nonneg [of us_per_hour u] assms(1) by auto
  then show ?thesis using Fin assms by (auto simp: mk_timedelta_def split: if_splits)
qed (use assms in simp_all)

section \<open>One line's crossing\<close>

lemma py_max_zero: "py_max (Fin 0) q \<noteq> NaN \<and> Fin 0 \<le> py_max (Fin 0) q"
  by (cases q) (auto simp: py_max_def flt_def)

lemma fdiv_fneg_total:
  assumes "\<not> fle (Fin 0) slope"
  shows "\<exists>q. fdiv f (fneg slope) = Inr q"
  using assms by (cases slope; cases f) auto

lemma crossing_None_iff: "crossing v tgt slope a = Inr None \<longleftrightarrow> fle (Fin 0) slope"
  by (auto simp: crossing_def)

lemma crossing_exc:
  assumes "crossing v tgt slope a = Inl e"
  shows "e = OverflowError"
proof -
  have n: "\<not> fle (Fin 0) slope" using assms by (auto simp: crossing_def)
  then obtain q where q: "fdiv (fsub v tgt) (fneg slope) = Inr q" using fdiv_fneg_total by blast
  show ?thesis
  proof (cases "timedelta_of us_per_hour (py_max (Fin 0) q)")
    case (Inl e')
    then show ?thesis using assms n q timedelta_hours_exc py_max_zero by (auto simp: crossing_def)
  next
    case (Inr d)
    then show ?thesis using assms n q by (cases a) (auto simp: crossing_def split: if_splits)
  qed
qed

lemma crossing_SomeD:
  assumes "crossing v tgt slope (Aware a) = Inr (Some c)"
  obtains q d where "fdiv (fsub v tgt) (fneg slope) = Inr q"
    and "timedelta_of us_per_hour (py_max (Fin 0) q) = Inr d" and "c = Aware (a + d)"
    and "0 \<le> d" and "dt_ok (a + d)" and "\<not> fle (Fin 0) slope"
proof -
  from assms obtain q d where *: "fdiv (fsub v tgt) (fneg slope) = Inr q"
    "timedelta_of us_per_hour (py_max (Fin 0) q) = Inr d" "c = Aware (a + d)" "dt_ok (a + d)"
    "\<not> fle (Fin 0) slope"
    by (auto simp: crossing_def split: if_splits)
  moreover have "0 \<le> d" using timedelta_hours_mono [OF _ order_refl *(2) *(2)] py_max_zero by blast
  ultimately show thesis using that by blast
qed

lemma hours_mono:
  assumes "s1 \<le> s2" and "s2 < 0" and "fdiv (Fin d) (fneg (Fin s1)) = Inr q1"
    and "fdiv (Fin d) (fneg (Fin s2)) = Inr q2"
  shows "py_max (Fin 0) q1 \<le> py_max (Fin 0) q2"
proof -
  have q: "q1 = fl (d / - s1)" "q2 = fl (d / - s2)" using assms by auto
  show ?thesis
  proof (cases "0 \<le> d")
    case True
    then have "d / - s1 \<le> d / - s2" using assms(1,2) by (intro divide_left_mono) (simp_all add: mult_neg_neg)
    then have "q1 \<le> q2" unfolding q by (rule fl_mono)
    moreover have "q1 \<noteq> NaN" "q2 \<noteq> NaN" unfolding q by simp_all
    ultimately show ?thesis by (auto simp: py_max_def flt_def not_less)
  next
    case False
    then have "d / - s1 \<le> 0" "d / - s2 \<le> 0" using assms(1,2) by (simp_all add: zero_le_divide_iff)
    then have "q1 \<le> Fin 0" "q2 \<le> Fin 0" unfolding q by (simp_all only: fl_nonpos)
    then show ?thesis by (auto simp: py_max_def flt_def)
  qed
qed

lemma crossing_mono:
  assumes v: "fsub v tgt = Fin d" and s: "slope1 = Fin s1" "slope2 = Fin s2" "s1 \<le> s2"
    and c1: "crossing v tgt slope1 (Aware a) = Inr (Some c1)"
    and c2: "crossing v tgt slope2 (Aware a) = Inr (Some c2)"
  shows "\<exists>x y. c1 = Aware x \<and> c2 = Aware y \<and> a \<le> x \<and> x \<le> y"
proof -
  obtain q1 d1 where 1: "fdiv (Fin d) (fneg (Fin s1)) = Inr q1"
    "timedelta_of us_per_hour (py_max (Fin 0) q1) = Inr d1" "c1 = Aware (a + d1)"
    using crossing_SomeD [OF c1] v s by metis
  obtain q2 d2 where 2: "fdiv (Fin d) (fneg (Fin s2)) = Inr q2"
    "timedelta_of us_per_hour (py_max (Fin 0) q2) = Inr d2" "c2 = Aware (a + d2)" "\<not> fle (Fin 0) (Fin s2)"
    using crossing_SomeD [OF c2] v s by metis
  have "s2 < 0" using 2(4) by simp
  then have "py_max (Fin 0) q1 \<le> py_max (Fin 0) q2" using hours_mono [OF s(3) _ 1(1) 2(1)] by blast
  then have "0 \<le> d1 \<and> d1 \<le> d2" using timedelta_hours_mono [OF _ _ 1(2) 2(2)] py_max_zero by blast
  then show ?thesis using 1(3) 2(3) by simp
qed

text \<open>A line steep enough crosses in time: the range in which no exception is possible.\<close>

lemma crossing_in_range:
  assumes v: "fsub v tgt = Fin d" and s: "slope = Fin s" "s < 0"
    and q: "\<bar>d\<bar> \<le> of_int k * - s" and k: "0 \<le> k" "k \<le> 2 ^ 32" "dt_ok (a + (k + 1) * us_per_hour)" "dt_ok a"
  shows "\<exists>c. crossing v tgt slope (Aware a) = Inr (Some c)"
proof -
  have pos: "0 < - s" using s(2) by simp
  have "d / - s \<le> of_int k" by (rule pos_divide_le_eq [OF pos, THEN iffD2]) (use q in linarith)
  moreover have "of_int (- k) \<le> d / - s"
    by (rule pos_le_divide_eq [OF pos, THEN iffD2]) (use q in \<open>simp add: abs_le_iff\<close>)
  moreover have "\<bar>k\<bar> \<le> 2 ^ 53" "\<bar>- k\<bar> \<le> 2 ^ 53" using k by simp_all
  ultimately have "\<exists>q. fl (d / - s) = Fin q \<and> of_int (- k) \<le> q \<and> q \<le> of_int k"
    by (intro fl_between representable_of_int) simp_all
  then obtain r where r: "fl (d / - s) = Fin r" "r \<le> of_int k" by auto
  define h where "h = max 0 r"
  have h: "py_max (Fin 0) (Fin r) = Fin h" "0 \<le> h" "h \<le> of_int k" using r k(1) by (simp_all add: h_def)
  obtain w where w: "scaled_us us_per_hour h = Inr w" using scaled_us_nonneg [of us_per_hour h] h by auto
  have "scaled_us us_per_hour (of_int k) = Inr (k * us_per_hour)"
    using k by (simp add: scaled_us_def trunc_def Let_def)
  from scaled_us_mono [OF _ _ h(2,3) w this] have wb: "0 \<le> w" "w \<le> k * us_per_hour" by simp_all
  then have "td_ok w" using k by (simp add: td_ok_def)
  moreover have "dt_ok (a + w)" using k(3,4) wb k(1) by (auto simp: dt_ok_def algebra_simps)
  ultimately show ?thesis using v s r(1) h(1) w by (simp add: crossing_def mk_timedelta_def)
qed

end
