(* ===== verification/Exact_Line.thy ===== *)
theory Exact_Line
  imports Fit_Laws
begin

text \<open>
  The estimator on samples that lie exactly on a line, with all the intermediate values in the
  binary64 format: it returns the line, a degenerate interval and no residual.
\<close>

definition on_line :: "rat \<Rightarrow> rat \<Rightarrow> (nat \<Rightarrow> rat) \<Rightarrow> sample list \<Rightarrow> pyfloat list \<Rightarrow> bool" where
  "on_line a c X samples xs \<longleftrightarrow>
     (\<forall>i < length samples. xs ! i = Fin (X i) \<and> sample_value (samples ! i) = Fin (a + c * X i) \<and>
        representable (c * X i)) \<and>
     (\<forall>j < length samples. \<forall>i < j. X i \<noteq> X j \<and> representable (X j - X i) \<and> representable (c * (X j - X i)))"

lemma on_line_pair:
  assumes "on_line a c X samples xs" and "i < j" and "j < length samples" and "representable c"
  shows "pair_slope xs (map sample_value samples) (i, j) = Inr (Fin c)"
proof -
  have "X i \<noteq> X j" using assms(1-3) by (auto simp: on_line_def)
  then have d: "X j - X i \<noteq> 0" by simp
  have x: "xs ! i = Fin (X i)" "xs ! j = Fin (X j)"
    "fl (X j - X i) = Fin (X j - X i)" "fl (c * (X j - X i)) = Fin (c * (X j - X i))"
    using assms by (auto simp: on_line_def fl_representable)
  have y: "sample_value (samples ! i) = Fin (a + c * X i)" "sample_value (samples ! j) = Fin (a + c * X j)"
    using assms by (auto simp: on_line_def)
  have "a + c * X j - (a + c * X i) = c * (X j - X i)" by (simp add: algebra_simps)
  then show ?thesis using d x y assms(2-4) by (simp add: pair_slope_def fl_representable)
qed

lemma on_line_kept:
  assumes "on_line a c X samples xs" and "length xs = length samples"
  shows "kept_pairs xs = index_pairs (length samples)"
  unfolding kept_pairs_def assms(2)
  by (rule filter_True) (use assms in \<open>fastforce simp: set_index_pairs on_line_def feq_def\<close>)

lemma on_line_slopes:
  assumes "on_line a c X samples xs" and "length xs = length samples" and "representable c"
    and "s \<in> set (slope_list xs (map sample_value samples))"
  shows "s = Fin c"
proof -
  obtain i j where "s = pair_slope_value xs (map sample_value samples) (i, j)" "i < j" "j < length samples"
    using assms(4) by (auto simp: slope_list_def on_line_kept [OF assms(1,2)] set_index_pairs)
  then show ?thesis using on_line_pair [OF assms(1) _ _ assms(3)] by (simp add: pair_slope_value_def)
qed

lemma index_pairs_neq_Nil: "2 \<le> n \<Longrightarrow> index_pairs n \<noteq> []"
proof -
  assume "2 \<le> n"
  then have "(0, 1) \<in> set (index_pairs n)" by (simp add: set_index_pairs)
  then show ?thesis by force
qed

lemma set_map2D: "z \<in> set (map2 f xs ys) \<Longrightarrow> length xs = length ys \<Longrightarrow> \<exists>i < length xs. z = f (xs ! i) (ys ! i)"
  by (auto simp: set_conv_nth)

lemma theil_sen_exact_line:
  assumes cl: "clean_series samples" and xs: "fit_hours samples xs" and n: "3 \<le> length samples"
    and line: "on_line a c X samples xs" and a: "halvable a" and c: "halvable c"
  shows "\<exists>f. theil_sen Z95 samples = Inr (Some f) \<and> slope_per_hour f = Fin c \<and>
             slope_low_per_hour f = Fin c \<and> slope_high_per_hour f = Fin c \<and>
             value_at_anchor f = Fin a \<and> residual_mad f = Fin 0 \<and>
             anchor_at f = sample_at (last samples)"
proof -
  define ys where "ys = map sample_value samples"
  note rep = halvable_representable [OF a] halvable_representable [OF c]
  have len: "length xs = length samples" "length ys = length samples"
    using xs by (simp_all add: fit_hours_def ys_def)
  have ne: "kept_pairs xs \<noteq> []"
    using on_line_kept [OF line len(1)] index_pairs_neq_Nil [of "length samples"] n by simp
  have sl: "slope_list xs ys ! i = Fin c" if "i < length (slope_list xs ys)" for i
    using on_line_slopes [OF line len(1) rep(2)] nth_mem [OF that] by (simp add: ys_def)
  have at: "xs ! i = Fin (X i)" "ys ! i = Fin (a + c * X i)" "fl (c * X i) = Fin (c * X i)"
    "fl (a + c * X i) = Fin (a + c * X i)" if "i < length xs" for i
  proof -
    show "xs ! i = Fin (X i)" "ys ! i = Fin (a + c * X i)" "fl (c * X i) = Fin (c * X i)"
      using line that len by (auto simp: on_line_def ys_def fl_representable)
    then have "wf_float (Fin (a + c * X i))"
      using cl that len by (metis clean_series_def nth_map nth_mem sample_ok_def ys_def)
    then show "fl (a + c * X i) = Fin (a + c * X i)" by (simp add: fl_representable)
  qed
  have res: "r = Fin a" if "r \<in> set (residuals (Fin c) xs ys)" for r
    using set_map2D [OF that [unfolded residuals_def]] len at rep by (auto simp: fl_representable)
  have mad: "r = Fin 0" if "r \<in> set (abs_residuals (Fin c) (Fin a) xs ys)" for r
    using set_map2D [OF that [unfolded abs_residuals_def]] len at by (auto simp: add.commute)
  have rn: "residuals (Fin c) xs ys \<noteq> []" "abs_residuals (Fin c) (Fin a) xs ys \<noteq> []"
    using len n by (auto simp: residuals_def abs_residuals_def)
  have ms: "median (slope_list xs ys) = Inr (Fin c)"
    by (rule median_const [OF c]) (use ne on_line_slopes [OF line len(1) rep(2)] in
        \<open>auto simp: ys_def simp flip: length_greater_0_conv\<close>)
  have mr: "median (residuals (Fin c) xs ys) = Inr (Fin a)" by (rule median_const [OF a rn(1) res])
  have mm: "median (abs_residuals (Fin c) (Fin a) xs ys) = Inr (Fin 0)"
    by (rule median_const [OF _ rn(2) mad]) (simp add: halvable_def)
  obtain slope low high intercept mad' where run: "theil_sen Z95 samples = Inr (Some \<lparr>
       slope_per_hour = slope, slope_low_per_hour = slope_list xs ys ! low,
       slope_high_per_hour = slope_list xs ys ! high,
       value_at_anchor = intercept, anchor_at = sample_at (last samples), residual_mad = mad',
       points = int (length samples), segment_points = int (length samples),
       span_seconds = fmul (fneg (xs ! 0)) (Fin 3600), truncated = False\<rparr>)"
    and r: "median (slope_list xs ys) = Inr slope" "low \<le> (length (slope_list xs ys) - 1) div 2"
      "high < length (slope_list xs ys)"
      "median (residuals slope xs ys) = Inr intercept"
      "median (abs_residuals slope intercept xs ys) = Inr mad'"
    using theil_sen_run [OF cl n xs ne] unfolding ys_def [symmetric] by metis
  have "low < length (slope_list xs ys)" using r(2,3) by linarith
  then show ?thesis using run r sl ms mr mm by simp
qed

end
