(* ===== verification/Forecast_Laws.thy ===== *)
theory Forecast_Laws
  imports Crossing Exact_Line
begin

text \<open>
  The contract of \<^verbatim>\<open>forecast\<close>: which statuses carry a crossing, the precedence of the statuses as
  a table over a valid series, the order of the uncertainty band, and which exceptions can
  escape.
\<close>

section \<open>Series the code can receive\<close>

text \<open>Every Python datetime is in range and every Python float is a value of the format.\<close>

fun typed_datetime :: "py_datetime \<Rightarrow> bool" where
  "typed_datetime (Aware t) = dt_ok t"
| "typed_datetime (Naive t) = dt_ok t"

definition typed_sample :: "sample \<Rightarrow> bool" where
  "typed_sample s \<longleftrightarrow> typed_datetime (sample_at s) \<and> wf_float (sample_value s)"

definition typed_series :: "sample list \<Rightarrow> bool" where
  "typed_series xs \<longleftrightarrow> (\<forall>s \<in> set xs. typed_sample s)"

lemma valid_sampleD:
  "is_valid_series xs \<Longrightarrow> s \<in> set xs \<Longrightarrow> finite_float (sample_value s) \<and> is_aware (sample_at s)"
  by (auto simp: is_valid_series_def list_all_iff)

lemma valid_aware: "is_valid_series xs \<Longrightarrow> aware_series xs"
  using valid_sampleD by (auto simp: aware_series_def)

lemma valid_sample_ok:
  assumes "is_valid_series xs" and "typed_series xs" and "s \<in> set xs"
  shows "sample_ok s"
proof -
  have "typed_sample s" using assms(2,3) by (simp add: typed_series_def)
  moreover obtain t where "sample_at s = Aware t"
    using valid_sampleD [OF assms(1,3)] by (cases "sample_at s") auto
  ultimately show ?thesis
    using valid_sampleD [OF assms(1,3)] by (simp add: sample_ok_def typed_sample_def)
qed

definition at_us :: "sample \<Rightarrow> int" where
  "at_us s = (case sample_at s of Aware t \<Rightarrow> t | Naive t \<Rightarrow> t)"

lemma valid_at_us: "is_valid_series xs \<Longrightarrow> s \<in> set xs \<Longrightarrow> sample_at s = Aware (at_us s)"
  using valid_sampleD [of xs s] by (cases "sample_at s") (auto simp: at_us_def)

lemma valid_increasing: "is_valid_series xs \<Longrightarrow> sorted_wrt (\<lambda>a b. at_us a < at_us b) xs"
proof -
  assume v: "is_valid_series xs"
  have "at_us a < at_us b" if "(a, b) \<in> set (pairwise_list xs)" for a b
  proof -
    have "a \<in> set xs" "b \<in> set xs" using that set_pairwise_list_subset [of xs] by auto
    then show ?thesis using v that valid_at_us [OF v] by (fastforce simp: is_valid_series_def list_all_iff)
  qed
  moreover have "transp (\<lambda>a b. at_us a < at_us b)" by (auto intro: transpI)
  ultimately show ?thesis using pairwise_sorted_wrt [of "\<lambda>a b. at_us a < at_us b" xs] by auto
qed

section \<open>The newest segment\<close>

definition newest_segment :: "metric \<Rightarrow> sample list \<Rightarrow> sample list" where
  "newest_segment m xs = last (cut_at (is_break (refill_jump m) (gap_limit_of xs (gap_factor m))) xs)"

definition fit_window :: "metric \<Rightarrow> sample list \<Rightarrow> sample list" where
  "fit_window m xs = slice_last (max_fit_points m) (newest_segment m xs)"

lemma newest_segment_laws:
  assumes "xs \<noteq> []"
  shows "newest_segment m xs \<noteq> []" and "last (newest_segment m xs) = last xs"
    and "\<exists>pre. xs = pre @ newest_segment m xs" and "set (newest_segment m xs) \<subseteq> set xs"
proof -
  show "\<exists>pre. xs = pre @ newest_segment m xs"
    unfolding newest_segment_def by (rule seg.newest_suffix [OF assms])
  then show "set (newest_segment m xs) \<subseteq> set xs" by (metis set_append Un_upper2)
qed (simp_all add: newest_segment_def seg.newest_neq_Nil seg.last_newest assms)

lemma fit_window_laws:
  assumes "xs \<noteq> []" and "0 < max_fit_points m"
  shows "fit_window m xs \<noteq> []" and "last (fit_window m xs) = last xs"
    and "\<exists>pre. xs = pre @ fit_window m xs" and "set (fit_window m xs) \<subseteq> set xs"
    and "int (length (fit_window m xs)) = min (max_fit_points m) (int (length (newest_segment m xs)))"
proof -
  note n = newest_segment_laws [OF assms(1), of m]
  have "\<exists>pre. newest_segment m xs = pre @ fit_window m xs"
    unfolding fit_window_def slice_last_pos [OF assms(2)] by (metis append_take_drop_id)
  then show "\<exists>pre. xs = pre @ fit_window m xs" using n(3) by (metis append.assoc)
  then show "set (fit_window m xs) \<subseteq> set xs" by (metis set_append Un_upper2)
  show "int (length (fit_window m xs)) = min (max_fit_points m) (int (length (newest_segment m xs)))"
    using assms(2) by (simp add: fit_window_def length_slice_last)
  show "fit_window m xs \<noteq> []" unfolding fit_window_def by (rule slice_last_neq_Nil [OF assms(2) n(1)])
  show "last (fit_window m xs) = last xs"
    unfolding fit_window_def using last_slice_last [OF assms(2) n(1)] n(2) by simp
qed

section \<open>The run on a valid series\<close>

text \<open>The exceptions of naive datetimes cannot occur; what is left is the cascade itself.\<close>

definition age_seconds :: "py_datetime \<Rightarrow> sample list \<Rightarrow> pyfloat" where
  "age_seconds now xs = (case dt_sub now (sample_at (last xs)) of Inr d \<Rightarrow> total_seconds d | Inl _ \<Rightarrow> NaN)"

definition window_span :: "metric \<Rightarrow> sample list \<Rightarrow> pyfloat" where
  "window_span m xs = total_seconds (gap_us (hd (fit_window m xs)) (last (fit_window m xs)))"

definition give_up :: "metric \<Rightarrow> sample list \<Rightarrow> status \<Rightarrow> forecast_record" where
  "give_up m xs st = no_crossing m st (Some (sample_at (last xs))) (Some (sample_value (last xs)))"

lemma seconds_between_aware:
  "is_aware a \<Longrightarrow> is_aware b \<Longrightarrow> \<exists>d. seconds_between a b = Inr (total_seconds d) \<and> dt_sub a b = Inr d"
  using dt_sub_aware [of a b] by (auto simp: seconds_between_def)

lemma forecast_valid:
  assumes v: "is_valid_series xs" and ne: "xs \<noteq> []" and now: "is_aware now"
  shows "forecast xs m now w =
    (if flt (stale_limit m (cadence_value xs)) (age_seconds now xs) then Inr (give_up m xs STALE)
     else if fle (sample_value (last xs)) (target m) then
       Inr ((give_up m xs AT_OR_BELOW_TARGET)\<lparr>crosses_at := Some (sample_at (last xs)),
         crosses_at_earliest := Some (sample_at (last xs)), crosses_at_latest := Some (sample_at (last xs))\<rparr>)
     else with_series m xs (cadence_value xs) w)"
proof -
  have "is_aware (sample_at (last xs))" using valid_sampleD [OF v last_in_set [OF ne]] by simp
  then obtain d where d: "seconds_between now (sample_at (last xs)) = Inr (total_seconds d)"
    "dt_sub now (sample_at (last xs)) = Inr d"
    using seconds_between_aware [OF now] by blast
  show ?thesis using v ne now d cadence_seconds_aware [OF valid_aware [OF v]]
    by (simp add: forecast_def Let_def give_up_def no_crossing_def age_seconds_def)
qed

lemma with_series_valid:
  assumes v: "is_valid_series xs" and ne: "xs \<noteq> []" and k: "0 < max_fit_points m"
  shows "with_series m xs cadence w =
    (if int (length (newest_segment m xs)) < min_points m then Inr (give_up m xs INSUFFICIENT_POINTS)
     else if flt (window_span m xs) (min_span_seconds m) then Inr (give_up m xs INSUFFICIENT_SPAN)
     else rbind (theil_sen Z95 (fit_window m xs)) (\<lambda>r. case r of
         None \<Rightarrow> Inr (give_up m xs INSUFFICIENT_POINTS)
       | Some f \<Rightarrow>
           rbind (reached_edge m cadence (newest_segment m xs) w) (\<lambda>edge.
           with_fit m (last xs) (f\<lparr>segment_points := int (length (newest_segment m xs)),
             truncated := length (cut_at (is_break (refill_jump m) (gap_limit_of xs (gap_factor m))) xs) = 1
               \<and> edge\<rparr>))))"
proof -
  note fw = fit_window_laws [OF ne k]
  have "hd (fit_window m xs) \<in> set xs" "last (fit_window m xs) \<in> set xs"
    using fw(1,4) by (meson hd_in_set last_in_set subsetD)+
  then have "seconds_between (sample_at (last (fit_window m xs))) (sample_at (hd (fit_window m xs))) =
      Inr (window_span m xs)"
    using gap_seconds_aware valid_sampleD [OF v]
    by (simp add: window_span_def seconds_between_def gap_seconds_def [symmetric])
  then show ?thesis
    unfolding with_series_def Let_def split_segments_aware [OF valid_aware [OF v]] rbind_simps
      newest_segment_def [symmetric] fit_window_def [symmetric]
    by (simp add: give_up_def)
qed

section \<open>The shape of a forecast\<close>

lemma with_fit_shape:
  assumes "with_fit m newest f = Inr fc"
  shows "fc_fit fc = Some f \<and> as_of fc = Some (sample_at newest) \<and> latest_value fc = Some (sample_value newest) \<and>
    (crosses_at fc = None \<and> crosses_at_earliest fc = None \<and> crosses_at_latest fc = None \<and>
       fc_status fc = NOT_DEPLETING \<or>
     crosses_at fc \<noteq> None \<and> fc_status fc \<in> {OK, BEYOND_HORIZON})"
proof -
  from assms obtain c where c: "crossing (value_at_anchor f) (target m) (slope_per_hour f) (anchor_at f) = Inr c"
    by (auto simp: with_fit_def)
  show ?thesis
  proof (cases c)
    case None
    then show ?thesis using assms c by (auto simp: with_fit_def)
  next
    case (Some t)
    then obtain h early late where
      "fc = \<lparr>fc_kind = metric_kind m, fc_status = if flt (max_horizon_seconds m) h then BEYOND_HORIZON else OK,
             as_of = Some (sample_at newest), fc_target = target m, latest_value = Some (sample_value newest),
             crosses_at = Some t, crosses_at_earliest = early, crosses_at_latest = late, fc_fit = Some f\<rparr>"
      using assms c by (auto simp: with_fit_def Let_def)
    then show ?thesis by simp
  qed
qed

lemma with_series_shape:
  assumes "with_series m xs cadence w = Inr fc"
  shows "fc = give_up m xs INSUFFICIENT_POINTS \<or> fc = give_up m xs INSUFFICIENT_SPAN \<or>
         (\<exists>f. with_fit m (last xs) f = Inr fc)"
  using assms by (auto simp: with_series_def give_up_def Let_def split: if_splits option.splits)

lemma forecast_shape:
  assumes "forecast xs m now w = Inr fc"
  obtains (none) st a v where "fc = no_crossing m st a v" and "st \<notin> CROSSING_STATUSES" and "st \<noteq> NOT_DEPLETING"
      and "a = None \<Longrightarrow> st \<in> {NO_DATA, INVALID_SERIES}"
  | (below) "fc_status fc = AT_OR_BELOW_TARGET" and "fc_fit fc = None" and "as_of fc = Some (sample_at (last xs))"
      and "crosses_at fc = as_of fc" and "crosses_at_earliest fc = as_of fc" and "crosses_at_latest fc = as_of fc"
  | (fitted) f where "with_fit m (last xs) f = Inr fc"
proof (cases "xs = [] \<or> \<not> is_valid_series xs \<or> \<not> is_aware now")
  case True
  then show ?thesis using assms none by (auto simp: forecast_def CROSSING_STATUSES_def Let_def split: if_splits)
next
  case False
  then have f: "forecast xs m now w = Inr fc" and v: "is_valid_series xs" "xs \<noteq> []" "is_aware now"
    using assms by simp_all
  from f [unfolded forecast_valid [OF v]] consider "fc = give_up m xs STALE"
    | "fc = (give_up m xs AT_OR_BELOW_TARGET)\<lparr>crosses_at := Some (sample_at (last xs)),
         crosses_at_earliest := Some (sample_at (last xs)), crosses_at_latest := Some (sample_at (last xs))\<rparr>"
    | "with_series m xs (cadence_value xs) w = Inr fc"
    by (metis sum.inject(2))
  then show ?thesis
  proof cases
    case 1
    then show ?thesis unfolding give_up_def by (rule none) (simp_all add: CROSSING_STATUSES_def)
  next
    case 2
    then show ?thesis using below by (simp add: give_up_def no_crossing_def)
  next
    case 3
    from with_series_shape [OF this] show ?thesis
    proof (elim disjE exE)
      assume "fc = give_up m xs INSUFFICIENT_POINTS"
      then show ?thesis unfolding give_up_def by (rule none) (simp_all add: CROSSING_STATUSES_def)
    next
      assume "fc = give_up m xs INSUFFICIENT_SPAN"
      then show ?thesis unfolding give_up_def by (rule none) (simp_all add: CROSSING_STATUSES_def)
    qed (rule fitted)
  qed
qed

lemma crossing_status_invariant:
  assumes "forecast xs m now w = Inr fc"
  shows "(crosses_at fc \<noteq> None \<longleftrightarrow> fc_status fc \<in> CROSSING_STATUSES) \<and>
         (crosses_at fc = None \<longrightarrow> crosses_at_earliest fc = None \<and> crosses_at_latest fc = None) \<and>
         (fc_fit fc \<noteq> None \<longleftrightarrow> fc_status fc \<in> {OK, BEYOND_HORIZON, NOT_DEPLETING}) \<and>
         (as_of fc = None \<longrightarrow> fc_status fc \<in> {NO_DATA, INVALID_SERIES})"
  using assms
proof (cases rule: forecast_shape)
  case (none st a v)
  then show ?thesis by (cases st) (auto simp: no_crossing_def CROSSING_STATUSES_def)
next
  case fitted
  then show ?thesis using with_fit_shape [OF fitted] by (auto simp: CROSSING_STATUSES_def)
qed (simp add: CROSSING_STATUSES_def)

section \<open>Exceptions\<close>

text \<open>
  \<open>with_fit\<close> on a fit anchored at an aware datetime can raise nothing but \<open>OverflowError\<close>, and
  it raises nothing when the fitted line does not fall.
\<close>

lemma crossing_aware: "crossing v tgt s a = Inr (Some c) \<Longrightarrow> is_aware a \<Longrightarrow> is_aware c"
  by (cases a; cases c) (auto simp: crossing_def split: if_splits)

lemma with_fit_exc:
  assumes "with_fit m newest f = Inl e" and "is_aware (anchor_at f)"
  shows "e = OverflowError"
proof (cases "crossing (value_at_anchor f) (target m) (slope_per_hour f) (anchor_at f)")
  case (Inl e')
  then show ?thesis using assms crossing_exc by (auto simp: with_fit_def)
next
  case (Inr r)
  then obtain t where r: "r = Some t" using assms by (cases r) (auto simp: with_fit_def)
  then obtain d where "seconds_between t (anchor_at f) = Inr (total_seconds d)"
    using Inr crossing_aware seconds_between_aware assms(2) by blast
  then show ?thesis using assms Inr r by (auto simp: with_fit_def Let_def rbind_Inl_iff crossing_exc)
qed

lemma reached_edge_total:
  assumes "is_aware (sample_at (hd segment))" and "\<And>t. w = Some t \<Longrightarrow> is_aware t"
  shows "\<exists>b. reached_edge m cadence segment w = Inr b"
proof (cases w)
  case (Some t)
  then obtain d where "seconds_between (sample_at (hd segment)) t = Inr (total_seconds d)"
    using seconds_between_aware assms by blast
  then show ?thesis using Some by (simp add: reached_edge_def)
next
  case None
  then show ?thesis by (intro exI [of _ True]) (simp add: reached_edge_def)
qed

lemma window_clean:
  assumes v: "is_valid_series xs" "typed_series xs" and ne: "xs \<noteq> []"
    and k: "0 < max_fit_points m" "max_fit_points m \<le> 2 ^ 17"
  shows "clean_series (fit_window m xs)"
proof -
  note fw = fit_window_laws [OF ne k(1)]
  have "int (length (fit_window m xs)) \<le> int (2 ^ 17)" using fw(5) k(2) by simp
  then have "length (fit_window m xs) \<le> 2 ^ 17" by (simp only: of_nat_le_iff)
  then show ?thesis using valid_sample_ok [OF v] fw(4) by (auto simp: clean_series_def)
qed

lemma theil_sen_anchor:
  "theil_sen z xs = Inr (Some f) \<Longrightarrow> anchor_at f = sample_at (last xs) \<and> points f = int (length xs)"
  by (auto simp: theil_sen_def Let_def split: if_splits)

lemma forecast_exceptions:
  assumes t: "typed_series xs" and k: "0 < max_fit_points m" "max_fit_points m \<le> 2 ^ 17"
    and w: "\<And>t. w = Some t \<Longrightarrow> is_aware t" and e: "forecast xs m now w = Inl e"
  shows "e = OverflowError \<and> is_valid_series xs"
proof -
  have ok: "is_valid_series xs" "xs \<noteq> []" "is_aware now"
    using e by (auto simp: forecast_def Let_def split: if_splits)
  from e have "with_series m xs (cadence_value xs) w = Inl e"
    unfolding forecast_valid [OF ok] by (simp split: if_splits)
  note ws = this [unfolded with_series_valid [OF ok(1,2) k(1)]]
  obtain r where r: "theil_sen Z95 (fit_window m xs) = Inr r"
    using theil_sen_total [OF window_clean [OF ok(1) t ok(2) k]] by blast
  have aw: "is_aware (sample_at s)" if "s \<in> set xs" for s using valid_sampleD [OF ok(1) that] by simp
  have "hd (newest_segment m xs) \<in> set xs" using newest_segment_laws [OF ok(2)] by (meson hd_in_set subsetD)
  then obtain b where b: "reached_edge m (cadence_value xs) (newest_segment m xs) w = Inr b"
    using reached_edge_total aw w by metis
  from ws r b obtain f n tr where f: "r = Some f"
    and wf: "with_fit m (last xs) (f\<lparr>segment_points := n, truncated := tr\<rparr>) = Inl e"
    by (auto split: if_splits option.splits)
  have "is_aware (anchor_at f)"
    using theil_sen_anchor r f fit_window_laws(2) [OF ok(2) k(1)] aw last_in_set [OF ok(2)] by metis
  then show ?thesis using with_fit_exc [OF wf] ok by simp
qed

section \<open>Where a fit comes from\<close>

text \<open>The metrics the forecast is meant for: at least three points, a positive cap.\<close>

definition fit_metric :: "metric \<Rightarrow> bool" where
  "fit_metric m \<longleftrightarrow> 3 \<le> min_points m \<and> 3 \<le> max_fit_points m \<and> max_fit_points m \<le> 2 ^ 17"

lemma METRICS_fit_metric: "m \<in> set METRICS \<Longrightarrow> fit_metric m"
  by (auto simp: METRICS_def WATER_def BATTERY_def fit_metric_def)

lemma no_crossing_fit [simp]: "fc_fit (no_crossing m st a v) = None" "crosses_at (no_crossing m st a v) = None"
  "fc_status (no_crossing m st a v) = st"
  by (simp_all add: no_crossing_def)

lemma give_up_simps [simp]: "fc_fit (give_up m xs st) = None" "crosses_at (give_up m xs st) = None"
  "fc_status (give_up m xs st) = st"
  by (simp_all add: give_up_def)

lemma forecast_fit:
  assumes fc: "forecast xs m now w = Inr fc" and f: "fc_fit fc = Some f" and k: "0 < max_fit_points m"
  obtains f0 tr where "is_valid_series xs" and "xs \<noteq> []" and "is_aware now"
    and "\<not> flt (stale_limit m (cadence_value xs)) (age_seconds now xs)"
    and "\<not> fle (sample_value (last xs)) (target m)"
    and "min_points m \<le> int (length (newest_segment m xs))"
    and "\<not> flt (window_span m xs) (min_span_seconds m)"
    and "theil_sen Z95 (fit_window m xs) = Inr (Some f0)"
    and "f = f0\<lparr>segment_points := int (length (newest_segment m xs)), truncated := tr\<rparr>"
    and "with_fit m (last xs) f = Inr fc"
proof -
  have ok: "is_valid_series xs" "xs \<noteq> []" "is_aware now"
    using fc f by (auto simp: forecast_def Let_def split: if_splits)
  note c = fc [unfolded forecast_valid [OF ok] with_series_valid [OF ok(1,2) k]]
  have c1: "\<not> flt (stale_limit m (cadence_value xs)) (age_seconds now xs)" using c f by (intro notI) auto
  have c2: "\<not> fle (sample_value (last xs)) (target m)" using c c1 f by (intro notI) auto
  have c3: "\<not> int (length (newest_segment m xs)) < min_points m" using c c1 c2 f by (intro notI) auto
  have c4: "\<not> flt (window_span m xs) (min_span_seconds m)" using c c1 c2 c3 f by (intro notI) auto
  note c = c [unfolded if_not_P [OF c1] if_not_P [OF c2] if_not_P [OF c3] if_not_P [OF c4]]
  from c f obtain f0 where f0: "theil_sen Z95 (fit_window m xs) = Inr (Some f0)"
    by (auto split: option.splits)
  from c f0 obtain tr where
    wf: "with_fit m (last xs) (f0\<lparr>segment_points := int (length (newest_segment m xs)), truncated := tr\<rparr>) = Inr fc"
    by auto
  have feq: "f = f0\<lparr>segment_points := int (length (newest_segment m xs)), truncated := tr\<rparr>"
    using with_fit_shape [OF wf] f by simp
  show thesis
  proof (rule that [OF ok c1 c2 _ c4 f0 feq])
    show "min_points m \<le> int (length (newest_segment m xs))" using c3 by (simp only: not_less)
    show "with_fit m (last xs) f = Inr fc" unfolding feq by (rule wf)
  qed
qed

text \<open>Past the gates the estimator always fits: the guard for its \<^verbatim>\<open>None\<close> is unreachable.\<close>

lemma window_fit_exists:
  assumes v: "is_valid_series xs" "typed_series xs" "xs \<noteq> []" and m: "fit_metric m"
    and n: "min_points m \<le> int (length (newest_segment m xs))"
  shows "\<exists>f. theil_sen Z95 (fit_window m xs) = Inr (Some f)"
proof -
  have k: "0 < max_fit_points m" "max_fit_points m \<le> 2 ^ 17" using m by (simp_all add: fit_metric_def)
  note fw = fit_window_laws [OF v(3) k(1)]
  have len: "3 \<le> length (fit_window m xs)" using fw(5) n m unfolding fit_metric_def by linarith
  then obtain a b cs where ab: "fit_window m xs = a # b # cs" by (cases "fit_window m xs"; cases "tl (fit_window m xs)") auto
  obtain pre where "xs = pre @ fit_window m xs" using fw(3) by blast
  then have "sorted_wrt (\<lambda>a b. at_us a < at_us b) (fit_window m xs)"
    using valid_increasing [OF v(1)] by (metis sorted_wrt_append)
  then have "\<forall>x \<in> set (b # cs). at_us a < at_us x" using ab by simp
  then have "at_us a < at_us (last (b # cs))" using last_in_set [of "b # cs"] by blast
  moreover have "a \<in> set xs" "last (b # cs) \<in> set xs" using fw(4) ab last_in_set [of "b # cs"] by auto
  ultimately have "sample_at (hd (fit_window m xs)) \<noteq> sample_at (last (fit_window m xs))"
    using ab valid_at_us [OF v(1)] by auto
  then show ?thesis using theil_sen_Some [OF window_clean [OF v k] len] by blast
qed

section \<open>Precedence\<close>

lemma with_fit_status:
  assumes "with_fit m newest f = Inr fc"
  shows "fc_status fc =
     (if fle (Fin 0) (slope_per_hour f) then NOT_DEPLETING
      else if flt (max_horizon_seconds m)
                (case seconds_between (the (crosses_at fc)) (anchor_at f) of Inr h \<Rightarrow> h | Inl _ \<Rightarrow> NaN)
      then BEYOND_HORIZON else OK)"
proof (cases "crossing (value_at_anchor f) (target m) (slope_per_hour f) (anchor_at f)")
  case (Inr c)
  then show ?thesis
    using assms crossing_None_iff [of "value_at_anchor f" "target m" "slope_per_hour f" "anchor_at f"]
    by (cases c) (auto simp: with_fit_def Let_def)
qed (use assms in \<open>simp add: with_fit_def\<close>)

lemma forecast_precedence:
  assumes v: "is_valid_series xs" "typed_series xs" "xs \<noteq> []" "is_aware now" and m: "fit_metric m"
    and fc: "forecast xs m now w = Inr fc"
  shows "fc_status fc =
    (if flt (stale_limit m (cadence_value xs)) (age_seconds now xs) then STALE
     else if fle (sample_value (last xs)) (target m) then AT_OR_BELOW_TARGET
     else if int (length (newest_segment m xs)) < min_points m then INSUFFICIENT_POINTS
     else if flt (window_span m xs) (min_span_seconds m) then INSUFFICIENT_SPAN
     else if fle (Fin 0) (slope_per_hour (the (fc_fit fc))) then NOT_DEPLETING
     else if flt (max_horizon_seconds m)
               (case seconds_between (the (crosses_at fc)) (sample_at (last xs)) of Inr h \<Rightarrow> h | Inl _ \<Rightarrow> NaN)
     then BEYOND_HORIZON else OK)"
proof -
  have k: "0 < max_fit_points m" using m by (simp add: fit_metric_def)
  note c = fc [unfolded forecast_valid [OF v(1,3,4)] with_series_valid [OF v(1,3) k]]
  show ?thesis
  proof (cases "flt (stale_limit m (cadence_value xs)) (age_seconds now xs) \<or> fle (sample_value (last xs)) (target m) \<or>
      int (length (newest_segment m xs)) < min_points m \<or> flt (window_span m xs) (min_span_seconds m)")
    case True
    then show ?thesis using c by (auto split: if_splits)
  next
    case False
    then obtain f0 where f0: "theil_sen Z95 (fit_window m xs) = Inr (Some f0)"
      using window_fit_exists [OF v(1-3) m] by auto
    then obtain f where f: "with_fit m (last xs) f = Inr fc" "anchor_at f = anchor_at f0"
      using c False by auto
    have "anchor_at f = sample_at (last xs)" "fc_fit fc = Some f"
      using f theil_sen_anchor [OF f0] fit_window_laws(2) [OF v(3) k] with_fit_shape by simp_all
    then show ?thesis using False with_fit_status [OF f(1)] by simp
  qed
qed

section \<open>The band\<close>

lemma window_tame:
  assumes "\<forall>s \<in> set xs. tame s" and "xs \<noteq> []" and "0 < max_fit_points m" and "max_fit_points m \<le> 2 ^ 17"
  shows "tame_series (fit_window m xs)"
proof -
  note fw = fit_window_laws [OF assms(2,3)]
  have "int (length (fit_window m xs)) \<le> int (2 ^ 17)" using fw(5) assms(4) by simp
  then have "length (fit_window m xs) \<le> 2 ^ 17" by (simp only: of_nat_le_iff)
  then show ?thesis using fw(4) assms(1) by (auto simp: tame_series_def)
qed

lemma crossing_band:
  assumes f: "sane_fit f" "anchor_at f = Aware a" and t: "bounded 64 (target m)"
    and wf: "with_fit m newest f = Inr fc" and c: "crosses_at fc = Some t"
  shows "\<exists>t' e. t = Aware t' \<and> crosses_at_earliest fc = Some (Aware e) \<and> a \<le> e \<and> e \<le> t' \<and>
     (\<forall>l. crosses_at_latest fc = Some l \<longrightarrow> (\<exists>l'. l = Aware l' \<and> t' \<le> l')) \<and>
     (crosses_at_latest fc = None \<longleftrightarrow> fle (Fin 0) (slope_high_per_hour f))"
proof -
  let ?x = "\<lambda>s. crossing (value_at_anchor f) (target m) s (Aware a)"
  from wf c f(2) have eqs: "?x (slope_per_hour f) = Inr (Some t)"
    "?x (slope_low_per_hour f) = Inr (crosses_at_earliest fc)"
    "?x (slope_high_per_hour f) = Inr (crosses_at_latest fc)"
    by (auto simp: with_fit_def Let_def split: option.splits)
  have "bounded 204 (fsub (value_at_anchor f) (target m))"
    using bounded_fsub [of 203] f(1) bounded_mono [OF t, of 203] by (simp add: sane_fit_def)
  then obtain d where d: "fsub (value_at_anchor f) (target m) = Fin d" by (auto elim: boundedE)
  obtain s1 where s1: "slope_low_per_hour f = Fin s1" using f(1) by (auto simp: sane_fit_def elim: boundedE)
  obtain s2 where s2: "slope_per_hour f = Fin s2" using f(1) by (auto simp: sane_fit_def elim: boundedE)
  obtain s3 where s3: "slope_high_per_hour f = Fin s3" using f(1) by (auto simp: sane_fit_def elim: boundedE)
  have le: "s1 \<le> s2" "s2 \<le> s3" using f(1) s1 s2 s3 by (simp_all add: sane_fit_def)
  have neg: "\<not> 0 \<le> s2" using eqs(1) crossing_None_iff s2 by (metis fcmp_Fin(1) option.distinct(1) sum.inject(2))
  obtain e where e: "crosses_at_earliest fc = Some e"
    using eqs(2) crossing_None_iff s1 neg le(1) by (cases "crosses_at_earliest fc") fastforce+
  have mid: "\<exists>x y. e = Aware x \<and> t = Aware y \<and> a \<le> x \<and> x \<le> y"
    by (rule crossing_mono [OF d s1 s2 le(1) eqs(2) [unfolded e] eqs(1)])
  have late: "\<exists>x y. t = Aware x \<and> l = Aware y \<and> a \<le> x \<and> x \<le> y" if "crosses_at_latest fc = Some l" for l
    by (rule crossing_mono [OF d s2 s3 le(2) eqs(1) eqs(3) [unfolded that]])
  have "crosses_at_latest fc = None \<longleftrightarrow> fle (Fin 0) (slope_high_per_hour f)"
    using eqs(3) crossing_None_iff by (metis sum.inject(2))
  then show ?thesis using mid late e by fastforce
qed

lemma forecast_band:
  assumes tm: "\<forall>s \<in> set xs. tame s" and t: "bounded 64 (target m)" and m: "fit_metric m"
    and fc: "forecast xs m now w = Inr fc" and c: "crosses_at fc = Some t"
  shows "\<exists>a t' e. as_of fc = Some (Aware a) \<and> t = Aware t' \<and> crosses_at_earliest fc = Some (Aware e) \<and>
     a \<le> e \<and> e \<le> t' \<and> (\<forall>l. crosses_at_latest fc = Some l \<longrightarrow> (\<exists>l'. l = Aware l' \<and> t' \<le> l')) \<and>
     (crosses_at_latest fc = None \<longleftrightarrow> (\<exists>f. fc_fit fc = Some f \<and> fle (Fin 0) (slope_high_per_hour f)))"
proof -
  have k: "0 < max_fit_points m" "max_fit_points m \<le> 2 ^ 17" using m by (simp_all add: fit_metric_def)
  have ne: "xs \<noteq> []" using fc c by (auto simp: forecast_def)
  have "tame (last xs)" using tm ne by simp
  then obtain a where a: "sample_at (last xs) = Aware a" by (auto simp: tame_def)
  from fc show ?thesis
  proof (cases rule: forecast_shape)
    case (none st a' v)
    then show ?thesis using c by simp
  next
    case below
    then show ?thesis using c a by auto
  next
    case (fitted f)
    then have f: "fc_fit fc = Some f" and ao: "as_of fc = Some (Aware a)" using with_fit_shape a by simp_all
    obtain f0 tr where f0: "theil_sen Z95 (fit_window m xs) = Inr (Some f0)"
      and feq: "f = f0\<lparr>segment_points := int (length (newest_segment m xs)), truncated := tr\<rparr>"
      using forecast_fit [OF fc f k(1)] by metis
    have "sane_fit f0" "anchor_at f0 = Aware a"
      using theil_sen_sane [OF window_tame [OF tm ne k] f0] fit_window_laws(2) [OF ne k(1)] a by simp_all
    then have "sane_fit f" "anchor_at f = Aware a" by (simp_all add: feq sane_fit_def)
    from crossing_band [OF this t fitted c] show ?thesis using f ao by auto
  qed
qed

section \<open>A refill resets the forecast\<close>

text \<open>When the newest sample is a refill, the newest segment is that sample alone.\<close>

lemma newest_after_break:
  assumes "xs = ys @ [a, b]" and "is_break (refill_jump m) (gap_limit_of xs (gap_factor m)) a b"
  shows "newest_segment m xs = [b]"
proof -
  have ne: "xs \<noteq> []" using assms(1) by simp
  note ns = newest_segment_laws [OF ne, of m]
  obtain pre where pre: "xs = pre @ newest_segment m xs" using ns(3) by blast
  show ?thesis
  proof (rule ccontr)
    assume not1: "newest_segment m xs \<noteq> [b]"
    obtain zs where zs: "newest_segment m xs = zs @ [b]"
      using ns(1,2) assms(1) by (metis append_butlast_last_id last_appendR last.simps list.distinct(1))
    then have "zs \<noteq> []" using not1 by auto
    then obtain us u where us: "zs = us @ [u]" by (metis append_butlast_last_id)
    then have ns_eq: "newest_segment m xs = us @ [u, b]" using zs by simp
    then have "rev (pre @ us @ [u, b]) = rev (ys @ [a, b])" using pre assms(1) by simp
    then have "u = a" by simp
    with ns_eq have "(a, b) \<in> set (pairwise_list (newest_segment m xs))"
      using pairwise_append_last [of "us @ [a]" "[b]"] by simp
    then show False using seg.no_break_in_newest [OF ne] assms(2) unfolding newest_segment_def by blast
  qed
qed

end
