(* ===== verification/Demo_Series.thy ===== *)
theory Demo_Series
  imports Forecast_Laws
begin

text \<open>
  A concrete family of water series: 36 samples, 450 seconds apart, falling along a line of slope
  \<open>-2\<^sup>-\<^sup>j\<close> percent per hour to 50 percent now. Every quantity of the fit is exact in binary64, so the
  whole forecast can be computed by proof. The family holds the examples of the properties and
  the input on which the forecast raises.
\<close>

definition demo_sample :: "nat \<Rightarrow> nat \<Rightarrow> sample" where
  "demo_sample j k = \<lparr>sample_at = Aware (int k * 450000000),
     sample_value = Fin (50 + (35 - of_nat k) * 2 powi (- int j - 3))\<rparr>"

definition demo_series :: "nat \<Rightarrow> sample list" where
  "demo_series j = map (demo_sample j) [0..<36]"

definition demo_now :: py_datetime where
  "demo_now = Aware (35 * 450000000)"

definition demo_slope :: "nat \<Rightarrow> rat" where
  "demo_slope j = - (2 powi (- int j))"

definition demo_hour :: "nat \<Rightarrow> rat" where
  "demo_hour k = (of_nat k - 35) / 8"

lemma length_demo [simp]: "length (demo_series j) = 36"
  by (simp add: demo_series_def)

lemma demo_neq_Nil [simp]: "demo_series j \<noteq> []"
  by (simp add: demo_series_def)

lemma nth_demo [simp]: "k < 36 \<Longrightarrow> demo_series j ! k = demo_sample j k"
  by (simp add: demo_series_def)

lemma last_demo [simp]: "last (demo_series j) = demo_sample j 35"
  by (simp add: last_conv_nth)

lemma hd_demo [simp]: "hd (demo_series j) = demo_sample j 0"
  by (simp add: hd_conv_nth)

lemma set_demo: "set (demo_series j) = demo_sample j ` {0..<36}"
  by (simp add: demo_series_def)

lemma pairwise_demo: "p \<in> set (pairwise_list (demo_series j)) \<Longrightarrow>
    \<exists>k < 35. p = (demo_sample j k, demo_sample j (Suc k))"
  by (force simp: in_set_conv_nth)

lemma scaled_representable:
  assumes "\<bar>n\<bar> \<le> 2 ^ 53" and "e \<le> 60"
  shows "representable (of_int n * 2 powi (- int e))"
proof -
  have "rnd (of_int n * 2 powi (- int e)) = of_int n * 2 powi (- int e)"
    by (rule rnd_dyadic) (use assms in simp_all)
  moreover have "\<bar>of_int n * 2 powi (- int e) :: rat\<bar> < 2 ^ 1024"
  proof -
    have "(2::rat) powi (- int e) \<le> 1" by (simp add: power_int_minus field_simps)
    then have "\<bar>of_int n :: rat\<bar> * 2 powi (- int e) \<le> \<bar>of_int n\<bar> * 1" by (intro mult_left_mono) simp_all
    also have "\<dots> \<le> of_int (2 ^ 53)" using assms(1) by (simp only: of_int_abs [symmetric] mult_1_right of_int_le_iff)
    also have "\<dots> < (2::rat) ^ 1024" by simp
    finally show ?thesis by (simp add: abs_mult)
  qed
  ultimately show ?thesis by (simp add: representable_def)
qed

lemma powi_step_split: "(2::rat) powi (- int j - 3) = 2 powi (- int j) / 8"
  by (simp add: power_int_diff)

lemma demo_value: "sample_value (demo_sample j k) = Fin (50 + demo_slope j * demo_hour k)"
  by (simp add: demo_sample_def demo_slope_def demo_hour_def powi_step_split field_simps)

lemma grid_rep:
  assumes "\<bar>n\<bar> \<le> 2 ^ 53" and "j \<le> 40"
  shows "representable (of_int n * 2 powi (- int j - 3))"
  using scaled_representable [of n "j + 3"] assms by simp

lemma demo_value_rep:
  assumes "j \<le> 40" and "k < 36"
  shows "representable (50 + demo_slope j * demo_hour k)"
proof -
  define n :: int where "n = 50 * 2 ^ (j + 3) + (35 - int k)"
  have "(2::int) ^ (j + 3) \<le> 2 ^ 43" using assms(1) by (intro power_increasing) simp_all
  then have "\<bar>n\<bar> \<le> 2 ^ 53" using assms(2) unfolding n_def by (simp add: abs_le_iff)
  from grid_rep [OF this assms(1)] have "representable (of_int n * 2 powi (- int j - 3))" .
  moreover have "(2::rat) powi (- int j - 3) * 2 ^ (j + 3) = 1"
    by (simp add: power_add powi_step_split power_int_minus)
  then have "of_int n * 2 powi (- int j - 3) = 50 + demo_slope j * demo_hour k"
    by (simp add: n_def demo_slope_def demo_hour_def powi_step_split power_add power_int_minus field_simps)
  ultimately show ?thesis by simp
qed

lemma demo_slope_rep: "j \<le> 40 \<Longrightarrow> halvable (demo_slope j)"
proof -
  assume j: "j \<le> 40"
  have r: "rnd (- (2 powi (- int j))) = - (2 powi (- int j))" using rnd_powi [of "- int j"] j by (simp add: rnd_minus)
  have "(2::rat) powi (- int j) \<le> 1" by (simp add: power_int_minus field_simps)
  also have "\<dots> < 2 ^ 1023" by simp
  finally show ?thesis using r by (simp add: halvable_def demo_slope_def)
qed

lemma demo_step_rep: "j \<le> 40 \<Longrightarrow> \<bar>n\<bar> \<le> 100 \<Longrightarrow> representable (demo_slope j * (of_int n / 8))"
proof -
  assume a: "j \<le> 40" "\<bar>n\<bar> \<le> 100"
  have "representable (of_int (- n) * 2 powi (- int j - 3))" by (rule grid_rep) (use a in simp_all)
  moreover have "of_int (- n) * 2 powi (- int j - 3) = demo_slope j * (of_int n / 8)"
    by (simp add: demo_slope_def powi_step_split)
  ultimately show ?thesis by (simp only:)
qed

lemma eighth_rep: "\<bar>n\<bar> \<le> 100 \<Longrightarrow> representable (of_int n / 8)"
  using grid_rep [of n 0] by (simp add: power_int_minus)

lemma demo_hour_int: "demo_hour k = of_int (int k - 35) / 8"
  by (simp add: demo_hour_def)

lemma demo_on_line:
  assumes "j \<le> 40"
  shows "on_line 50 (demo_slope j) demo_hour (demo_series j) (map (\<lambda>k. Fin (demo_hour k)) [0..<36])"
proof -
  have "representable (demo_slope j * demo_hour k)" if "k < 36" for k
    unfolding demo_hour_int by (rule demo_step_rep [OF assms]) (use that in simp)
  moreover have d: "demo_hour b - demo_hour a = of_int (int b - int a) / 8" for a b by (simp add: demo_hour_def diff_divide_distrib)
  have "representable (demo_hour b - demo_hour a)" "representable (demo_slope j * (demo_hour b - demo_hour a))"
    if "a < b" "b < 36" for a b
    unfolding d using that by (intro eighth_rep demo_step_rep [OF assms]; simp)+
  moreover have "demo_hour a \<noteq> demo_hour b" if "a < b" for a b using that by (simp add: demo_hour_def)
  ultimately show ?thesis by (simp add: on_line_def demo_value)
qed

lemma demo_seconds:
  assumes "\<bar>n\<bar> \<le> 100"
  shows "total_seconds (n * 450000000) = Fin (of_int (n * 450))"
proof -
  have "of_int (n * 450000000) / 1000000 = (of_int (n * 450) :: rat)" by simp
  then show ?thesis unfolding total_seconds_def
    using assms by (simp only:) (rule representable_small_int, simp)
qed

lemma demo_hours: "k < 36 \<Longrightarrow> hours_from demo_now (demo_sample j k) = Inr (Fin (demo_hour k))"
proof -
  assume k: "k < 36"
  have "int k * 450000000 - 35 * 450000000 = (int k - 35) * 450000000" by (simp add: algebra_simps)
  then have "total_seconds (int k * 450000000 - 35 * 450000000) = Fin (of_int ((int k - 35) * 450))"
    using demo_seconds [of "int k - 35"] k by simp
  moreover have "of_int ((int k - 35) * 450) / 3600 = demo_hour k" by (simp add: demo_hour_def field_simps)
  moreover have "fl (demo_hour k) = Fin (demo_hour k)"
    unfolding demo_hour_int by (rule fl_representable, rule eighth_rep) (use k in simp)
  ultimately show ?thesis by (simp add: hours_from_def demo_now_def demo_sample_def)
qed

lemma demo_typed: "j \<le> 40 \<Longrightarrow> typed_series (demo_series j)"
  using demo_value_rep [of j]
  by (auto simp: typed_series_def set_demo typed_sample_def demo_value)
     (auto simp: demo_sample_def dt_ok_def dt_min_def dt_max_def)

lemma demo_valid: "is_valid_series (demo_series j)"
proof -
  have "dt_less (sample_at (fst p)) (sample_at (snd p)) = Inr True" if "p \<in> set (pairwise_list (demo_series j))" for p
    using pairwise_demo [OF that] by (auto simp: demo_sample_def)
  then show ?thesis
    by (auto simp: is_valid_series_def list_all_iff set_demo) (auto simp: demo_sample_def)
qed

section \<open>The forecast of a demo series\<close>

lemma small_Fin: "\<bar>n\<bar> \<le> 2 ^ 53 \<Longrightarrow> fl (of_int n) = Fin (of_int n)"
  by (rule representable_small_int)

lemma demo_gap: "k < 35 \<Longrightarrow> total_seconds (gap_us (demo_sample j k) (demo_sample j (Suc k))) = Fin 450"
  using demo_seconds [of 1] by (simp add: gap_us_def demo_sample_def algebra_simps)

lemma demo_cadence: "cadence_value (demo_series j) = Some (Fin 450)"
proof -
  have g: "d = Fin 450" if "d \<in> set (positive_gaps (demo_series j))" for d
    using that by (auto simp: positive_gaps_def demo_gap dest!: pairwise_demo)
  have "length (pairwise_list (demo_series j)) = 35" by simp
  then have "(demo_sample j 0, demo_sample j 1) \<in> set (pairwise_list (demo_series j))"
    by (metis One_nat_def nth_pairwise_list nth_demo nth_mem length_demo zero_less_numeral Suc_lessI
        numeral_eq_one_iff semiring_norm(83) semiring_norm(84) one_less_numeral_iff semiring_norm(76))
  then have ne: "positive_gaps (demo_series j) \<noteq> []"
    using demo_gap [of 0 j] by (force simp: positive_gaps_def filter_empty_conv)
  have "halvable 450"
  proof -
    have "rnd 450 = 450" using representable_of_int [of 450] by (simp add: representable_def)
    then show ?thesis by (simp add: halvable_def)
  qed
  then have "median (positive_gaps (demo_series j)) = Inr (Fin 450)" by (rule median_const [OF _ ne g])
  then show ?thesis by (simp add: cadence_value_def)
qed

lemma fmul_450_6: "fmul (Fin 450) (Fin 6) = Fin 2700"
  using small_Fin [of 2700] by simp

lemma demo_no_break:
  assumes "j \<le> 40" and "(a, b) \<in> set (pairwise_list (demo_series j))"
  shows "\<not> is_break (Fin 5) (Fin 2700) a b"
proof -
  obtain k where k: "k < 35" "a = demo_sample j k" "b = demo_sample j (Suc k)" using pairwise_demo [OF assms(2)] by auto
  have e: "demo_slope j * demo_hour (Suc k) - demo_slope j * demo_hour k = demo_slope j / 8"
    by (simp add: demo_hour_def field_simps)
  have r: "fl (demo_slope j / 8) = Fin (demo_slope j / 8)"
    by (rule fl_representable) (use demo_step_rep [OF assms(1), of 1] in simp)
  have "fl (demo_slope j * demo_hour (Suc k) - demo_slope j * demo_hour k) = Fin (demo_slope j / 8)"
    by (simp only: e r)
  moreover have "demo_slope j / 8 \<le> 0" by (simp add: demo_slope_def)
  ultimately show ?thesis using k demo_gap [OF k(1)] by (simp add: is_break_def demo_value)
qed

lemma WATER_fields [simp]:
  "target WATER = Fin 10" "refill_jump WATER = Fin 5" "min_points WATER = 36"
  "min_span_seconds WATER = Fin 10800" "max_fit_points WATER = 300" "gap_factor WATER = Fin 6"
  "stale_after_seconds WATER = Fin 1800" "max_horizon_seconds WATER = Fin 2592000"
  by (simp_all add: WATER_def)

lemma demo_segment:
  assumes "j \<le> 40"
  shows "cut_at (is_break (refill_jump WATER) (gap_limit_of (demo_series j) (gap_factor WATER))) (demo_series j) = [demo_series j]"
    and "newest_segment WATER (demo_series j) = demo_series j" and "fit_window WATER (demo_series j) = demo_series j"
proof -
  have gl: "gap_limit_of (demo_series j) (gap_factor WATER) = Fin 2700"
    using demo_cadence fmul_450_6 by (simp add: gap_limit_of_def)
  have rj: "refill_jump WATER = Fin 5" by simp
  have "is_cut (is_break (Fin 5) (Fin 2700)) (demo_series j) [demo_series j]"
    using demo_no_break [OF assms] demo_neq_Nil [of j, symmetric] by (auto simp: is_cut_def)
  then show c: "cut_at (is_break (refill_jump WATER) (gap_limit_of (demo_series j) (gap_factor WATER))) (demo_series j) = [demo_series j]"
    unfolding gl rj by (rule is_cut_unique [symmetric])
  then show n: "newest_segment WATER (demo_series j) = demo_series j" by (simp add: newest_segment_def)
  show "fit_window WATER (demo_series j) = demo_series j" by (simp add: fit_window_def n slice_last_pos)
qed

lemma demo_clean: "j \<le> 40 \<Longrightarrow> clean_series (demo_series j)"
  using valid_sample_ok [OF demo_valid demo_typed] by (simp add: clean_series_def)

lemma demo_hour_float: "k < 36 \<Longrightarrow> hour_float (Fin (demo_hour k))"
proof -
  assume k: "k < 36"
  have s: "sample_at (demo_sample 0 k) = Aware (int k * 450000000)" "dt_ok (int k * 450000000)" "dt_ok (35 * 450000000)"
    using k by (simp_all add: demo_sample_def dt_ok_def dt_min_def dt_max_def)
  show ?thesis using hours_from_ok [OF s] demo_hours [OF k] by (simp add: demo_now_def)
qed

lemma rmap_nth:
  assumes "length ss = n" and "\<And>k. k < n \<Longrightarrow> f (ss ! k) = Inr (g k)"
  shows "rmap f ss = Inr (map g [0..<n])"
proof -
  have "rmap f (map ((!) ss) ks) = Inr (map g ks)" if "\<forall>k \<in> set ks. k < n" for ks
    using that by (induction ks) (simp_all add: assms(2))
  moreover have "ss = map ((!) ss) [0..<n]" using assms(1) by (metis map_nth)
  ultimately show ?thesis by (metis atLeastLessThan_iff set_upt)
qed

lemma demo_fit_hours: "fit_hours (demo_series j) (map (\<lambda>k. Fin (demo_hour k)) [0..<36])"
proof -
  have "rmap (hours_from demo_now) (demo_series j) = Inr (map (\<lambda>k. Fin (demo_hour k)) [0..<36])"
    by (rule rmap_nth) (simp_all add: demo_hours)
  moreover have "sample_at (last (demo_series j)) = demo_now" by (simp add: demo_sample_def demo_now_def)
  ultimately show ?thesis using demo_hour_float by (auto simp: fit_hours_def)
qed

lemma halvable_50: "halvable 50"
proof -
  have "rnd 50 = 50" using representable_of_int [of 50] by (simp add: representable_def)
  then show ?thesis by (simp add: halvable_def)
qed

lemma demo_fit:
  assumes "j \<le> 40"
  shows "\<exists>f. theil_sen Z95 (demo_series j) = Inr (Some f) \<and> slope_per_hour f = Fin (demo_slope j) \<and>
             slope_low_per_hour f = Fin (demo_slope j) \<and> slope_high_per_hour f = Fin (demo_slope j) \<and>
             value_at_anchor f = Fin 50 \<and> residual_mad f = Fin 0 \<and> anchor_at f = demo_now"
proof -
  have now: "sample_at (last (demo_series j)) = demo_now" by (simp add: demo_sample_def demo_now_def)
  show ?thesis
    using theil_sen_exact_line [OF demo_clean [OF assms] demo_fit_hours _ demo_on_line [OF assms] halvable_50
        demo_slope_rep [OF assms]] now by simp
qed

lemma demo_span: "\<not> flt (window_span WATER (demo_series j)) (min_span_seconds WATER)" if "j \<le> 40"
proof -
  have "total_seconds (35 * 450000000) = Fin 15750" using demo_seconds [of 35] by simp
  then show ?thesis using demo_segment(3) [OF that]
    by (simp add: window_span_def gap_us_def) (simp add: demo_sample_def)
qed

lemma demo_forecast:
  assumes "j \<le> 40" and w: "\<And>t. w = Some t \<Longrightarrow> is_aware t"
  shows "\<exists>f. forecast (demo_series j) WATER demo_now w = with_fit WATER (demo_sample j 35) f \<and>
     slope_per_hour f = Fin (demo_slope j) \<and> slope_low_per_hour f = Fin (demo_slope j) \<and>
     slope_high_per_hour f = Fin (demo_slope j) \<and> value_at_anchor f = Fin 50 \<and> anchor_at f = demo_now"
proof -
  obtain f where f: "theil_sen Z95 (demo_series j) = Inr (Some f)" "slope_per_hour f = Fin (demo_slope j)"
    "slope_low_per_hour f = Fin (demo_slope j)" "slope_high_per_hour f = Fin (demo_slope j)"
    "value_at_anchor f = Fin 50" "anchor_at f = demo_now" using demo_fit [OF assms(1)] by blast
  have st: "stale_limit WATER (cadence_value (demo_series j)) = Fin 2700"
    using demo_cadence fmul_450_6 by (simp add: stale_limit_def)
  have ag: "age_seconds demo_now (demo_series j) = Fin 0"
    by (simp add: age_seconds_def) (simp add: demo_now_def demo_sample_def)
  have vl: "sample_value (demo_sample j 35) = Fin 50" by (simp add: demo_sample_def)
  have k: "0 < max_fit_points WATER" "is_aware demo_now" by (simp_all add: demo_now_def)
  obtain b where b: "reached_edge WATER (cadence_value (demo_series j)) (demo_series j) w = Inr b"
    using reached_edge_total [of "demo_series j" w WATER "cadence_value (demo_series j)"] w by (auto simp: demo_sample_def)
  let ?f = "f\<lparr>segment_points := 36, truncated := b\<rparr>"
  have "with_series WATER (demo_series j) (cadence_value (demo_series j)) w = with_fit WATER (demo_sample j 35) ?f"
    using f(1) b demo_span [OF assms(1)] demo_segment [OF assms(1)]
    unfolding with_series_valid [OF demo_valid demo_neq_Nil k(1)] by simp
  then have "forecast (demo_series j) WATER demo_now w = with_fit WATER (demo_sample j 35) ?f"
    using st ag vl unfolding forecast_valid [OF demo_valid demo_neq_Nil k(2)] by simp
  then show ?thesis using f by (intro exI [of _ ?f]) simp
qed

text \<open>One percent per hour: 40 hours to the 10 percent target.\<close>

lemma crossing_demo:
  assumes "fl (40 / - demo_slope j) = Fin h" and "0 \<le> h"
  shows "crossing (Fin 50) (Fin 10) (Fin (demo_slope j)) demo_now =
    rbind (timedelta_of us_per_hour (Fin h)) (\<lambda>d. rbind (dt_add demo_now d) (\<lambda>t. Inr (Some t)))"
proof -
  have "demo_slope j < 0" by (simp add: demo_slope_def)
  moreover have "fl 40 = Fin 40" using small_Fin [of 40] by simp
  ultimately show ?thesis using assms by (simp add: crossing_def)
qed

lemma demo_ok_window:
  assumes w: "\<And>t. w = Some t \<Longrightarrow> is_aware t"
  shows "\<exists>fc. forecast (demo_series 0) WATER demo_now w = Inr fc \<and> fc_status fc = OK \<and>
    crosses_at fc = Some (Aware (35 * 450000000 + 40 * us_per_hour)) \<and>
    crosses_at_earliest fc = crosses_at fc \<and> crosses_at_latest fc = crosses_at fc"
proof -
  obtain f where f: "forecast (demo_series 0) WATER demo_now w = with_fit WATER (demo_sample 0 35) f"
    "slope_per_hour f = Fin (demo_slope 0)" "slope_low_per_hour f = Fin (demo_slope 0)"
    "slope_high_per_hour f = Fin (demo_slope 0)" "value_at_anchor f = Fin 50" "anchor_at f = demo_now"
    using demo_forecast [of 0 w] w by auto
  have "crossing (Fin 50) (Fin 10) (Fin (demo_slope 0)) demo_now = Inr (Some (Aware (35 * 450000000 + 40 * us_per_hour)))"
    using crossing_demo [of 0 40] small_Fin [of 40]
    by (simp add: demo_slope_def demo_now_def scaled_us_def trunc_def mk_timedelta_def td_ok_def dt_ok_def dt_min_def dt_max_def)
  moreover have "seconds_between (Aware (35 * 450000000 + 40 * us_per_hour)) demo_now = Inr (Fin 144000)"
    using small_Fin [of 144000] by (simp add: seconds_between_def demo_now_def total_seconds_def)
  ultimately show ?thesis using f by (simp add: with_fit_def)
qed

text \<open>\<open>2\<^sup>-\<^sup>3\<^sup>7\<close> percent per hour: more hours than a \<^verbatim>\<open>timedelta\<close> holds.\<close>

lemma demo_overflow_window:
  assumes w: "\<And>t. w = Some t \<Longrightarrow> is_aware t"
  shows "forecast (demo_series 37) WATER demo_now w = Inl OverflowError"
proof -
  obtain f where f: "forecast (demo_series 37) WATER demo_now w = with_fit WATER (demo_sample 37 35) f"
    "slope_per_hour f = Fin (demo_slope 37)" "value_at_anchor f = Fin 50" "anchor_at f = demo_now"
    using demo_forecast [of 37 w] w by auto
  have "40 / - demo_slope 37 = of_int (40 * 2 ^ 37)" by (simp add: demo_slope_def power_int_minus)
  then have "fl (40 / - demo_slope 37) = Fin (of_int (40 * 2 ^ 37))" by (simp only:) (rule small_Fin, simp)
  from crossing_demo [OF this] have "crossing (Fin 50) (Fin 10) (Fin (demo_slope 37)) demo_now = Inl OverflowError"
    by (simp add: scaled_us_def trunc_def mk_timedelta_def td_ok_def)
  then show ?thesis using f by (simp add: with_fit_def)
qed

lemma demo_ok: "\<exists>fc. forecast (demo_series 0) WATER demo_now None = Inr fc \<and> fc_status fc = OK \<and>
    crosses_at fc = Some (Aware (35 * 450000000 + 40 * us_per_hour)) \<and>
    crosses_at_earliest fc = crosses_at fc \<and> crosses_at_latest fc = crosses_at fc"
  by (rule demo_ok_window) simp

lemma demo_overflow: "forecast (demo_series 37) WATER demo_now None = Inl OverflowError"
  by (rule demo_overflow_window) simp

end
