(* ===== verification/Alerts.thy ===== *)
theory Alerts
  imports Forecast_Laws
begin

text \<open>
  The alert rule of \<^verbatim>\<open>analytics/model.py\<close>: a forecast, the latest recorded decision and the
  cooldown in, a transition or nothing out. The law of the rule is one about runs: the decisions
  recorded for one (device, kind) start with a firing, never clear twice in a row, and repeat a
  firing only after the cooldown.
\<close>

datatype alert_transition_kind = Firing | Cleared

record alert_state =
  alert_kind :: alert_transition_kind
  alert_as_of :: py_datetime

definition horizon_seconds :: "py_datetime \<Rightarrow> py_datetime \<Rightarrow> pyfloat res" where
  "horizon_seconds t a = rbind (dt_sub t a) (\<lambda>d. Inr (py_max (total_seconds d) (Fin 0)))"

definition alert_transition ::
  "forecast_record \<Rightarrow> metric \<Rightarrow> alert_state option \<Rightarrow> pyfloat \<Rightarrow> pyfloat
   \<Rightarrow> alert_transition_kind option res" where
  "alert_transition fc m previous cooldown clear_factor =
     (case (crosses_at fc, as_of fc) of
       (Some t, Some a) \<Rightarrow>
         rbind (horizon_seconds t a) (\<lambda>h.
         if fle h (alert_horizon_seconds m) then
           (case previous of
              None \<Rightarrow> Inr (Some Firing)
            | Some p \<Rightarrow>
                if alert_kind p = Cleared then Inr (Some Firing)
                else rbind (dt_sub a (alert_as_of p)) (\<lambda>d.
                  Inr (if fle cooldown (total_seconds d) then Some Firing else None)))
         else
           Inr (case previous of
              Some p \<Rightarrow>
                if alert_kind p = Firing \<and> flt (fmul (alert_horizon_seconds m) clear_factor) h
                then Some Cleared else None
            | None \<Rightarrow> None))
     | _ \<Rightarrow> Inr None)"

text \<open>\<open>clear_factor: float = 1.5\<close>, the default the service uses.\<close>

definition CLEAR_FACTOR :: pyfloat where
  "CLEAR_FACTOR = Fin (3 / 2)"

section \<open>One decision\<close>

definition alerting :: "metric \<Rightarrow> py_datetime \<Rightarrow> py_datetime \<Rightarrow> bool" where
  "alerting m t a \<longleftrightarrow> (\<exists>h. horizon_seconds t a = Inr h \<and> fle h (alert_horizon_seconds m))"

definition recovered :: "metric \<Rightarrow> pyfloat \<Rightarrow> py_datetime \<Rightarrow> py_datetime \<Rightarrow> bool" where
  "recovered m clear_factor t a \<longleftrightarrow>
     (\<exists>h. horizon_seconds t a = Inr h \<and> flt (fmul (alert_horizon_seconds m) clear_factor) h)"

lemma horizon_seconds_aware:
  "is_aware t \<Longrightarrow> is_aware a \<Longrightarrow> \<exists>h. horizon_seconds t a = Inr h"
  using dt_sub_aware [of t a] by (auto simp: horizon_seconds_def)

lemma alert_transition_total:
  assumes "\<And>t. crosses_at fc = Some t \<Longrightarrow> is_aware t" and "\<And>a. as_of fc = Some a \<Longrightarrow> is_aware a"
    and "\<And>p. previous = Some p \<Longrightarrow> is_aware (alert_as_of p)"
  shows "\<exists>r. alert_transition fc m previous cooldown cf = Inr r"
proof (cases "crosses_at fc"; cases "as_of fc")
  fix t a assume ta: "crosses_at fc = Some t" "as_of fc = Some a"
  then obtain h where h: "horizon_seconds t a = Inr h" using horizon_seconds_aware assms by blast
  show ?thesis
  proof (cases previous)
    case (Some p)
    then obtain d where "dt_sub a (alert_as_of p) = Inr d" using dt_sub_aware assms ta by blast
    then show ?thesis using ta h Some by (simp add: alert_transition_def)
  qed (use ta h in \<open>simp add: alert_transition_def\<close>)
qed (simp_all add: alert_transition_def)

lemma alert_firing_iff:
  assumes "crosses_at fc = Some t" and "as_of fc = Some a"
  shows "alert_transition fc m previous cooldown cf = Inr (Some Firing) \<longleftrightarrow>
    alerting m t a \<and>
    (case previous of None \<Rightarrow> True
     | Some p \<Rightarrow> alert_kind p = Cleared \<or>
         (\<exists>d. dt_sub a (alert_as_of p) = Inr d \<and> fle cooldown (total_seconds d)))"
  using assms alert_transition_kind.exhaust
  by (auto simp: alert_transition_def alerting_def rbind_Inr_iff split: option.splits if_splits)

lemma alert_cleared_iff:
  assumes "crosses_at fc = Some t" and "as_of fc = Some a"
  shows "alert_transition fc m previous cooldown cf = Inr (Some Cleared) \<longleftrightarrow>
    \<not> alerting m t a \<and> recovered m cf t a \<and> (\<exists>p. previous = Some p \<and> alert_kind p = Firing)"
  using assms
  by (auto simp: alert_transition_def alerting_def recovered_def rbind_Inr_iff split: option.splits if_splits)

lemma alert_without_crossing:
  "crosses_at fc = None \<or> as_of fc = None \<Longrightarrow> alert_transition fc m previous cooldown cf = Inr None"
  by (auto simp: alert_transition_def split: option.splits)

lemma alert_transition_SomeD:
  "alert_transition fc m previous cooldown cf = Inr (Some k) \<Longrightarrow> \<exists>t a. crosses_at fc = Some t \<and> as_of fc = Some a"
  by (auto simp: alert_transition_def split: option.splits)

section \<open>Runs of decisions\<close>

text \<open>
  The rule applied to one forecast after another, the recorded decision being the next
  \<open>previous\<close>, as \<^verbatim>\<open>_handle_alert\<close> records it. The list is the alert log of one (device, kind).
\<close>

fun alert_log ::
  "metric \<Rightarrow> pyfloat \<Rightarrow> pyfloat \<Rightarrow> alert_state option \<Rightarrow> forecast_record list \<Rightarrow> alert_state list res" where
  "alert_log m cooldown cf previous [] = Inr []"
| "alert_log m cooldown cf previous (fc # fcs) =
     rbind (alert_transition fc m previous cooldown cf) (\<lambda>r. case r of
       None \<Rightarrow> alert_log m cooldown cf previous fcs
     | Some k \<Rightarrow>
         let e = \<lparr>alert_kind = k, alert_as_of = the (as_of fc)\<rparr>
         in rbind (alert_log m cooldown cf (Some e) fcs) (\<lambda>es. Inr (e # es)))"

text \<open>The promise on logs: which decision may follow which.\<close>

fun log_ok :: "pyfloat \<Rightarrow> alert_state option \<Rightarrow> alert_state list \<Rightarrow> bool" where
  "log_ok cooldown previous [] = True"
| "log_ok cooldown previous (e # es) =
     ((case previous of
         None \<Rightarrow> alert_kind e = Firing
       | Some p \<Rightarrow>
           alert_kind p \<noteq> alert_kind e \<or>
           alert_kind e = Firing \<and>
             (\<exists>d. dt_sub (alert_as_of e) (alert_as_of p) = Inr d \<and> fle cooldown (total_seconds d)))
      \<and> log_ok cooldown (Some e) es)"

lemma alert_step_ok:
  assumes "alert_transition fc m previous cooldown cf = Inr (Some k)"
  shows "log_ok cooldown previous [\<lparr>alert_kind = k, alert_as_of = the (as_of fc)\<rparr>]"
proof -
  obtain t a where ta: "crosses_at fc = Some t" "as_of fc = Some a"
    using alert_transition_SomeD [OF assms] by blast
  show ?thesis
  proof (cases k)
    case Firing
    then show ?thesis using assms alert_firing_iff [OF ta, of m previous cooldown cf] ta
      by (cases previous) auto
  next
    case Cleared
    then show ?thesis using assms alert_cleared_iff [OF ta, of m previous cooldown cf] by auto
  qed
qed

lemma alert_log_ok:
  "alert_log m cooldown cf previous fcs = Inr es \<Longrightarrow> log_ok cooldown previous es"
proof (induction fcs arbitrary: previous es)
  case (Cons fc fcs)
  then obtain r where r: "alert_transition fc m previous cooldown cf = Inr r" by auto
  show ?case
  proof (cases r)
    case None
    then show ?thesis using Cons r by simp
  next
    case (Some k)
    then show ?thesis using Cons alert_step_ok [of fc m previous cooldown cf k] r by (auto simp: Let_def)
  qed
qed simp

text \<open>
  Hysteresis: while the horizon stays within \<open>clear_factor\<close> of the threshold, a firing alert is
  not cleared, so at most reminders are recorded.
\<close>

lemma no_flap:
  assumes "\<forall>fc \<in> set fcs. \<forall>t a. crosses_at fc = Some t \<longrightarrow> as_of fc = Some a \<longrightarrow> \<not> recovered m cf t a"
    and "alert_log m cooldown cf previous fcs = Inr es"
  shows "\<forall>e \<in> set es. alert_kind e = Firing"
  using assms
proof (induction fcs arbitrary: previous es)
  case (Cons fc fcs)
  from Cons.prems(2) obtain r where r: "alert_transition fc m previous cooldown cf = Inr r" by auto
  show ?case
  proof (cases r)
    case None
    then show ?thesis using Cons r by simp
  next
    case (Some k)
    obtain t a where ta: "crosses_at fc = Some t" "as_of fc = Some a"
      using alert_transition_SomeD r Some by blast
    then have "k = Firing" using alert_cleared_iff [OF ta] Cons.prems(1) r Some by (cases k) auto
    then show ?thesis using Cons r Some by (auto simp: Let_def)
  qed
qed simp

end
