(* ===== verification/Forecast_Claims.thy ===== *)
theory Forecast_Claims
  imports Demo_Series Alerts
begin

text \<open>
  The properties of the forecasting core, each with an application to a concrete input: the
  series of \<open>Demo_Series\<close>, or a few samples written out.
\<close>

section \<open>The forecast\<close>

lemma demo_fc:
  obtains fc where "forecast (demo_series 0) WATER demo_now None = Inr fc" and "fc_status fc = OK"
    and "crosses_at fc = Some (Aware (35 * 450000000 + 40 * us_per_hour))"
  using demo_ok by blast

text \<open>
  C1: every status says what the record carries. A crossing time is present exactly for
  \<open>OK\<close>, \<open>BEYOND_HORIZON\<close> and \<open>AT_OR_BELOW_TARGET\<close>; without one there is no band either; a fit is
  present exactly for \<open>OK\<close>, \<open>BEYOND_HORIZON\<close> and \<open>NOT_DEPLETING\<close>; and a watermark is missing only
  for \<open>NO_DATA\<close> and \<open>INVALID_SERIES\<close>. This holds for any samples, metric and clock, valid or not.
\<close>

theorem forecast_status_fields:
  assumes "forecast xs m now w = Inr fc"
  shows "(crosses_at fc \<noteq> None \<longleftrightarrow> fc_status fc \<in> CROSSING_STATUSES) \<and>
         (crosses_at fc = None \<longrightarrow> crosses_at_earliest fc = None \<and> crosses_at_latest fc = None) \<and>
         (fc_fit fc \<noteq> None \<longleftrightarrow> fc_status fc \<in> {OK, BEYOND_HORIZON, NOT_DEPLETING}) \<and>
         (as_of fc = None \<longrightarrow> fc_status fc \<in> {NO_DATA, INVALID_SERIES})"
  by (rule crossing_status_invariant [OF assms])

theorem forecast_status_fields_witness:
  "\<exists>fc. forecast (demo_series 0) WATER demo_now None = Inr fc \<and> crosses_at fc \<noteq> None \<and> fc_fit fc \<noteq> None"
proof -
  obtain fc where fc: "forecast (demo_series 0) WATER demo_now None = Inr fc" "fc_status fc = OK"
    using demo_fc by blast
  show ?thesis using forecast_status_fields [OF fc(1)] fc by (auto simp: CROSSING_STATUSES_def)
qed

text \<open>
  C2: the precedence of the statuses on a valid series, as the documentation tabulates it, with
  each test stated over the reference segmentation: stale before at-or-below-target before the
  point gate before the span gate before the sign of the slope before the horizon.
\<close>

theorem forecast_status_table:
  assumes "is_valid_series xs" and "typed_series xs" and "xs \<noteq> []" and "is_aware now" and "fit_metric m"
    and "forecast xs m now w = Inr fc"
  shows "fc_status fc =
    (if flt (stale_limit m (cadence_value xs)) (age_seconds now xs) then STALE
     else if fle (sample_value (last xs)) (target m) then AT_OR_BELOW_TARGET
     else if int (length (newest_segment m xs)) < min_points m then INSUFFICIENT_POINTS
     else if flt (window_span m xs) (min_span_seconds m) then INSUFFICIENT_SPAN
     else if fle (Fin 0) (slope_per_hour (the (fc_fit fc))) then NOT_DEPLETING
     else if flt (max_horizon_seconds m)
               (case seconds_between (the (crosses_at fc)) (sample_at (last xs)) of Inr h \<Rightarrow> h | Inl _ \<Rightarrow> NaN)
     then BEYOND_HORIZON else OK)"
  by (rule forecast_precedence [OF assms])

theorem forecast_status_table_witness:
  "\<exists>fc. forecast (demo_series 0) WATER demo_now None = Inr fc \<and>
     \<not> fle (Fin 0) (slope_per_hour (the (fc_fit fc))) \<and> fc_status fc = OK"
proof -
  obtain fc where fc: "forecast (demo_series 0) WATER demo_now None = Inr fc" "fc_status fc = OK"
    using demo_fc by blast
  have m: "fit_metric WATER" by (rule METRICS_fit_metric) (simp add: METRICS_def)
  have now: "is_aware demo_now" by (simp add: demo_now_def)
  show ?thesis
    using forecast_status_table [OF demo_valid demo_typed demo_neq_Nil now m fc(1)] fc by (auto split: if_splits)
qed

text \<open>
  C3: the uncertainty band is ordered. On readings of sane magnitude a forecast with a crossing
  has an earliest crossing, and watermark \<open>\<le>\<close> earliest \<open>\<le>\<close> crossing \<open>\<le>\<close> latest; the latest is open
  exactly when the upper end of the slope interval does not fall.
\<close>

theorem forecast_band_ordered:
  assumes "\<forall>s \<in> set xs. tame s" and "bounded 64 (target m)" and "fit_metric m"
    and "forecast xs m now w = Inr fc" and "crosses_at fc = Some t"
  shows "\<exists>a t' e. as_of fc = Some (Aware a) \<and> t = Aware t' \<and> crosses_at_earliest fc = Some (Aware e) \<and>
     a \<le> e \<and> e \<le> t' \<and> (\<forall>l. crosses_at_latest fc = Some l \<longrightarrow> (\<exists>l'. l = Aware l' \<and> t' \<le> l')) \<and>
     (crosses_at_latest fc = None \<longleftrightarrow> (\<exists>f. fc_fit fc = Some f \<and> fle (Fin 0) (slope_high_per_hour f)))"
  by (rule forecast_band [OF assms])

lemma demo_tame: "\<forall>s \<in> set (demo_series 0). tame s"
proof
  fix s assume "s \<in> set (demo_series 0)"
  then obtain k where k: "k < 36" "s = demo_sample 0 k" by (auto simp: set_demo)
  have "\<bar>50 + demo_slope 0 * demo_hour k\<bar> \<le> 2 ^ 64"
    using k(1) by (simp add: demo_slope_def demo_hour_def abs_le_iff field_simps)
  then show "tame s"
    using k demo_value_rep [of 0 k] by (simp add: tame_def demo_value)
      (simp add: demo_sample_def dt_ok_def dt_min_def dt_max_def)
qed

theorem forecast_band_ordered_witness:
  "\<exists>fc a e. forecast (demo_series 0) WATER demo_now None = Inr fc \<and> as_of fc = Some (Aware a) \<and>
     crosses_at_earliest fc = Some (Aware e) \<and> a \<le> e \<and> e \<le> 35 * 450000000 + 40 * us_per_hour"
proof -
  obtain fc where fc: "forecast (demo_series 0) WATER demo_now None = Inr fc"
    "crosses_at fc = Some (Aware (35 * 450000000 + 40 * us_per_hour))" using demo_fc by blast
  have m: "fit_metric WATER" by (rule METRICS_fit_metric) (simp add: METRICS_def)
  have "bounded 64 (target WATER)" using representable_of_int [of 10] by simp
  from forecast_band_ordered [OF demo_tame this m fc] fc show ?thesis by auto
qed

text \<open>
  C4: how far the forecast is total. With an aware window start, any series of well-typed
  samples gets a record, except that a valid series may raise \<open>OverflowError\<close>; no division by
  zero, no naive/aware comparison, no empty median can escape.
\<close>

theorem forecast_raises_only_overflow:
  assumes "typed_series xs" and "m \<in> set METRICS" and "\<And>t. w = Some t \<Longrightarrow> is_aware t"
    and "forecast xs m now w = Inl e"
  shows "e = OverflowError \<and> is_valid_series xs"
proof -
  have "fit_metric m" using METRICS_fit_metric assms(2) .
  then show ?thesis using forecast_exceptions [OF assms(1) _ _ assms(3,4)] by (simp add: fit_metric_def)
qed

theorem forecast_raises_only_overflow_witness:
  "forecast (demo_series 37) WATER demo_now None = Inl OverflowError \<and> is_valid_series (demo_series 37)"
  using forecast_raises_only_overflow [OF demo_typed _ _ demo_overflow] demo_overflow
  by (simp add: METRICS_def)

text \<open>
  The exception of the previous property does occur. A valid water series of 36 samples in
  the contract's range, falling by \<open>2\<^sup>-\<^sup>3\<^sup>7\<close> percent per hour, makes \<^verbatim>\<open>timedelta(hours=...)\<close> in
  \<^verbatim>\<open>_crossing\<close> overflow, although the module documents itself as total.
\<close>

theorem forecast_not_total:
  "\<exists>xs now. typed_series xs \<and> is_valid_series xs \<and> length xs = 36 \<and>
     (\<forall>s \<in> set xs. fle (Fin 0) (sample_value s) \<and> fle (sample_value s) (Fin 100)) \<and>
     forecast xs WATER now None = Inl OverflowError"
proof -
  have "0 \<le> 50 + demo_slope 37 * demo_hour k \<and> 50 + demo_slope 37 * demo_hour k \<le> 100" if "k < 36" for k
    using that by (simp add: demo_slope_def demo_hour_def power_int_minus field_simps)
  then have "\<forall>s \<in> set (demo_series 37). fle (Fin 0) (sample_value s) \<and> fle (sample_value s) (Fin 100)"
    by (auto simp: set_demo demo_value)
  then show ?thesis
    using demo_typed [of 37] demo_valid [of 37] demo_overflow length_demo [of 37] by fastforce
qed

theorem forecast_not_total_witness:
  "\<exists>xs now. is_valid_series xs \<and> length xs = 36 \<and> forecast xs WATER now None = Inl OverflowError"
  using forecast_not_total by blast

text \<open>
  C6: the fit reads the newest segment and nothing else. That segment is a suffix of the series
  without a refill or gap inside; the fit covers its last \<open>max_fit_points\<close> samples, reports both
  counts, and is made only past every gate.
\<close>

theorem fit_from_newest_segment:
  assumes "forecast xs m now w = Inr fc" and "fc_fit fc = Some f" and "0 < max_fit_points m"
  shows "(\<exists>pre. xs = pre @ newest_segment m xs) \<and>
    (\<forall>(a, b) \<in> set (pairwise_list (newest_segment m xs)).
       \<not> is_break (refill_jump m) (gap_limit_of xs (gap_factor m)) a b) \<and>
    (\<exists>f0. theil_sen Z95 (slice_last (max_fit_points m) (newest_segment m xs)) = Inr (Some f0) \<and>
       slope_per_hour f = slope_per_hour f0 \<and> value_at_anchor f = value_at_anchor f0) \<and>
    points f = min (max_fit_points m) (int (length (newest_segment m xs))) \<and>
    segment_points f = int (length (newest_segment m xs)) \<and> min_points m \<le> segment_points f"
proof -
  obtain f0 tr where ff: "xs \<noteq> []" "min_points m \<le> int (length (newest_segment m xs))"
    "theil_sen Z95 (fit_window m xs) = Inr (Some f0)"
    "f = f0\<lparr>segment_points := int (length (newest_segment m xs)), truncated := tr\<rparr>"
    using forecast_fit [OF assms] by metis
  have nb: "\<forall>(a, b) \<in> set (pairwise_list (newest_segment m xs)).
       \<not> is_break (refill_jump m) (gap_limit_of xs (gap_factor m)) a b"
    unfolding newest_segment_def using seg.no_break_in_newest [OF ff(1)] by blast
  have "points f0 = int (length (fit_window m xs))" using theil_sen_anchor [OF ff(3)] by blast
  then have pt: "points f = min (max_fit_points m) (int (length (newest_segment m xs)))"
    using fit_window_laws(5) [OF ff(1) assms(3)] ff(4) by simp
  show ?thesis using newest_segment_laws(3) [OF ff(1), of m] nb pt ff by (simp add: fit_window_def)
qed

theorem fit_from_newest_segment_witness:
  "\<exists>fc f. forecast (demo_series 0) WATER demo_now None = Inr fc \<and> fc_fit fc = Some f \<and> 36 \<le> segment_points f"
proof -
  obtain fc where fc: "forecast (demo_series 0) WATER demo_now None = Inr fc" "fc_status fc = OK"
    using demo_fc by blast
  then obtain f where f: "fc_fit fc = Some f" using crossing_status_invariant [OF fc(1)] by auto
  from fit_from_newest_segment [OF fc(1) f] show ?thesis using fc f by simp
qed

text \<open>
  C7: a refill on the newest sample resets the forecast. Unless the series is stale or the
  level is at the target, the status is \<open>INSUFFICIENT_POINTS\<close>: the old depletion rate is never
  reported for the new filling.
\<close>

theorem refill_resets_forecast:
  assumes "is_valid_series xs" and "xs = ys @ [a, b]" and "is_aware now" and "fit_metric m"
    and "fle (refill_jump m) (fsub (sample_value b) (sample_value a))"
    and "\<not> flt (stale_limit m (cadence_value xs)) (age_seconds now xs)"
    and "\<not> fle (sample_value b) (target m)"
  shows "\<exists>fc. forecast xs m now w = Inr fc \<and> fc_status fc = INSUFFICIENT_POINTS \<and> crosses_at fc = None"
proof -
  have ne: "xs \<noteq> []" and l: "last xs = b" using assms(2) by simp_all
  have "newest_segment m xs = [b]" using newest_after_break [OF assms(2)] assms(5) by (simp add: is_break_def)
  then have "with_series m xs (cadence_value xs) w = Inr (give_up m xs INSUFFICIENT_POINTS)"
    using with_series_valid [OF assms(1) ne] assms(4) by (simp add: fit_metric_def)
  then show ?thesis using forecast_valid [OF assms(1) ne assms(3)] assms(6,7) l by simp
qed

text \<open>Two samples: 20 percent, then 95 percent ten minutes later.\<close>

definition refill_samples :: "sample list" where
  "refill_samples = [\<lparr>sample_at = Aware 0, sample_value = Fin 20\<rparr>,
                     \<lparr>sample_at = Aware 600000000, sample_value = Fin 95\<rparr>]"

theorem refill_resets_forecast_witness:
  "\<exists>fc. forecast refill_samples WATER (Aware 600000000) None = Inr fc \<and> fc_status fc = INSUFFICIENT_POINTS \<and>
     crosses_at fc = None"
proof -
  have v: "is_valid_series refill_samples" by (simp add: refill_samples_def is_valid_series_def)
  have f: "fl 600 = Fin 600" "fl 75 = Fin 75" "fl 3600 = Fin 3600"
    using small_Fin [of 600] small_Fin [of 75] small_Fin [of 3600] by simp_all
  have c: "cadence_value refill_samples = Some (Fin 600)"
    using f by (simp add: cadence_value_def positive_gaps_def refill_samples_def gap_us_def total_seconds_def median_def)
  have m: "fit_metric WATER" by (rule METRICS_fit_metric) (simp add: METRICS_def)
  show ?thesis
    using refill_resets_forecast [of refill_samples "[]" "refill_samples ! 0" "refill_samples ! 1" "Aware 600000000" WATER None]
      v c m f by (simp add: refill_samples_def stale_limit_def age_seconds_def)
qed

text \<open>
  Past the point gate the estimator always has a fit; the branch for its \<^verbatim>\<open>None\<close> in the entry
  point is unreachable for the two metrics, as its comment says.
\<close>

theorem fit_guard_unreachable:
  assumes "is_valid_series xs" and "typed_series xs" and "xs \<noteq> []" and "m \<in> set METRICS"
    and "min_points m \<le> int (length (newest_segment m xs))"
  shows "\<exists>f. theil_sen Z95 (slice_last (max_fit_points m) (newest_segment m xs)) = Inr (Some f)"
  using window_fit_exists [OF assms(1-3) METRICS_fit_metric [OF assms(4)] assms(5)] by (simp add: fit_window_def)

theorem fit_guard_unreachable_witness:
  "\<exists>f. theil_sen Z95 (slice_last 300 (demo_series 0)) = Inr (Some f)"
  using fit_guard_unreachable [OF demo_valid demo_typed demo_neq_Nil, of 0 WATER] demo_segment(2) [of 0]
  by (simp add: METRICS_def)

section \<open>The estimator and the segmentation\<close>

text \<open>
  C9: on samples of sane magnitude a fit has only finite numbers, its slope lies inside its
  interval, its residual scale is not negative, and it is anchored at the newest sample.
\<close>

theorem theil_sen_interval:
  assumes "tame_series samples" and "theil_sen Z95 samples = Inr (Some f)"
  shows "slope_low_per_hour f \<le> slope_per_hour f \<and> slope_per_hour f \<le> slope_high_per_hour f \<and>
    finite_float (slope_low_per_hour f) \<and> finite_float (slope_high_per_hour f) \<and>
    finite_float (value_at_anchor f) \<and> finite_float (residual_mad f) \<and> Fin 0 \<le> residual_mad f \<and>
    anchor_at f = sample_at (last samples) \<and> points f = int (length samples)"
  using theil_sen_sane [OF assms] bounded_wf by (auto simp: sane_fit_def)

theorem theil_sen_interval_witness:
  "\<exists>f. theil_sen Z95 (demo_series 0) = Inr (Some f) \<and> slope_low_per_hour f \<le> slope_per_hour f \<and> points f = 36"
proof -
  obtain f where f: "theil_sen Z95 (demo_series 0) = Inr (Some f)" using demo_fit [of 0] by auto
  have "tame_series (demo_series 0)" using demo_tame by (simp add: tame_series_def)
  from theil_sen_interval [OF this f] show ?thesis using f by simp
qed

text \<open>
  C10: robustness. Let \<open>G\<close> be a set of \<open>g\<close> of the \<open>n\<close> samples with \<open>n (n - 1) < 2 g (g - 1)\<close> whose
  pairwise slopes all lie between \<open>lo\<close> and \<open>hi\<close>. Whatever the other samples are, there is a fit
  and its slope lies between \<open>lo\<close> and \<open>hi\<close>. For large \<open>n\<close> this tolerates the 29 percent of
  contamination the documentation claims.
\<close>

theorem theil_sen_robust:
  assumes "clean_series samples" and "fit_hours samples xs" and "3 \<le> length samples"
    and "G \<subseteq> {..<length samples}"
    and "length samples * (length samples - 1) < 2 * (card G * (card G - 1))"
    and "halvable lo" and "halvable hi"
    and "\<forall>i \<in> G. \<forall>j \<in> G. i < j \<longrightarrow>
        (\<exists>s. pair_slope xs (map sample_value samples) (i, j) = Inr s \<and> Fin lo \<le> s \<and> s \<le> Fin hi)"
  shows "\<exists>f. theil_sen Z95 samples = Inr (Some f) \<and> Fin lo \<le> slope_per_hour f \<and> slope_per_hour f \<le> Fin hi"
  by (rule theil_sen_contaminated [OF assms])

text \<open>The demo series with its sample 17 replaced by a glitch of 99 percent.\<close>

definition glitched :: "sample list" where
  "glitched = (demo_series 0)[17 := \<lparr>sample_at = Aware (17 * 450000000), sample_value = Fin 99\<rparr>]"

lemma nth_glitched: "k < 36 \<Longrightarrow> glitched ! k =
    (if k = 17 then \<lparr>sample_at = Aware (17 * 450000000), sample_value = Fin 99\<rparr> else demo_sample 0 k)"
  by (simp add: glitched_def nth_list_update)

lemma glitched_facts: "length glitched = 36" "clean_series glitched"
    "fit_hours glitched (map (\<lambda>k. Fin (demo_hour k)) [0..<36])"
proof -
  show len: "length glitched = 36" by (simp add: glitched_def)
  have t: "sample_at (glitched ! k) = Aware (int k * 450000000)" if "k < 36" for k
    using that by (simp add: nth_glitched demo_sample_def)
  have h: "hours_from demo_now (glitched ! k) = Inr (Fin (demo_hour k))" if "k < 36" for k
    using demo_hours [OF that, of 0] t [OF that] by (simp add: hours_from_def demo_sample_def)
  have ok: "sample_ok (glitched ! k)" if "k < 36" for k
  proof (cases "k = 17")
    case True
    then show ?thesis using representable_of_int [of 99]
      by (simp add: nth_glitched sample_ok_def dt_ok_def dt_min_def dt_max_def)
  next
    case False
    then show ?thesis using valid_sample_ok [OF demo_valid demo_typed, of 0] that nth_demo [OF that, of 0]
      by (metis length_demo nth_glitched nth_mem zero_le)
  qed
  then show "clean_series glitched" using len by (auto simp: clean_series_def in_set_conv_nth)
  have "rmap (hours_from demo_now) glitched = Inr (map (\<lambda>k. Fin (demo_hour k)) [0..<36])"
    by (rule rmap_nth) (use len h in simp_all)
  moreover have "sample_at (last glitched) = demo_now"
    using len t [of 35] by (simp add: last_conv_nth demo_now_def flip: length_greater_0_conv)
  moreover have "hour_float (Fin (demo_hour k))" if "k < 36" for k using demo_hour_float [OF that] .
  ultimately show "fit_hours glitched (map (\<lambda>k. Fin (demo_hour k)) [0..<36])"
    using len by (auto simp: fit_hours_def)
qed

theorem theil_sen_robust_witness:
  "\<exists>f. theil_sen Z95 glitched = Inr (Some f) \<and> slope_per_hour f = Fin (- 1)"
proof -
  let ?G = "{..<36} - {17::nat}" and ?xs = "map (\<lambda>k. Fin (demo_hour k)) [0..<36]"
  have sl: "pair_slope ?xs (map sample_value glitched) (i, j) = Inr (Fin (- 1))" if "i \<in> ?G" "j \<in> ?G" "i < j" for i j
  proof -
    have "pair_slope ?xs (map sample_value glitched) (i, j) = pair_slope ?xs (map sample_value (demo_series 0)) (i, j)"
      using that glitched_facts(1) by (simp add: pair_slope_def nth_glitched)
    also have "\<dots> = Inr (Fin (demo_slope 0))"
      by (rule on_line_pair [OF demo_on_line]) (use that demo_slope_rep [of 0] halvable_representable in auto)
    finally show ?thesis by (simp add: demo_slope_def)
  qed
  have "halvable (- 1)" using demo_slope_rep [of 0] by (simp add: demo_slope_def)
  moreover have "card ?G = 35" by simp
  ultimately have "\<exists>f. theil_sen Z95 glitched = Inr (Some f) \<and> Fin (- 1) \<le> slope_per_hour f \<and> slope_per_hour f \<le> Fin (- 1)"
    using theil_sen_robust [OF glitched_facts(2,3), of ?G "- 1" "- 1"] glitched_facts(1) sl by auto
  then show ?thesis by auto
qed

text \<open>
  C11: on samples that lie exactly on a line whose intermediate values are binary64 numbers, the
  estimator returns that line, a degenerate interval and no residual.
\<close>

theorem theil_sen_exact:
  assumes "clean_series samples" and "fit_hours samples xs" and "3 \<le> length samples"
    and "on_line a c X samples xs" and "halvable a" and "halvable c"
  shows "\<exists>f. theil_sen Z95 samples = Inr (Some f) \<and> slope_per_hour f = Fin c \<and>
             slope_low_per_hour f = Fin c \<and> slope_high_per_hour f = Fin c \<and>
             value_at_anchor f = Fin a \<and> residual_mad f = Fin 0 \<and>
             anchor_at f = sample_at (last samples)"
  by (rule theil_sen_exact_line [OF assms])

theorem theil_sen_exact_witness:
  "\<exists>f. theil_sen Z95 (demo_series 3) = Inr (Some f) \<and> slope_per_hour f = Fin (- 1 / 8) \<and> residual_mad f = Fin 0"
  using theil_sen_exact [OF demo_clean demo_fit_hours _ demo_on_line halvable_50 demo_slope_rep, of 3]
  by (auto simp: demo_slope_def power_int_minus)

text \<open>
  C12: the segmentation. On aware samples the index-juggling loop returns the one segmentation
  that loses and reorders nothing, has no empty segment, breaks exactly at the refills and gaps.
\<close>

theorem split_segments_unique_cut:
  assumes "\<forall>s \<in> set xs. is_aware (sample_at s)"
  shows "\<exists>segs. split_segments xs jump factor = Inr segs \<and>
    (\<forall>segs'. is_cut (is_break jump (gap_limit_of xs factor)) xs segs' \<longleftrightarrow> segs' = segs)"
proof -
  let ?b = "is_break jump (gap_limit_of xs factor)"
  have "split_segments xs jump factor = Inr (cut_at ?b xs)"
    using split_segments_aware assms by (simp add: aware_series_def)
  then show ?thesis using seg.unique seg.cuts by blast
qed

theorem split_segments_unique_cut_witness:
  "split_segments refill_samples (Fin 5) (Fin 6) = Inr [[refill_samples ! 0], [refill_samples ! 1]]"
proof -
  have "\<forall>s \<in> set refill_samples. is_aware (sample_at s)" by (simp add: refill_samples_def)
  from split_segments_unique_cut [OF this] obtain segs where s: "split_segments refill_samples (Fin 5) (Fin 6) = Inr segs"
    "is_cut (is_break (Fin 5) (gap_limit_of refill_samples (Fin 6))) refill_samples [[refill_samples ! 0], [refill_samples ! 1]]
      \<longleftrightarrow> [[refill_samples ! 0], [refill_samples ! 1]] = segs" by blast
  have "fl 75 = Fin 75" using small_Fin [of 75] by simp
  then have "is_break (Fin 5) l (refill_samples ! 0) (refill_samples ! 1)" for l
    by (simp add: refill_samples_def is_break_def)
  then have "is_cut (is_break (Fin 5) (gap_limit_of refill_samples (Fin 6))) refill_samples [[refill_samples ! 0], [refill_samples ! 1]]"
    by (simp add: is_cut_def) (simp add: refill_samples_def)
  then show ?thesis using s by simp
qed

section \<open>Alerts\<close>

text \<open>
  C13: the alert log of one device and kind. Folding the rule over any forecasts, each recorded
  decision being the next previous one: the first decision is a firing, a clear follows only a
  firing, and a firing follows a firing only after the cooldown.
\<close>

theorem alert_log_alternates:
  assumes "alert_log m cooldown cf None fcs = Inr es"
  shows "log_ok cooldown None es"
  by (rule alert_log_ok [OF assms])

definition alert_fc :: "int \<Rightarrow> int \<Rightarrow> forecast_record" where
  "alert_fc a t = (no_crossing WATER OK (Some (Aware a)) None)\<lparr>crosses_at := Some (Aware t)\<rparr>"

lemma alert_seconds: "total_seconds 0 = Fin 0" "total_seconds 400000000000 = Fin 400000"
  "fl 259200 = Fin 259200" "alert_horizon_seconds WATER = Fin 172800"
  using small_Fin [of 400000] small_Fin [of 259200] by (simp_all add: total_seconds_def WATER_def)

theorem alert_log_alternates_witness:
  "\<exists>es. alert_log WATER (Fin 86400) CLEAR_FACTOR None [alert_fc 0 0, alert_fc 0 400000000000, alert_fc 0 0] = Inr es \<and>
     map alert_kind es = [Firing, Cleared, Firing] \<and> log_ok (Fin 86400) None es"
proof -
  let ?es = "[\<lparr>alert_kind = Firing, alert_as_of = Aware 0\<rparr>, \<lparr>alert_kind = Cleared, alert_as_of = Aware 0\<rparr>,
    \<lparr>alert_kind = Firing, alert_as_of = Aware 0\<rparr>]"
  have "alert_log WATER (Fin 86400) CLEAR_FACTOR None [alert_fc 0 0, alert_fc 0 400000000000, alert_fc 0 0] = Inr ?es"
    by (simp add: alert_fc_def no_crossing_def alert_transition_def horizon_seconds_def alert_seconds CLEAR_FACTOR_def Let_def)
  from this alert_log_alternates [OF this] show ?thesis by simp
qed

text \<open>
  Hysteresis: while every horizon stays within the clear factor of the threshold, no clear
  is recorded, so a forecast wobbling around the threshold cannot produce fire/clear pairs.
\<close>

theorem alert_hysteresis:
  assumes "\<forall>fc \<in> set fcs. \<forall>t a. crosses_at fc = Some t \<longrightarrow> as_of fc = Some a \<longrightarrow> \<not> recovered m cf t a"
    and "alert_log m cooldown cf previous fcs = Inr es"
  shows "\<forall>e \<in> set es. alert_kind e = Firing"
  by (rule no_flap [OF assms])

theorem alert_hysteresis_witness:
  "\<exists>es. alert_log WATER (Fin 86400) CLEAR_FACTOR None [alert_fc 0 0, alert_fc 0 200000000000, alert_fc 0 0] = Inr es \<and>
     es \<noteq> [] \<and> (\<forall>e \<in> set es. alert_kind e = Firing)"
proof -
  have f: "total_seconds 200000000000 = Fin 200000" using small_Fin [of 200000] by (simp add: total_seconds_def)
  let ?fcs = "[alert_fc 0 0, alert_fc 0 200000000000, alert_fc 0 0]"
  have r: "\<forall>fc \<in> set ?fcs. \<forall>t a. crosses_at fc = Some t \<longrightarrow> as_of fc = Some a \<longrightarrow> \<not> recovered WATER CLEAR_FACTOR t a"
    by (simp add: alert_fc_def no_crossing_def recovered_def horizon_seconds_def alert_seconds f CLEAR_FACTOR_def)
  have l: "alert_log WATER (Fin 86400) CLEAR_FACTOR None ?fcs = Inr [\<lparr>alert_kind = Firing, alert_as_of = Aware 0\<rparr>]"
    by (simp add: alert_fc_def no_crossing_def alert_transition_def horizon_seconds_def alert_seconds f CLEAR_FACTOR_def Let_def)
  from alert_hysteresis [OF r l] l show ?thesis by blast
qed

text \<open>
  The rule itself, both directions and both ways of doing nothing. A forecast without a
  crossing changes nothing; a firing needs an alerting horizon and a previous state that is
  absent, cleared or past the cooldown; a clear needs a firing and a recovered horizon.
\<close>

theorem alert_transition_rule:
  assumes "crosses_at fc = Some t" and "as_of fc = Some a"
  shows "(alert_transition fc m previous cooldown cf = Inr (Some Firing) \<longleftrightarrow>
      alerting m t a \<and>
      (case previous of None \<Rightarrow> True
       | Some p \<Rightarrow> alert_kind p = Cleared \<or>
           (\<exists>d. dt_sub a (alert_as_of p) = Inr d \<and> fle cooldown (total_seconds d)))) \<and>
    (alert_transition fc m previous cooldown cf = Inr (Some Cleared) \<longleftrightarrow>
      \<not> alerting m t a \<and> recovered m cf t a \<and> (\<exists>p. previous = Some p \<and> alert_kind p = Firing))"
  using alert_firing_iff [OF assms] alert_cleared_iff [OF assms] by (rule conjI)

theorem alert_transition_rule_witness:
  "alert_transition (alert_fc 0 0) WATER None (Fin 86400) CLEAR_FACTOR = Inr (Some Firing)"
proof -
  have c: "crosses_at (alert_fc 0 0) = Some (Aware 0)" "as_of (alert_fc 0 0) = Some (Aware 0)"
    by (simp_all add: alert_fc_def no_crossing_def)
  show ?thesis
    using alert_transition_rule [OF c, of WATER None "Fin 86400" CLEAR_FACTOR]
    by (simp add: alerting_def horizon_seconds_def alert_seconds)
qed

end
