(* ===== verification/Idempotent_Fold.thy ===== *)
theory Idempotent_Fold
  imports Main "HOL-Library.Multiset"
begin

text \<open>
  The contract of an idempotent consumer: doing something again changes nothing, and things that
  agree can be done in either order. Then the order of delivery and redelivery do not matter. The
  ingestion tables are an instance (\<^verbatim>\<open>Ingest_Handler\<close>).
\<close>

locale idempotent_consumer =
  fixes act :: "'a \<Rightarrow> 's \<Rightarrow> 's" and agree :: "'a \<Rightarrow> 'a \<Rightarrow> bool"
  assumes again: "act x (act x s) = act x s"
    and swap: "agree x y \<Longrightarrow> act x (act y s) = act y (act x s)"
begin

lemma order:
  assumes "mset xs = mset ys" and "\<forall>x \<in> set xs. \<forall>y \<in> set xs. agree x y"
  shows "fold act xs s = fold act ys s"
proof -
  have "act x \<circ> act y = act y \<circ> act x" if "x \<in> set xs" "y \<in> set xs" for x y
    using that assms(2) by (auto simp: fun_eq_iff intro: swap)
  then have "fold act xs = fold act ys" by (rule fold_multiset_equiv [OF _ assms(1)])
  then show ?thesis by simp
qed

lemma absorb:
  assumes "\<forall>x \<in> set xs. \<forall>y \<in> set xs. agree x y" and "x \<in> set xs"
  shows "fold act xs (act x s) = fold act xs s"
proof -
  obtain us vs where xs: "xs = us @ x # vs" using assms(2) by (metis split_list)
  have perm: "fold act xs t = fold act (x # us @ vs) t" for t
    by (rule order [OF _ assms(1)]) (simp add: xs)
  show ?thesis unfolding perm by (simp add: again)
qed

lemma redelivery:
  assumes "\<forall>x \<in> set xs. \<forall>y \<in> set xs. agree x y" and "set ys \<subseteq> set xs"
  shows "fold act (ys @ xs) s = fold act xs s"
  using assms(2)
proof (induction ys rule: rev_induct)
  case (snoc y ys)
  then show ?case using absorb [OF assms(1)] by simp
qed simp

end

end
