(* ===== verification/Contract.thy ===== *)
theory Contract
  imports Py_Time
begin

text \<open>
  \<^verbatim>\<open>contract.py\<close>: the topic tree, the device ids, the telemetry record with its field
  constraints. JSON decoding and the coercion of a JSON value to a field's type are pydantic's:
  the parameter \<open>decode\<close> maps a payload to one result per declared field, and \<open>msg\<close> gives the
  text of a failed constraint. What the source declares itself (which fields, in which order,
  with which constraints and defaults, the UTC validator) is modelled here.
\<close>

section \<open>Topics\<close>

fun split_on :: "char \<Rightarrow> string \<Rightarrow> string list" where
  "split_on c [] = [[]]"
| "split_on c (x # xs) =
     (if x = c then [] # split_on c xs
      else case split_on c xs of [] \<Rightarrow> [[x]] | p # ps \<Rightarrow> (x # p) # ps)"

fun join_with :: "char \<Rightarrow> string list \<Rightarrow> string" where
  "join_with c [] = []"
| "join_with c [p] = p"
| "join_with c (p # q # ps) = p @ c # join_with c (q # ps)"

definition telemetry_topic :: "string \<Rightarrow> string" where
  "telemetry_topic device_id = ''planter/v1/'' @ device_id @ ''/telemetry''"

definition device_id_from_topic :: "string \<Rightarrow> string option" where
  "device_id_from_topic topic =
     (case split_on (CHR ''/'') topic of
        [a, b, device_id, d] \<Rightarrow>
          if a = ''planter'' \<and> b = ''v1'' \<and> d = ''telemetry'' \<and> device_id \<noteq> [] then Some device_id else None
      | _ \<Rightarrow> None)"

lemma split_on_neq_Nil [simp]: "split_on c xs \<noteq> []"
  by (cases xs) (auto split: list.splits)

lemma join_split: "join_with c (split_on c xs) = xs"
proof (induction xs)
  case (Cons x xs)
  then show ?case by (cases "split_on c xs"; cases "tl (split_on c xs)") auto
qed simp

lemma split_no_sep: "p \<in> set (split_on c xs) \<Longrightarrow> c \<notin> set p"
proof (induction xs arbitrary: p)
  case (Cons x xs)
  then show ?case by (cases "split_on c xs") (auto split: if_splits)
qed simp

lemma split_free: "c \<notin> set p \<Longrightarrow> split_on c p = [p]"
  by (induction p) auto

lemma split_append: "c \<notin> set p \<Longrightarrow> split_on c (p @ c # xs) = p # split_on c xs"
  by (induction p) auto

lemma device_id_from_topic_iff:
  "device_id_from_topic topic = Some d \<longleftrightarrow>
     topic = telemetry_topic d \<and> d \<noteq> [] \<and> CHR ''/'' \<notin> set d"
proof
  assume a: "device_id_from_topic topic = Some d"
  then have s: "split_on (CHR ''/'') topic = [''planter'', ''v1'', d, ''telemetry'']" and "d \<noteq> []"
    by (auto simp: device_id_from_topic_def split: list.splits if_splits)
  then show "topic = telemetry_topic d \<and> d \<noteq> [] \<and> CHR ''/'' \<notin> set d"
    using join_split [of "CHR ''/''" topic] split_no_sep [of d "CHR ''/''" topic]
    by (simp add: telemetry_topic_def)
next
  assume a: "topic = telemetry_topic d \<and> d \<noteq> [] \<and> CHR ''/'' \<notin> set d"
  have "split_on (CHR ''/'') (''planter'' @ CHR ''/'' # ''v1'' @ CHR ''/'' # d @ CHR ''/'' # ''telemetry'') =
      [''planter'', ''v1'', d, ''telemetry'']"
    using a by (subst split_append; simp add: split_append split_free)+
  then show "device_id_from_topic topic = Some d"
    using a by (simp add: device_id_from_topic_def telemetry_topic_def)
qed

section \<open>Device ids\<close>

text \<open>The pattern \<open>^[a-z0-9][a-z0-9_-]{0,31}$\<close>.\<close>

definition id_head :: "char \<Rightarrow> bool" where
  "id_head c \<longleftrightarrow>
     (97 \<le> (of_char c :: nat) \<and> (of_char c :: nat) \<le> 122) \<or> (48 \<le> (of_char c :: nat) \<and> (of_char c :: nat) \<le> 57)"

definition id_tail :: "char \<Rightarrow> bool" where
  "id_tail c \<longleftrightarrow> id_head c \<or> c = CHR ''_'' \<or> c = CHR ''-''"

fun device_id_ok :: "string \<Rightarrow> bool" where
  "device_id_ok [] = False"
| "device_id_ok (c # cs) = (id_head c \<and> list_all id_tail cs \<and> length cs \<le> 31)"

lemma device_id_chars: "device_id_ok d \<Longrightarrow> c \<in> set d \<Longrightarrow> id_tail c"
  by (cases d) (auto simp: list_all_iff id_tail_def)

text \<open>No topic metacharacter and no separator can occur in a validated id.\<close>

lemma device_id_topic_safe:
  assumes "device_id_ok d"
  shows "d \<noteq> [] \<and> length d \<le> 32 \<and> {CHR ''/'', CHR ''+'', CHR ''#'', CHR ''$''} \<inter> set d = {}"
proof -
  have "\<not> id_tail c" if "c \<in> {CHR ''/'', CHR ''+'', CHR ''#'', CHR ''$''}" for c
    using that by (auto simp: id_tail_def id_head_def)
  then have "{CHR ''/'', CHR ''+'', CHR ''#'', CHR ''$''} \<inter> set d = {}"
    using device_id_chars [OF assms] by blast
  moreover have "d \<noteq> [] \<and> length d \<le> 32" using assms by (cases d) auto
  ultimately show ?thesis by blast
qed

section \<open>The reading\<close>

record telemetry =
  schema_version :: int
  device_id :: string
  measured_at :: py_datetime
  water_level :: pyfloat
  battery_voltage :: pyfloat

text \<open>An aware datetime as parsed: the local reading and the offset from UTC, in microseconds.\<close>

record wall_clock =
  wall_us :: int
  offset_us :: int

definition to_utc :: "wall_clock \<Rightarrow> py_datetime res" where
  "to_utc w = dt_add (Aware (wall_us w)) (- offset_us w)"

text \<open>What pydantic hands the constraints of one field: nothing, a type error, or a value.\<close>

datatype 'a field = Missing | Bad string | Good 'a

record raw_fields =
  raw_schema_version :: "int field"
  raw_device_id :: "string field"
  raw_measured_at :: "wall_clock field"
  raw_water_level :: "pyfloat field"
  raw_battery_voltage :: "pyfloat field"

type_synonym validation_error = "string list \<times> string"

datatype decoded = Undecodable "validation_error list" | Decoded raw_fields

datatype constraint = MissingField | LiteralOne | DevicePattern | AtLeast pyfloat | AtMost pyfloat

text \<open>
  One field against its constraints, in the order pydantic tests them (upper bound first); the
  first failure is the field's error. A field with a default never misses.
\<close>

definition field_error ::
  "(constraint \<Rightarrow> string) \<Rightarrow> string \<Rightarrow> bool \<Rightarrow> (constraint \<times> ('a \<Rightarrow> bool)) list \<Rightarrow> 'a field
   \<Rightarrow> validation_error list" where
  "field_error msg name has_default checks f =
     (case f of
        Missing \<Rightarrow> if has_default then [] else [([name], msg MissingField)]
      | Bad e \<Rightarrow> [([name], e)]
      | Good v \<Rightarrow> (case filter (\<lambda>(c, ok). \<not> ok v) checks of
            [] \<Rightarrow> []
          | (c, ok) # _ \<Rightarrow> [([name], msg c)]))"

definition in_bounds :: "pyfloat \<Rightarrow> pyfloat \<Rightarrow> (constraint \<times> (pyfloat \<Rightarrow> bool)) list" where
  "in_bounds lo hi = [(AtMost hi, \<lambda>v. fle v hi), (AtLeast lo, \<lambda>v. fle lo v)]"

abbreviation water_bounds :: "(constraint \<times> (pyfloat \<Rightarrow> bool)) list" where
  "water_bounds \<equiv> in_bounds (Fin 0) (Fin 100)"

abbreviation battery_bounds :: "(constraint \<times> (pyfloat \<Rightarrow> bool)) list" where
  "battery_bounds \<equiv> in_bounds (fl (25 / 10)) (fl (44 / 10))"

definition telemetry_errors :: "(constraint \<Rightarrow> string) \<Rightarrow> raw_fields \<Rightarrow> validation_error list" where
  "telemetry_errors msg r =
     field_error msg ''schema_version'' True [(LiteralOne, \<lambda>v. v = 1)] (raw_schema_version r) @
     field_error msg ''device_id'' False [(DevicePattern, device_id_ok)] (raw_device_id r) @
     field_error msg ''measured_at'' False [] (raw_measured_at r) @
     field_error msg ''water_level'' False water_bounds (raw_water_level r) @
     field_error msg ''battery_voltage'' False battery_bounds (raw_battery_voltage r)"

fun the_good :: "'a \<Rightarrow> 'a field \<Rightarrow> 'a" where
  "the_good d (Good v) = v"
| "the_good d f = d"

text \<open>
  \<^verbatim>\<open>TelemetryV1.model_validate_json\<close>: the errors of all fields, or the reading. The validator
  \<^verbatim>\<open>_to_utc\<close> runs on every well-typed \<open>measured_at\<close>, whatever the other fields hold; an exception
  of it that is neither \<^verbatim>\<open>ValueError\<close> nor \<^verbatim>\<open>AssertionError\<close> is no validation error and propagates.
\<close>

definition model_validate_json ::
  "('p \<Rightarrow> decoded) \<Rightarrow> (constraint \<Rightarrow> string) \<Rightarrow> 'p \<Rightarrow> (validation_error list + telemetry) res" where
  "model_validate_json decode msg payload =
     (case decode payload of
        Undecodable errors \<Rightarrow> Inr (Inl errors)
      | Decoded r \<Rightarrow>
          rbind (case raw_measured_at r of Good w \<Rightarrow> to_utc w | _ \<Rightarrow> Inr (Naive 0)) (\<lambda>ts.
          Inr (case telemetry_errors msg r of
              [] \<Rightarrow> Inr \<lparr>
                schema_version = the_good 1 (raw_schema_version r),
                device_id = the_good [] (raw_device_id r),
                measured_at = ts,
                water_level = the_good NaN (raw_water_level r),
                battery_voltage = the_good NaN (raw_battery_voltage r)\<rparr>
            | errors \<Rightarrow> Inl errors)))"

section \<open>What a validated reading satisfies\<close>

definition telemetry_ok :: "telemetry \<Rightarrow> bool" where
  "telemetry_ok r \<longleftrightarrow>
     schema_version r = 1 \<and> device_id_ok (device_id r) \<and>
     (\<exists>t. measured_at r = Aware t \<and> dt_ok t) \<and>
     fle (Fin 0) (water_level r) \<and> fle (water_level r) (Fin 100) \<and>
     fle (fl (25 / 10)) (battery_voltage r) \<and> fle (battery_voltage r) (fl (44 / 10))"

lemma first_failure_Nil:
  "(case filter (\<lambda>(c, ok). \<not> ok v) checks of [] \<Rightarrow> [] | (c, ok) # rest \<Rightarrow> [([name], msg c)]) = [] \<longleftrightarrow>
   (\<forall>(c, ok) \<in> set checks. ok v)"
  by (induction checks) auto

lemma field_error_Nil:
  "field_error msg name False checks f = [] \<longleftrightarrow> (\<exists>v. f = Good v \<and> (\<forall>(c, ok) \<in> set checks. ok v))"
  by (cases f) (simp_all add: field_error_def first_failure_Nil)

lemma field_error_default_Nil:
  "field_error msg name True checks f = [] \<longleftrightarrow>
     f = Missing \<or> (\<exists>v. f = Good v \<and> (\<forall>(c, ok) \<in> set checks. ok v))"
  by (cases f) (simp_all add: field_error_def first_failure_Nil)

lemma to_utc_Inr: "to_utc w = Inr ts \<longleftrightarrow> ts = Aware (wall_us w - offset_us w) \<and> dt_ok (wall_us w - offset_us w)"
  by (auto simp: to_utc_def)

lemma to_utc_exc: "to_utc w = Inl e \<longleftrightarrow> e = OverflowError \<and> \<not> dt_ok (wall_us w - offset_us w)"
  by (auto simp: to_utc_def)

lemma model_validate_ok:
  assumes "model_validate_json decode msg payload = Inr (Inr r)"
  shows "telemetry_ok r"
proof -
  obtain raw where raw: "decode payload = Decoded raw"
    using assms by (auto simp: model_validate_json_def split: decoded.splits)
  have none: "telemetry_errors msg raw = []"
    using assms raw by (auto simp: model_validate_json_def split: list.splits)
  then obtain d w x b where g: "raw_device_id raw = Good d" "device_id_ok d" "raw_measured_at raw = Good w"
    "raw_water_level raw = Good x" "fle (Fin 0) x" "fle x (Fin 100)"
    "raw_battery_voltage raw = Good b" "fle (fl (25 / 10)) b" "fle b (fl (44 / 10))"
    by (auto simp: telemetry_errors_def field_error_Nil in_bounds_def)
  have v: "the_good 1 (raw_schema_version raw) = 1"
    using none by (auto simp: telemetry_errors_def field_error_default_Nil)
  show ?thesis
    using assms raw none g v by (auto simp: model_validate_json_def telemetry_ok_def to_utc_Inr)
qed

lemma model_validate_exc:
  assumes "model_validate_json decode msg payload = Inl e"
  shows "e = OverflowError"
  using assms
  by (auto simp: model_validate_json_def to_utc_exc rbind_Inl_iff split: decoded.splits field.splits)

lemma model_validate_raises_iff:
  "(\<exists>e. model_validate_json decode msg payload = Inl e) \<longleftrightarrow>
   (\<exists>raw w. decode payload = Decoded raw \<and> raw_measured_at raw = Good w \<and> \<not> dt_ok (wall_us w - offset_us w))"
  by (auto simp: model_validate_json_def to_utc_exc rbind_Inl_iff split: decoded.splits field.splits)

end
