(* ===== verification/Ingest_Core.thy ===== *)
theory Ingest_Core
  imports Contract
begin

text \<open>
  \<^verbatim>\<open>ingestion/core.py\<close>: one MQTT message in, a valid reading or a dead letter out. The laws say
  exactly which messages become readings, what a dead letter preserves, and which messages make
  the classifier raise although it is meant to be total.
\<close>

datatype 'p outcome = ValidReading telemetry | DeadLetter string 'p string

section \<open>Text\<close>

text \<open>\<^verbatim>\<open>repr\<close> of a string, on the code points below 256 that a \<^typ>\<open>char\<close> can hold.\<close>

definition hex_char :: "nat \<Rightarrow> char" where
  "hex_char d = (if d < 10 then char_of (48 + d) else char_of (87 + d))"

definition repr_char :: "char \<Rightarrow> char \<Rightarrow> string" where
  "repr_char quote c =
     (let k = (of_char c :: nat) in
      if c = quote \<or> k = 92 then [CHR 0x5C, c]
      else if k = 10 then [CHR 0x5C, CHR ''n'']
      else if k = 13 then [CHR 0x5C, CHR ''r'']
      else if k = 9 then [CHR 0x5C, CHR ''t'']
      else if (32 \<le> k \<and> k < 127) \<or> (161 \<le> k \<and> k \<noteq> 173) then [c]
      else [CHR 0x5C, CHR ''x'', hex_char (k div 16), hex_char (k mod 16)])"

definition py_repr :: "string \<Rightarrow> string" where
  "py_repr s =
     (let quote = (if CHR 0x27 \<in> set s \<and> CHR 0x22 \<notin> set s then CHR 0x22 else CHR 0x27)
      in quote # concat (map (repr_char quote) s) @ [quote])"

section \<open>The reason of a dead letter\<close>

definition MAX_REASON_ERRORS :: nat where
  "MAX_REASON_ERRORS = 3"

definition MAX_REASON_CHARS :: nat where
  "MAX_REASON_CHARS = 500"

definition error_part :: "validation_error \<Rightarrow> string" where
  "error_part e =
     (let loc = join_with (CHR ''.'') (fst e)
      in (if loc = [] then ''payload'' else loc) @ '': '' @ snd e)"

definition reason_parts :: "validation_error list \<Rightarrow> string list" where
  "reason_parts errors =
     map error_part (take MAX_REASON_ERRORS errors) @
     (if MAX_REASON_ERRORS < length errors
      then [''(+'' @ show_nat (length errors - MAX_REASON_ERRORS) @ '' more)''] else [])"

definition reason :: "validation_error list \<Rightarrow> string" where
  "reason errors = take MAX_REASON_CHARS (join_str ''; '' (reason_parts errors))"

section \<open>Classification\<close>

definition classify ::
  "('p \<Rightarrow> decoded) \<Rightarrow> (constraint \<Rightarrow> string) \<Rightarrow> string \<Rightarrow> 'p \<Rightarrow> 'p outcome res" where
  "classify decode msg topic payload =
     (case device_id_from_topic topic of
        None \<Rightarrow> Inr (DeadLetter topic payload ''topic does not match planter/v1/{device_id}/telemetry'')
      | Some topic_device_id \<Rightarrow>
          rbind (model_validate_json decode msg payload) (\<lambda>v.
          Inr (case v of
              Inl errors \<Rightarrow> DeadLetter topic payload (''invalid payload: '' @ reason errors)
            | Inr reading \<Rightarrow>
                if device_id reading \<noteq> topic_device_id then
                  DeadLetter topic payload
                    (''device_id mismatch: topic='' @ py_repr topic_device_id @
                     '' payload='' @ py_repr (device_id reading))
                else ValidReading reading)))"

section \<open>Laws\<close>

lemma length_reason: "length (reason errors) \<le> MAX_REASON_CHARS"
  by (simp add: reason_def)

lemma length_reason_parts: "length (reason_parts errors) \<le> 4"
  by (simp add: reason_parts_def MAX_REASON_ERRORS_def)

lemma telemetry_ok_id:
  "telemetry_ok r \<Longrightarrow> device_id_from_topic (telemetry_topic (device_id r)) = Some (device_id r)"
  using device_id_topic_safe by (auto simp: device_id_from_topic_iff telemetry_ok_def)

lemma classify_valid_iff:
  "classify decode msg topic payload = Inr (ValidReading r) \<longleftrightarrow>
     topic = telemetry_topic (device_id r) \<and> model_validate_json decode msg payload = Inr (Inr r)"
proof
  assume "classify decode msg topic payload = Inr (ValidReading r)"
  then show "topic = telemetry_topic (device_id r) \<and> model_validate_json decode msg payload = Inr (Inr r)"
    by (auto simp: classify_def device_id_from_topic_iff split: option.splits sum.splits if_splits)
next
  assume a: "topic = telemetry_topic (device_id r) \<and> model_validate_json decode msg payload = Inr (Inr r)"
  then have "telemetry_ok r" by (elim conjE) (rule model_validate_ok)
  then show "classify decode msg topic payload = Inr (ValidReading r)"
    using a telemetry_ok_id by (simp add: classify_def)
qed

lemma classify_valid_ok: "classify decode msg topic payload = Inr (ValidReading r) \<Longrightarrow> telemetry_ok r"
  using model_validate_ok by (auto simp: classify_valid_iff)

lemma classify_dead_letter:
  "classify decode msg topic payload = Inr (DeadLetter t p why) \<Longrightarrow> t = topic \<and> p = payload \<and> why \<noteq> []"
  by (auto simp: classify_def split: option.splits sum.splits if_splits)

lemma classify_raises_iff:
  "classify decode msg topic payload = Inl e \<longleftrightarrow>
     e = OverflowError \<and> device_id_from_topic topic \<noteq> None \<and>
     (\<exists>raw w. decode payload = Decoded raw \<and> raw_measured_at raw = Good w \<and> \<not> dt_ok (wall_us w - offset_us w))"
proof -
  have "model_validate_json decode msg payload = Inl e \<longleftrightarrow> e = OverflowError \<and>
     (\<exists>raw w. decode payload = Decoded raw \<and> raw_measured_at raw = Good w \<and> \<not> dt_ok (wall_us w - offset_us w))"
    using model_validate_exc model_validate_raises_iff by metis
  then show ?thesis by (auto simp: classify_def rbind_Inl_iff split: option.splits)
qed

text \<open>Two payloads that spell the same instant with different offsets give the same key.\<close>

lemma same_instant_same_key:
  assumes "classify decode msg topic p = Inr (ValidReading r)"
    and "classify decode msg topic q = Inr (ValidReading s)"
    and "decode p = Decoded a" and "raw_measured_at a = Good u"
    and "decode q = Decoded b" and "raw_measured_at b = Good v"
    and "wall_us u - offset_us u = wall_us v - offset_us v"
  shows "device_id r = device_id s \<and> measured_at r = measured_at s"
proof -
  have "device_id r = device_id s"
    using assms(1,2) by (auto simp: classify_valid_iff telemetry_topic_def)
  moreover have "measured_at r = Aware (wall_us u - offset_us u)"
    using assms(1,3,4) by (auto simp: classify_valid_iff model_validate_json_def to_utc_Inr split: list.splits)
  moreover have "measured_at s = Aware (wall_us v - offset_us v)"
    using assms(2,5,6) by (auto simp: classify_valid_iff model_validate_json_def to_utc_Inr split: list.splits)
  ultimately show ?thesis using assms(7) by simp
qed

end
