(* ===== verification/Ingest_Db.thy ===== *)
theory Ingest_Db
  imports Ingest_Core
begin

text \<open>
  \<^verbatim>\<open>ingestion/db.py\<close> and the tables it writes (migrations 0001, 0002, 0006). Every statement runs
  in autocommit mode on a connection that may be lost before or after the statement took effect;
  which of the two is a fault the environment chooses. Columns the server fills in
  (\<^verbatim>\<open>received_at\<close>, \<^verbatim>\<open>occurred_at\<close>, identity keys) are not kept.
\<close>

section \<open>Tables\<close>

text \<open>\<^verbatim>\<open>timestamptz\<close>: the instant of an aware datetime.\<close>

fun timestamptz :: "py_datetime \<Rightarrow> int" where
  "timestamptz (Aware t) = t"
| "timestamptz (Naive t) = t"

type_synonym reading_key = "string \<times> int"

record telemetry_row =
  row_water_level :: pyfloat
  row_battery_voltage :: pyfloat
  row_schema_version :: int

record 'p tables =
  t_telemetry :: "reading_key \<rightharpoonup> telemetry_row"
  t_devices :: "string \<rightharpoonup> int \<times> int"
  t_ingest_events :: "(string \<times> string \<times> int) list"
  t_dead_letter :: "(string \<times> 'p \<times> string) list"

definition empty_tables :: "'p tables" where
  "empty_tables = \<lparr>t_telemetry = Map.empty, t_devices = Map.empty, t_ingest_events = [], t_dead_letter = []\<rparr>"

section \<open>Statements\<close>

definition reading_key :: "telemetry \<Rightarrow> reading_key" where
  "reading_key r = (device_id r, timestamptz (measured_at r))"

definition reading_row :: "telemetry \<Rightarrow> telemetry_row" where
  "reading_row r = \<lparr>row_water_level = water_level r, row_battery_voltage = battery_voltage r,
     row_schema_version = schema_version r\<rparr>"

text \<open>\<open>ON CONFLICT (device_id, measured_at) DO NOTHING\<close>; the result is \<^verbatim>\<open>rowcount == 1\<close>.\<close>

definition insert_reading :: "telemetry \<Rightarrow> 'p tables \<Rightarrow> bool \<times> 'p tables" where
  "insert_reading r t =
     (case t_telemetry t (reading_key r) of
        Some old \<Rightarrow> (False, t)
      | None \<Rightarrow> (True, t\<lparr>t_telemetry := (t_telemetry t)(reading_key r \<mapsto> reading_row r)\<rparr>))"

definition upsert_device :: "telemetry \<Rightarrow> 'p tables \<Rightarrow> unit \<times> 'p tables" where
  "upsert_device r t =
     (let m = timestamptz (measured_at r);
          row = (case t_devices t (device_id r) of
                   None \<Rightarrow> (m, m)
                 | Some (first_seen, last_seen) \<Rightarrow> (min first_seen m, max last_seen m))
      in ((), t\<lparr>t_devices := (t_devices t)(device_id r \<mapsto> row)\<rparr>))"

definition record_dedupe :: "telemetry \<Rightarrow> 'p tables \<Rightarrow> unit \<times> 'p tables" where
  "record_dedupe r t =
     ((), t\<lparr>t_ingest_events := t_ingest_events t @ [(''deduplicated'', device_id r, timestamptz (measured_at r))]\<rparr>)"

definition insert_dead_letter :: "string \<times> 'p \<times> string \<Rightarrow> 'p tables \<Rightarrow> unit \<times> 'p tables" where
  "insert_dead_letter d t = ((), t\<lparr>t_dead_letter := t_dead_letter t @ [d]\<rparr>)"

section \<open>Executing a statement\<close>

datatype fault = Works | FailsBefore py_exc | FailsAfter py_exc

definition execute :: "fault \<Rightarrow> ('t \<Rightarrow> 'a \<times> 't) \<Rightarrow> 't \<Rightarrow> 'a res \<times> 't" where
  "execute f stmt t =
     (case f of
        Works \<Rightarrow> (case stmt t of (x, t') \<Rightarrow> (Inr x, t'))
      | FailsBefore e \<Rightarrow> (Inl e, t)
      | FailsAfter e \<Rightarrow> (Inl e, snd (stmt t)))"

section \<open>The registry covers the readings\<close>

text \<open>Every stored reading has its device row, and lies between the two ends of that row.\<close>

definition registry_covers :: "'p tables \<Rightarrow> bool" where
  "registry_covers t \<longleftrightarrow>
     (\<forall>d m. t_telemetry t (d, m) \<noteq> None \<longrightarrow>
        (\<exists>first_seen last_seen. t_devices t d = Some (first_seen, last_seen) \<and> first_seen \<le> m \<and> m \<le> last_seen))"

text \<open>The row a reading finds when its insert runs: the upsert has gone first.\<close>

definition has_row :: "telemetry \<Rightarrow> 'p tables \<Rightarrow> bool" where
  "has_row r t \<longleftrightarrow>
     (\<exists>first_seen last_seen. t_devices t (device_id r) = Some (first_seen, last_seen) \<and>
        first_seen \<le> timestamptz (measured_at r) \<and> timestamptz (measured_at r) \<le> last_seen)"

lemma upsert_device_has_row: "has_row r (snd (upsert_device r t))"
  by (auto simp: upsert_device_def has_row_def Let_def split: option.splits)

lemma upsert_device_covers: "registry_covers t \<Longrightarrow> registry_covers (snd (upsert_device r t))"
  by (fastforce simp: upsert_device_def registry_covers_def Let_def min_def max_def split: option.splits)

lemma insert_reading_covers: "registry_covers t \<Longrightarrow> has_row r t \<Longrightarrow> registry_covers (snd (insert_reading r t))"
  by (auto simp: insert_reading_def registry_covers_def has_row_def reading_key_def split: option.splits)

lemma insert_reading_has_row: "has_row r t \<Longrightarrow> has_row r (snd (insert_reading r t))"
  by (auto simp: insert_reading_def has_row_def split: option.splits)

lemma other_statements [simp]:
  "t_telemetry (snd (upsert_device r t)) = t_telemetry t"
  "t_dead_letter (snd (upsert_device r t)) = t_dead_letter t"
  "t_ingest_events (snd (upsert_device r t)) = t_ingest_events t"
  "t_devices (snd (insert_reading r t)) = t_devices t"
  "t_dead_letter (snd (insert_reading r t)) = t_dead_letter t"
  "t_telemetry (snd (record_dedupe r t)) = t_telemetry t"
  "t_devices (snd (record_dedupe r t)) = t_devices t"
  "t_dead_letter (snd (record_dedupe r t)) = t_dead_letter t"
  "t_telemetry (snd (insert_dead_letter d t)) = t_telemetry t"
  "t_devices (snd (insert_dead_letter d t)) = t_devices t"
  by (simp_all add: upsert_device_def insert_reading_def record_dedupe_def insert_dead_letter_def Let_def
      split: option.split)

lemma event_statements_cover [simp]:
  "registry_covers (snd (record_dedupe r t)) = registry_covers t"
  "registry_covers (snd (insert_dead_letter d t)) = registry_covers t"
  by (simp_all add: registry_covers_def)

section \<open>Stored readings only accumulate\<close>

definition grows :: "'p tables \<Rightarrow> 'p tables \<Rightarrow> bool" where
  "grows t t' \<longleftrightarrow> t_telemetry t \<subseteq>\<^sub>m t_telemetry t' \<and> dom (t_devices t) \<subseteq> dom (t_devices t') \<and>
     set (t_dead_letter t) \<subseteq> set (t_dead_letter t')"

lemma grows_refl [simp]: "grows t t"
  by (simp add: grows_def)

lemma grows_trans: "grows a b \<Longrightarrow> grows b c \<Longrightarrow> grows a c"
  unfolding grows_def by (meson map_le_trans order_trans)

lemma statements_grow [simp]:
  "grows t (snd (insert_reading r t))" "grows t (snd (upsert_device r t))"
  "grows t (snd (record_dedupe r t))" "grows t (snd (insert_dead_letter d t))"
  by (auto simp: grows_def insert_reading_def upsert_device_def record_dedupe_def insert_dead_letter_def
      map_le_def Let_def split: option.split)

lemma insert_reading_stored: "t_telemetry (snd (insert_reading r t)) (reading_key r) \<noteq> None"
  by (auto simp: insert_reading_def split: option.splits)

lemma execute_grows: "(\<And>t. grows t (snd (stmt t))) \<Longrightarrow> grows t (snd (execute f stmt t))"
  by (auto simp: execute_def split: fault.splits prod.splits) (metis snd_conv)

section \<open>Idempotence and order\<close>

text \<open>The pipeline state: what a replay must not change. Events and dead letters are arrivals.\<close>

definition pipeline_state :: "'p tables \<Rightarrow> (reading_key \<rightharpoonup> telemetry_row) \<times> (string \<rightharpoonup> int \<times> int)" where
  "pipeline_state t = (t_telemetry t, t_devices t)"

definition store_reading :: "telemetry \<Rightarrow> 'p tables \<Rightarrow> 'p tables" where
  "store_reading r t = snd (insert_reading r (snd (upsert_device r t)))"

text \<open>The registry row as a function of the readings' times: their minimum and maximum.\<close>

lemma store_reading_devices:
  "t_devices (store_reading r t) = (t_devices t)(device_id r \<mapsto>
     (case t_devices t (device_id r) of
        None \<Rightarrow> (timestamptz (measured_at r), timestamptz (measured_at r))
      | Some (f, l) \<Rightarrow> (min f (timestamptz (measured_at r)), max l (timestamptz (measured_at r)))))"
  by (simp add: store_reading_def) (simp add: upsert_device_def Let_def)

lemma store_reading_telemetry:
  "t_telemetry (store_reading r t) =
     (case t_telemetry t (reading_key r) of
        Some old \<Rightarrow> t_telemetry t | None \<Rightarrow> (t_telemetry t)(reading_key r \<mapsto> reading_row r))"
  by (simp add: store_reading_def) (simp add: insert_reading_def split: option.split)

lemma store_reading_idem:
  assumes "registry_covers t" and "t_telemetry t (reading_key r) \<noteq> None"
  shows "pipeline_state (store_reading r t) = pipeline_state t"
proof -
  obtain f l where fl: "t_devices t (device_id r) = Some (f, l)"
    "f \<le> timestamptz (measured_at r)" "timestamptz (measured_at r) \<le> l"
    using assms(2) assms(1) [unfolded registry_covers_def, rule_format, of "device_id r" "timestamptz (measured_at r)"]
    by (auto simp: reading_key_def)
  then have "t_devices (store_reading r t) = t_devices t"
    by (auto simp: store_reading_devices min_def max_def)
  then show ?thesis
    using assms(2) by (auto simp: pipeline_state_def store_reading_telemetry split: option.split)
qed

text \<open>Two readings with different keys, or with the same row, can be stored in either order.\<close>

lemma store_reading_commute:
  assumes "reading_key r = reading_key s \<Longrightarrow> reading_row r = reading_row s"
  shows "pipeline_state (store_reading r (store_reading s t)) = pipeline_state (store_reading s (store_reading r t))"
proof -
  have "t_devices (store_reading r (store_reading s t)) = t_devices (store_reading s (store_reading r t))"
    by (auto simp: store_reading_devices fun_eq_iff min_def max_def split: option.splits)
  moreover have "t_telemetry (store_reading r (store_reading s t)) = t_telemetry (store_reading s (store_reading r t))"
    using assms by (auto simp: store_reading_telemetry fun_eq_iff split: option.splits)
  ultimately show ?thesis by (simp add: pipeline_state_def)
qed

end
