(* ===== verification/Ingest_Handler.thy ===== *)
theory Ingest_Handler
  imports Idempotent_Fold Ingest_Db "HOL-Library.Multiset"
begin

text \<open>
  \<^verbatim>\<open>_handle_one\<close> of \<^verbatim>\<open>ingestion/service.py\<close>: one buffered message through the classifier, the
  arrival bookkeeping and the writer. Every database call may fail, before or after it took
  effect, as the fault script of the world says; the counters and the map of newest readings
  keep what was assigned before an exception.
\<close>

record counters =
  ingested :: int
  deduplicated :: int
  dead_lettered :: int
  out_of_order :: int

definition zero_counters :: counters where
  "zero_counters = \<lparr>ingested = 0, deduplicated = 0, dead_lettered = 0, out_of_order = 0\<rparr>"

record 'p world =
  w_tables :: "'p tables"
  w_faults :: "fault list"
  w_counters :: counters
  w_latest :: "string \<rightharpoonup> py_datetime"

type_synonym 'p item = "string \<times> 'p"

text \<open>One statement: the next fault of the script decides; past its end everything works.\<close>

definition run_stmt :: "('p tables \<Rightarrow> 'a \<times> 'p tables) \<Rightarrow> ('p world, 'a) act" where
  "run_stmt stmt w =
     (let f = (case w_faults w of [] \<Rightarrow> Works | f # fs \<Rightarrow> f)
      in case execute f stmt (w_tables w) of
           (r, t) \<Rightarrow> (r, w\<lparr>w_tables := t, w_faults := tl (w_faults w)\<rparr>))"

definition count :: "(counters \<Rightarrow> counters) \<Rightarrow> ('p world, unit) act" where
  "count f = modify (\<lambda>w. w\<lparr>w_counters := f (w_counters w)\<rparr>)"

definition note_arrival :: "telemetry \<Rightarrow> ('p world, unit) act" where
  "note_arrival r w =
     (case w_latest w (device_id r) of
        None \<Rightarrow> (Inr (), w\<lparr>w_latest := (w_latest w)(device_id r \<mapsto> measured_at r)\<rparr>)
      | Some newest \<Rightarrow>
          (case dt_less (measured_at r) newest of
             Inl e \<Rightarrow> (Inl e, w)
           | Inr older \<Rightarrow>
               if older then count (\<lambda>c. c\<lparr>out_of_order := out_of_order c + 1\<rparr>) w
               else (Inr (), w\<lparr>w_latest := (w_latest w)(device_id r \<mapsto> measured_at r)\<rparr>)))"

definition settle_insert :: "telemetry \<Rightarrow> bool \<Rightarrow> ('p world, unit) act" where
  "settle_insert r new =
     (if new then count (\<lambda>c. c\<lparr>ingested := ingested c + 1\<rparr>)
      else andthen (run_stmt (record_dedupe r)) (\<lambda>_. count (\<lambda>c. c\<lparr>deduplicated := deduplicated c + 1\<rparr>)))"

definition write_reading :: "telemetry \<Rightarrow> ('p world, unit) act" where
  "write_reading r =
     andthen (run_stmt (upsert_device r)) (\<lambda>_. andthen (run_stmt (insert_reading r)) (settle_insert r))"

definition write_dead_letter :: "string \<times> 'p \<times> string \<Rightarrow> ('p world, unit) act" where
  "write_dead_letter d =
     andthen (run_stmt (insert_dead_letter d)) (\<lambda>_. count (\<lambda>c. c\<lparr>dead_lettered := dead_lettered c + 1\<rparr>))"

definition handle_one ::
  "('p \<Rightarrow> decoded) \<Rightarrow> (constraint \<Rightarrow> string) \<Rightarrow> 'p item \<Rightarrow> ('p world, unit) act" where
  "handle_one decode msg item =
     (case classify decode msg (fst item) (snd item) of
        Inl e \<Rightarrow> raise e
      | Inr (ValidReading r) \<Rightarrow> andthen (note_arrival r) (\<lambda>_. write_reading r)
      | Inr (DeadLetter t p why) \<Rightarrow> write_dead_letter (t, p, why))"

section \<open>What a handled message leaves behind\<close>

text \<open>A message is recorded when its reading (with its device row) or its dead letter is stored.\<close>

definition recorded ::
  "('p \<Rightarrow> decoded) \<Rightarrow> (constraint \<Rightarrow> string) \<Rightarrow> 'p tables \<Rightarrow> 'p item \<Rightarrow> bool" where
  "recorded decode msg t item =
     (case classify decode msg (fst item) (snd item) of
        Inl e \<Rightarrow> False
      | Inr (ValidReading r) \<Rightarrow> t_telemetry t (reading_key r) \<noteq> None \<and> t_devices t (device_id r) \<noteq> None
      | Inr (DeadLetter tp p why) \<Rightarrow> (tp, p, why) \<in> set (t_dead_letter t))"

lemma recorded_grows: "grows t t' \<Longrightarrow> recorded decode msg t item \<Longrightarrow> recorded decode msg t' item"
  unfolding recorded_def grows_def map_le_def
  by (cases "classify decode msg (fst item) (snd item)") (auto split: outcome.splits simp: dom_def subset_iff reading_key_def)

lemma run_stmt_Inr:
  "run_stmt stmt w = (Inr x, w') \<Longrightarrow>
     stmt (w_tables w) = (x, w_tables w') \<and> w_counters w' = w_counters w \<and> w_latest w' = w_latest w"
  by (auto simp: run_stmt_def execute_def Let_def split: prod.splits fault.splits list.splits)

lemma run_stmt_Inl:
  "run_stmt stmt w = (Inl e, w') \<Longrightarrow>
     (w_tables w' = w_tables w \<or> w_tables w' = snd (stmt (w_tables w))) \<and>
     (FailsBefore e \<in> set (w_faults w) \<or> FailsAfter e \<in> set (w_faults w)) \<and>
     w_counters w' = w_counters w \<and> w_latest w' = w_latest w"
  by (auto simp: run_stmt_def execute_def Let_def split: prod.splits fault.splits list.splits)

lemma run_stmt_tables:
  "w_tables (snd (run_stmt stmt w)) = w_tables w \<or> w_tables (snd (run_stmt stmt w)) = snd (stmt (w_tables w))"
  by (auto simp: run_stmt_def execute_def Let_def split: prod.splits fault.splits list.splits)

lemma count_simps [simp]: "count f w = (Inr (), w\<lparr>w_counters := f (w_counters w)\<rparr>)"
  by (simp add: count_def act_simps)

lemma note_arrival_tables [simp]:
  "w_tables (snd (note_arrival r w)) = w_tables w" "w_faults (snd (note_arrival r w)) = w_faults w"
  by (auto simp: note_arrival_def split: option.splits sum.splits)

text \<open>
  A property of the tables that every statement keeps is kept by the handler, whatever fails.
  The insert runs with the device row in place: that is what \<open>Q\<close> carries across the upsert.
\<close>

lemma keeps_run_stmt:
  "(\<And>t. P t \<Longrightarrow> P (snd (stmt t))) \<Longrightarrow> keeps (\<lambda>w. P (w_tables w)) (run_stmt stmt)"
  using run_stmt_tables [of stmt] unfolding keeps_def by metis

lemma keeps_count: "keeps (\<lambda>w. P (w_tables w)) (count f)"
  by (simp add: keeps_def)

lemma keeps_note_arrival: "keeps (\<lambda>w. P (w_tables w)) (note_arrival r)"
  by (simp add: keeps_def)

lemma keeps_write_dead_letter:
  "(\<And>d t. P t \<Longrightarrow> P (snd (insert_dead_letter d t))) \<Longrightarrow> keeps (\<lambda>w. P (w_tables w)) (write_dead_letter d)"
  unfolding write_dead_letter_def by (intro keeps_andthen keeps_run_stmt keeps_count) auto

lemma keeps_settle_insert:
  "(\<And>t. P t \<Longrightarrow> P (snd (record_dedupe r t))) \<Longrightarrow> keeps (\<lambda>w. P (w_tables w)) (settle_insert r new)"
  unfolding settle_insert_def by (cases new) (auto intro!: keeps_andthen keeps_run_stmt keeps_count)

lemma write_reading_keeps:
  fixes P :: "'p tables \<Rightarrow> bool"
  assumes up: "\<And>t. P t \<Longrightarrow> P (snd (upsert_device r t))"
    and ins: "\<And>t. P t \<Longrightarrow> has_row r t \<Longrightarrow> P (snd (insert_reading r t))"
    and dd: "\<And>t. P t \<Longrightarrow> P (snd (record_dedupe r t))"
  shows "keeps (\<lambda>w. P (w_tables w)) (write_reading r)"
  unfolding keeps_def
proof (intro allI impI)
  fix w :: "'p world" assume w: "P (w_tables w)"
  obtain x w1 where u: "run_stmt (upsert_device r) w = (x, w1)" by force
  then have w1: "P (w_tables w1)" using run_stmt_tables [of "upsert_device r" w] w up by (metis snd_conv)
  show "P (w_tables (snd (write_reading r w)))"
  proof (cases x)
    case (Inr y)
    then have row: "has_row r (w_tables w1)"
      using run_stmt_Inr [of "upsert_device r" w y w1] u upsert_device_has_row [of r "w_tables w"] by simp
    obtain z w2 where i: "run_stmt (insert_reading r) w1 = (z, w2)" by force
    then have w2: "P (w_tables w2)"
      using run_stmt_tables [of "insert_reading r" w1] w1 row ins by (metis snd_conv)
    then have "P (w_tables (snd (settle_insert r new w2)))" for new
      using keeps_settle_insert [of P r new] dd by (simp add: keeps_def)
    then show ?thesis using u i Inr w2 by (cases z) (simp_all add: write_reading_def andthen_def)
  qed (use u w1 in \<open>simp add: write_reading_def andthen_def\<close>)
qed

lemma handle_one_keeps:
  assumes "\<And>r t. P t \<Longrightarrow> P (snd (upsert_device r t))"
    and "\<And>r t. P t \<Longrightarrow> has_row r t \<Longrightarrow> P (snd (insert_reading r t))"
    and "\<And>r t. P t \<Longrightarrow> P (snd (record_dedupe r t))"
    and "\<And>d t. P t \<Longrightarrow> P (snd (insert_dead_letter d t))"
  shows "keeps (\<lambda>w. P (w_tables w)) (handle_one decode msg item)"
  unfolding handle_one_def
  by (auto split: sum.split outcome.split
      intro!: keeps_andthen keeps_note_arrival write_reading_keeps keeps_write_dead_letter assms)

lemma handle_one_covers:
  "registry_covers (w_tables w) \<Longrightarrow> registry_covers (w_tables (snd (handle_one decode msg item w)))"
  using handle_one_keeps [of registry_covers decode msg item, OF upsert_device_covers insert_reading_covers]
  by (simp add: keeps_def)

lemma handle_one_grows: "grows (w_tables w) (w_tables (snd (handle_one decode msg item w)))"
proof -
  have step: "grows (w_tables w) (snd (stmt t))" if "grows (w_tables w) t" "grows t (snd (stmt t))" for stmt t
    using that by (rule grows_trans)
  have "keeps (\<lambda>w'. grows (w_tables w) (w_tables w')) (handle_one decode msg item)"
    by (rule handle_one_keeps; rule step; simp)
  then show ?thesis by (simp add: keeps_def)
qed

section \<open>A completed run\<close>

text \<open>The three outcome counters of a completed run: exactly one of them moves.\<close>

definition handled_total :: "counters \<Rightarrow> int" where
  "handled_total c = ingested c + deduplicated c + dead_lettered c"

lemma note_arrival_effect:
  assumes "note_arrival r w = (x, w1)"
  shows "w_tables w1 = w_tables w \<and> w_faults w1 = w_faults w \<and>
    ingested (w_counters w1) = ingested (w_counters w) \<and>
    deduplicated (w_counters w1) = deduplicated (w_counters w) \<and>
    dead_lettered (w_counters w1) = dead_lettered (w_counters w)"
  using assms by (auto simp: note_arrival_def split: option.splits sum.splits if_splits)

lemma write_reading_Inr:
  assumes "write_reading r w = (Inr (), w')"
  shows "grows (snd (insert_reading r (snd (upsert_device r (w_tables w))))) (w_tables w') \<and>
    handled_total (w_counters w') = handled_total (w_counters w) + 1 \<and>
    (t_telemetry (w_tables w) (reading_key r) = None \<longrightarrow> ingested (w_counters w') = ingested (w_counters w) + 1) \<and>
    (t_telemetry (w_tables w) (reading_key r) \<noteq> None \<longrightarrow> ingested (w_counters w') = ingested (w_counters w))"
proof -
  from assms obtain y w1 where u: "run_stmt (upsert_device r) w = (Inr y, w1)"
    by (auto simp: write_reading_def andthen_def split: prod.splits sum.splits)
  from assms u obtain new w2 where i: "run_stmt (insert_reading r) w1 = (Inr new, w2)"
    by (auto simp: write_reading_def andthen_def split: prod.splits sum.splits)
  have st: "settle_insert r new w2 = (Inr (), w')" using assms u i by (simp add: write_reading_def andthen_def)
  note ue = run_stmt_Inr [OF u] and ie = run_stmt_Inr [OF i]
  have t1: "w_tables w1 = snd (upsert_device r (w_tables w))" using ue by (metis snd_conv)
  have t2: "w_tables w2 = snd (insert_reading r (w_tables w1))" using ie by (metis snd_conv)
  have cn: "w_counters w2 = w_counters w" using ue ie by simp
  have tel: "t_telemetry (w_tables w1) = t_telemetry (w_tables w)" using t1 by simp
  have new: "new \<longleftrightarrow> t_telemetry (w_tables w) (reading_key r) = None"
    using conjunct1 [OF ie] tel by (auto simp: insert_reading_def split: option.splits)
  show ?thesis
  proof (cases new)
    case True
    then have "w' = w2\<lparr>w_counters := (w_counters w2)\<lparr>ingested := ingested (w_counters w2) + 1\<rparr>\<rparr>"
      using st by (simp add: settle_insert_def)
    then show ?thesis using True new by (simp add: handled_total_def cn t1 t2)
  next
    case False
    then obtain z w3 where d: "run_stmt (record_dedupe r) w2 = (Inr z, w3)"
      using st by (auto simp: settle_insert_def andthen_def split: prod.splits sum.splits)
    then have w': "w' = w3\<lparr>w_counters := (w_counters w3)\<lparr>deduplicated := deduplicated (w_counters w3) + 1\<rparr>\<rparr>"
      using st False by (simp add: settle_insert_def andthen_def)
    have t3: "w_tables w3 = snd (record_dedupe r (w_tables w2))" using run_stmt_Inr [OF d] by (metis snd_conv)
    have cn3: "w_counters w3 = w_counters w" using run_stmt_Inr [OF d] cn by simp
    show ?thesis using False new by (simp add: handled_total_def w' cn3 t3 flip: t1 t2)
  qed
qed

lemma write_reading_effect:
  assumes "write_reading r w = (Inr (), w')"
  shows "t_telemetry (w_tables w') (reading_key r) \<noteq> None \<and> t_devices (w_tables w') (device_id r) \<noteq> None"
proof -
  let ?t = "snd (insert_reading r (snd (upsert_device r (w_tables w))))"
  have "t_telemetry ?t (reading_key r) \<noteq> None" by (rule insert_reading_stored)
  moreover have "has_row r ?t" by (intro insert_reading_has_row upsert_device_has_row)
  then have "t_devices ?t (device_id r) \<noteq> None" by (auto simp: has_row_def)
  moreover have "grows ?t (w_tables w')" using write_reading_Inr [OF assms] by blast
  ultimately show ?thesis by (fastforce simp: grows_def map_le_def dom_def subset_iff reading_key_def)
qed

lemma handle_one_done:
  assumes "handle_one decode msg item w = (Inr (), w')"
  shows "recorded decode msg (w_tables w') item \<and>
         handled_total (w_counters w') = handled_total (w_counters w) + 1"
proof (cases "classify decode msg (fst item) (snd item)")
  case (Inr out)
  show ?thesis
  proof (cases out)
    case (ValidReading r)
    then obtain w1 where n: "note_arrival r w = (Inr (), w1)" and wr: "write_reading r w1 = (Inr (), w')"
      using assms Inr by (auto simp: handle_one_def andthen_def split: prod.splits sum.splits)
    show ?thesis
      using write_reading_effect [OF wr] write_reading_Inr [OF wr] note_arrival_effect [OF n] Inr ValidReading
      by (auto simp: recorded_def handled_total_def)
  next
    case (DeadLetter t p why)
    then obtain x w1 where d: "run_stmt (insert_dead_letter (t, p, why)) w = (Inr x, w1)"
      using assms Inr by (auto simp: handle_one_def write_dead_letter_def andthen_def split: prod.splits sum.splits)
    then have w': "w' = w1\<lparr>w_counters := (w_counters w1)\<lparr>dead_lettered := dead_lettered (w_counters w1) + 1\<rparr>\<rparr>"
      using assms Inr DeadLetter by (simp add: handle_one_def write_dead_letter_def andthen_def)
    have "w_tables w1 = snd (insert_dead_letter (t, p, why) (w_tables w))"
      using run_stmt_Inr [OF d] by (metis snd_conv)
    then have "(t, p, why) \<in> set (t_dead_letter (w_tables w'))" using w' by (simp add: insert_dead_letter_def)
    then show ?thesis using run_stmt_Inr [OF d] w' Inr DeadLetter by (simp add: recorded_def handled_total_def)
  qed
qed (use assms in \<open>simp add: handle_one_def act_simps\<close>)

text \<open>A run that raises: either the message is poison for the classifier, or the database failed.\<close>

definition latest_aware :: "'p world \<Rightarrow> bool" where
  "latest_aware w \<longleftrightarrow> (\<forall>d t. w_latest w d = Some t \<longrightarrow> is_aware t)"

definition fault_excs :: "fault list \<Rightarrow> py_exc set" where
  "fault_excs fs = {e. FailsBefore e \<in> set fs \<or> FailsAfter e \<in> set fs}"

lemma note_arrival_aware:
  assumes "is_aware (measured_at r)" and "latest_aware w"
  shows "fst (note_arrival r w) = Inr () \<and> latest_aware (snd (note_arrival r w))"
proof (cases "w_latest w (device_id r)")
  case (Some n)
  then have "is_aware n" using assms(2) by (simp add: latest_aware_def)
  then obtain b where "dt_less (measured_at r) n = Inr b" using assms(1) by (cases "measured_at r"; cases n) auto
  then show ?thesis using Some assms by (auto simp: note_arrival_def latest_aware_def)
qed (use assms in \<open>auto simp: note_arrival_def latest_aware_def\<close>)

lemma run_stmt_faults [simp]:
  "w_faults (snd (run_stmt stmt w)) = tl (w_faults w)" "w_latest (snd (run_stmt stmt w)) = w_latest w"
  by (simp_all add: run_stmt_def Let_def split: prod.split)

lemma fault_excs_tl: "e \<in> fault_excs (tl fs) \<Longrightarrow> e \<in> fault_excs fs"
  by (cases fs) (auto simp: fault_excs_def)

lemma run_stmt_exc: "run_stmt stmt w = (Inl e, w') \<Longrightarrow> e \<in> fault_excs (w_faults w)"
  using run_stmt_Inl [of stmt w e w'] by (auto simp: fault_excs_def)

lemma settle_insert_exc: "settle_insert r new w = (Inl e, w') \<Longrightarrow> e \<in> fault_excs (w_faults w)"
  by (auto simp: settle_insert_def andthen_def dest: run_stmt_exc split: prod.splits sum.splits if_splits)

lemma write_reading_exc:
  assumes "write_reading r w = (Inl e, w')"
  shows "e \<in> fault_excs (w_faults w)"
proof -
  obtain x w1 where u: "run_stmt (upsert_device r) w = (x, w1)" by force
  obtain z w2 where i: "run_stmt (insert_reading r) w1 = (z, w2)" by force
  have f: "w_faults w1 = tl (w_faults w)" "w_faults w2 = tl (w_faults w1)"
    using u i run_stmt_faults(1) by (metis snd_conv)+
  show ?thesis
  proof (cases x)
    case (Inl e')
    then show ?thesis using assms u run_stmt_exc [of _ w] by (simp add: write_reading_def andthen_def)
  next
    case x: (Inr y)
    show ?thesis
    proof (cases z)
      case (Inl e')
      then have "e' = e" using assms u i x by (simp add: write_reading_def andthen_def)
      then show ?thesis using run_stmt_exc [OF i [unfolded Inl]] f fault_excs_tl by simp
    next
      case (Inr new)
      then have "settle_insert r new w2 = (Inl e, w')" using assms u i x by (simp add: write_reading_def andthen_def)
      then show ?thesis using settle_insert_exc f fault_excs_tl by metis
    qed
  qed
qed

lemma handle_one_exc:
  assumes "handle_one decode msg item w = (Inl e, w')" and "latest_aware w"
  shows "classify decode msg (fst item) (snd item) = Inl e \<or> e \<in> fault_excs (w_faults w)"
proof (cases "classify decode msg (fst item) (snd item)")
  case (Inr out)
  show ?thesis
  proof (cases out)
    case (ValidReading r)
    then have "is_aware (measured_at r)"
      using classify_valid_ok [of decode msg "fst item" "snd item" r] Inr by (auto simp: telemetry_ok_def)
    then obtain w1 where n: "note_arrival r w = (Inr (), w1)"
      using note_arrival_aware [OF _ assms(2)] by (metis prod.collapse)
    then have "write_reading r w1 = (Inl e, w')"
      using assms Inr ValidReading by (simp add: handle_one_def andthen_def)
    from write_reading_exc [OF this] show ?thesis using note_arrival_effect [OF n] by simp
  next
    case (DeadLetter t p why)
    then show ?thesis using assms Inr
      by (auto simp: handle_one_def write_dead_letter_def andthen_def dest: run_stmt_exc split: prod.splits sum.splits)
  qed
qed (use assms in \<open>simp add: handle_one_def act_simps\<close>)

lemma keeps_latest_stmt: "keeps latest_aware (run_stmt stmt)"
  by (simp add: keeps_def latest_aware_def)

lemma keeps_latest_count: "keeps latest_aware (count f)"
  by (simp add: keeps_def latest_aware_def)

lemma handle_one_latest: "latest_aware w \<Longrightarrow> latest_aware (snd (handle_one decode msg item w))"
proof -
  have na: "keeps latest_aware (note_arrival r)" if "is_aware (measured_at r)" for r
    by (simp add: keeps_def note_arrival_aware [OF that])
  have "keeps latest_aware (handle_one decode msg item)"
    unfolding handle_one_def write_reading_def write_dead_letter_def
    by (auto split: sum.split outcome.split simp: settle_insert_def intro!: keeps_andthen keeps_latest_stmt keeps_latest_count na)
       (use classify_valid_ok in \<open>fastforce simp: telemetry_ok_def\<close>)
  then show "latest_aware w \<Longrightarrow> latest_aware (snd (handle_one decode msg item w))" by (simp add: keeps_def)
qed

section \<open>The handler without failures\<close>

text \<open>The tables after one message, as a function of its outcome: the abstract writer.\<close>

fun apply_outcome :: "'p outcome \<Rightarrow> 'p tables \<Rightarrow> 'p tables" where
  "apply_outcome (ValidReading r) t =
     (if t_telemetry t (reading_key r) = None then store_reading r t
      else snd (record_dedupe r (store_reading r t)))"
| "apply_outcome (DeadLetter tp p why) t = snd (insert_dead_letter (tp, p, why) t)"

lemma run_stmt_works: "w_faults w = [] \<Longrightarrow>
    run_stmt stmt w = (Inr (fst (stmt (w_tables w))), w\<lparr>w_tables := snd (stmt (w_tables w))\<rparr>)"
  by (simp add: run_stmt_def execute_def split: prod.split)

lemma insert_reading_new: "fst (insert_reading r t) \<longleftrightarrow> t_telemetry t (reading_key r) = None"
  by (simp add: insert_reading_def split: option.split)

lemma write_reading_works:
  assumes "w_faults w = []"
  shows "\<exists>w'. write_reading r w = (Inr (), w') \<and> w_faults w' = [] \<and> w_latest w' = w_latest w \<and>
    w_tables w' = apply_outcome (ValidReading r) (w_tables w)"
  using assms
  by (simp add: write_reading_def settle_insert_def andthen_def run_stmt_works insert_reading_new store_reading_def)

lemma handle_one_works:
  assumes f: "w_faults w = []" and la: "latest_aware w"
    and c: "classify decode msg (fst item) (snd item) = Inr out"
  shows "\<exists>w'. handle_one decode msg item w = (Inr (), w') \<and> w_faults w' = [] \<and> latest_aware w' \<and>
    w_tables w' = apply_outcome out (w_tables w)"
proof (cases out)
  case (ValidReading r)
  then have "is_aware (measured_at r)"
    using classify_valid_ok [of decode msg "fst item" "snd item" r] c by (auto simp: telemetry_ok_def)
  then obtain w1 where n: "note_arrival r w = (Inr (), w1)" "latest_aware w1"
    using note_arrival_aware [OF _ la] by (metis prod.collapse)
  have e: "w_tables w1 = w_tables w" "w_faults w1 = []" using note_arrival_effect [OF n(1)] f by simp_all
  obtain w2 where "write_reading r w1 = (Inr (), w2)" "w_faults w2 = []" "w_latest w2 = w_latest w1"
    "w_tables w2 = apply_outcome (ValidReading r) (w_tables w1)"
    using write_reading_works [OF e(2)] by blast
  then show ?thesis using n e c ValidReading by (simp add: handle_one_def andthen_def latest_aware_def)
next
  case (DeadLetter tp p why)
  then show ?thesis using c f la
    by (simp add: handle_one_def write_dead_letter_def andthen_def run_stmt_works latest_aware_def)
qed

section \<open>The pipeline state\<close>

text \<open>
  The abstract contract of the writer: the pipeline state (readings and registry) is a fold of
  the messages' outcomes. Redelivery and reordering are facts about that fold.
\<close>

type_synonym pipeline = "(reading_key \<rightharpoonup> telemetry_row) \<times> (string \<rightharpoonup> int \<times> int)"

definition widen :: "int \<Rightarrow> (int \<times> int) option \<Rightarrow> int \<times> int" where
  "widen m row = (case row of None \<Rightarrow> (m, m) | Some (f, l) \<Rightarrow> (min f m, max l m))"

definition pipe_reading :: "telemetry \<Rightarrow> pipeline \<Rightarrow> pipeline" where
  "pipe_reading r p =
     (case p of (tel, dev) \<Rightarrow>
       (case tel (reading_key r) of None \<Rightarrow> tel(reading_key r \<mapsto> reading_row r) | Some old \<Rightarrow> tel,
        dev(device_id r \<mapsto> widen (timestamptz (measured_at r)) (dev (device_id r)))))"

fun pipe_outcome :: "'p outcome \<Rightarrow> pipeline \<Rightarrow> pipeline" where
  "pipe_outcome (ValidReading r) p = pipe_reading r p"
| "pipe_outcome (DeadLetter tp payload why) p = p"

lemma pipeline_store_reading: "pipeline_state (store_reading r t) = pipe_reading r (pipeline_state t)"
  by (auto simp: pipeline_state_def pipe_reading_def store_reading_devices store_reading_telemetry widen_def
      split: option.split)

lemma pipeline_apply_outcome: "pipeline_state (apply_outcome out t) = pipe_outcome out (pipeline_state t)"
  by (cases out) (auto simp: pipeline_store_reading [symmetric], simp_all add: pipeline_state_def)

lemma widen_idem: "widen m (Some (widen m row)) = widen m row"
  by (auto simp: widen_def split: option.splits)

lemma widen_commute: "widen m (Some (widen n row)) = widen n (Some (widen m row))"
  by (auto simp: widen_def min_def max_def split: option.splits)

lemma pipe_reading_idem: "pipe_reading r (pipe_reading r p) = pipe_reading r p"
  by (auto simp: pipe_reading_def widen_idem split: prod.splits option.splits)

lemma pipe_reading_commute:
  assumes "reading_key r = reading_key s \<Longrightarrow> reading_row r = reading_row s"
  shows "pipe_reading r (pipe_reading s p) = pipe_reading s (pipe_reading r p)"
proof -
  obtain tel dev where p: "p = (tel, dev)" by force
  have "fst (pipe_reading r (pipe_reading s p)) = fst (pipe_reading s (pipe_reading r p))"
    using assms by (auto simp: p pipe_reading_def fun_eq_iff split: option.splits)
  moreover have "snd (pipe_reading r (pipe_reading s p)) = snd (pipe_reading s (pipe_reading r p))"
    by (auto simp: p pipe_reading_def fun_eq_iff widen_commute)
  ultimately show ?thesis by (rule prod_eqI)
qed

definition compatible :: "'p outcome list \<Rightarrow> bool" where
  "compatible outs \<longleftrightarrow>
     (\<forall>r s. ValidReading r \<in> set outs \<longrightarrow> ValidReading s \<in> set outs \<longrightarrow> reading_key r = reading_key s \<longrightarrow>
        reading_row r = reading_row s)"

lemma pipe_outcome_idem: "pipe_outcome out (pipe_outcome out p) = pipe_outcome out p"
  by (cases out) (simp_all add: pipe_reading_idem)

definition agreeing :: "'p outcome \<Rightarrow> 'p outcome \<Rightarrow> bool" where
  "agreeing a b \<longleftrightarrow>
     (\<forall>r s. a = ValidReading r \<longrightarrow> b = ValidReading s \<longrightarrow> reading_key r = reading_key s \<longrightarrow> reading_row r = reading_row s)"

interpretation tables: idempotent_consumer pipe_outcome agreeing
proof
  fix a b :: "'p outcome" and p
  show "pipe_outcome a (pipe_outcome a p) = pipe_outcome a p" by (rule pipe_outcome_idem)
  assume "agreeing a b"
  then show "pipe_outcome a (pipe_outcome b p) = pipe_outcome b (pipe_outcome a p)"
    by (cases a; cases b) (auto simp: agreeing_def intro: pipe_reading_commute)
qed

lemma compatible_agreeing: "compatible outs \<longleftrightarrow> (\<forall>a \<in> set outs. \<forall>b \<in> set outs. agreeing a b)"
  by (auto simp: compatible_def agreeing_def)

lemma pipe_outcomes_order:
  "mset xs = mset ys \<Longrightarrow> compatible xs \<Longrightarrow> fold pipe_outcome xs p = fold pipe_outcome ys p"
  by (rule tables.order) (simp_all add: compatible_agreeing)

lemma pipe_outcomes_twice: "compatible outs \<Longrightarrow> fold pipe_outcome (outs @ outs) p = fold pipe_outcome outs p"
  by (rule tables.redelivery) (simp_all add: compatible_agreeing)

text \<open>Handling a list of messages, as the loop does when nothing fails.\<close>

fun handle_all ::
  "('p \<Rightarrow> decoded) \<Rightarrow> (constraint \<Rightarrow> string) \<Rightarrow> 'p item list \<Rightarrow> ('p world, unit) act" where
  "handle_all decode msg [] = ret ()"
| "handle_all decode msg (item # items) = andthen (handle_one decode msg item) (\<lambda>_. handle_all decode msg items)"

lemma handle_all_pipeline:
  assumes "w_faults w = []" and "latest_aware w"
    and "list_all2 (\<lambda>item out. classify decode msg (fst item) (snd item) = Inr out) items outs"
  shows "\<exists>w'. handle_all decode msg items w = (Inr (), w') \<and>
    pipeline_state (w_tables w') = fold pipe_outcome outs (pipeline_state (w_tables w))"
  using assms(3,1,2)
proof (induction arbitrary: w rule: list_all2_induct)
  case (Cons item items out outs)
  obtain w1 where w1: "handle_one decode msg item w = (Inr (), w1)" "w_faults w1 = []" "latest_aware w1"
    "w_tables w1 = apply_outcome out (w_tables w)"
    using handle_one_works [OF Cons.prems Cons.hyps(1)] by blast
  from Cons.IH [OF w1(2,3)] show ?case
    by (auto simp: w1(1) andthen_def w1(4) pipeline_apply_outcome)
qed (simp add: act_simps)

end
