(* ===== verification/Ingest_Service.thy ===== *)
theory Ingest_Service
  imports Ingest_Handler
begin

text \<open>
  The run loop of \<^verbatim>\<open>ingestion/service.py\<close> as a state machine. A phase is a place in the code where
  the loop waits or tests; an event is one thing the environment does (a delivery into the
  client's buffer, a connection attempt, a fault script for the next message, a signal). The
  buffer, \<open>pending\<close> and every message the client acknowledged are part of the state, so that
  "no acknowledged message is lost" is a statement about reachable states.

  The client buffers and acknowledges messages from the moment it is connected until it is closed:
  with a persistent session the backlog arrives while \<^verbatim>\<open>client.subscribe\<close> is still awaited, and
  messages can arrive while \<^verbatim>\<open>__aexit__\<close> awaits the disconnect. Both waits are phases of their own.
\<close>

section \<open>State\<close>

record ingest_settings =
  reconnect_initial_seconds :: pyfloat
  reconnect_max_seconds :: pyfloat

text \<open>
  \<open>Subscribing\<close>: the client is connected, \<^verbatim>\<open>client.subscribe\<close> is awaited. \<open>Closing subscribed cause\<close>:
  the client context is being left, with the exception in flight, if any; \<open>subscribed\<close> tells whether the
  subscription had succeeded.
\<close>

datatype phase =
    Disconnected
  | DbUp
  | Subscribing
  | Replaying
  | Consuming
  | Draining
  | Closing bool "py_exc option"
  | BackingOff
  | Flushing
  | Stopped
  | Crashed py_exc

text \<open>
  Why a message in the client's buffer is beyond the reach of the code when the client goes: it was
  acknowledged before the subscription succeeded, or while the client was closing, or an exception that
  is not handled by salvaging was leaving the block.
\<close>

datatype discard = Unsubscribed | WhileClosing | Unhandled

text \<open>
  \<open>s_acked\<close>, \<open>s_lost\<close>, \<open>s_exposed\<close> and \<open>s_window\<close> are history: the messages acknowledged, those given up by
  the final flush or a crash, those of the present connection out of reach of the code, and those that
  went down with a client.
\<close>

record 'p service =
  s_world :: "'p world"
  s_phase :: phase
  s_stop :: bool
  s_pending :: "'p item list"
  s_queue :: "'p item list"
  s_backoff :: pyfloat
  broker_connected :: bool
  db_connected :: bool
  s_acked :: "'p item list"
  s_lost :: "'p item list"
  s_exposed :: "(discard \<times> 'p item) list"
  s_window :: "(discard \<times> 'p item) list"

definition start_service :: "ingest_settings \<Rightarrow> 'p tables \<Rightarrow> 'p service" where
  "start_service cfg t = \<lparr>
     s_world = \<lparr>w_tables = t, w_faults = [], w_counters = zero_counters, w_latest = Map.empty\<rparr>,
     s_phase = Disconnected, s_stop = False, s_pending = [], s_queue = [],
     s_backoff = reconnect_initial_seconds cfg, broker_connected = False, db_connected = False,
     s_acked = [], s_lost = [], s_exposed = [], s_window = []\<rparr>"

section \<open>Leaving the connected block\<close>

text \<open>\<^verbatim>\<open>_salvage_queue\<close>: the client's buffer moves behind \<open>pending\<close>.\<close>

definition salvage_queue :: "'p service \<Rightarrow> 'p service" where
  "salvage_queue s = s\<lparr>s_pending := s_pending s @ s_queue s, s_queue := []\<rparr>"

text \<open>
  An exception of the block inside the client context. Only a lost database connection is caught there:
  the buffer is salvaged. Whatever the exception, it goes on through \<^verbatim>\<open>__aexit__\<close>.
\<close>

definition raise_inside :: "py_exc \<Rightarrow> 'p service \<Rightarrow> 'p service" where
  "raise_inside e s =
     (if e = OperationalError then (salvage_queue s)\<lparr>s_phase := Closing True (Some e)\<rparr>
      else s\<lparr>s_phase := Closing True (Some e),
             s_exposed := s_exposed s @ (if e = MqttError then [] else map (Pair Unhandled) (s_queue s))\<rparr>)"

text \<open>The inner \<^verbatim>\<open>finally\<close>: both flags drop. The client is gone, and its buffer with it.\<close>

definition disconnect :: "'p service \<Rightarrow> 'p service" where
  "disconnect s = s\<lparr>broker_connected := False, db_connected := False,
     s_window := s_window s @ s_exposed s, s_exposed := [], s_queue := []\<rparr>"

text \<open>The reconnect handler: break when stopping, otherwise wait.\<close>

definition reconnect :: "'p service \<Rightarrow> 'p service" where
  "reconnect s = s\<lparr>s_phase := (if s_stop s then Flushing else BackingOff)\<rparr>"

text \<open>Any other exception leaves \<^verbatim>\<open>run\<close>: what memory holds is gone, and no flush runs.\<close>

definition crash :: "py_exc \<Rightarrow> 'p service \<Rightarrow> 'p service" where
  "crash e s = s\<lparr>s_phase := Crashed e, s_lost := s_lost s @ s_pending s, s_pending := []\<rparr>"

text \<open>An exception arrives at the \<^verbatim>\<open>finally\<close> and the \<^verbatim>\<open>except\<close> around the block.\<close>

definition on_exception :: "py_exc \<Rightarrow> 'p service \<Rightarrow> 'p service" where
  "on_exception e s =
     (if e = OperationalError \<or> e = MqttError then reconnect (disconnect s) else crash e (disconnect s))"

text \<open>
  \<^verbatim>\<open>__aexit__\<close> is over. If it raised, its exception replaces the one in flight. Without any, the outer loop
  tests the stop event.
\<close>

definition close_client :: "py_exc option \<Rightarrow> py_exc option \<Rightarrow> 'p service \<Rightarrow> 'p service" where
  "close_client cause r s =
     (case (case r of Some e \<Rightarrow> Some e | None \<Rightarrow> cause) of
        Some e \<Rightarrow> on_exception e s
      | None \<Rightarrow> (disconnect s)\<lparr>s_phase := (if s_stop s then Flushing else Disconnected)\<rparr>)"

section \<open>The steps\<close>

definition handle_in ::
  "('p \<Rightarrow> decoded) \<Rightarrow> (constraint \<Rightarrow> string) \<Rightarrow> fault list \<Rightarrow> 'p item \<Rightarrow> 'p service \<Rightarrow> unit res \<times> 'p service" where
  "handle_in decode msg faults item s =
     (case handle_one decode msg item ((s_world s)\<lparr>w_faults := faults\<rparr>) of
        (r, w) \<Rightarrow> (r, s\<lparr>s_world := w\<rparr>))"

definition replay_step ::
  "('p \<Rightarrow> decoded) \<Rightarrow> (constraint \<Rightarrow> string) \<Rightarrow> fault list \<Rightarrow> 'p service \<Rightarrow> 'p service" where
  "replay_step decode msg faults s =
     (if s_pending s \<noteq> [] \<and> \<not> s_stop s then
        (case handle_in decode msg faults (hd (s_pending s)) s of
           (Inr _, s') \<Rightarrow> s'\<lparr>s_pending := tl (s_pending s')\<rparr>
         | (Inl e, s') \<Rightarrow> raise_inside e s')
      else s\<lparr>s_phase := Consuming\<rparr>)"

text \<open>The shared body: take a buffered message, append it to \<open>pending\<close>, handle it, \<^verbatim>\<open>popleft\<close>.\<close>

definition take_one ::
  "('p \<Rightarrow> decoded) \<Rightarrow> (constraint \<Rightarrow> string) \<Rightarrow> fault list \<Rightarrow> 'p item \<Rightarrow> 'p item list \<Rightarrow> 'p service \<Rightarrow> 'p service" where
  "take_one decode msg faults item rest s =
     (case handle_in decode msg faults item (s\<lparr>s_queue := rest, s_pending := s_pending s @ [item]\<rparr>) of
        (Inr _, s') \<Rightarrow> s'\<lparr>s_pending := tl (s_pending s')\<rparr>
      | (Inl e, s') \<Rightarrow> raise_inside e s')"

definition consume_step ::
  "('p \<Rightarrow> decoded) \<Rightarrow> (constraint \<Rightarrow> string) \<Rightarrow> fault list \<Rightarrow> 'p service \<Rightarrow> 'p service" where
  "consume_step decode msg faults s =
     (if s_stop s then s\<lparr>s_phase := Draining\<rparr>
      else case s_queue s of
          [] \<Rightarrow> s
        | item # rest \<Rightarrow> take_one decode msg faults item rest s)"

text \<open>When the buffer is empty the drain ends, and the client context is left without an exception.\<close>

definition drain_step ::
  "('p \<Rightarrow> decoded) \<Rightarrow> (constraint \<Rightarrow> string) \<Rightarrow> fault list \<Rightarrow> 'p service \<Rightarrow> 'p service" where
  "drain_step decode msg faults s =
     (case s_queue s of
        [] \<Rightarrow> s\<lparr>s_phase := Closing True None\<rparr>
      | item # rest \<Rightarrow> take_one decode msg faults item rest s)"

text \<open>The final flush; an exception of any kind reports what is left as dropped.\<close>

definition drop_pending :: "'p service \<Rightarrow> 'p service" where
  "drop_pending s = s\<lparr>s_phase := Stopped, s_lost := s_lost s @ s_pending s, s_pending := []\<rparr>"

definition flush_step ::
  "('p \<Rightarrow> decoded) \<Rightarrow> (constraint \<Rightarrow> string) \<Rightarrow> fault list \<Rightarrow> 'p service \<Rightarrow> 'p service" where
  "flush_step decode msg faults s =
     (case s_pending s of
        [] \<Rightarrow> s\<lparr>s_phase := Stopped\<rparr>
      | item # rest \<Rightarrow>
          (case handle_in decode msg faults item s of
             (Inr _, s') \<Rightarrow> s'\<lparr>s_pending := tl (s_pending s')\<rparr>
           | (Inl e, s') \<Rightarrow> drop_pending s'))"

definition connect_db :: "py_exc option \<Rightarrow> 'p service \<Rightarrow> 'p service" where
  "connect_db r s =
     (if s_stop s then s\<lparr>s_phase := Flushing\<rparr>
      else case r of
          None \<Rightarrow> s\<lparr>s_phase := DbUp, db_connected := True\<rparr>
        | Some e \<Rightarrow> on_exception e s)"

definition connect_broker :: "py_exc option \<Rightarrow> 'p service \<Rightarrow> 'p service" where
  "connect_broker r s = (case r of None \<Rightarrow> s\<lparr>s_phase := Subscribing\<rparr> | Some e \<Rightarrow> on_exception e s)"

text \<open>
  The subscription succeeds, or its exception leaves the client context at once: the code that salvages
  the buffer comes later.
\<close>

definition subscribe_step :: "ingest_settings \<Rightarrow> py_exc option \<Rightarrow> 'p service \<Rightarrow> 'p service" where
  "subscribe_step cfg r s =
     (case r of
        None \<Rightarrow> s\<lparr>s_phase := Replaying, broker_connected := True, s_backoff := reconnect_initial_seconds cfg,
                  s_exposed := []\<rparr>
      | Some e \<Rightarrow> s\<lparr>s_phase := Closing False (Some e)\<rparr>)"

definition backoff_step :: "ingest_settings \<Rightarrow> 'p service \<Rightarrow> 'p service" where
  "backoff_step cfg s = s\<lparr>s_phase := Disconnected,
     s_backoff := py_min (fmul (s_backoff s) (Fin 2)) (reconnect_max_seconds cfg)\<rparr>"

text \<open>
  The events. \<open>Deliver\<close>: the client buffers and acknowledges a message, which it can do while it is
  connected. \<open>Connect\<close>, \<open>Subscribed\<close>, \<open>Closed\<close>: the call awaited returns, or raises. \<open>BrokerLost\<close>: waiting
  for a message raises, which happens only with an empty buffer. \<open>FlushFails\<close>: the flush cannot connect,
  or its time is up.
\<close>

datatype 'p event =
    StopSignal
  | Deliver "'p item"
  | Connect "py_exc option"
  | Subscribed "py_exc option"
  | Closed "py_exc option"
  | BackoffOver
  | Work "fault list"
  | BrokerLost
  | FlushFails

text \<open>\<open>serving\<close>: the subscription has succeeded and the client context is not yet left.\<close>

definition serving :: "phase \<Rightarrow> bool" where
  "serving p \<longleftrightarrow> p \<in> {Replaying, Consuming, Draining}"

text \<open>How a message acknowledged in a phase is exposed; none is while the code serves the buffer.\<close>

fun exposure :: "phase \<Rightarrow> discard list" where
  "exposure Subscribing = [Unsubscribed]"
| "exposure (Closing subscribed cause) = [WhileClosing]"
| "exposure p = []"

definition client_up :: "phase \<Rightarrow> bool" where
  "client_up p \<longleftrightarrow> serving p \<or> exposure p \<noteq> []"

definition deliver :: "'p item \<Rightarrow> 'p service \<Rightarrow> 'p service" where
  "deliver item s = s\<lparr>s_queue := s_queue s @ [item], s_acked := s_acked s @ [item],
     s_exposed := s_exposed s @ map (\<lambda>why. (why, item)) (exposure (s_phase s))\<rparr>"

definition work_step ::
  "('p \<Rightarrow> decoded) \<Rightarrow> (constraint \<Rightarrow> string) \<Rightarrow> fault list \<Rightarrow> 'p service \<Rightarrow> 'p service" where
  "work_step decode msg faults s =
     (case s_phase s of
        Replaying \<Rightarrow> replay_step decode msg faults s
      | Consuming \<Rightarrow> consume_step decode msg faults s
      | Draining \<Rightarrow> drain_step decode msg faults s
      | Flushing \<Rightarrow> flush_step decode msg faults s
      | _ \<Rightarrow> s)"

fun service_step ::
  "('p \<Rightarrow> decoded) \<Rightarrow> (constraint \<Rightarrow> string) \<Rightarrow> ingest_settings \<Rightarrow> 'p event \<Rightarrow> 'p service \<Rightarrow> 'p service" where
  "service_step decode msg cfg StopSignal s = s\<lparr>s_stop := True\<rparr>"
| "service_step decode msg cfg (Deliver item) s =
     (if client_up (s_phase s) then deliver item s else s)"
| "service_step decode msg cfg (Connect r) s =
     (case s_phase s of
        Disconnected \<Rightarrow> connect_db r s
      | DbUp \<Rightarrow> connect_broker r s
      | _ \<Rightarrow> s)"
| "service_step decode msg cfg (Subscribed r) s = (if s_phase s = Subscribing then subscribe_step cfg r s else s)"
| "service_step decode msg cfg (Closed r) s =
     (case s_phase s of Closing subscribed cause \<Rightarrow> close_client cause r s | _ \<Rightarrow> s)"
| "service_step decode msg cfg BackoffOver s = (if s_phase s = BackingOff then backoff_step cfg s else s)"
| "service_step decode msg cfg (Work faults) s = work_step decode msg faults s"
| "service_step decode msg cfg BrokerLost s =
     (if s_phase s = Consuming \<and> s_queue s = [] \<and> \<not> s_stop s then raise_inside MqttError s else s)"
| "service_step decode msg cfg FlushFails s =
     (if s_phase s = Flushing \<and> s_pending s \<noteq> [] then drop_pending s else s)"

section \<open>Reachable states\<close>

text \<open>
  The states a run can reach when every step satisfies \<open>ok\<close>; with \<open>ok\<close> constantly true these are
  all of them.
\<close>

inductive reach ::
  "('p \<Rightarrow> decoded) \<Rightarrow> (constraint \<Rightarrow> string) \<Rightarrow> ingest_settings \<Rightarrow> ('p event \<Rightarrow> 'p service \<Rightarrow> bool) \<Rightarrow>
   'p tables \<Rightarrow> 'p service \<Rightarrow> bool"
  for decode msg cfg ok t where
  start: "reach decode msg cfg ok t (start_service cfg t)"
| step: "reach decode msg cfg ok t s \<Longrightarrow> ok ev s \<Longrightarrow> reach decode msg cfg ok t (service_step decode msg cfg ev s)"

definition run_events ::
  "('p \<Rightarrow> decoded) \<Rightarrow> (constraint \<Rightarrow> string) \<Rightarrow> ingest_settings \<Rightarrow> 'p event list \<Rightarrow> 'p service \<Rightarrow> 'p service" where
  "run_events decode msg cfg evs s = fold (service_step decode msg cfg) evs s"

lemma run_events_reach:
  assumes "reach decode msg cfg (\<lambda>_ _. True) t s"
  shows "reach decode msg cfg (\<lambda>_ _. True) t (run_events decode msg cfg evs s)"
  using assms by (induction evs arbitrary: s) (auto simp: run_events_def intro: reach.step)

end
