(* ===== verification/Ingest_Laws.thy ===== *)
theory Ingest_Laws
  imports Ingest_Service
begin

text \<open>
  What the run loop guarantees. In every reachable state the registry covers the stored readings
  and both health flags tell where the loop is; in orderly runs every acknowledged message is
  stored, in memory, was given up by the final flush or a crash, or went down with a client in one
  of the windows in which the code does not guard its buffer. One kind of run is not
  orderly: a stop that interrupts the replay of \<open>pending\<close>. There the drain pops the wrong
  message, and an acknowledged message is lost without a trace.
\<close>

section \<open>Frame conditions of the steps\<close>

lemma handle_in_fields:
  assumes "handle_in decode msg faults item s = (r, s')"
  shows "s_phase s' = s_phase s \<and> s_stop s' = s_stop s \<and> s_pending s' = s_pending s \<and>
    s_queue s' = s_queue s \<and> s_acked s' = s_acked s \<and> s_lost s' = s_lost s \<and>
    s_exposed s' = s_exposed s \<and> s_window s' = s_window s \<and>
    broker_connected s' = broker_connected s \<and> db_connected s' = db_connected s \<and> s_backoff s' = s_backoff s"
  using assms by (auto simp: handle_in_def split: prod.splits)

lemma handle_in_world:
  assumes "handle_in decode msg faults item s = (r, s')"
  shows "grows (w_tables (s_world s)) (w_tables (s_world s'))"
    and "registry_covers (w_tables (s_world s)) \<Longrightarrow> registry_covers (w_tables (s_world s'))"
    and "latest_aware (s_world s) \<Longrightarrow> latest_aware (s_world s')"
    and "r = Inr () \<Longrightarrow> recorded decode msg (w_tables (s_world s')) item"
    and "r = Inl e \<Longrightarrow> latest_aware (s_world s) \<Longrightarrow>
           classify decode msg (fst item) (snd item) = Inl e \<or> e \<in> fault_excs faults"
proof -
  define w where "w = (s_world s)\<lparr>w_faults := faults\<rparr>"
  have h: "handle_one decode msg item w = (r, s_world s')"
    using assms by (auto simp: handle_in_def w_def split: prod.splits)
  have wt: "w_tables w = w_tables (s_world s)" "w_faults w = faults"
    "latest_aware w = latest_aware (s_world s)" by (simp_all add: w_def latest_aware_def)
  show "grows (w_tables (s_world s)) (w_tables (s_world s'))"
    using handle_one_grows [of w decode msg item] h wt by simp
  show "registry_covers (w_tables (s_world s)) \<Longrightarrow> registry_covers (w_tables (s_world s'))"
    using handle_one_covers [of w decode msg item] h wt by simp
  show "latest_aware (s_world s) \<Longrightarrow> latest_aware (s_world s')"
    using handle_one_latest [of w decode msg item] h wt by simp
  show "r = Inr () \<Longrightarrow> recorded decode msg (w_tables (s_world s')) item"
    using handle_one_done [of decode msg item w "s_world s'"] h by simp
  show "r = Inl e \<Longrightarrow> latest_aware (s_world s) \<Longrightarrow>
      classify decode msg (fst item) (snd item) = Inl e \<or> e \<in> fault_excs faults"
    using handle_one_exc [of decode msg item w e "s_world s'"] h wt by simp
qed

lemmas loop_defs = salvage_queue_def disconnect_def reconnect_def crash_def on_exception_def raise_inside_def
  close_client_def drop_pending_def connect_db_def connect_broker_def subscribe_step_def backoff_step_def deliver_def

lemma on_exception_world [simp]: "s_world (on_exception e s) = s_world s" "s_acked (on_exception e s) = s_acked s"
  "s_stop (on_exception e s) = s_stop s"
  by (simp_all add: loop_defs)

lemma raise_inside_world [simp]: "s_world (raise_inside e s) = s_world s" "s_acked (raise_inside e s) = s_acked s"
  "s_stop (raise_inside e s) = s_stop s" "s_lost (raise_inside e s) = s_lost s" "s_window (raise_inside e s) = s_window s"
  "s_phase (raise_inside e s) = Closing True (Some e)" "broker_connected (raise_inside e s) = broker_connected s"
  "db_connected (raise_inside e s) = db_connected s"
  by (simp_all add: loop_defs)

lemma close_client_world [simp]: "s_world (close_client cause r s) = s_world s" "s_acked (close_client cause r s) = s_acked s"
  "s_stop (close_client cause r s) = s_stop s"
  by (simp_all add: close_client_def disconnect_def split: option.split)

lemma serving_simps [simp]: "serving Replaying" "serving Consuming" "serving Draining" "\<not> serving Disconnected"
  "\<not> serving DbUp" "\<not> serving Subscribing" "\<not> serving (Closing sub c)" "\<not> serving BackingOff" "\<not> serving Flushing"
  "\<not> serving Stopped" "\<not> serving (Crashed e)"
  by (simp_all add: serving_def)

lemma client_up_simps [simp]: "client_up Replaying" "client_up Consuming" "client_up Draining" "client_up Subscribing"
  "client_up (Closing sub c)" "\<not> client_up Disconnected" "\<not> client_up DbUp" "\<not> client_up BackingOff"
  "\<not> client_up Flushing" "\<not> client_up Stopped" "\<not> client_up (Crashed e)"
  by (simp_all add: client_up_def)

section \<open>The world only accumulates\<close>

text \<open>One induction for everything the tables keep: each step is a handled message or no write.\<close>

lemma service_step_world:
  assumes "\<And>faults item s r s'. P (s_world s) \<Longrightarrow> handle_in decode msg faults item s = (r, s') \<Longrightarrow> P (s_world s')"
    and "P (s_world s)"
  shows "P (s_world (service_step decode msg cfg ev s))"
proof -
  have take: "P (s_world (take_one decode msg faults item rest s))" if "P (s_world s)" for faults item rest s
    using assms(1) [of "s\<lparr>s_queue := rest, s_pending := s_pending s @ [item]\<rparr>"] that
    by (auto simp: take_one_def split: prod.splits sum.splits)
  have "P (s_world (work_step decode msg faults s))" for faults
    using assms take
    by (auto simp: work_step_def replay_step_def consume_step_def drain_step_def flush_step_def
        drop_pending_def split: phase.splits list.splits prod.splits sum.splits)
  then show ?thesis
    using assms(2) by (cases ev) (auto simp: loop_defs split: phase.splits option.splits)
qed

lemma reach_world:
  assumes "reach decode msg cfg ok t s" and "registry_covers t"
  shows "registry_covers (w_tables (s_world s)) \<and> latest_aware (s_world s) \<and> grows t (w_tables (s_world s))"
  using assms(1)
proof (induction rule: reach.induct)
  case start
  then show ?case using assms(2) by (simp add: start_service_def latest_aware_def)
next
  case (step s ev)
  let ?P = "\<lambda>w. registry_covers (w_tables w) \<and> latest_aware w \<and> grows t (w_tables w)"
  have "?P (s_world s2)" if "?P (s_world s1)" "handle_in decode msg faults item s1 = (r, s2)"
    for faults item s1 r s2
    using that(1) handle_in_world(1,2,3) [OF that(2)] grows_trans by fastforce
  from service_step_world [of ?P, OF this step.IH] show ?case .
qed

section \<open>Health\<close>

text \<open>
  The broker flag is set while the loop serves the buffer and while a subscribed client closes; the
  database flag is set from the connection of the writer until the client context is left.
\<close>

definition broker_phase :: "phase \<Rightarrow> bool" where
  "broker_phase p \<longleftrightarrow> serving p \<or> (\<exists>c. p = Closing True c)"

definition db_phase :: "phase \<Rightarrow> bool" where
  "db_phase p \<longleftrightarrow> client_up p \<or> p = DbUp"

definition flags_ok :: "'p service \<Rightarrow> bool" where
  "flags_ok s \<longleftrightarrow> (broker_connected s \<longleftrightarrow> broker_phase (s_phase s)) \<and> (db_connected s \<longleftrightarrow> db_phase (s_phase s))"

lemma on_exception_flags: "flags_ok (on_exception e s)"
  by (simp add: flags_ok_def broker_phase_def db_phase_def loop_defs)

lemma raise_inside_flags: "broker_connected s \<Longrightarrow> db_connected s \<Longrightarrow> flags_ok (raise_inside e s)"
  by (simp add: flags_ok_def broker_phase_def db_phase_def)

lemma serving_flags: "flags_ok s \<Longrightarrow> serving (s_phase s) \<Longrightarrow> broker_connected s \<and> db_connected s"
  by (auto simp: flags_ok_def broker_phase_def db_phase_def client_up_def)

text \<open>A handled message leaves flags and phase alone, or leads into \<open>Closing True\<close>.\<close>

lemma flags_frame:
  "s_phase s' = s_phase s \<Longrightarrow> broker_connected s' = broker_connected s \<Longrightarrow> db_connected s' = db_connected s \<Longrightarrow>
     flags_ok s \<Longrightarrow> flags_ok s'"
  by (simp add: flags_ok_def)

lemma handled_flags:
  assumes "flags_ok s" and "serving (s_phase s)" and h: "handle_in decode msg faults item s = (r, s')"
  shows "flags_ok (case r of Inr _ \<Rightarrow> s'\<lparr>s_pending := tl (s_pending s')\<rparr> | Inl e \<Rightarrow> raise_inside e s')"
proof (cases r)
  case (Inl e)
  then show ?thesis using serving_flags [OF assms(1,2)] handle_in_fields [OF h] by (simp add: raise_inside_flags)
next
  case (Inr u)
  then show ?thesis using handle_in_fields [OF h] by (simp add: flags_frame [OF _ _ _ assms(1)])
qed

lemma take_one_flags:
  assumes "flags_ok s" and "serving (s_phase s)"
  shows "flags_ok (take_one decode msg faults item rest s)"
proof -
  let ?s = "s\<lparr>s_queue := rest, s_pending := s_pending s @ [item]\<rparr>"
  obtain r s' where h: "handle_in decode msg faults item ?s = (r, s')" by force
  have "flags_ok ?s" "serving (s_phase ?s)" using assms(2) by (simp_all add: flags_frame [OF _ _ _ assms(1)])
  from handled_flags [OF this h] show ?thesis by (cases r) (simp_all add: take_one_def h)
qed

lemma work_step_flags:
  assumes f: "flags_ok s"
  shows "flags_ok (work_step decode msg faults s)"
proof (cases "serving (s_phase s)")
  case True
  have moved: "flags_ok (s\<lparr>s_phase := p\<rparr>)" if "p \<in> {Consuming, Draining, Closing True None}" for p
    using that serving_flags [OF f True] by (auto simp: flags_ok_def broker_phase_def db_phase_def)
  obtain r s' where h: "handle_in decode msg faults (hd (s_pending s)) s = (r, s')" by force
  have "flags_ok (replay_step decode msg faults s)"
    using moved [of Consuming] handled_flags [OF f True h] by (cases r) (simp_all add: replay_step_def h)
  moreover have "flags_ok (consume_step decode msg faults s)"
    using moved [of Draining] f take_one_flags [OF f True] by (simp add: consume_step_def split: list.split)
  moreover have "flags_ok (drain_step decode msg faults s)"
    using moved take_one_flags [OF f True] by (simp add: drain_step_def split: list.split)
  ultimately show ?thesis
    using True f by (cases "s_phase s") (simp_all add: work_step_def)
next
  case False
  have "flags_ok (flush_step decode msg faults s)" if p: "s_phase s = Flushing"
  proof (cases "s_pending s")
    case Nil
    then show ?thesis using f p by (simp add: flush_step_def flags_ok_def broker_phase_def db_phase_def)
  next
    case (Cons item rest)
    obtain r s' where h: "handle_in decode msg faults item s = (r, s')" by force
    show ?thesis using Cons f p handle_in_fields [OF h]
      by (cases r) (simp_all add: flush_step_def h flags_ok_def broker_phase_def db_phase_def drop_pending_def)
  qed
  then show ?thesis using f False by (cases "s_phase s") (simp_all add: work_step_def)
qed

lemma service_step_flags:
  assumes f: "flags_ok s"
  shows "flags_ok (service_step decode msg cfg ev s)"
proof (cases ev)
  case (Connect r)
  then show ?thesis using f on_exception_flags
    by (auto simp: connect_db_def connect_broker_def split: phase.splits option.splits)
       (auto simp: flags_ok_def broker_phase_def db_phase_def)
next
  case (Subscribed r)
  then show ?thesis using f
    by (auto simp: subscribe_step_def flags_ok_def broker_phase_def db_phase_def split: option.splits)
next
  case (Closed r)
  have "flags_ok (close_client cause r s)" for cause
    using on_exception_flags by (auto simp: close_client_def split: option.splits)
       (auto simp: flags_ok_def broker_phase_def db_phase_def disconnect_def)
  then show ?thesis using Closed f by (simp split: phase.split)
next
  case BrokerLost
  then show ?thesis using f serving_flags [OF f] by (auto intro!: raise_inside_flags)
qed (use f work_step_flags in \<open>auto simp: flags_ok_def broker_phase_def db_phase_def deliver_def backoff_step_def drop_pending_def\<close>)

section \<open>Acknowledged messages\<close>

text \<open>
  An acknowledged message is accounted for: stored, held in memory, given up and known as such, or gone
  with a client for a known reason.
\<close>

definition held :: "'p service \<Rightarrow> 'p item set" where
  "held s = set (s_pending s) \<union> set (s_queue s) \<union> set (s_lost s) \<union> snd ` set (s_window s)"

definition accounted :: "('p \<Rightarrow> decoded) \<Rightarrow> (constraint \<Rightarrow> string) \<Rightarrow> 'p service \<Rightarrow> bool" where
  "accounted decode msg s \<longleftrightarrow> (\<forall>x \<in> set (s_acked s). recorded decode msg (w_tables (s_world s)) x \<or> x \<in> held s)"

definition final_phase :: "phase \<Rightarrow> bool" where
  "final_phase p \<longleftrightarrow> p = Stopped \<or> (\<exists>e. p = Crashed e)"

text \<open>
  Where the buffer stands to the messages out of reach: while the loop serves the buffer none is out of
  reach; while subscribing and closing they are the buffer.
\<close>

definition loop_shape :: "'p service \<Rightarrow> bool" where
  "loop_shape s \<longleftrightarrow>
     (s_phase s = Consuming \<longrightarrow> s_pending s = [] \<or> s_stop s) \<and>
     (\<not> client_up (s_phase s) \<longrightarrow> s_queue s = []) \<and>
     (if serving (s_phase s) then s_exposed s = [] else s_queue s = map snd (s_exposed s)) \<and>
     (s_lost s \<noteq> [] \<longrightarrow> final_phase (s_phase s))"

text \<open>
  An orderly event: the database driver does not raise the MQTT library's exception, and the
  drain does not start on a message while \<open>pending\<close> still holds an earlier one.
\<close>

fun orderly :: "'p event \<Rightarrow> 'p service \<Rightarrow> bool" where
  "orderly (Work faults) s \<longleftrightarrow>
     MqttError \<notin> fault_excs faults \<and> (s_phase s = Draining \<and> s_queue s \<noteq> [] \<longrightarrow> s_pending s = [])"
| "orderly ev s \<longleftrightarrow> True"

lemma held_disconnect: "s_queue s = map snd (s_exposed s) \<Longrightarrow> held (disconnect s) = held s"
  by (force simp: held_def disconnect_def)

lemma held_on_exception: "s_queue s = map snd (s_exposed s) \<Longrightarrow> held (on_exception e s) = held s"
  by (force simp: held_def loop_defs)

lemma held_raise_inside [simp]: "held (raise_inside e s) = held s"
  by (auto simp: held_def loop_defs)

lemma accounted_mono:
  assumes "accounted decode msg s" and "s_acked s' = s_acked s"
    and "grows (w_tables (s_world s)) (w_tables (s_world s'))"
    and "\<And>x. x \<in> held s \<Longrightarrow> x \<in> held s' \<or> recorded decode msg (w_tables (s_world s')) x"
  shows "accounted decode msg s'"
  using assms recorded_grows unfolding accounted_def by metis

lemma on_exception_accounted:
  "accounted decode msg s \<Longrightarrow> s_queue s = map snd (s_exposed s) \<Longrightarrow> accounted decode msg (on_exception e s)"
  by (erule accounted_mono) (simp_all add: held_on_exception)

lemma raise_inside_accounted: "accounted decode msg s \<Longrightarrow> accounted decode msg (raise_inside e s)"
  by (erule accounted_mono) simp_all

text \<open>The handled head of \<open>pending\<close> may be popped; this is the only way a message leaves memory.\<close>

lemma pop_accounted:
  assumes h: "handle_in decode msg faults item s = (Inr u, s')" and a: "accounted decode msg s"
    and hd: "s_pending s = item # rest"
  shows "accounted decode msg (s'\<lparr>s_pending := tl (s_pending s')\<rparr>)"
proof (rule accounted_mono [OF a])
  note f = handle_in_fields [OF h]
  show "s_acked (s'\<lparr>s_pending := tl (s_pending s')\<rparr>) = s_acked s" using f by simp
  show "grows (w_tables (s_world s)) (w_tables (s_world (s'\<lparr>s_pending := tl (s_pending s')\<rparr>)))"
    using handle_in_world(1) [OF h] by simp
  show "x \<in> held (s'\<lparr>s_pending := tl (s_pending s')\<rparr>) \<or>
      recorded decode msg (w_tables (s_world (s'\<lparr>s_pending := tl (s_pending s')\<rparr>))) x" if "x \<in> held s" for x
    using that f hd handle_in_world(4) [OF h] by (auto simp: held_def)
qed

lemma raise_accounted:
  assumes h: "handle_in decode msg faults item s = (Inl e, s')" and a: "accounted decode msg s"
  shows "accounted decode msg s'"
  by (rule accounted_mono [OF a]) (use handle_in_fields [OF h] handle_in_world(1) [OF h] in \<open>auto simp: held_def\<close>)

lemma take_one_accounted:
  assumes a: "accounted decode msg s" and q: "s_queue s = item # rest" and p: "s_pending s = []"
  shows "accounted decode msg (take_one decode msg faults item rest s)"
proof -
  let ?s = "s\<lparr>s_queue := rest, s_pending := s_pending s @ [item]\<rparr>"
  have a': "accounted decode msg ?s" by (rule accounted_mono [OF a]) (use q in \<open>auto simp: held_def\<close>)
  obtain r s' where h: "handle_in decode msg faults item ?s = (r, s')" by force
  show ?thesis
  proof (cases r)
    case (Inl e)
    then show ?thesis using h raise_inside_accounted [OF raise_accounted [OF h [unfolded Inl] a']]
      by (simp add: take_one_def)
  next
    case (Inr u)
    then show ?thesis using h pop_accounted [OF _ a', of faults item u s' "[]"] p by (simp add: take_one_def)
  qed
qed

lemma work_step_accounted:
  assumes a: "accounted decode msg s" and sh: "loop_shape s" and ok: "orderly (Work faults) s"
  shows "accounted decode msg (work_step decode msg faults s)"
proof (cases "s_phase s")
  case Replaying
  show ?thesis
  proof (cases "s_pending s \<noteq> [] \<and> \<not> s_stop s")
    case True
    then obtain item rest where p: "s_pending s = item # rest" by (cases "s_pending s") auto
    obtain r s' where h: "handle_in decode msg faults item s = (r, s')" by force
    show ?thesis
    proof (cases r)
      case (Inl e)
      then show ?thesis using h p True Replaying raise_inside_accounted [OF raise_accounted [OF h [unfolded Inl] a]]
        by (simp add: work_step_def replay_step_def)
    next
      case (Inr u)
      then show ?thesis using h p True Replaying pop_accounted [OF _ a p, of faults u s']
        by (simp add: work_step_def replay_step_def)
    qed
  next
    case False
    then have "work_step decode msg faults s = s\<lparr>s_phase := Consuming\<rparr>"
      using Replaying by (auto simp: work_step_def replay_step_def)
    then show ?thesis using a by (simp add: accounted_def held_def)
  qed
next
  case Consuming
  then show ?thesis
    using a sh take_one_accounted [OF a]
    by (auto simp: work_step_def consume_step_def loop_shape_def accounted_def [of _ _ "s\<lparr>s_phase := Draining\<rparr>"]
        accounted_def [of _ _ s] held_def split: list.split)
next
  case Draining
  have "accounted decode msg (s\<lparr>s_phase := Closing True None\<rparr>)"
    by (rule accounted_mono [OF a]) (auto simp: held_def)
  then show ?thesis
    using Draining ok take_one_accounted [OF a] by (auto simp: work_step_def drain_step_def split: list.split)
next
  case Flushing
  show ?thesis
  proof (cases "s_pending s")
    case Nil
    then show ?thesis using Flushing a by (simp add: work_step_def flush_step_def accounted_def held_def)
  next
    case (Cons item rest)
    obtain r s' where h: "handle_in decode msg faults item s = (r, s')" by force
    show ?thesis
    proof (cases r)
      case (Inl e)
      have "accounted decode msg (drop_pending s')"
        by (rule accounted_mono [OF raise_accounted [OF h [unfolded Inl] a]]) (auto simp: drop_pending_def held_def)
      then show ?thesis using h Cons Inl Flushing by (simp add: work_step_def flush_step_def)
    next
      case (Inr u)
      then show ?thesis using h Cons Flushing pop_accounted [OF _ a Cons, of faults u s']
        by (simp add: work_step_def flush_step_def)
    qed
  qed
qed (use a in \<open>simp_all add: work_step_def\<close>)

lemma service_step_accounted:
  assumes a: "accounted decode msg s" and sh: "loop_shape s" and ok: "orderly ev s"
  shows "accounted decode msg (service_step decode msg cfg ev s)"
proof (cases ev)
  case (Work faults)
  then show ?thesis using work_step_accounted a sh ok by auto
next
  case (Deliver item)
  then show ?thesis using a by (auto simp: accounted_def held_def deliver_def)
next
  case (Connect r)
  have "s_queue s = map snd (s_exposed s)" if "s_phase s = Disconnected \<or> s_phase s = DbUp"
    using sh that by (auto simp: loop_shape_def)
  then show ?thesis
    using Connect a on_exception_accounted [OF a]
    by (auto simp: connect_db_def connect_broker_def split: phase.splits option.splits)
       (auto simp: accounted_def held_def)
next
  case (Subscribed r)
  then show ?thesis using a by (auto simp: subscribe_step_def accounted_def held_def split: option.splits)
next
  case (Closed r)
  have "accounted decode msg (close_client cause r s)" if "s_phase s = Closing sub cause" for sub cause
  proof -
    have q: "s_queue s = map snd (s_exposed s)" using sh that by (simp add: loop_shape_def)
    have "accounted decode msg ((disconnect s)\<lparr>s_phase := p\<rparr>)" for p
      by (rule accounted_mono [OF a]) (use held_disconnect [OF q] in \<open>simp_all add: held_def disconnect_def\<close>)
    then show ?thesis using on_exception_accounted [OF a q] by (simp add: close_client_def split: option.split)
  qed
  then show ?thesis using Closed a by (simp split: phase.split)
next
  case FlushFails
  have "accounted decode msg (drop_pending s)"
    by (rule accounted_mono [OF a]) (auto simp: drop_pending_def held_def)
  then show ?thesis using FlushFails a by simp
next
  case StopSignal
  then show ?thesis using a by (simp add: accounted_def held_def)
next
  case BackoffOver
  then show ?thesis using a by (simp add: accounted_def held_def backoff_step_def)
next
  case BrokerLost
  then show ?thesis using a raise_inside_accounted [OF a] by simp
qed

end
