(* ===== verification/Ingest_Safety.thy ===== *)
theory Ingest_Safety
  imports Ingest_Laws
begin

text \<open>
  The invariants of \<open>Ingest_Laws\<close> over all reachable states, what can crash the loop, that a stop
  without failures stores everything and ends, and the run in which an acknowledged message
  disappears.
\<close>

section \<open>The shape of the loop state\<close>

lemma on_exception_shape:
  assumes "s_lost s = []"
  shows "loop_shape (on_exception e s)"
  using assms by (auto simp: loop_shape_def loop_defs final_phase_def)

lemma raise_inside_shape:
  assumes "e = MqttError \<longrightarrow> s_queue s = []" and "s_exposed s = []" and "s_lost s = []"
  shows "loop_shape (raise_inside e s)"
  using assms by (auto simp: loop_shape_def loop_defs comp_def)

lemma serving_shape: "loop_shape s \<Longrightarrow> serving (s_phase s) \<Longrightarrow> s_exposed s = [] \<and> s_lost s = []"
  by (auto simp: loop_shape_def final_phase_def)

lemma take_one_shape:
  assumes sh: "loop_shape s" and up: "serving (s_phase s)" and e: "MqttError \<notin> fault_excs faults"
    and la: "latest_aware (s_world s)" and np: "classify decode msg (fst item) (snd item) \<noteq> Inl MqttError"
    and p: "s_phase s = Consuming \<longrightarrow> s_pending s = []"
  shows "loop_shape (take_one decode msg faults item rest s)"
proof -
  let ?s = "s\<lparr>s_queue := rest, s_pending := s_pending s @ [item]\<rparr>"
  obtain r s' where h: "handle_in decode msg faults item ?s = (r, s')" by force
  note f = handle_in_fields [OF h]
  have lost: "s_exposed s' = []" "s_lost s' = []" using serving_shape [OF sh up] f by simp_all
  show ?thesis
  proof (cases r)
    case (Inl x)
    then have "x \<noteq> MqttError" using handle_in_world(5) [OF h, of x] la e np by auto
    then show ?thesis using h Inl raise_inside_shape [of x s'] lost by (simp add: take_one_def)
  next
    case (Inr u)
    then show ?thesis using h f lost up p by (auto simp: take_one_def loop_shape_def client_up_def)
  qed
qed

lemma classify_not_Mqtt: "classify decode msg topic payload \<noteq> Inl MqttError"
  by (simp add: classify_raises_iff)

lemma work_step_shape:
  assumes sh: "loop_shape s" and ok: "orderly (Work faults) s" and la: "latest_aware (s_world s)"
  shows "loop_shape (work_step decode msg faults s)"
proof (cases "s_phase s")
  case Replaying
  show ?thesis
  proof (cases "s_pending s \<noteq> [] \<and> \<not> s_stop s")
    case True
    obtain r s' where h: "handle_in decode msg faults (hd (s_pending s)) s = (r, s')" by force
    note f = handle_in_fields [OF h]
    have lost: "s_exposed s' = []" "s_lost s' = []" using serving_shape [OF sh] Replaying f by simp_all
    show ?thesis
    proof (cases r)
      case (Inl x)
      then have "x \<noteq> MqttError" using handle_in_world(5) [OF h, of x] la ok by (auto simp: classify_not_Mqtt)
      then show ?thesis using h Inl True Replaying raise_inside_shape [of x s'] lost
        by (simp add: work_step_def replay_step_def)
    next
      case (Inr u)
      then show ?thesis using h f lost True Replaying by (simp add: work_step_def replay_step_def loop_shape_def)
    qed
  next
    case False
    then have "work_step decode msg faults s = s\<lparr>s_phase := Consuming\<rparr>"
      using Replaying by (auto simp: work_step_def replay_step_def)
    then show ?thesis using sh False Replaying by (auto simp: loop_shape_def client_up_def final_phase_def)
  qed
next
  case Consuming
  show ?thesis
  proof (cases "s_stop s \<or> s_queue s = []")
    case True
    then show ?thesis using sh Consuming
      by (auto simp: work_step_def consume_step_def loop_shape_def client_up_def final_phase_def)
  next
    case False
    then obtain item rest where "s_queue s = item # rest" by (cases "s_queue s") auto
    moreover have "s_pending s = []" using sh False Consuming by (simp add: loop_shape_def)
    ultimately show ?thesis using False Consuming ok take_one_shape [OF sh _ _ la classify_not_Mqtt]
      by (simp add: work_step_def consume_step_def client_up_def)
  qed
next
  case Draining
  show ?thesis
  proof (cases "s_queue s")
    case Nil
    then show ?thesis using sh Draining
      by (auto simp: work_step_def drain_step_def loop_shape_def final_phase_def)
  next
    case (Cons item rest)
    then show ?thesis using Draining ok take_one_shape [OF sh _ _ la classify_not_Mqtt]
      by (simp add: work_step_def drain_step_def client_up_def)
  qed
next
  case Flushing
  show ?thesis
  proof (cases "s_pending s")
    case Nil
    then show ?thesis using sh Flushing
      by (auto simp: work_step_def flush_step_def loop_shape_def client_up_def final_phase_def)
  next
    case (Cons item rest)
    obtain r s' where h: "handle_in decode msg faults item s = (r, s')" by force
    then show ?thesis using sh Cons Flushing handle_in_fields [OF h]
      by (cases r) (auto simp: work_step_def flush_step_def drop_pending_def loop_shape_def client_up_def final_phase_def)
  qed
qed (use sh in \<open>simp_all add: work_step_def\<close>)

lemma service_step_shape:
  assumes sh: "loop_shape s" and ok: "orderly ev s" and la: "latest_aware (s_world s)"
  shows "loop_shape (service_step decode msg cfg ev s)"
proof (cases ev)
  case (Work faults)
  then show ?thesis using work_step_shape sh ok la by auto
next
  case (Connect r)
  have "s_lost s = []" if "s_phase s = Disconnected \<or> s_phase s = DbUp"
    using sh that by (auto simp: loop_shape_def final_phase_def)
  then show ?thesis
    using Connect sh on_exception_shape [of s]
    by (auto simp: connect_db_def connect_broker_def split: phase.splits option.splits)
       (auto simp: loop_shape_def final_phase_def)
next
  case (Subscribed r)
  then show ?thesis using sh
    by (auto simp: subscribe_step_def loop_shape_def final_phase_def split: option.splits)
next
  case (Closed r)
  have "loop_shape (close_client cause r s)" if p: "s_phase s = Closing sub cause" for sub cause
  proof -
    have l: "s_lost s = []" using sh p by (auto simp: loop_shape_def final_phase_def)
    then show ?thesis using on_exception_shape [OF l]
      by (auto simp: close_client_def disconnect_def split: option.splits) (auto simp: loop_shape_def)
  qed
  then show ?thesis using Closed sh by (simp split: phase.split)
next
  case (Deliver item)
  then show ?thesis using sh
    by (cases "s_phase s") (auto simp: loop_shape_def deliver_def final_phase_def)
next
  case BrokerLost
  then show ?thesis using sh raise_inside_shape [of MqttError s] serving_shape [OF sh] by auto
qed (use sh in \<open>auto simp: loop_shape_def final_phase_def backoff_step_def drop_pending_def\<close>)

lemma reach_accounted:
  assumes "reach decode msg cfg orderly t s" and "registry_covers t"
  shows "accounted decode msg s \<and> loop_shape s"
  using assms(1)
proof (induction rule: reach.induct)
  case start
  then show ?case by (simp add: start_service_def accounted_def loop_shape_def)
next
  case (step s ev)
  have "latest_aware (s_world s)" using reach_world [OF step.hyps(1) assms(2)] by blast
  then show ?case using step service_step_accounted service_step_shape by blast
qed

lemma reach_flags:
  assumes "reach decode msg cfg ok t s"
  shows "flags_ok s"
  using assms
proof (induction rule: reach.induct)
  case start
  then show ?case by (simp add: start_service_def flags_ok_def broker_phase_def db_phase_def)
qed (rule service_step_flags)

section \<open>What can crash the loop\<close>

text \<open>
  An exception is \<open>raised\<close> when it is in flight towards the \<^verbatim>\<open>except\<close> clause or has ended the loop.
\<close>

definition raised :: "py_exc \<Rightarrow> phase \<Rightarrow> bool" where
  "raised e p \<longleftrightarrow> p = Crashed e \<or> (\<exists>sub. p = Closing sub (Some e))"

lemma raised_simps [simp]: "raised e (Closing sub c) \<longleftrightarrow> c = Some e" "raised e (Crashed x) \<longleftrightarrow> x = e"
  "\<not> raised e Disconnected" "\<not> raised e DbUp" "\<not> raised e Subscribing" "\<not> raised e Replaying" "\<not> raised e Consuming"
  "\<not> raised e Draining" "\<not> raised e BackingOff" "\<not> raised e Flushing" "\<not> raised e Stopped"
  by (auto simp: raised_def)

definition raise_cause ::
  "('p \<Rightarrow> decoded) \<Rightarrow> (constraint \<Rightarrow> string) \<Rightarrow> 'p event \<Rightarrow> 'p service \<Rightarrow> py_exc \<Rightarrow> bool" where
  "raise_cause decode msg ev s e \<longleftrightarrow>
     (\<exists>item \<in> set (s_pending s) \<union> set (s_queue s). classify decode msg (fst item) (snd item) = Inl e) \<or>
     (\<exists>faults. ev = Work faults \<and> e \<in> fault_excs faults) \<or>
     ev \<in> {Connect (Some e), Subscribed (Some e), Closed (Some e)} \<or> ev = BrokerLost \<and> e = MqttError"

lemma on_exception_raised:
  "raised e (s_phase (on_exception x s)) \<Longrightarrow> x = e \<and> e \<noteq> OperationalError \<and> e \<noteq> MqttError"
  by (auto simp: loop_defs split: if_splits)

lemma handled_raised:
  assumes h: "handle_in decode msg faults item s = (r, s')" and la: "latest_aware (s_world s)"
    and c: "(case r of Inl x \<Rightarrow> raised e (s_phase (raise_inside x s')) | Inr _ \<Rightarrow> raised e (s_phase s'))"
    and p: "\<not> raised e (s_phase s)"
  shows "classify decode msg (fst item) (snd item) = Inl e \<or> e \<in> fault_excs faults"
proof (cases r)
  case (Inl x)
  then show ?thesis using handle_in_world(5) [OF h, of e] la c by simp
qed (use c p handle_in_fields [OF h] in simp)

lemma take_one_raised:
  assumes c: "raised e (s_phase (take_one decode msg faults item rest s))" and la: "latest_aware (s_world s)"
    and p: "\<not> raised e (s_phase s)"
  shows "classify decode msg (fst item) (snd item) = Inl e \<or> e \<in> fault_excs faults"
proof -
  let ?s = "s\<lparr>s_queue := rest, s_pending := s_pending s @ [item]\<rparr>"
  obtain r s' where h: "handle_in decode msg faults item ?s = (r, s')" by force
  show ?thesis
    by (rule handled_raised [OF h]) (use c la p h in \<open>auto simp: take_one_def split: sum.splits\<close>)
qed

lemma work_step_raised:
  assumes c: "raised e (s_phase (work_step decode msg faults s))" and la: "latest_aware (s_world s)"
    and p: "\<not> raised e (s_phase s)"
  shows "(\<exists>item \<in> set (s_pending s) \<union> set (s_queue s). classify decode msg (fst item) (snd item) = Inl e) \<or>
     e \<in> fault_excs faults"
proof (cases "s_phase s")
  case Replaying
  then have ne: "s_pending s \<noteq> [] \<and> \<not> s_stop s"
    using c by (auto simp: work_step_def replay_step_def split: if_splits)
  obtain r s' where h: "handle_in decode msg faults (hd (s_pending s)) s = (r, s')" by force
  have "classify decode msg (fst (hd (s_pending s))) (snd (hd (s_pending s))) = Inl e \<or> e \<in> fault_excs faults"
    by (rule handled_raised [OF h la _ p])
       (use c ne h Replaying in \<open>auto simp: work_step_def replay_step_def split: sum.splits\<close>)
  moreover have "hd (s_pending s) \<in> set (s_pending s)" using ne by simp
  ultimately show ?thesis by blast
next
  case Consuming
  then obtain item rest where q: "s_queue s = item # rest"
    and "raised e (s_phase (take_one decode msg faults item rest s))"
    using c by (auto simp: work_step_def consume_step_def split: if_splits list.splits)
  from take_one_raised [OF this(2) la p] show ?thesis using q by auto
next
  case Draining
  then obtain item rest where q: "s_queue s = item # rest"
    and "raised e (s_phase (take_one decode msg faults item rest s))"
    using c by (auto simp: work_step_def drain_step_def split: list.splits)
  from take_one_raised [OF this(2) la p] show ?thesis using q by auto
next
  case Flushing
  then show ?thesis using c
    by (auto simp: work_step_def flush_step_def drop_pending_def dest!: handle_in_fields
        split: list.splits prod.splits sum.splits)
qed (use c p in \<open>simp_all add: work_step_def\<close>)

lemma close_client_raised:
  assumes "raised e (s_phase (close_client cause r s))" and "cause \<noteq> Some e"
  shows "r = Some e \<and> e \<noteq> OperationalError \<and> e \<noteq> MqttError"
  using assms by (auto simp: close_client_def dest!: on_exception_raised split: option.splits if_splits)

lemma service_step_raised:
  assumes c: "raised e (s_phase (service_step decode msg cfg ev s))" and la: "latest_aware (s_world s)"
    and p: "\<not> raised e (s_phase s)"
  shows "raise_cause decode msg ev s e"
proof (cases ev)
  case (Work faults)
  then show ?thesis using work_step_raised [of e decode msg faults s] c la p by (auto simp: raise_cause_def)
next
  case (Connect r)
  then show ?thesis using c p
    by (auto simp: raise_cause_def connect_db_def connect_broker_def dest!: on_exception_raised
        split: phase.splits option.splits if_splits)
next
  case (Subscribed r)
  then show ?thesis using c p by (auto simp: raise_cause_def subscribe_step_def split: option.splits if_splits)
next
  case (Closed r)
  then show ?thesis using c p close_client_raised
    by (auto simp: raise_cause_def split: phase.splits) blast+
qed (use c p in \<open>auto simp: raise_cause_def backoff_step_def drop_pending_def deliver_def split: if_splits\<close>)

text \<open>The loop ends in a crash only on what is in flight, or on a failed connection attempt.\<close>

lemma service_step_crash:
  assumes c: "s_phase (service_step decode msg cfg ev s) = Crashed e" and p: "s_phase s \<noteq> Crashed e"
  shows "e \<noteq> OperationalError \<and> e \<noteq> MqttError \<and>
    (ev = Connect (Some e) \<or> ev = Closed (Some e) \<or> ev = Closed None \<and> raised e (s_phase s))"
proof -
  have on: "x = e \<and> e \<noteq> OperationalError \<and> e \<noteq> MqttError" if "s_phase (on_exception x s) = Crashed e" for x
    using on_exception_raised [of e x s] that by simp
  show ?thesis
  proof (cases ev)
    case (Work faults)
    have "s_phase (take_one decode msg faults item rest s) \<noteq> Crashed e" if "s_phase s \<noteq> Crashed e" for item rest
      using that by (auto simp: take_one_def dest!: handle_in_fields split: prod.splits sum.splits)
    then have "s_phase (work_step decode msg faults s) \<noteq> Crashed e" using p
      by (auto simp: work_step_def replay_step_def consume_step_def drain_step_def flush_step_def drop_pending_def
          dest!: handle_in_fields split: phase.splits list.splits prod.splits sum.splits if_splits)
    then show ?thesis using Work c by simp
  next
    case (Connect r)
    then show ?thesis using c p on
      by (auto simp: connect_db_def connect_broker_def split: phase.splits option.splits if_splits)
  next
    case (Subscribed r)
    then show ?thesis using c p by (auto simp: subscribe_step_def split: option.splits if_splits)
  next
    case (Closed r)
    then show ?thesis using c p on
      by (auto simp: close_client_def split: phase.splits option.splits if_splits)
  qed (use c p in \<open>auto simp: backoff_step_def drop_pending_def deliver_def split: if_splits\<close>)
qed

section \<open>Progress without failures\<close>

definition clean_item :: "('p \<Rightarrow> decoded) \<Rightarrow> (constraint \<Rightarrow> string) \<Rightarrow> 'p item \<Rightarrow> bool" where
  "clean_item decode msg item \<longleftrightarrow> (\<exists>out. classify decode msg (fst item) (snd item) = Inr out)"

lemma handle_in_works:
  assumes "latest_aware (s_world s)" and "clean_item decode msg item"
  shows "\<exists>s'. handle_in decode msg [] item s = (Inr (), s')"
proof -
  obtain r s' where h: "handle_in decode msg [] item s = (r, s')" by force
  show ?thesis
  proof (cases r)
    case (Inl e)
    then show ?thesis using handle_in_world(5) [OF h Inl assms(1)] assms(2)
      by (auto simp: clean_item_def fault_excs_def)
  qed (use h in simp)
qed

text \<open>What a failure-free stretch of work leaves alone, and what it only adds to.\<close>

definition calm :: "'p service \<Rightarrow> 'p service \<Rightarrow> bool" where
  "calm s s' \<longleftrightarrow> grows (w_tables (s_world s)) (w_tables (s_world s')) \<and> latest_aware (s_world s') \<and>
     s_acked s' = s_acked s \<and> s_lost s' = s_lost s \<and> s_stop s' = s_stop s \<and>
     s_exposed s' = s_exposed s \<and> s_window s' = s_window s"

lemma calm_trans: "calm a b \<Longrightarrow> calm b c \<Longrightarrow> calm a c"
  unfolding calm_def using grows_trans by metis

lemma take_one_works:
  assumes la: "latest_aware (s_world s)" and cl: "clean_item decode msg item" and p: "s_pending s = []"
    and q: "s_queue s = item # rest"
  shows "\<exists>s'. take_one decode msg [] item rest s = s' \<and> calm s s' \<and> s_phase s' = s_phase s \<and> s_pending s' = [] \<and>
      s_queue s' = rest \<and> recorded decode msg (w_tables (s_world s')) item"
proof -
  let ?s = "s\<lparr>s_queue := rest, s_pending := s_pending s @ [item]\<rparr>"
  obtain s' where h: "handle_in decode msg [] item ?s = (Inr (), s')"
    using handle_in_works [of ?s decode msg item] la cl by auto
  note f = handle_in_fields [OF h] and w = handle_in_world [OF h]
  have t: "take_one decode msg [] item rest s = s'\<lparr>s_pending := tl (s_pending s')\<rparr>" using h by (simp add: take_one_def)
  show ?thesis using f w(1,3,4) la p by (auto simp: t calm_def)
qed

lemma drain_all:
  assumes "s_phase s = Draining" and "s_pending s = []" and "latest_aware (s_world s)"
    and "\<forall>item \<in> set (s_queue s). clean_item decode msg item"
  shows "\<exists>s'. run_events decode msg cfg (replicate (length (s_queue s)) (Work [])) s = s' \<and> calm s s' \<and>
      s_phase s' = Draining \<and> s_pending s' = [] \<and> s_queue s' = [] \<and>
      (\<forall>item \<in> set (s_queue s). recorded decode msg (w_tables (s_world s')) item)"
  using assms
proof (induction "s_queue s" arbitrary: s)
  case Nil
  then show ?case by (simp add: run_events_def calm_def)
next
  case (Cons item rest)
  have st: "service_step decode msg cfg (Work []) s = take_one decode msg [] item rest s"
    using Cons.prems(1) Cons.hyps(2) by (auto simp: work_step_def drain_step_def split: list.splits)
  obtain s1 where s1: "take_one decode msg [] item rest s = s1" "calm s s1" "s_phase s1 = s_phase s"
    "s_pending s1 = []" "s_queue s1 = rest" "recorded decode msg (w_tables (s_world s1)) item"
    using take_one_works [OF Cons.prems(3) _ Cons.prems(2) Cons.hyps(2) [symmetric]] Cons.prems(4) Cons.hyps(2)
    by (metis list.set_intros(1))
  have "latest_aware (s_world s1)" using s1(2) by (simp add: calm_def)
  then obtain s2 where s2: "run_events decode msg cfg (replicate (length rest) (Work [])) s1 = s2" "calm s1 s2"
    "s_phase s2 = Draining" "s_pending s2 = []" "s_queue s2 = []"
    "\<forall>item \<in> set rest. recorded decode msg (w_tables (s_world s2)) item"
    using Cons.hyps(1) [of s1] s1 Cons.prems(1,4) Cons.hyps(2) by (metis list.set_intros(2))
  have "run_events decode msg cfg (replicate (length (s_queue s)) (Work [])) s = s2"
    using st s1(1) s2(1) Cons.hyps(2) [symmetric] by (simp add: run_events_def)
  moreover have "recorded decode msg (w_tables (s_world s2)) item"
    using s1(6) s2(2) recorded_grows unfolding calm_def by blast
  ultimately show ?case
    using s2 calm_trans [OF s1(2) s2(2)] Cons.hyps(2) [symmetric] by simp
qed

lemma run_events_append:
  "run_events decode msg cfg (xs @ ys) s = run_events decode msg cfg ys (run_events decode msg cfg xs s)"
  by (simp add: run_events_def)

lemma stop_drains:
  assumes ph: "s_phase s = Consuming" and p: "s_pending s = []" and la: "latest_aware (s_world s)"
    and cl: "\<forall>item \<in> set (s_queue s). clean_item decode msg item" and r: "r = None \<or> r = Some MqttError"
  shows "\<exists>s'. run_events decode msg cfg (StopSignal # replicate (length (s_queue s) + 2) (Work []) @ [Closed r, Work []]) s = s' \<and>
      s_phase s' = Stopped \<and> s_pending s' = [] \<and> s_queue s' = [] \<and> s_lost s' = s_lost s \<and>
      s_window s' = s_window s @ s_exposed s \<and> s_acked s' = s_acked s \<and>
      grows (w_tables (s_world s)) (w_tables (s_world s')) \<and>
      (\<forall>item \<in> set (s_queue s). recorded decode msg (w_tables (s_world s')) item)"
proof -
  let ?d = "s\<lparr>s_stop := True, s_phase := Draining\<rparr>"
  obtain s1 where s1: "run_events decode msg cfg (replicate (length (s_queue s)) (Work [])) ?d = s1" "calm ?d s1"
    "s_phase s1 = Draining" "s_pending s1 = []" "s_queue s1 = []"
    "\<forall>item \<in> set (s_queue s). recorded decode msg (w_tables (s_world s1)) item"
    using drain_all [of ?d decode msg cfg] p la cl by auto
  have evs: "StopSignal # replicate (length (s_queue s) + 2) (Work []) @ [Closed r, Work []] =
      [StopSignal, Work []] @ replicate (length (s_queue s)) (Work []) @ [Work [], Closed r, Work []]"
    by (simp add: numeral_2_eq_2 replicate_append_same [symmetric])
  have first: "run_events decode msg cfg [StopSignal, Work []] s = ?d"
    using ph by (simp add: run_events_def work_step_def consume_step_def)
  define s2 where "s2 = (disconnect s1)\<lparr>s_phase := Stopped\<rparr>"
  have st: "s_stop s1" using s1(2) by (simp add: calm_def)
  have "run_events decode msg cfg [Work [], Closed r, Work []] s1 = s2"
    using s1 r st by (auto simp: run_events_def work_step_def drain_step_def flush_step_def s2_def close_client_def
        on_exception_def reconnect_def disconnect_def)
  then have "run_events decode msg cfg (StopSignal # replicate (length (s_queue s) + 2) (Work []) @ [Closed r, Work []]) s = s2"
    unfolding evs run_events_append first s1(1) .
  then show ?thesis using s1 by (auto simp: s2_def disconnect_def calm_def)
qed

text \<open>The replay of \<open>pending\<close> after a reconnect, with no stop in sight.\<close>

lemma replay_all:
  assumes "s_phase s = Replaying" and "\<not> s_stop s" and "latest_aware (s_world s)"
    and "\<forall>item \<in> set (s_pending s). clean_item decode msg item"
  shows "\<exists>s'. run_events decode msg cfg (replicate (length (s_pending s) + 1) (Work [])) s = s' \<and> calm s s' \<and>
      s_phase s' = Consuming \<and> s_pending s' = [] \<and> s_queue s' = s_queue s \<and>
      (\<forall>item \<in> set (s_pending s). recorded decode msg (w_tables (s_world s')) item)"
  using assms
proof (induction "s_pending s" arbitrary: s)
  case Nil
  then show ?case by (simp add: run_events_def calm_def work_step_def replay_step_def)
next
  case (Cons item rest)
  note p = Cons.hyps(2) [symmetric]
  obtain s1 where h: "handle_in decode msg [] item s = (Inr (), s1)"
    using handle_in_works [OF Cons.prems(3), of decode msg item] Cons.prems(4) p by auto
  note f = handle_in_fields [OF h] and w = handle_in_world [OF h]
  define s2 where "s2 = s1\<lparr>s_pending := rest\<rparr>"
  have st: "service_step decode msg cfg (Work []) s = s2"
    using Cons.prems(1,2) p h f by (simp add: work_step_def replay_step_def s2_def)
  have c: "calm s s2" using f w(1,3) Cons.prems(3) by (simp add: calm_def s2_def)
  have "s_phase s2 = Replaying" "\<not> s_stop s2" "rest = s_pending s2" "s_queue s2 = s_queue s"
    using f Cons.prems(1,2) by (simp_all add: s2_def)
  moreover from c have "latest_aware (s_world s2)" by (simp add: calm_def)
  ultimately obtain s3 where s3: "run_events decode msg cfg (replicate (length rest + 1) (Work [])) s2 = s3" "calm s2 s3"
    "s_phase s3 = Consuming" "s_pending s3 = []" "s_queue s3 = s_queue s"
    "\<forall>item \<in> set rest. recorded decode msg (w_tables (s_world s3)) item"
    using Cons.hyps(1) [of s2] Cons.prems(4) p by (metis list.set_intros(2))
  have "run_events decode msg cfg (replicate (length (s_pending s) + 1) (Work [])) s = s3"
    using st s3(1) p by (simp add: run_events_def)
  moreover have "recorded decode msg (w_tables (s_world s2)) item" using w(4) by (simp add: s2_def)
  then have "recorded decode msg (w_tables (s_world s3)) item"
    using s3(2) recorded_grows unfolding calm_def by blast
  ultimately show ?case using s3 calm_trans [OF c s3(2)] p by simp
qed

section \<open>The interrupted replay\<close>

lemma handle_in_tables:
  assumes la: "latest_aware (s_world s)" and c: "classify decode msg (fst item) (snd item) = Inr out"
  shows "\<exists>s'. handle_in decode msg [] item s = (Inr (), s') \<and> latest_aware (s_world s') \<and>
    w_tables (s_world s') = apply_outcome out (w_tables (s_world s))"
proof -
  let ?w = "(s_world s)\<lparr>w_faults := []\<rparr>"
  obtain w' where "handle_one decode msg item ?w = (Inr (), w')" "latest_aware w'"
    "w_tables w' = apply_outcome out (w_tables ?w)"
    using handle_one_works [OF _ _ c, of ?w] la by (auto simp: latest_aware_def)
  then show ?thesis by (simp add: handle_in_def)
qed

lemma handle_in_link_down:
  assumes la: "latest_aware (s_world s)" and c: "classify decode msg (fst item) (snd item) = Inr out"
  shows "\<exists>s'. handle_in decode msg [FailsBefore OperationalError] item s = (Inl OperationalError, s') \<and>
    latest_aware (s_world s') \<and> w_tables (s_world s') = w_tables (s_world s)"
proof -
  let ?w = "(s_world s)\<lparr>w_faults := [FailsBefore OperationalError]\<rparr>"
  have la': "latest_aware ?w" using la by (simp add: latest_aware_def)
  have "\<exists>w'. handle_one decode msg item ?w = (Inl OperationalError, w') \<and> w_tables w' = w_tables ?w"
  proof (cases out)
    case (ValidReading r)
    then have "is_aware (measured_at r)"
      using classify_valid_ok [of decode msg "fst item" "snd item" r] c by (auto simp: telemetry_ok_def)
    then obtain w1 where n: "note_arrival r ?w = (Inr (), w1)"
      using note_arrival_aware [OF _ la'] by (metis prod.collapse)
    then have "w_faults w1 = [FailsBefore OperationalError]" "w_tables w1 = w_tables ?w"
      using note_arrival_effect [OF n] by simp_all
    then show ?thesis using n c ValidReading
      by (simp add: handle_one_def andthen_def write_reading_def run_stmt_def execute_def)
  next
    case (DeadLetter tp p why)
    then show ?thesis using c
      by (simp add: handle_one_def write_dead_letter_def andthen_def run_stmt_def execute_def)
  qed
  then show ?thesis using handle_one_latest [OF la', of decode msg item] by (auto simp: handle_in_def)
qed

text \<open>
  \<open>a\<close> is being written when the database link drops; it is kept in \<open>pending\<close>. While the loop
  reconnects, a stop arrives, and the broker hands over \<open>c\<close>. The replay loop sees the stop and
  leaves \<open>a\<close> in \<open>pending\<close>; the drain appends \<open>c\<close> behind it, writes \<open>c\<close>, and pops \<open>a\<close>.
\<close>

definition interrupted_replay :: "'p item \<Rightarrow> 'p item \<Rightarrow> 'p event list" where
  "interrupted_replay a c =
     [Connect None, Connect None, Subscribed None, Work [], Deliver a, Work [FailsBefore OperationalError], Closed None,
      BackoffOver, Connect None, StopSignal, Connect None, Subscribed None, Deliver c, Work [], Work [], Work [], Work [],
      Closed None, Work [], Work []]"

lemma interrupted_replay_run:
  assumes a: "classify decode msg (fst a) (snd a) = Inr oa" and c: "classify decode msg (fst c) (snd c) = Inr oc"
  shows "\<exists>s. run_events decode msg cfg (interrupted_replay a c) (start_service cfg t) = s \<and>
    s_phase s = Stopped \<and> s_acked s = [a, c] \<and> s_pending s = [] \<and> s_queue s = [] \<and> s_lost s = [] \<and> s_window s = [] \<and>
    w_tables (s_world s) = apply_outcome oc (apply_outcome oc t)"
proof -
  note st = run_events_def work_step_def consume_step_def take_one_def replay_step_def drain_step_def
    flush_step_def loop_defs
  define s0 where "s0 = (start_service cfg t)\<lparr>s_phase := Consuming, db_connected := True, broker_connected := True,
    s_queue := [], s_acked := [a], s_pending := [a]\<rparr>"
  have la0: "latest_aware (s_world s0)" by (simp add: s0_def start_service_def latest_aware_def)
  obtain s1 where h1: "handle_in decode msg [FailsBefore OperationalError] a s0 = (Inl OperationalError, s1)"
    "latest_aware (s_world s1)" "w_tables (s_world s1) = t"
    using handle_in_link_down [OF la0 a] by (auto simp: s0_def start_service_def)
  note f1 = handle_in_fields [OF h1(1)]
  let ?e1 = "close_client (Some OperationalError) None (raise_inside OperationalError s1)"
  define s2 where "s2 = ?e1\<lparr>s_phase := Draining, s_stop := True,
    s_backoff := reconnect_initial_seconds cfg, db_connected := True, broker_connected := True,
    s_queue := [], s_acked := [a, c], s_pending := [a, c]\<rparr>"
  have la2: "latest_aware (s_world s2)" using h1(2) by (simp add: s2_def)
  obtain s3 where h3: "handle_in decode msg [] c s2 = (Inr (), s3)" "latest_aware (s_world s3)"
    "w_tables (s_world s3) = apply_outcome oc t"
    using handle_in_tables [OF la2 c] h1(3) by (auto simp: s2_def)
  note f3 = handle_in_fields [OF h3(1)]
  define s4 where "s4 = (disconnect s3)\<lparr>s_stop := True, s_phase := Flushing, s_pending := [c]\<rparr>"
  have la4: "latest_aware (s_world s4)" using h3(2) by (simp add: s4_def disconnect_def)
  obtain s5 where h5: "handle_in decode msg [] c s4 = (Inr (), s5)"
    "w_tables (s_world s5) = apply_outcome oc (apply_outcome oc t)"
    using handle_in_tables [OF la4 c] h3(3) by (auto simp: s4_def disconnect_def)
  note f5 = handle_in_fields [OF h5(1)]
  have evs: "interrupted_replay a c =
    [Connect None, Connect None, Subscribed None, Work [], Deliver a, Work [FailsBefore OperationalError], Closed None] @
    ([BackoffOver, Connect None, StopSignal, Connect None, Subscribed None, Deliver c, Work [], Work []] @ [Work []]) @
    [Work [], Closed None] @ [Work [], Work []]"
    by (simp add: interrupted_replay_def)
  have r1: "run_events decode msg cfg [Connect None, Connect None, Subscribed None, Work [], Deliver a,
      Work [FailsBefore OperationalError], Closed None] (start_service cfg t) = ?e1"
    using h1(1) f1 by (simp add: st s0_def start_service_def)
  have r2a: "run_events decode msg cfg [BackoffOver, Connect None, StopSignal, Connect None, Subscribed None, Deliver c, Work [], Work []]
      ?e1 = s2\<lparr>s_pending := [a], s_queue := [c]\<rparr>"
    by (rule service.equality) (use f1 in \<open>simp_all add: st s2_def s0_def start_service_def\<close>)
  have "(s2\<lparr>s_pending := [a], s_queue := [c]\<rparr>)\<lparr>s_queue := [], s_pending := [a] @ [c]\<rparr> = s2"
    by (rule service.equality) (simp_all add: s2_def)
  then have "take_one decode msg [] c [] (s2\<lparr>s_pending := [a], s_queue := [c]\<rparr>) = s3\<lparr>s_pending := [c]\<rparr>"
    using h3(1) f3 by (simp add: take_one_def) (simp add: s2_def)
  then have "run_events decode msg cfg [Work []] (s2\<lparr>s_pending := [a], s_queue := [c]\<rparr>) = s3\<lparr>s_pending := [c]\<rparr>"
    by (simp add: run_events_def work_step_def drain_step_def s2_def)
  then have r2: "run_events decode msg cfg
      ([BackoffOver, Connect None, StopSignal, Connect None, Subscribed None, Deliver c, Work [], Work []] @ [Work []])
      ?e1 = s3\<lparr>s_pending := [c]\<rparr>"
    unfolding run_events_append r2a .
  have r3: "run_events decode msg cfg [Work [], Closed None] (s3\<lparr>s_pending := [c]\<rparr>) = s4"
    using f3 by (simp add: st s4_def s2_def)
  have r4: "run_events decode msg cfg [Work [], Work []] s4 = s5\<lparr>s_pending := [], s_phase := Stopped\<rparr>"
    using h5(1) f5 by (simp add: st s4_def)
  have "run_events decode msg cfg (interrupted_replay a c) (start_service cfg t) = s5\<lparr>s_pending := [], s_phase := Stopped\<rparr>"
    using r1 r2 r3 r4 by (simp only: evs run_events_append)
  then show ?thesis
    using f1 f3 f5 h5(2) by (simp add: s4_def s2_def s0_def start_service_def disconnect_def loop_defs)
qed

lemma interrupted_replay_loses:
  assumes a: "classify decode msg (fst a) (snd a) = Inr (ValidReading ra)"
    and c: "classify decode msg (fst c) (snd c) = Inr (ValidReading rc)"
    and k: "reading_key ra \<noteq> reading_key rc" and t: "t_telemetry t (reading_key ra) = None"
  shows "\<exists>s. run_events decode msg cfg (interrupted_replay a c) (start_service cfg t) = s \<and>
    s_phase s = Stopped \<and> a \<in> set (s_acked s) \<and> \<not> recorded decode msg (w_tables (s_world s)) a \<and> a \<notin> held s"
proof -
  have "t_telemetry (apply_outcome (ValidReading rc) (apply_outcome (ValidReading rc) t)) (reading_key ra) = None"
    using k t by (simp add: store_reading_telemetry split: option.split)
  then show ?thesis
    using interrupted_replay_run [OF a c, of cfg t] a by (auto simp: recorded_def held_def)
qed

section \<open>The failed subscription\<close>

text \<open>
  The backlog of the persistent session arrives while the subscription is awaited. If that raises, the
  client goes with what it had acknowledged: the code that salvages the buffer is not yet entered.
\<close>

definition failed_subscribe :: "'p item \<Rightarrow> 'p event list" where
  "failed_subscribe a = [Connect None, Connect None, Deliver a, Subscribed (Some MqttError), Closed None]"

lemma failed_subscribe_loses:
  "\<exists>s. run_events decode msg cfg (failed_subscribe a) (start_service cfg t) = s \<and> s_phase s = BackingOff \<and>
     s_acked s = [a] \<and> w_tables (s_world s) = t \<and> s_pending s = [] \<and> s_queue s = [] \<and> s_lost s = [] \<and>
     s_window s = [(Unsubscribed, a)]"
  by (simp add: run_events_def failed_subscribe_def start_service_def loop_defs)

end
