(* ===== verification/Ingest_Claims.thy ===== *)
theory Ingest_Claims
  imports Ingest_Safety
begin

text \<open>
  The properties of the contract and of ingestion, each with an application to concrete messages:
  \<open>demo_decode\<close> reads the number \<open>n\<close> as a reading taken at \<open>n\<close> microseconds, and \<open>0\<close> as one whose
  time leaves the range of \<^verbatim>\<open>datetime\<close> when it is converted to UTC.
\<close>

section \<open>Concrete messages\<close>

definition demo_wall :: "nat \<Rightarrow> wall_clock" where
  "demo_wall n = (if n = 0 then \<lparr>wall_us = dt_min, offset_us = us_per_hour\<rparr> else \<lparr>wall_us = int n, offset_us = 0\<rparr>)"

definition demo_decode :: "nat \<Rightarrow> decoded" where
  "demo_decode n = Decoded \<lparr>
     raw_schema_version = Missing, raw_device_id = Good ''pot-1'', raw_measured_at = Good (demo_wall n),
     raw_water_level = Good (Fin 50), raw_battery_voltage = Good (Fin 4)\<rparr>"

definition demo_msg :: "constraint \<Rightarrow> string" where
  "demo_msg c = ''bad''"

definition demo_item :: "nat \<Rightarrow> nat item" where
  "demo_item n = (telemetry_topic ''pot-1'', n)"

definition demo_reading :: "nat \<Rightarrow> telemetry" where
  "demo_reading n = \<lparr>schema_version = 1, device_id = ''pot-1'', measured_at = Aware (int n),
     water_level = Fin 50, battery_voltage = Fin 4\<rparr>"

definition demo_settings :: ingest_settings where
  "demo_settings = \<lparr>reconnect_initial_seconds = Fin 1, reconnect_max_seconds = Fin 30\<rparr>"

lemma demo_in_bounds: "fle (fl (25 / 10)) (Fin 4)" "fle (Fin 4) (fl (44 / 10))"
proof -
  have four: "fl 4 = Fin 4" using fl_representable [of 4] representable_of_int [of 4] by simp
  have "fl (25 / 10) \<le> Fin 4" using fl_mono [of "25 / 10" 4] four by simp
  then show "fle (fl (25 / 10)) (Fin 4)" by (simp add: fle_def)
  have "Fin 4 \<le> fl (44 / 10)" using fl_mono [of 4 "44 / 10"] four by simp
  then show "fle (Fin 4) (fl (44 / 10))" by (simp add: fle_def)
qed

lemma demo_id: "device_id_ok ''pot-1''"
  by (simp add: id_tail_def id_head_def)

lemma demo_classify:
  assumes "0 < n" and "n < 1000"
  shows "classify demo_decode demo_msg (fst (demo_item n)) (snd (demo_item n)) = Inr (ValidReading (demo_reading n))"
proof -
  have "model_validate_json demo_decode demo_msg n = Inr (Inr (demo_reading n))"
    using assms demo_in_bounds demo_id
    by (simp add: model_validate_json_def demo_decode_def demo_wall_def to_utc_def dt_ok_def dt_min_def dt_max_def
        telemetry_errors_def field_error_def in_bounds_def demo_reading_def)
  then show ?thesis by (simp add: classify_valid_iff demo_item_def) (simp add: demo_reading_def)
qed

lemma demo_key: "reading_key (demo_reading n) = (''pot-1'', int n)"
  by (simp add: reading_key_def demo_reading_def)

section \<open>The contract\<close>

text \<open>
  \<^verbatim>\<open>device_id_from_topic\<close> is the inverse of \<^verbatim>\<open>telemetry_topic\<close>, both ways: it answers \<open>d\<close>
  exactly for the topic of \<open>d\<close>, for every non-empty \<open>d\<close> without a slash, and every id that
  passes the device pattern is such a \<open>d\<close>, free of topic metacharacters.
\<close>

theorem topic_round_trip:
  "(device_id_from_topic topic = Some d \<longleftrightarrow> topic = telemetry_topic d \<and> d \<noteq> [] \<and> CHR ''/'' \<notin> set d) \<and>
   (device_id_ok d \<longrightarrow> device_id_from_topic (telemetry_topic d) = Some d \<and> length d \<le> 32 \<and>
      {CHR ''/'', CHR ''+'', CHR ''#'', CHR ''$''} \<inter> set d = {})"
  using device_id_topic_safe [of d] by (auto simp: device_id_from_topic_iff)

theorem topic_round_trip_witness:
  "device_id_ok ''pot-1'' \<and> device_id_from_topic (telemetry_topic ''pot-1'') = Some ''pot-1''"
  using topic_round_trip [of "telemetry_topic ''pot-1''" "''pot-1''"] demo_id by blast

text \<open>
  C17: what a message must be to become a reading, for any JSON decoder: its topic is the one of
  the payload's device and the payload validates. Such a reading satisfies the whole contract
  (version, id pattern, UTC instant in range, both value ranges), and a dead letter keeps the
  topic and the payload bytes unchanged, with a reason.
\<close>

theorem classify_outcome:
  "(classify decode msg topic payload = Inr (ValidReading r) \<longleftrightarrow>
      topic = telemetry_topic (device_id r) \<and> model_validate_json decode msg payload = Inr (Inr r)) \<and>
   (classify decode msg topic payload = Inr (ValidReading r) \<longrightarrow> telemetry_ok r) \<and>
   (classify decode msg topic payload = Inr (DeadLetter t p why) \<longrightarrow> t = topic \<and> p = payload \<and> why \<noteq> [])"
  using classify_valid_iff [of decode msg topic payload r] classify_valid_ok [of decode msg topic payload r]
    classify_dead_letter [of decode msg topic payload t p why] by blast

theorem classify_outcome_witness: "telemetry_ok (demo_reading 7)"
  using classify_outcome [of demo_decode demo_msg "fst (demo_item 7)" "snd (demo_item 7)" "demo_reading 7"]
    demo_classify [of 7] by simp

text \<open>
  C18: the classifier is not total. It raises, always \<open>OverflowError\<close>, exactly for a payload on a
  telemetry topic whose well-formed \<open>measured_at\<close> has no UTC counterpart within years 1 to 9999.
  Nothing between the classifier and \<^verbatim>\<open>run\<close> catches that exception.
\<close>

theorem classify_raises:
  "classify decode msg topic payload = Inl e \<longleftrightarrow>
     e = OverflowError \<and> device_id_from_topic topic \<noteq> None \<and>
     (\<exists>raw w. decode payload = Decoded raw \<and> raw_measured_at raw = Good w \<and> \<not> dt_ok (wall_us w - offset_us w))"
  by (rule classify_raises_iff)

text \<open>
  The idempotency key is stable: two accepted payloads on the same topic that spell one
  instant with different UTC offsets yield the same device and the same \<open>measured_at\<close>.
\<close>

theorem offsets_do_not_matter:
  assumes "classify decode msg topic p = Inr (ValidReading r)"
    and "classify decode msg topic q = Inr (ValidReading s)"
    and "decode p = Decoded a" and "raw_measured_at a = Good u"
    and "decode q = Decoded b" and "raw_measured_at b = Good v"
    and "wall_us u - offset_us u = wall_us v - offset_us v"
  shows "reading_key r = reading_key s"
  using same_instant_same_key [OF assms] by (simp add: reading_key_def)

text \<open>A decoder with two spellings of one instant: \<open>True\<close> in UTC, \<open>False\<close> an hour east.\<close>

definition zone_decode :: "bool \<Rightarrow> decoded" where
  "zone_decode b = Decoded \<lparr>
     raw_schema_version = Missing, raw_device_id = Good ''pot-1'',
     raw_measured_at = Good (if b then \<lparr>wall_us = 7, offset_us = 0\<rparr>
       else \<lparr>wall_us = 7 + us_per_hour, offset_us = us_per_hour\<rparr>),
     raw_water_level = Good (Fin 50), raw_battery_voltage = Good (Fin 4)\<rparr>"

lemma zone_classify: "classify zone_decode demo_msg (telemetry_topic ''pot-1'') b = Inr (ValidReading (demo_reading 7))"
proof -
  have "model_validate_json zone_decode demo_msg b = Inr (Inr (demo_reading 7))"
    using demo_in_bounds demo_id
    by (simp add: model_validate_json_def zone_decode_def to_utc_def dt_ok_def dt_min_def dt_max_def
        telemetry_errors_def field_error_def in_bounds_def demo_reading_def)
  then show ?thesis by (simp add: classify_valid_iff) (simp add: demo_reading_def)
qed

theorem offsets_do_not_matter_witness:
  "\<exists>r s. classify zone_decode demo_msg (telemetry_topic ''pot-1'') True = Inr (ValidReading r) \<and>
     classify zone_decode demo_msg (telemetry_topic ''pot-1'') False = Inr (ValidReading s) \<and>
     reading_key r = reading_key s"
proof -
  have d: "zone_decode b = Decoded (case zone_decode b of Decoded raw \<Rightarrow> raw)"
    "raw_measured_at (case zone_decode b of Decoded raw \<Rightarrow> raw) =
       Good \<lparr>wall_us = (if b then 7 else 7 + us_per_hour), offset_us = (if b then 0 else us_per_hour)\<rparr>" for b
    by (simp_all add: zone_decode_def)
  show ?thesis
    using offsets_do_not_matter [OF zone_classify zone_classify d(1) d(2) d(1) d(2), of True False] zone_classify
    by auto
qed

section \<open>The writer\<close>

text \<open>
  C20: delivery order and redelivery do not matter. Handling the same messages in two orders
  without failures gives the same stored readings and the same device registry, provided two
  readings with one key agree in their values; and handling everything twice changes neither.
\<close>

theorem delivery_order_irrelevant:
  assumes "list_all2 (\<lambda>item out. classify decode msg (fst item) (snd item) = Inr out) items outs"
    and "list_all2 (\<lambda>item out. classify decode msg (fst item) (snd item) = Inr out) items' outs'"
    and "mset outs = mset outs'" and "compatible outs" and "w_faults w = []" and "latest_aware w"
  shows "\<exists>w1 w2 w3. handle_all decode msg items w = (Inr (), w1) \<and> handle_all decode msg items' w = (Inr (), w2) \<and>
    handle_all decode msg (items @ items) w = (Inr (), w3) \<and>
    pipeline_state (w_tables w1) = pipeline_state (w_tables w2) \<and>
    pipeline_state (w_tables w3) = pipeline_state (w_tables w1)"
proof -
  note run = handle_all_pipeline [OF assms(5,6)]
  obtain w1 where w1: "handle_all decode msg items w = (Inr (), w1)"
    "pipeline_state (w_tables w1) = fold pipe_outcome outs (pipeline_state (w_tables w))" using run [OF assms(1)] by blast
  obtain w2 where w2: "handle_all decode msg items' w = (Inr (), w2)"
    "pipeline_state (w_tables w2) = fold pipe_outcome outs' (pipeline_state (w_tables w))" using run [OF assms(2)] by blast
  obtain w3 where w3: "handle_all decode msg (items @ items) w = (Inr (), w3)"
    "pipeline_state (w_tables w3) = fold pipe_outcome (outs @ outs) (pipeline_state (w_tables w))"
    using run [OF list_all2_appendI [OF assms(1) assms(1)]] by blast
  have "fold pipe_outcome (outs @ outs) p = fold pipe_outcome outs p" for p
    by (rule pipe_outcomes_twice [OF assms(4)])
  then show ?thesis using w1 w2 w3 pipe_outcomes_order [OF assms(3,4)] by simp
qed

definition demo_world :: "nat world" where
  "demo_world = \<lparr>w_tables = empty_tables, w_faults = [], w_counters = zero_counters, w_latest = Map.empty\<rparr>"

lemma demo_world_clean: "w_faults demo_world = []" "latest_aware demo_world"
  by (simp_all add: demo_world_def latest_aware_def)

theorem delivery_order_irrelevant_witness:
  "\<exists>w1 w2. handle_all demo_decode demo_msg [demo_item 1, demo_item 2] demo_world = (Inr (), w1) \<and>
     handle_all demo_decode demo_msg [demo_item 2, demo_item 1] demo_world = (Inr (), w2) \<and>
     pipeline_state (w_tables w1) = pipeline_state (w_tables w2)"
proof -
  have c: "list_all2 (\<lambda>item out. classify demo_decode demo_msg (fst item) (snd item) = Inr out)
      [demo_item 1, demo_item 2] [ValidReading (demo_reading 1), ValidReading (demo_reading 2)]"
    "list_all2 (\<lambda>item out. classify demo_decode demo_msg (fst item) (snd item) = Inr out)
      [demo_item 2, demo_item 1] [ValidReading (demo_reading 2), ValidReading (demo_reading 1)]"
    using demo_classify [of 1] demo_classify [of 2] by simp_all
  have m: "mset [ValidReading (demo_reading 1), ValidReading (demo_reading 2)] =
      mset [ValidReading (demo_reading 2), ValidReading (demo_reading 1 :: telemetry) :: nat outcome]" by simp
  have k: "compatible [ValidReading (demo_reading 1), ValidReading (demo_reading 2) :: nat outcome]"
    by (auto simp: compatible_def demo_key reading_row_def demo_reading_def)
  show ?thesis using delivery_order_irrelevant [OF c m k demo_world_clean] by blast
qed

section \<open>The run loop\<close>

text \<open>
  C21: a reading never exists without its device row, and lies between that row's ends, in every
  reachable state of the service: whatever arrives, in whatever order, and wherever a database
  call fails, before or after it took effect.
\<close>

theorem registry_always_covers:
  assumes "reach decode msg cfg (\<lambda>_ _. True) t s" and "registry_covers t"
    and "t_telemetry (w_tables (s_world s)) (d, m) = Some row"
  shows "\<exists>first_seen last_seen. t_devices (w_tables (s_world s)) d = Some (first_seen, last_seen) \<and>
    first_seen \<le> m \<and> m \<le> last_seen"
  using reach_world [OF assms(1,2)] assms(3) by (auto simp: registry_covers_def)

definition ingest_one :: "nat service" where
  "ingest_one = run_events demo_decode demo_msg demo_settings
     [Connect None, Connect None, Subscribed None, Work [], Deliver (demo_item 7), Work []] (start_service demo_settings empty_tables)"

lemma ingest_one_reach: "reach demo_decode demo_msg demo_settings (\<lambda>_ _. True) empty_tables ingest_one"
  unfolding ingest_one_def by (rule run_events_reach) (rule reach.start)

lemma ingest_one_orderly: "reach demo_decode demo_msg demo_settings orderly empty_tables ingest_one"
  unfolding ingest_one_def run_events_def fold.simps comp_def id_apply
  by (intro reach.step reach.start)
     (simp_all add: start_service_def connect_db_def connect_broker_def subscribe_step_def deliver_def work_step_def
       replay_step_def fault_excs_def)

lemma ingest_one_state:
  "\<exists>s. ingest_one = s \<and> s_phase s = Consuming \<and> \<not> s_stop s \<and> s_pending s = [] \<and> s_queue s = [] \<and> s_acked s = [demo_item 7] \<and>
     s_lost s = [] \<and> s_window s = [] \<and> s_exposed s = [] \<and>
     w_tables (s_world s) = apply_outcome (ValidReading (demo_reading 7)) empty_tables"
proof -
  define s0 :: "nat service" where "s0 = (start_service demo_settings empty_tables)\<lparr>s_phase := Consuming, db_connected := True,
    broker_connected := True, s_queue := [], s_acked := [demo_item 7], s_pending := [demo_item 7]\<rparr>"
  have la: "latest_aware (s_world s0)" by (simp add: s0_def start_service_def latest_aware_def)
  obtain s1 where h: "handle_in demo_decode demo_msg [] (demo_item 7) s0 = (Inr (), s1)"
    "w_tables (s_world s1) = apply_outcome (ValidReading (demo_reading 7)) (w_tables (s_world s0))"
    using handle_in_tables [OF la demo_classify [of 7]] by auto
  note f = handle_in_fields [OF h(1)]
  have w: "w_tables (s_world s1) = apply_outcome (ValidReading (demo_reading 7)) empty_tables"
    using h(2) by (simp add: s0_def start_service_def del: apply_outcome.simps)
  have e: "ingest_one = s1\<lparr>s_pending := []\<rparr>"
    using h(1) f by (simp add: ingest_one_def run_events_def work_step_def consume_step_def take_one_def replay_step_def
        connect_db_def connect_broker_def subscribe_step_def deliver_def start_service_def s0_def)
  show ?thesis using f w by (simp add: e s0_def start_service_def del: apply_outcome.simps)
qed

lemma empty_covers: "registry_covers empty_tables"
  by (simp add: registry_covers_def empty_tables_def)

theorem registry_always_covers_witness:
  "\<exists>f l. t_devices (w_tables (s_world ingest_one)) ''pot-1'' = Some (f, l) \<and> f \<le> 7 \<and> 7 \<le> l"
proof -
  have "t_telemetry (w_tables (s_world ingest_one)) (''pot-1'', 7) = Some (reading_row (demo_reading 7))"
    using ingest_one_state demo_key [of 7] by (auto simp: store_reading_telemetry empty_tables_def)
  from registry_always_covers [OF ingest_one_reach empty_covers this] show ?thesis .
qed

text \<open>
  C22: no acknowledged message is lost in orderly runs but in three windows. In every state such a run
  reaches, each message the client acknowledged is stored (as a reading with its device row, or as a dead
  letter), or waits in \<open>pending\<close> or in the buffer, or was given up, or went down with a client because it
  was acknowledged before a subscription that then failed, or while the client was closing, or because
  an exception other than a lost connection left the block while it was in the buffer. Messages are given
  up only by the final flush of a stopped service or by a crash; and no message in the buffer of a client
  that serves the loop is out of the reach of the code.
\<close>

theorem no_acked_message_lost:
  assumes "reach decode msg cfg orderly t s" and "registry_covers t" and "x \<in> set (s_acked s)"
  shows "(recorded decode msg (w_tables (s_world s)) x \<or> x \<in> set (s_pending s) \<or> x \<in> set (s_queue s) \<or>
      x \<in> set (s_lost s) \<or> (\<exists>why \<in> {Unsubscribed, WhileClosing, Unhandled}. (why, x) \<in> set (s_window s))) \<and>
    (s_lost s \<noteq> [] \<longrightarrow> s_phase s = Stopped \<or> (\<exists>e. s_phase s = Crashed e)) \<and>
    (s_phase s \<in> {Replaying, Consuming, Draining} \<longrightarrow> s_exposed s = [])"
proof -
  have "why \<in> {Unsubscribed, WhileClosing, Unhandled}" for why by (cases why) simp_all
  then show ?thesis
    using reach_accounted [OF assms(1,2)] assms(3)
    unfolding accounted_def loop_shape_def held_def final_phase_def serving_def by fastforce
qed

theorem no_acked_message_lost_witness:
  "\<exists>s. reach demo_decode demo_msg demo_settings orderly empty_tables s \<and> demo_item 7 \<in> set (s_acked s) \<and>
     s_phase s = BackingOff \<and> demo_item 8 \<in> set (s_pending s) \<and> s_window s = [] \<and>
     (recorded demo_decode demo_msg (w_tables (s_world s)) (demo_item 7) \<or> demo_item 7 \<in> set (s_pending s))"
proof -
  let ?st = "service_step demo_decode demo_msg demo_settings"
  let ?s1 = "?st (Deliver (demo_item 8)) ingest_one"
  let ?s2 = "?st (Work [FailsBefore OperationalError]) ?s1"
  let ?s = "?st (Closed None) ?s2"
  have r1: "reach demo_decode demo_msg demo_settings orderly empty_tables ?s1"
    by (rule reach.step [OF ingest_one_orderly]) simp
  have s1: "s_phase ?s1 = Consuming" "\<not> s_stop ?s1" "s_pending ?s1 = []" "s_queue ?s1 = [demo_item 8]"
    "s_acked ?s1 = [demo_item 7, demo_item 8]" "s_exposed ?s1 = []" "s_window ?s1 = []" "s_lost ?s1 = []"
    using ingest_one_state by (auto simp: deliver_def)
  have la: "latest_aware (s_world (?s1\<lparr>s_queue := [], s_pending := [] @ [demo_item 8]\<rparr>))"
    using reach_world [OF ingest_one_reach empty_covers] by (simp add: deliver_def)
  have dc: "classify demo_decode demo_msg (fst (demo_item 8)) (snd (demo_item 8)) = Inr (ValidReading (demo_reading 8))"
    by (rule demo_classify) simp_all
  obtain s' where h: "handle_in demo_decode demo_msg [FailsBefore OperationalError] (demo_item 8)
      (?s1\<lparr>s_queue := [], s_pending := [] @ [demo_item 8]\<rparr>) = (Inl OperationalError, s')"
    using handle_in_link_down [OF la dc] by blast
  have e2: "?s2 = raise_inside OperationalError s'"
    using h s1 by (simp add: work_step_def consume_step_def take_one_def del: service_step.simps(2))
  have r: "reach demo_decode demo_msg demo_settings orderly empty_tables ?s"
    by (intro reach.step r1) (simp_all add: s1(1) fault_excs_def del: service_step.simps)
  note f = handle_in_fields [OF h]
  have s: "s_phase ?s = BackingOff" "s_pending ?s = [demo_item 8]" "s_queue ?s = []" "s_window ?s = []" "s_lost ?s = []"
    "demo_item 7 \<in> set (s_acked ?s)"
    unfolding e2 using f s1 by (simp_all add: loop_defs del: service_step.simps(2))
  from no_acked_message_lost [OF r empty_covers s(6)] s
  have "recorded demo_decode demo_msg (w_tables (s_world ?s)) (demo_item 7) \<or> demo_item 7 \<in> set (s_pending ?s)"
    by (simp del: service_step.simps)
  with r s show ?thesis by (metis list.set_intros(1))
qed

text \<open>
  C23: the disorderly run exists, and it loses a message without a trace. A stop that arrives while
  \<open>pending\<close> waits for its replay makes the drain pop the wrong message: the service ends, the
  acknowledged message \<open>a\<close> is neither stored nor in memory nor among the reported losses, and it went
  down with no client.
\<close>

theorem interrupted_replay_loses_message:
  assumes "classify decode msg (fst a) (snd a) = Inr (ValidReading ra)"
    and "classify decode msg (fst c) (snd c) = Inr (ValidReading rc)"
    and "reading_key ra \<noteq> reading_key rc" and "t_telemetry t (reading_key ra) = None"
  shows "\<exists>s. run_events decode msg cfg (interrupted_replay a c) (start_service cfg t) = s \<and>
    s_phase s = Stopped \<and> a \<in> set (s_acked s) \<and> \<not> recorded decode msg (w_tables (s_world s)) a \<and>
    a \<notin> set (s_pending s) \<and> a \<notin> set (s_queue s) \<and> a \<notin> set (s_lost s) \<and> a \<notin> snd ` set (s_window s)"
  using interrupted_replay_loses [OF assms, of cfg] by (auto simp: held_def)

theorem interrupted_replay_loses_message_witness:
  "\<exists>s. run_events demo_decode demo_msg demo_settings (interrupted_replay (demo_item 1) (demo_item 2))
        (start_service demo_settings empty_tables) = s \<and>
     s_phase s = Stopped \<and> demo_item 1 \<in> set (s_acked s) \<and>
     \<not> recorded demo_decode demo_msg (w_tables (s_world s)) (demo_item 1) \<and> demo_item 1 \<notin> set (s_lost s)"
  using interrupted_replay_loses_message [OF demo_classify [of 1] demo_classify [of 2], of empty_tables demo_settings]
  by (auto simp: demo_key empty_tables_def)

text \<open>
  C24: a stop without failures of the database ends and stores everything. From a consuming state, the
  stop signal, the end of the client's disconnect, be it with an MQTT error, and three steps more than
  there are buffered messages lead to \<open>Stopped\<close>, with nothing in memory, nothing newly given up, and every
  buffered message stored.
\<close>

theorem stop_stores_everything:
  assumes "s_phase s = Consuming" and "s_pending s = []" and "latest_aware (s_world s)"
    and "\<forall>item \<in> set (s_queue s). clean_item decode msg item" and "r = None \<or> r = Some MqttError"
  shows "\<exists>s'. run_events decode msg cfg
        (StopSignal # replicate (length (s_queue s) + 2) (Work []) @ [Closed r, Work []]) s = s' \<and>
      s_phase s' = Stopped \<and> s_pending s' = [] \<and> s_queue s' = [] \<and> s_lost s' = s_lost s \<and>
      s_window s' = s_window s @ s_exposed s \<and>
      (\<forall>item \<in> set (s_queue s). recorded decode msg (w_tables (s_world s')) item)"
  using stop_drains [OF assms, of cfg] by blast

theorem stop_stores_everything_witness:
  "\<exists>s'. run_events demo_decode demo_msg demo_settings (StopSignal # replicate 3 (Work []) @ [Closed (Some MqttError), Work []])
        (service_step demo_decode demo_msg demo_settings (Deliver (demo_item 9)) ingest_one) = s' \<and>
     s_phase s' = Stopped \<and> s_window s' = [] \<and> recorded demo_decode demo_msg (w_tables (s_world s')) (demo_item 9)"
proof -
  let ?s = "service_step demo_decode demo_msg demo_settings (Deliver (demo_item 9)) ingest_one"
  have s: "s_phase ?s = Consuming" "s_pending ?s = []" "s_queue ?s = [demo_item 9]" "s_world ?s = s_world ingest_one"
    "s_window ?s = []" "s_exposed ?s = []"
    using ingest_one_state by (auto simp: deliver_def)
  have la: "latest_aware (s_world ?s)" using reach_world [OF ingest_one_reach empty_covers] s(4) by simp
  have "\<forall>item \<in> set (s_queue ?s). clean_item demo_decode demo_msg item"
    using demo_classify [of 9] s(3) by (simp add: clean_item_def)
  from stop_stores_everything [OF s(1,2) la this, of "Some MqttError" demo_settings] show ?thesis
    using s(3,5,6) by (simp add: eval_nat_numeral del: service_step.simps)
qed

text \<open>
  C25: a reconnect replays everything. Without a stop or failures, the messages kept in \<open>pending\<close>
  are stored, in one step each and one more, before consumption resumes with an empty \<open>pending\<close>.
\<close>

theorem replay_stores_pending:
  assumes "s_phase s = Replaying" and "\<not> s_stop s" and "latest_aware (s_world s)"
    and "\<forall>item \<in> set (s_pending s). clean_item decode msg item"
  shows "\<exists>s'. run_events decode msg cfg (replicate (length (s_pending s) + 1) (Work [])) s = s' \<and>
      s_phase s' = Consuming \<and> s_pending s' = [] \<and> s_queue s' = s_queue s \<and> s_lost s' = s_lost s \<and>
      (\<forall>item \<in> set (s_pending s). recorded decode msg (w_tables (s_world s')) item)"
  using replay_all [OF assms, of cfg] by (auto simp: calm_def)

theorem replay_stores_pending_witness:
  "\<exists>s'. run_events demo_decode demo_msg demo_settings (replicate 2 (Work []))
        ((start_service demo_settings empty_tables)\<lparr>s_phase := Replaying, s_pending := [demo_item 3]\<rparr>) = s' \<and>
     s_phase s' = Consuming \<and> recorded demo_decode demo_msg (w_tables (s_world s')) (demo_item 3)"
proof -
  let ?s = "(start_service demo_settings (empty_tables :: nat tables))\<lparr>s_phase := Replaying, s_pending := [demo_item 3]\<rparr>"
  have "latest_aware (s_world ?s)" "\<not> s_stop ?s" by (simp_all add: start_service_def latest_aware_def)
  moreover have "\<forall>item \<in> set (s_pending ?s). clean_item demo_decode demo_msg item"
    using demo_classify [of 3] by (simp add: clean_item_def)
  ultimately show ?thesis using replay_stores_pending [of ?s demo_decode demo_msg demo_settings]
    by (simp add: eval_nat_numeral)
qed

text \<open>
  C26: what crashes the loop. In a run from a reachable state, a step puts an exception \<open>e\<close> in flight or
  ends in a crash with it only if a message in memory makes the classifier raise \<open>e\<close>, or the database, the
  subscription, the disconnect or a connection attempt raised \<open>e\<close>, or waiting for a message found the broker
  gone. A crash with \<open>e\<close> follows at once on a failed connection attempt or a failed disconnect, or on the
  disconnect with \<open>e\<close> in flight; and \<open>e\<close> is then never a lost connection.
\<close>

theorem crash_causes:
  assumes "reach decode msg cfg ok t s" and "registry_covers t"
  shows "(raised e (s_phase (service_step decode msg cfg ev s)) \<and> \<not> raised e (s_phase s) \<longrightarrow>
      (\<exists>item \<in> set (s_pending s) \<union> set (s_queue s). classify decode msg (fst item) (snd item) = Inl e) \<or>
      (\<exists>faults. ev = Work faults \<and> e \<in> fault_excs faults) \<or>
      ev \<in> {Connect (Some e), Subscribed (Some e), Closed (Some e)} \<or> ev = BrokerLost \<and> e = MqttError) \<and>
    (s_phase (service_step decode msg cfg ev s) = Crashed e \<and> s_phase s \<noteq> Crashed e \<longrightarrow>
      e \<noteq> OperationalError \<and> e \<noteq> MqttError \<and>
      (ev = Connect (Some e) \<or> ev = Closed (Some e) \<or> ev = Closed None \<and> raised e (s_phase s)))"
  using service_step_raised [of e decode msg cfg ev s] service_step_crash [of decode msg cfg ev s e] reach_world [OF assms]
  unfolding raise_cause_def by blast

text \<open>The poison message \<open>0\<close> on top of one good message in the buffer.\<close>

lemma poison_classify: "classify demo_decode demo_msg (fst (demo_item 0)) (snd (demo_item 0)) = Inl OverflowError"
proof -
  have "device_id_from_topic (telemetry_topic ''pot-1'') = Some ''pot-1''"
    by (simp add: device_id_from_topic_iff)
  then show ?thesis
    by (auto simp: classify_raises_iff demo_item_def demo_decode_def demo_wall_def dt_ok_def)
qed

theorem crash_causes_witness:
  "\<exists>s s' s''. s = service_step demo_decode demo_msg demo_settings (Deliver (demo_item 8))
          (service_step demo_decode demo_msg demo_settings (Deliver (demo_item 0)) ingest_one) \<and>
     s' = service_step demo_decode demo_msg demo_settings (Work []) s \<and>
     s'' = service_step demo_decode demo_msg demo_settings (Closed None) s' \<and>
     s_phase s'' = Crashed OverflowError \<and> s_lost s'' = [demo_item 0] \<and> s_window s'' = [(Unhandled, demo_item 8)] \<and>
     (\<exists>item \<in> set (s_pending s) \<union> set (s_queue s).
        classify demo_decode demo_msg (fst item) (snd item) = Inl OverflowError)"
proof -
  let ?s = "service_step demo_decode demo_msg demo_settings (Deliver (demo_item 8))
    (service_step demo_decode demo_msg demo_settings (Deliver (demo_item 0)) ingest_one)"
  let ?s' = "service_step demo_decode demo_msg demo_settings (Work []) ?s"
  let ?s'' = "service_step demo_decode demo_msg demo_settings (Closed None) ?s'"
  have r: "reach demo_decode demo_msg demo_settings (\<lambda>_ _. True) empty_tables ?s"
    by (intro reach.step ingest_one_reach) simp_all
  have s: "s_phase ?s = Consuming" "\<not> s_stop ?s" "s_pending ?s = []" "s_queue ?s = [demo_item 0, demo_item 8]"
    "s_lost ?s = []" "s_exposed ?s = []" "s_window ?s = []"
    using ingest_one_state by (auto simp: deliver_def)
  have h: "handle_in demo_decode demo_msg [] (demo_item 0) s = (Inl OverflowError, s\<lparr>s_world := (s_world s)\<lparr>w_faults := []\<rparr>\<rparr>)" for s
    using poison_classify by (simp add: handle_in_def handle_one_def act_simps)
  have e: "?s' = raise_inside OverflowError (?s\<lparr>s_queue := [demo_item 8], s_pending := [demo_item 0],
      s_world := (s_world ?s)\<lparr>w_faults := []\<rparr>\<rparr>)"
    using s h by (simp add: work_step_def consume_step_def take_one_def del: service_step.simps(2))
  have c: "s_phase ?s'' = Crashed OverflowError" "s_lost ?s'' = [demo_item 0]" "s_window ?s'' = [(Unhandled, demo_item 8)]"
    unfolding e using s by (simp_all add: loop_defs del: service_step.simps(2))
  have p: "\<not> raised OverflowError (s_phase ?s)" "raised OverflowError (s_phase ?s')"
    unfolding e using s(1) by (simp_all del: service_step.simps(2))
  have "\<exists>item \<in> set (s_pending ?s) \<union> set (s_queue ?s). classify demo_decode demo_msg (fst item) (snd item) = Inl OverflowError"
    using crash_causes [OF r empty_covers, of OverflowError "Work []"] p
    by (simp add: fault_excs_def del: service_step.simps)
  with c show ?thesis by blast
qed

text \<open>
  Health tells the truth: in every reachable state the broker flag is set exactly while the
  client is subscribed and its context not left, and the database flag exactly while the writer is
  connected and the client context not left.
\<close>

theorem health_flags_truthful:
  assumes "reach decode msg cfg ok t s"
  shows "(broker_connected s \<longleftrightarrow> s_phase s \<in> {Replaying, Consuming, Draining} \<union> range (Closing True)) \<and>
    (db_connected s \<longleftrightarrow> s_phase s \<in> {DbUp, Subscribing, Replaying, Consuming, Draining} \<or> (\<exists>sub c. s_phase s = Closing sub c))"
  using reach_flags [OF assms]
  by (cases "s_phase s") (auto simp: flags_ok_def broker_phase_def db_phase_def)

theorem health_flags_truthful_witness: "broker_connected ingest_one \<and> db_connected ingest_one"
  using health_flags_truthful [OF ingest_one_reach] ingest_one_state by auto

end
