(* ===== verification/Analytics_Store.thy ===== *)
theory Analytics_Store
  imports Alerts Ingest_Db "HOL-Library.AList" "HOL-Library.Char_ord" "HOL-Library.List_Lexorder"
    "HOL-Library.Product_Lexorder"
begin

text \<open>
  \<^verbatim>\<open>analytics/db.py\<close> and the two tables it writes (migrations 0008 and 0009). The readings are the
  rows of the telemetry table; \<open>forecasts\<close> is keyed by device, kind and watermark; \<open>alert_events\<close> is
  a log with a uniqueness constraint. Not kept: the wall-clock columns the server fills in, and the
  gaps an identity column may have.
\<close>

section \<open>Tables\<close>

record window_row =
  wr_device :: string
  wr_at :: int
  wr_water :: pyfloat
  wr_battery :: pyfloat

record forecast_row =
  fr_status :: status
  fr_target :: pyfloat
  fr_latest_value :: "pyfloat option"
  fr_crosses_at :: "int option"
  fr_crosses_at_earliest :: "int option"
  fr_crosses_at_latest :: "int option"
  fr_slope_per_hour :: "pyfloat option"
  fr_residual_mad :: "pyfloat option"
  fr_fit_points :: "int option"
  fr_segment_points :: "int option"
  fr_span_seconds :: "pyfloat option"
  fr_truncated :: bool

record decision =
  ad_device :: string
  ad_kind :: string
  ad_state :: alert_transition_kind
  ad_as_of :: int
  ad_crosses_at :: int
  ad_horizon :: pyfloat
  ad_threshold :: pyfloat

record alert_event =
  ae_id :: int
  ae_decision :: decision
  ae_notified :: bool
  ae_error :: "string option"

record store_tables =
  st_telemetry :: "window_row list"
  st_forecasts :: "string \<times> string \<times> int \<rightharpoonup> forecast_row"
  st_alerts :: "alert_event list"

section \<open>Reads\<close>

definition data_now :: "store_tables \<Rightarrow> int option" where
  "data_now t = (case map wr_at (st_telemetry t) of [] \<Rightarrow> None | x # xs \<Rightarrow> Some (fold max xs x))"

definition WINDOW_KINDS :: "string list" where
  "WINDOW_KINDS = [''water'', ''battery'']"

text \<open>\<open>WHERE measured_at > %s ORDER BY device_id, measured_at\<close>.\<close>

definition select_window :: "int \<Rightarrow> window_row list \<Rightarrow> window_row list" where
  "select_window cutoff rows = sort_key (\<lambda>r. (wr_device r, wr_at r)) [r \<leftarrow> rows. cutoff < wr_at r]"

text \<open>
  A dictionary is an association list in insertion order. Every \<open>by_kind\<close> starts with both kinds, so
  the two appends always find their list.
\<close>

type_synonym window = "(string \<times> (string \<times> sample list) list) list"

definition add_row :: "window_row \<Rightarrow> window \<Rightarrow> window" where
  "add_row r series =
     (let by_kind = (case map_of series (wr_device r) of
            None \<Rightarrow> map (\<lambda>k. (k, [])) WINDOW_KINDS
          | Some b \<Rightarrow> b);
          add = (\<lambda>k v. AList.map_entry k (\<lambda>xs. xs @ [\<lparr>sample_at = Aware (wr_at r), sample_value = v\<rparr>]))
      in AList.update (wr_device r) (add ''battery'' (wr_battery r) (add ''water'' (wr_water r) by_kind)) series)"

definition load_window :: "int \<Rightarrow> store_tables \<Rightarrow> window" where
  "load_window cutoff t = fold add_row (select_window cutoff (st_telemetry t)) []"

text \<open>
  \<open>DISTINCT ON (device_id, kind) \<dots> ORDER BY as_of DESC\<close>: the newest decision. Among decisions with the
  same \<open>as_of\<close> the server is free to choose; \<open>tie\<close> is its choice.
\<close>

type_synonym tie_break = "alert_transition_kind list \<Rightarrow> alert_transition_kind"

definition decisions :: "string \<Rightarrow> string \<Rightarrow> store_tables \<Rightarrow> decision list" where
  "decisions d k t = [x \<leftarrow> map ae_decision (st_alerts t). ad_device x = d \<and> ad_kind x = k]"

definition latest_decision :: "tie_break \<Rightarrow> decision list \<Rightarrow> alert_state option" where
  "latest_decision tie ds = (case map ad_as_of ds of
       [] \<Rightarrow> None
     | x # xs \<Rightarrow> (let w = fold max xs x in
         Some \<lparr>alert_kind = tie (map ad_state [d \<leftarrow> ds. ad_as_of d = w]), alert_as_of = Aware w\<rparr>))"

definition latest_alert_states :: "tie_break \<Rightarrow> store_tables \<Rightarrow> string \<times> string \<rightharpoonup> alert_state" where
  "latest_alert_states tie t = (\<lambda>(d, k). latest_decision tie (decisions d k t))"

section \<open>Writes\<close>

definition forecast_row_of :: "forecast_record \<Rightarrow> forecast_row" where
  "forecast_row_of fc = \<lparr>
     fr_status = fc_status fc, fr_target = fc_target fc, fr_latest_value = latest_value fc,
     fr_crosses_at = map_option timestamptz (crosses_at fc),
     fr_crosses_at_earliest = map_option timestamptz (crosses_at_earliest fc),
     fr_crosses_at_latest = map_option timestamptz (crosses_at_latest fc),
     fr_slope_per_hour = map_option slope_per_hour (fc_fit fc),
     fr_residual_mad = map_option residual_mad (fc_fit fc),
     fr_fit_points = map_option points (fc_fit fc),
     fr_segment_points = map_option segment_points (fc_fit fc),
     fr_span_seconds = map_option span_seconds (fc_fit fc),
     fr_truncated = (case fc_fit fc of Some f \<Rightarrow> truncated f | None \<Rightarrow> False)\<rparr>"

text \<open>
  \<open>ON CONFLICT \<dots> DO UPDATE \<dots> WHERE status IS DISTINCT FROM EXCLUDED.status\<close>; the result is
  \<^verbatim>\<open>rowcount == 1\<close>.
\<close>

definition upsert_forecast ::
  "string \<times> string \<times> int \<Rightarrow> forecast_row \<Rightarrow> store_tables \<Rightarrow> bool \<times> store_tables" where
  "upsert_forecast key row t =
     (case st_forecasts t key of
        Some old \<Rightarrow>
          if fr_status old \<noteq> fr_status row then (True, t\<lparr>st_forecasts := (st_forecasts t)(key \<mapsto> row)\<rparr>)
          else (False, t)
      | None \<Rightarrow> (True, t\<lparr>st_forecasts := (st_forecasts t)(key \<mapsto> row)\<rparr>))"

text \<open>\<open>ON CONFLICT (device_id, kind, as_of, state) DO NOTHING RETURNING id\<close>.\<close>

definition same_decision :: "decision \<Rightarrow> decision \<Rightarrow> bool" where
  "same_decision a b \<longleftrightarrow> ad_device a = ad_device b \<and> ad_kind a = ad_kind b \<and> ad_as_of a = ad_as_of b \<and>
     ad_state a = ad_state b"

definition insert_alert_event :: "decision \<Rightarrow> store_tables \<Rightarrow> int option \<times> store_tables" where
  "insert_alert_event x t =
     (if \<exists>e \<in> set (st_alerts t). same_decision (ae_decision e) x then (None, t)
      else
        let i = int (length (st_alerts t)) + 1 in
        (Some i, t\<lparr>st_alerts := st_alerts t @ [\<lparr>ae_id = i, ae_decision = x, ae_notified = False, ae_error = None\<rparr>]\<rparr>))"

definition mark_notified :: "int \<Rightarrow> string option \<Rightarrow> store_tables \<Rightarrow> unit \<times> store_tables" where
  "mark_notified i err t = ((), t\<lparr>st_alerts :=
     map (\<lambda>e. if ae_id e = i then e\<lparr>ae_notified := (err = None), ae_error := err\<rparr> else e) (st_alerts t)\<rparr>)"

end
