(* ===== verification/Analytics_Service.thy ===== *)
theory Analytics_Service
  imports Analytics_Store Ingest_Handler
begin

text \<open>
  \<^verbatim>\<open>analytics/config.py\<close>, \<^verbatim>\<open>notify.py\<close> and \<^verbatim>\<open>service.py\<close>: the settings, the delivery of one
  notification, the pass over all devices and metrics, and the interval loop. As in ingestion, every
  database call follows a fault script; the replies of the notification server are a script too.
  \<open>stamp\<close> is the platform's \<^verbatim>\<open>strftime\<close> of a crossing time in UTC.
\<close>

section \<open>Settings\<close>

record analytics_settings =
  interval_seconds :: pyfloat
  water_target_pct :: pyfloat
  battery_target_volts :: pyfloat
  water_alert_days :: pyfloat
  battery_alert_days :: pyfloat
  alert_cooldown_hours :: pyfloat
  ntfy_url :: string

definition analytics_metrics :: "analytics_settings \<Rightarrow> metric list" where
  "analytics_metrics cfg =
     [WATER\<lparr>target := water_target_pct cfg, alert_horizon_seconds := fmul (water_alert_days cfg) (Fin 86400)\<rparr>,
      BATTERY\<lparr>target := battery_target_volts cfg, alert_horizon_seconds := fmul (battery_alert_days cfg) (Fin 86400)\<rparr>]"

text \<open>The bounds \<^verbatim>\<open>Field(ge=..., le=..., gt=...)\<close> state, for the finite values a process starts with.\<close>

definition settings_ok :: "analytics_settings \<Rightarrow> bool" where
  "settings_ok cfg \<longleftrightarrow>
     flt (Fin 0) (interval_seconds cfg) \<and>
     fle (Fin 0) (water_target_pct cfg) \<and> fle (water_target_pct cfg) (Fin 100) \<and>
     fle (fl (25 / 10)) (battery_target_volts cfg) \<and> fle (battery_target_volts cfg) (fl (44 / 10)) \<and>
     flt (Fin 0) (water_alert_days cfg) \<and> flt (Fin 0) (battery_alert_days cfg) \<and>
     flt (Fin 0) (alert_cooldown_hours cfg)"

section \<open>The world of a pass\<close>

record analytics_counters =
  passes :: int
  pass_failures :: int
  forecasts_written :: int
  alerts_fired :: int
  alerts_cleared :: int
  notify_failures :: int

datatype http_reply = Reply int | Raised string

record pass_world =
  p_tables :: store_tables
  p_faults :: "fault list"
  p_replies :: "http_reply list"
  p_counters :: analytics_counters
  p_devices :: int
  p_sent :: "(string \<times> string) list"

definition store_call :: "(store_tables \<Rightarrow> 'a \<times> store_tables) \<Rightarrow> (pass_world, 'a) act" where
  "store_call stmt w =
     (let f = (case p_faults w of [] \<Rightarrow> Works | f # fs \<Rightarrow> f)
      in case execute f stmt (p_tables w) of
           (r, t) \<Rightarrow> (r, w\<lparr>p_tables := t, p_faults := tl (p_faults w)\<rparr>))"

definition bump :: "(analytics_counters \<Rightarrow> analytics_counters) \<Rightarrow> (pass_world, unit) act" where
  "bump f = modify (\<lambda>w. w\<lparr>p_counters := f (p_counters w)\<rparr>)"

section \<open>Notification\<close>

fun ntfy_outcome :: "http_reply \<Rightarrow> string option" where
  "ntfy_outcome (Reply s) = (if s div 100 \<noteq> 2 then Some (''ntfy returned HTTP '' @ show_int s) else None)"
| "ntfy_outcome (Raised name) = Some name"

text \<open>One POST: the next reply of the script, success past its end.\<close>

definition post_ntfy :: "string \<Rightarrow> string \<Rightarrow> (pass_world, string option) act" where
  "post_ntfy title message w =
     (let reply = (case p_replies w of [] \<Rightarrow> Reply 200 | r # rs \<Rightarrow> r)
      in (Inr (ntfy_outcome reply), w\<lparr>p_replies := tl (p_replies w), p_sent := p_sent w @ [(title, message)]\<rparr>))"

definition alert_title :: "string \<Rightarrow> string \<Rightarrow> string" where
  "alert_title d k = ''planter '' @ d @ '': '' @ k @ '' attention needed''"

text \<open>The format \<^verbatim>\<open>.1f\<close>.\<close>

definition fixed1 :: "rat \<Rightarrow> string" where
  "fixed1 q = (let n = round_half_even (\<bar>q\<bar> * 10)
     in (if q < 0 then ''-'' else '''') @ show_int (n div 10) @ ''.'' @ show_int (n mod 10))"

fun format_1f :: "pyfloat \<Rightarrow> string" where
  "format_1f (Fin q) = fixed1 q"
| "format_1f PInf = ''inf''"
| "format_1f NInf = ''-inf''"
| "format_1f NaN = ''nan''"

definition alert_message :: "(py_datetime \<Rightarrow> string) \<Rightarrow> forecast_record \<Rightarrow> pyfloat \<Rightarrow> string res" where
  "alert_message stamp fc h =
     rbind (fdiv h (Fin 86400)) (\<lambda>days.
       let crosses = (case crosses_at fc of None \<Rightarrow> ''now'' | Some t \<Rightarrow> stamp t);
           noun = (if fc_kind fc = ''water'' then ''empty'' else ''below charge threshold'')
       in Inr (fc_kind fc @ '' '' @ noun @ '' in '' @ format_1f days @ '' days of device time ('' @ crosses @ '')''))"

section \<open>One decision\<close>

definition announce_firing ::
  "(py_datetime \<Rightarrow> string) \<Rightarrow> analytics_settings \<Rightarrow> string \<Rightarrow> metric \<Rightarrow> forecast_record \<Rightarrow> pyfloat \<Rightarrow> int \<Rightarrow>
   (pass_world, unit) act" where
  "announce_firing stamp cfg d m fc h event_id =
     andthen (bump (\<lambda>c. c\<lparr>alerts_fired := alerts_fired c + 1\<rparr>)) (\<lambda>_.
       if ntfy_url cfg = [] then ret ()
       else case alert_message stamp fc h of
           Inl e \<Rightarrow> raise e
         | Inr message \<Rightarrow>
             andthen (post_ntfy (alert_title d (metric_kind m)) message) (\<lambda>err.
             andthen (store_call (mark_notified event_id err)) (\<lambda>_.
             if err = None then ret () else bump (\<lambda>c. c\<lparr>notify_failures := notify_failures c + 1\<rparr>))))"

definition announce ::
  "(py_datetime \<Rightarrow> string) \<Rightarrow> analytics_settings \<Rightarrow> string \<Rightarrow> metric \<Rightarrow> forecast_record \<Rightarrow> pyfloat \<Rightarrow>
   alert_transition_kind \<Rightarrow> int option \<Rightarrow> (pass_world, unit) act" where
  "announce stamp cfg d m fc h tr event =
     (case event of
        None \<Rightarrow> ret ()
      | Some event_id \<Rightarrow>
          if tr = Firing then announce_firing stamp cfg d m fc h event_id
          else bump (\<lambda>c. c\<lparr>alerts_cleared := alerts_cleared c + 1\<rparr>))"

definition cooldown_seconds :: "analytics_settings \<Rightarrow> pyfloat" where
  "cooldown_seconds cfg = fmul (alert_cooldown_hours cfg) (Fin 3600)"

definition handle_alert ::
  "(py_datetime \<Rightarrow> string) \<Rightarrow> analytics_settings \<Rightarrow> string \<Rightarrow> metric \<Rightarrow> forecast_record \<Rightarrow> alert_state option \<Rightarrow>
   (pass_world, unit) act" where
  "handle_alert stamp cfg d m fc previous =
     (case alert_transition fc m previous (cooldown_seconds cfg) CLEAR_FACTOR of
        Inl e \<Rightarrow> raise e
      | Inr None \<Rightarrow> ret ()
      | Inr (Some tr) \<Rightarrow>
          (case (as_of fc, crosses_at fc) of
             (Some a, Some t) \<Rightarrow>
               (case horizon_seconds t a of
                  Inl e \<Rightarrow> raise e
                | Inr h \<Rightarrow>
                    andthen (store_call (insert_alert_event \<lparr>ad_device = d, ad_kind = metric_kind m, ad_state = tr,
                        ad_as_of = timestamptz a, ad_crosses_at = timestamptz t, ad_horizon = h,
                        ad_threshold = alert_horizon_seconds m\<rparr>))
                      (announce stamp cfg d m fc h tr))
           | _ \<Rightarrow> ret ()))"

section \<open>One pass\<close>

text \<open>\<^verbatim>\<open>Store.insert_forecast\<close>: no statement runs for a forecast without a watermark.\<close>

definition insert_forecast :: "string \<Rightarrow> forecast_record \<Rightarrow> (pass_world, bool) act" where
  "insert_forecast d fc =
     (case as_of fc of
        None \<Rightarrow> ret False
      | Some a \<Rightarrow> store_call (upsert_forecast (d, fc_kind fc, timestamptz a) (forecast_row_of fc)))"

definition newer_samples :: "int \<Rightarrow> sample list \<Rightarrow> sample list res" where
  "newer_samples start = rfilter (\<lambda>s. dt_less (Aware start) (sample_at s))"

definition device_forecast ::
  "int \<Rightarrow> (string \<times> sample list) list \<Rightarrow> metric \<Rightarrow> int \<Rightarrow> forecast_record res" where
  "device_forecast now by_kind m start =
     (case map_of by_kind (metric_kind m) of
        None \<Rightarrow> Inl KeyError
      | Some xs \<Rightarrow> rbind (newer_samples start xs) (\<lambda>samples. forecast samples m (Aware now) (Some (Aware start))))"

definition process_forecast ::
  "(py_datetime \<Rightarrow> string) \<Rightarrow> analytics_settings \<Rightarrow> string \<Rightarrow> metric \<Rightarrow> alert_state option \<Rightarrow> forecast_record res \<Rightarrow>
   (pass_world, unit) act" where
  "process_forecast stamp cfg d m previous forecast_result =
     (case forecast_result of
        Inl e \<Rightarrow> raise e
      | Inr fc \<Rightarrow>
          andthen (insert_forecast d fc) (\<lambda>written.
          andthen (if written then bump (\<lambda>c. c\<lparr>forecasts_written := forecasts_written c + 1\<rparr>) else ret ()) (\<lambda>_.
          handle_alert stamp cfg d m fc previous)))"

definition window_start :: "int \<Rightarrow> metric \<Rightarrow> (metric \<times> int) res" where
  "window_start now m =
     rbind (timedelta_of us_per_second (lookback_seconds m)) (\<lambda>d.
     rbind (dt_add (Aware now) (- d)) (\<lambda>t. Inr (m, timestamptz t)))"

definition longest_window :: "(metric \<times> int) list \<Rightarrow> int" where
  "longest_window windows = fold min (map snd (tl windows)) (snd (hd windows))"

definition pass_body ::
  "tie_break \<Rightarrow> (py_datetime \<Rightarrow> string) \<Rightarrow> analytics_settings \<Rightarrow> int \<Rightarrow> (metric \<times> int) list \<Rightarrow> (pass_world, unit) act" where
  "pass_body tie stamp cfg now windows =
     andthen (store_call (\<lambda>t. (load_window (longest_window windows) t, t))) (\<lambda>window.
     andthen (store_call (\<lambda>t. (latest_alert_states tie t, t))) (\<lambda>states.
     andthen (afor window (\<lambda>(d, by_kind). afor windows (\<lambda>(m, start).
         process_forecast stamp cfg d m (states (d, metric_kind m)) (device_forecast now by_kind m start)))) (\<lambda>_.
     modify (\<lambda>w. w\<lparr>p_devices := int (length window)\<rparr>))))"

definition run_pass ::
  "tie_break \<Rightarrow> (py_datetime \<Rightarrow> string) \<Rightarrow> analytics_settings \<Rightarrow> py_exc option \<Rightarrow> int option \<Rightarrow>
   (pass_world, int option) act" where
  "run_pass tie stamp cfg connect since =
     (let metrics = analytics_metrics cfg in
      if \<exists>m \<in> set metrics. metric_kind m \<notin> set WINDOW_KINDS then raise ValueError
      else case connect of
          Some e \<Rightarrow> raise e
        | None \<Rightarrow>
            andthen (store_call (\<lambda>t. (data_now t, t))) (\<lambda>now_data. case now_data of
                None \<Rightarrow> andthen (modify (\<lambda>w. w\<lparr>p_devices := 0\<rparr>)) (\<lambda>_. ret None)
              | Some now \<Rightarrow>
                  if (case since of None \<Rightarrow> False | Some s \<Rightarrow> now \<le> s) then ret (Some now)
                  else case rmap (window_start now) metrics of
                      Inl e \<Rightarrow> raise e
                    | Inr windows \<Rightarrow> andthen (pass_body tie stamp cfg now windows) (\<lambda>_. ret (Some now))))"

section \<open>The interval loop\<close>

datatype loop_phase = Passing | Waiting | Finished | Died py_exc

record analytics_service =
  an_world :: pass_world
  an_phase :: loop_phase
  an_stop :: bool
  an_last_data_now :: "int option"
  last_pass_ok :: bool
  last_pass_monotonic :: "pyfloat option"
  last_pass_duration_seconds :: pyfloat

definition zero_analytics_counters :: analytics_counters where
  "zero_analytics_counters = \<lparr>passes = 0, pass_failures = 0, forecasts_written = 0, alerts_fired = 0,
     alerts_cleared = 0, notify_failures = 0\<rparr>"

definition start_analytics :: "store_tables \<Rightarrow> analytics_service" where
  "start_analytics t = \<lparr>
     an_world = \<lparr>p_tables = t, p_faults = [], p_replies = [], p_counters = zero_analytics_counters,
       p_devices = 0, p_sent = []\<rparr>,
     an_phase = Passing, an_stop = False, an_last_data_now = None,
     last_pass_ok = False, last_pass_monotonic = None, last_pass_duration_seconds = Fin 0\<rparr>"

text \<open>\<^verbatim>\<open>except (psycopg.Error, OSError)\<close>.\<close>

definition operational :: "py_exc \<Rightarrow> bool" where
  "operational e \<longleftrightarrow> e \<in> {OperationalError, PsycopgError, OSError}"

definition after_pass :: "int option res \<Rightarrow> analytics_service \<Rightarrow> analytics_service" where
  "after_pass r s =
     (let w = an_world s; c = p_counters w in
      case r of
        Inr now \<Rightarrow> s\<lparr>an_world := w\<lparr>p_counters := c\<lparr>passes := passes c + 1\<rparr>\<rparr>,
            an_last_data_now := now, last_pass_ok := True\<rparr>
      | Inl e \<Rightarrow> s\<lparr>an_world := w\<lparr>p_counters := c\<lparr>pass_failures := pass_failures c + 1\<rparr>\<rparr>,
            last_pass_ok := False\<rparr>)"

text \<open>
  One iteration up to the wait: a pass under a fault script and reply script, between two readings
  of the monotonic clock.
\<close>

definition tick ::
  "tie_break \<Rightarrow> (py_datetime \<Rightarrow> string) \<Rightarrow> analytics_settings \<Rightarrow> py_exc option \<Rightarrow> fault list \<Rightarrow> http_reply list \<Rightarrow>
   pyfloat \<Rightarrow> pyfloat \<Rightarrow> analytics_service \<Rightarrow> analytics_service" where
  "tick tie stamp cfg connect faults replies began ended s =
     (if an_stop s then s\<lparr>an_phase := Finished\<rparr>
      else case run_pass tie stamp cfg connect (an_last_data_now s)
             ((an_world s)\<lparr>p_faults := faults, p_replies := replies\<rparr>) of
        (r, w) \<Rightarrow>
          (case r of
             Inl e \<Rightarrow>
               if operational e then
                 (after_pass r (s\<lparr>an_world := w\<rparr>))\<lparr>last_pass_monotonic := Some ended,
                   last_pass_duration_seconds := fsub ended began, an_phase := Waiting\<rparr>
               else s\<lparr>an_world := w, an_phase := Died e\<rparr>
           | Inr _ \<Rightarrow>
               (after_pass r (s\<lparr>an_world := w\<rparr>))\<lparr>last_pass_monotonic := Some ended,
                 last_pass_duration_seconds := fsub ended began, an_phase := Waiting\<rparr>))"

text \<open>What else happens: readings arrive, the wait ends, a signal sets \<open>stop\<close>.\<close>

datatype analytics_event =
    Tick "py_exc option" "fault list" "http_reply list" pyfloat pyfloat
  | WaitOver
  | StopAnalytics
  | Arrive "window_row list"

fun analytics_step ::
  "tie_break \<Rightarrow> (py_datetime \<Rightarrow> string) \<Rightarrow> analytics_settings \<Rightarrow> analytics_event \<Rightarrow> analytics_service \<Rightarrow> analytics_service"
where
  "analytics_step tie stamp cfg (Tick connect faults replies began ended) s =
     (if an_phase s = Passing then tick tie stamp cfg connect faults replies began ended s else s)"
| "analytics_step tie stamp cfg WaitOver s = (if an_phase s = Waiting then s\<lparr>an_phase := Passing\<rparr> else s)"
| "analytics_step tie stamp cfg StopAnalytics s = s\<lparr>an_stop := True\<rparr>"
| "analytics_step tie stamp cfg (Arrive rows) s =
     s\<lparr>an_world := (an_world s)\<lparr>p_tables := (p_tables (an_world s))\<lparr>
        st_telemetry := st_telemetry (p_tables (an_world s)) @ rows\<rparr>\<rparr>\<rparr>"

inductive analytics_reach ::
  "tie_break \<Rightarrow> (py_datetime \<Rightarrow> string) \<Rightarrow> analytics_settings \<Rightarrow> store_tables \<Rightarrow> analytics_service \<Rightarrow> bool"
  for tie stamp cfg t where
  start: "analytics_reach tie stamp cfg t (start_analytics t)"
| step: "analytics_reach tie stamp cfg t s \<Longrightarrow> analytics_reach tie stamp cfg t (analytics_step tie stamp cfg ev s)"

end
