(* ===== verification/Analytics_Laws.thy ===== *)
theory Analytics_Laws
  imports Analytics_Service
begin

text \<open>
  What one pass does to the tables. The forecasts and decisions of one (device, kind) form a view
  of the tables; a pass works on one view after another, and the effect on a view is idempotent and
  absorbs its own partial executions. From this: a second pass over unchanged data changes nothing,
  and a pass that failed anywhere is repaired by the next one.
\<close>

section \<open>The forecasts a pass makes\<close>

definition aware_forecast :: "forecast_record \<Rightarrow> bool" where
  "aware_forecast fc \<longleftrightarrow> (\<forall>a. as_of fc = Some a \<longrightarrow> is_aware a) \<and> (\<forall>t. crosses_at fc = Some t \<longrightarrow> is_aware t)"

lemma forecast_kind:
  assumes "forecast xs m now w = Inr fc"
  shows "fc_kind fc = metric_kind m"
  using assms
proof (cases rule: forecast_shape)
  case (fitted f)
  then show ?thesis by (auto simp: with_fit_def Let_def split: option.splits)
qed (use assms in \<open>auto simp: forecast_def no_crossing_def with_series_def with_fit_def Let_def split: if_splits option.splits\<close>)

lemma forecast_aware:
  assumes fc: "forecast xs m now w = Inr fc" and k: "0 < max_fit_points m"
  shows "aware_forecast fc"
proof (cases "fc_fit fc")
  case None
  have f: "\<not> (\<exists>f. with_fit m (last xs) f = Inr fc)" using None with_fit_shape by force
  show ?thesis
  proof (cases "xs = [] \<or> \<not> is_valid_series xs \<or> \<not> is_aware now")
    case True
    then show ?thesis using fc by (auto simp: forecast_def no_crossing_def aware_forecast_def Let_def split: if_splits)
  next
    case False
    then have ok: "is_valid_series xs" "xs \<noteq> []" "is_aware now" by auto
    have aw: "is_aware (sample_at (last xs))" using valid_sampleD [OF ok(1)] last_in_set [OF ok(2)] by blast
    have "fc = give_up m xs st \<Longrightarrow> aware_forecast fc" for st
      using aw by (simp add: give_up_def no_crossing_def aware_forecast_def)
    moreover have "with_series m xs (cadence_value xs) w = Inr fc \<Longrightarrow> aware_forecast fc"
      using with_series_shape [of m xs] f calculation by blast
    ultimately show ?thesis
      using fc aw unfolding forecast_valid [OF ok]
      by (auto split: if_splits simp: aware_forecast_def give_up_def no_crossing_def)
  qed
next
  case (Some f)
  from forecast_fit [OF fc Some k] obtain f0 tr where ok: "is_valid_series xs" "xs \<noteq> []"
    and f0: "theil_sen Z95 (fit_window m xs) = Inr (Some f0)"
    and f: "f = f0\<lparr>segment_points := int (length (newest_segment m xs)), truncated := tr\<rparr>"
    and wf: "with_fit m (last xs) f = Inr fc" by metis
  have aw: "is_aware (sample_at (last xs))" using valid_sampleD [OF ok(1)] last_in_set [OF ok(2)] by blast
  then have "is_aware (anchor_at f)"
    using theil_sen_anchor [OF f0] fit_window_laws(2) [OF ok(2) k] f by simp
  then have "\<forall>t. crosses_at fc = Some t \<longrightarrow> is_aware t"
    using wf crossing_aware by (auto simp: with_fit_def Let_def split: option.splits)
  then show ?thesis using with_fit_shape [OF wf] aw by (auto simp: aware_forecast_def)
qed

section \<open>The decision of one forecast\<close>

definition decide ::
  "analytics_settings \<Rightarrow> string \<Rightarrow> metric \<Rightarrow> forecast_record \<Rightarrow> alert_state option \<Rightarrow> decision option res" where
  "decide cfg d m fc previous =
     rbind (alert_transition fc m previous (cooldown_seconds cfg) CLEAR_FACTOR) (\<lambda>r. case r of
       None \<Rightarrow> Inr None
     | Some tr \<Rightarrow>
         (case (as_of fc, crosses_at fc) of
            (Some a, Some t) \<Rightarrow> rbind (horizon_seconds t a) (\<lambda>h.
              Inr (Some \<lparr>ad_device = d, ad_kind = metric_kind m, ad_state = tr, ad_as_of = timestamptz a,
                ad_crosses_at = timestamptz t, ad_horizon = h, ad_threshold = alert_horizon_seconds m\<rparr>))
          | _ \<Rightarrow> Inr None))"

lemma handle_alert_decide:
  "handle_alert stamp cfg d m fc previous =
     (case decide cfg d m fc previous of
        Inl e \<Rightarrow> raise e
      | Inr None \<Rightarrow> ret ()
      | Inr (Some x) \<Rightarrow> andthen (store_call (insert_alert_event x)) (announce stamp cfg d m fc (ad_horizon x) (ad_state x)))"
  by (auto simp: handle_alert_def decide_def rbind_def split: sum.splits option.splits)

lemma decide_key:
  "decide cfg d m fc previous = Inr (Some x) \<Longrightarrow> ad_device x = d \<and> ad_kind x = metric_kind m"
  by (auto simp: decide_def rbind_def split: sum.splits option.splits)

text \<open>Whatever came before, one forecast can lead to one decision only.\<close>

lemma decide_unique:
  assumes "decide cfg d m fc p = Inr (Some x)" and "decide cfg d m fc q = Inr (Some y)"
  shows "x = y"
proof -
  obtain tr tr' where tr: "alert_transition fc m p (cooldown_seconds cfg) CLEAR_FACTOR = Inr (Some tr)"
    "alert_transition fc m q (cooldown_seconds cfg) CLEAR_FACTOR = Inr (Some tr')"
    using assms by (auto simp: decide_def split: option.splits)
  obtain t a where ta: "crosses_at fc = Some t" "as_of fc = Some a" using alert_transition_SomeD [OF tr(1)] by blast
  have "tr = tr'"
    using tr alert_firing_iff [OF ta] alert_cleared_iff [OF ta] by (cases tr; cases tr') blast+
  then show ?thesis using assms tr ta by (auto simp: decide_def)
qed

lemma decide_total:
  assumes "aware_forecast fc" and "\<And>p. previous = Some p \<Longrightarrow> is_aware (alert_as_of p)"
  shows "\<exists>r. decide cfg d m fc previous = Inr r"
proof -
  obtain r where r: "alert_transition fc m previous (cooldown_seconds cfg) CLEAR_FACTOR = Inr r"
    using alert_transition_total assms unfolding aware_forecast_def by blast
  show ?thesis
  proof (cases r)
    case (Some tr)
    obtain t a where ta: "crosses_at fc = Some t" "as_of fc = Some a"
      using alert_transition_SomeD r Some by blast
    then obtain h where "horizon_seconds t a = Inr h"
      using horizon_seconds_aware assms(1) by (meson aware_forecast_def)
    then show ?thesis using r Some ta by (simp add: decide_def)
  qed (use r in \<open>simp add: decide_def\<close>)
qed

lemma latest_aware_decision: "latest_decision tie ds = Some p \<Longrightarrow> is_aware (alert_as_of p)"
  by (auto simp: latest_decision_def Let_def split: list.splits)

section \<open>Views and their effects\<close>

type_synonym view = "(int \<rightharpoonup> forecast_row) \<times> decision list"

definition view :: "string \<Rightarrow> string \<Rightarrow> store_tables \<Rightarrow> view" where
  "view d k t = (\<lambda>w. st_forecasts t (d, k, w), decisions d k t)"

definition put_row :: "forecast_record \<Rightarrow> (int \<rightharpoonup> forecast_row) \<Rightarrow> (int \<rightharpoonup> forecast_row)" where
  "put_row fc rows =
     (case as_of fc of
        None \<Rightarrow> rows
      | Some a \<Rightarrow>
          (case rows (timestamptz a) of
             Some old \<Rightarrow> if fr_status old = fc_status fc then rows else rows(timestamptz a \<mapsto> forecast_row_of fc)
           | None \<Rightarrow> rows(timestamptz a \<mapsto> forecast_row_of fc)))"

definition add_decision :: "decision \<Rightarrow> decision list \<Rightarrow> decision list" where
  "add_decision x ds = (if \<exists>y \<in> set ds. same_decision y x then ds else ds @ [x])"

definition put_decision ::
  "tie_break \<Rightarrow> analytics_settings \<Rightarrow> string \<Rightarrow> metric \<Rightarrow> forecast_record \<Rightarrow> decision list \<Rightarrow> decision list" where
  "put_decision tie cfg d m fc ds =
     (case decide cfg d m fc (latest_decision tie ds) of Inr (Some x) \<Rightarrow> add_decision x ds | _ \<Rightarrow> ds)"

definition settle ::
  "tie_break \<Rightarrow> analytics_settings \<Rightarrow> string \<Rightarrow> metric \<Rightarrow> forecast_record \<Rightarrow> view \<Rightarrow> view" where
  "settle tie cfg d m fc v = (put_row fc (fst v), put_decision tie cfg d m fc (snd v))"

lemma fr_status_of [simp]: "fr_status (forecast_row_of fc) = fc_status fc"
  by (simp add: forecast_row_of_def)

lemma put_row_idem: "put_row fc (put_row fc rows) = put_row fc rows"
  by (auto simp: put_row_def split: option.splits)

lemma add_decision_idem: "add_decision x (add_decision x ds) = add_decision x ds"
  by (auto simp: add_decision_def same_decision_def)

lemma put_decision_idem: "put_decision tie cfg d m fc (put_decision tie cfg d m fc ds) = put_decision tie cfg d m fc ds"
proof (cases "\<exists>x. decide cfg d m fc (latest_decision tie ds) = Inr (Some x)")
  case True
  then obtain x where x: "decide cfg d m fc (latest_decision tie ds) = Inr (Some x)" by blast
  show ?thesis
  proof (cases "\<exists>y. decide cfg d m fc (latest_decision tie (add_decision x ds)) = Inr (Some y)")
    case True
    then have "decide cfg d m fc (latest_decision tie (add_decision x ds)) = Inr (Some x)"
      using decide_unique [OF x] by blast
    then show ?thesis using x by (simp add: put_decision_def add_decision_idem)
  next
    case False
    then show ?thesis using x by (auto simp: put_decision_def split: sum.splits option.splits)
  qed
next
  case False
  then have "put_decision tie cfg d m fc ds = ds" by (auto simp: put_decision_def split: sum.splits option.splits)
  then show ?thesis by simp
qed

text \<open>An interrupted effect is absorbed by a complete one.\<close>

lemma settle_absorbs:
  "settle tie cfg d m fc (put_row fc (fst v), snd v) = settle tie cfg d m fc v"
  "settle tie cfg d m fc (settle tie cfg d m fc v) = settle tie cfg d m fc v"
  by (simp_all add: settle_def put_row_idem put_decision_idem)

end
