(* ===== verification/Analytics_Pass.thy ===== *)
theory Analytics_Pass
  imports Analytics_Laws
begin

text \<open>
  The pass on the tables: every statement touches one view, an execution that fails leaves a view
  that the complete effect absorbs, and an execution without failures settles its view.
\<close>

section \<open>Statements\<close>

lemma store_call_tables:
  assumes "store_call stmt w = (r, w')"
  shows "(p_tables w' = p_tables w \<or> p_tables w' = snd (stmt (p_tables w))) \<and>
    (\<forall>x. r = Inr x \<longrightarrow> p_tables w' = snd (stmt (p_tables w)) \<and> x = fst (stmt (p_tables w)))"
  using assms by (auto simp: store_call_def execute_def Let_def split: prod.splits fault.splits)

lemma store_call_clean:
  "p_faults w = [] \<Longrightarrow> store_call stmt w = (Inr (fst (stmt (p_tables w))), w\<lparr>p_tables := snd (stmt (p_tables w))\<rparr>)"
  by (simp add: store_call_def execute_def split: prod.splits)

lemma decisions_insert:
  "decisions d k (snd (insert_alert_event x t)) =
     (if ad_device x = d \<and> ad_kind x = k then add_decision x (decisions d k t) else decisions d k t)"
  by (auto simp: insert_alert_event_def decisions_def add_decision_def same_decision_def Let_def)

lemma decisions_mark: "decisions d k (snd (mark_notified i err t)) = decisions d k t"
  unfolding mark_notified_def decisions_def by (simp add: comp_def if_distrib cong: if_cong)

lemma statement_telemetry [simp]:
  "st_telemetry (snd (insert_alert_event x t)) = st_telemetry t"
  "st_telemetry (snd (mark_notified i err t)) = st_telemetry t"
  "st_telemetry (snd (upsert_forecast key row t)) = st_telemetry t"
  by (auto simp: insert_alert_event_def mark_notified_def upsert_forecast_def Let_def split: option.splits)

lemma statement_forecasts [simp]:
  "st_forecasts (snd (insert_alert_event x t)) = st_forecasts t"
  "st_forecasts (snd (mark_notified i err t)) = st_forecasts t"
  "decisions d k (snd (upsert_forecast key row t)) = decisions d k t"
  by (auto simp: insert_alert_event_def mark_notified_def upsert_forecast_def decisions_def Let_def split: option.splits)

lemma view_mark [simp]: "view d k (snd (mark_notified i err t)) = view d k t"
  by (simp add: view_def decisions_mark)

lemma view_insert_alert:
  "view d k (snd (insert_alert_event x t)) =
     (fst (view d k t), if ad_device x = d \<and> ad_kind x = k then add_decision x (snd (view d k t)) else snd (view d k t))"
  by (simp add: view_def decisions_insert)

lemma view_upsert_other:
  "(d', k') \<noteq> (d, k) \<Longrightarrow> view d' k' (snd (upsert_forecast (d, k, w) row t)) = view d' k' t"
  by (auto simp: view_def upsert_forecast_def fun_eq_iff decisions_def split: option.splits)

lemma view_upsert:
  "as_of fc = Some a \<Longrightarrow>
   view d k (snd (upsert_forecast (d, k, timestamptz a) (forecast_row_of fc) t)) =
     (put_row fc (fst (view d k t)), snd (view d k t))"
  by (auto simp: view_def upsert_forecast_def put_row_def fun_eq_iff decisions_def split: option.splits)

section \<open>One forecast\<close>

definition same_views :: "store_tables \<Rightarrow> pass_world \<Rightarrow> bool" where
  "same_views t w \<longleftrightarrow> (\<forall>d k. view d k (p_tables w) = view d k t) \<and> st_telemetry (p_tables w) = st_telemetry t"

lemma keeps_views_bump: "keeps (same_views t) (bump f)"
  unfolding bump_def by (rule keeps_modify) (simp add: same_views_def)

lemma keeps_views_post: "keeps (same_views t) (post_ntfy title message)"
  by (auto simp: keeps_def post_ntfy_def same_views_def Let_def split: list.splits)

lemma keeps_views_mark: "keeps (same_views t) (store_call (mark_notified i err))"
proof -
  have "same_views t (snd (store_call (mark_notified i err) w))" if "same_views t w" for w
  proof -
    obtain r w' where e: "store_call (mark_notified i err) w = (r, w')" by (cases "store_call (mark_notified i err) w")
    show ?thesis using that store_call_tables [OF e] e by (auto simp: same_views_def)
  qed
  then show ?thesis by (simp add: keeps_def)
qed

lemma keeps_views_announce: "keeps (same_views t) (announce stamp cfg d m fc h tr event)"
  unfolding announce_def announce_firing_def
  by (auto split: option.splits sum.splits intro!: keeps_andthen keeps_views_bump keeps_views_post keeps_views_mark)

text \<open>A pass leaves the views of all other devices and kinds, and the readings, as they are.\<close>

definition touches_only :: "string \<Rightarrow> string \<Rightarrow> store_tables \<Rightarrow> store_tables \<Rightarrow> bool" where
  "touches_only d k t t' \<longleftrightarrow>
     (\<forall>d' k'. (d', k') \<noteq> (d, k) \<longrightarrow> view d' k' t' = view d' k' t) \<and> st_telemetry t' = st_telemetry t"

lemma touches_only_refl [simp]: "touches_only d k t t"
  by (simp add: touches_only_def)

lemma insert_forecast_view:
  assumes "insert_forecast d fc w = (r, w')" and "fc_kind fc = k"
  shows "touches_only d k (p_tables w) (p_tables w')"
    and "view d k (p_tables w') = view d k (p_tables w) \<or>
         view d k (p_tables w') = (put_row fc (fst (view d k (p_tables w))), snd (view d k (p_tables w)))"
    and "r = Inr b \<Longrightarrow> view d k (p_tables w') = (put_row fc (fst (view d k (p_tables w))), snd (view d k (p_tables w)))"
proof -
  note d = assms(1) [unfolded insert_forecast_def]
  have *: "touches_only d k (p_tables w) (p_tables w') \<and>
    (view d k (p_tables w') = view d k (p_tables w) \<or>
         view d k (p_tables w') = (put_row fc (fst (view d k (p_tables w))), snd (view d k (p_tables w)))) \<and>
    (r = Inr b \<longrightarrow> view d k (p_tables w') = (put_row fc (fst (view d k (p_tables w))), snd (view d k (p_tables w))))"
  proof (cases "as_of fc")
    case None
    then show ?thesis using d by (auto simp: ret_def put_row_def)
  next
    case (Some a)
    then show ?thesis
      using d store_call_tables [of "upsert_forecast (d, k, timestamptz a) (forecast_row_of fc)" w r w'] assms(2)
        view_upsert [OF Some, of d k "p_tables w"] view_upsert_other [of _ _ d k "timestamptz a" "forecast_row_of fc" "p_tables w"]
      by (auto simp: touches_only_def)
  qed
  then show "touches_only d k (p_tables w) (p_tables w')"
    and "view d k (p_tables w') = view d k (p_tables w) \<or>
         view d k (p_tables w') = (put_row fc (fst (view d k (p_tables w))), snd (view d k (p_tables w)))"
    and "r = Inr b \<Longrightarrow> view d k (p_tables w') = (put_row fc (fst (view d k (p_tables w))), snd (view d k (p_tables w)))"
    by blast+
qed

lemma handle_alert_view:
  assumes "handle_alert stamp cfg d m fc (latest_decision tie ds) w = (r, w')"
    and "ds = snd (view d (metric_kind m) (p_tables w))"
  shows "touches_only d (metric_kind m) (p_tables w) (p_tables w') \<and>
    fst (view d (metric_kind m) (p_tables w')) = fst (view d (metric_kind m) (p_tables w)) \<and>
    snd (view d (metric_kind m) (p_tables w')) \<in> {ds, put_decision tie cfg d m fc ds} \<and>
    (r = Inr () \<longrightarrow> snd (view d (metric_kind m) (p_tables w')) = put_decision tie cfg d m fc ds)"
proof (cases "\<exists>x. decide cfg d m fc (latest_decision tie ds) = Inr (Some x)")
  case False
  then have "w' = w" "put_decision tie cfg d m fc ds = ds"
    using assms(1) by (auto simp: handle_alert_decide put_decision_def act_simps split: sum.splits option.splits)
  then show ?thesis using assms(2) by simp
next
  case True
  then obtain x where x: "decide cfg d m fc (latest_decision tie ds) = Inr (Some x)" by blast
  have key: "ad_device x = d" "ad_kind x = metric_kind m" using decide_key [OF x] by simp_all
  have pd: "put_decision tie cfg d m fc ds = add_decision x ds" using x by (simp add: put_decision_def)
  obtain q w1 where q: "store_call (insert_alert_event x) w = (q, w1)" by (cases "store_call (insert_alert_event x) w")
  have t1: "touches_only d (metric_kind m) (p_tables w) (snd (insert_alert_event x (p_tables w)))"
    by (auto simp: touches_only_def view_insert_alert key)
  have v1: "view d (metric_kind m) (snd (insert_alert_event x (p_tables w))) =
    (fst (view d (metric_kind m) (p_tables w)), put_decision tie cfg d m fc ds)"
    by (simp add: view_insert_alert key pd flip: assms(2))
  note sc = store_call_tables [OF q]
  show ?thesis
  proof (cases q)
    case (Inl e)
    then have "w' = w1" "r = Inl e"
      using assms(1) x q by (simp_all add: handle_alert_decide andthen_def)
    then show ?thesis using sc t1 v1 assms(2) by auto
  next
    case (Inr event)
    then have rest: "announce stamp cfg d m fc (ad_horizon x) (ad_state x) event w1 = (r, w')"
      using assms(1) x q by (simp add: handle_alert_decide andthen_def)
    have "same_views (p_tables w1) w'"
      by (rule keepsD [OF keeps_views_announce _ rest]) (simp add: same_views_def)
    moreover have "p_tables w1 = snd (insert_alert_event x (p_tables w))" using sc Inr by simp
    ultimately show ?thesis using t1 v1 by (simp add: same_views_def touches_only_def)
  qed
qed

lemma touches_only_trans: "touches_only d k t t' \<Longrightarrow> touches_only d k t' t'' \<Longrightarrow> touches_only d k t t''"
  by (simp add: touches_only_def)

definition partial_settle ::
  "tie_break \<Rightarrow> analytics_settings \<Rightarrow> string \<Rightarrow> metric \<Rightarrow> forecast_record \<Rightarrow> view \<Rightarrow> view set" where
  "partial_settle tie cfg d m fc v = {v, (put_row fc (fst v), snd v), settle tie cfg d m fc v}"

lemma settle_partial: "v' \<in> partial_settle tie cfg d m fc v \<Longrightarrow> settle tie cfg d m fc v' = settle tie cfg d m fc v"
  unfolding partial_settle_def using settle_absorbs [of tie cfg d m fc v] by (elim insertE) simp_all

lemma settle_in_partial: "settle tie cfg d m fc v \<in> partial_settle tie cfg d m fc v"
  and start_in_partial: "v \<in> partial_settle tie cfg d m fc v"
  by (simp_all add: partial_settle_def)

lemma process_forecast_view:
  assumes run: "process_forecast stamp cfg d m (latest_decision tie (snd v)) (Inr fc) w = (r, w')"
    and v: "v = view d (metric_kind m) (p_tables w)" and k: "fc_kind fc = metric_kind m"
  shows "touches_only d (metric_kind m) (p_tables w) (p_tables w') \<and>
    view d (metric_kind m) (p_tables w') \<in> partial_settle tie cfg d m fc v \<and>
    (r = Inr () \<longrightarrow> view d (metric_kind m) (p_tables w') = settle tie cfg d m fc v)"
proof -
  obtain q w1 where q: "insert_forecast d fc w = (q, w1)" by (cases "insert_forecast d fc w")
  note iv = insert_forecast_view [OF q k]
  show ?thesis
  proof (cases q)
    case (Inl e)
    then have "w' = w1" "r = Inl e" using run q by (simp_all add: process_forecast_def andthen_def)
    then show ?thesis using iv(1,2) v by (auto simp: partial_settle_def)
  next
    case (Inr b)
    define w2 where "w2 = (if b then snd (bump (\<lambda>c. c\<lparr>forecasts_written := forecasts_written c + 1\<rparr>) w1) else w1)"
    have w2: "p_tables w2 = p_tables w1" by (simp add: w2_def bump_def act_simps)
    have h: "handle_alert stamp cfg d m fc (latest_decision tie (snd v)) w2 = (r, w')"
      using run q Inr by (simp add: process_forecast_def andthen_def bump_def act_simps w2_def split: if_splits)
    have v1: "view d (metric_kind m) (p_tables w2) = (put_row fc (fst v), snd v)"
      using iv(3) Inr v w2 by simp
    from handle_alert_view [OF h] v1
    have h': "touches_only d (metric_kind m) (p_tables w2) (p_tables w')"
      "fst (view d (metric_kind m) (p_tables w')) = put_row fc (fst v)"
      "snd (view d (metric_kind m) (p_tables w')) \<in> {snd v, put_decision tie cfg d m fc (snd v)}"
      "r = Inr () \<longrightarrow> snd (view d (metric_kind m) (p_tables w')) = put_decision tie cfg d m fc (snd v)"
      by simp_all
    then show ?thesis
      using touches_only_trans iv(1) w2 by (auto simp: partial_settle_def settle_def prod_eq_iff)
  qed
qed

end
