(* ===== verification/Analytics_Rerun.thy ===== *)
theory Analytics_Rerun
  imports Analytics_Pass
begin

text \<open>
  The whole pass: the forecasts it plans depend on the readings only, each is settled into its own
  view, and so repeated and interrupted passes over the same readings converge.
\<close>

section \<open>Loops\<close>

lemma afor_append: "afor (xs @ ys) f = andthen (afor xs f) (\<lambda>_. afor ys f)"
  by (induction xs) (auto simp: fun_eq_iff andthen_def ret_def split: prod.splits sum.splits)

lemma afor_map: "afor (map g xs) f = afor xs (\<lambda>x. f (g x))"
  by (induction xs) simp_all

lemma afor_nested: "afor xs (\<lambda>x. afor (g x) f) = afor (concat (map g xs)) f"
  by (induction xs) (simp_all add: afor_append)

section \<open>What a pass plans\<close>

type_synonym pass_item = "string \<times> metric \<times> forecast_record res"

definition pass_items :: "int \<Rightarrow> (metric \<times> int) list \<Rightarrow> window \<Rightarrow> pass_item list" where
  "pass_items now windows window =
     concat (map (\<lambda>(d, by_kind). map (\<lambda>(m, start). (d, m, device_forecast now by_kind m start)) windows) window)"

definition planned :: "analytics_settings \<Rightarrow> store_tables \<Rightarrow> pass_item list res" where
  "planned cfg t =
     (case data_now t of
        None \<Rightarrow> Inr []
      | Some now \<Rightarrow> rbind (rmap (window_start now) (analytics_metrics cfg)) (\<lambda>windows.
          Inr (pass_items now windows (load_window (longest_window windows) t))))"

lemma planned_telemetry: "st_telemetry t = st_telemetry t' \<Longrightarrow> planned cfg t = planned cfg t'"
  by (simp only: planned_def data_now_def load_window_def)

definition process_item ::
  "(py_datetime \<Rightarrow> string) \<Rightarrow> analytics_settings \<Rightarrow> (string \<times> string \<rightharpoonup> alert_state) \<Rightarrow> pass_item \<Rightarrow> (pass_world, unit) act" where
  "process_item stamp cfg states = (\<lambda>(d, m, fr). process_forecast stamp cfg d m (states (d, metric_kind m)) fr)"

lemma pass_loop_items:
  "afor window (\<lambda>(d, by_kind). afor windows (\<lambda>(m, start).
      process_forecast stamp cfg d m (states (d, metric_kind m)) (device_forecast now by_kind m start))) =
   afor (pass_items now windows window) (process_item stamp cfg states)"
  unfolding pass_items_def afor_nested [symmetric] process_item_def
  by (rule arg_cong2 [of _ _ _ _ afor]) (auto simp: fun_eq_iff afor_map case_prod_unfold)

definition item_key :: "pass_item \<Rightarrow> string \<times> string" where
  "item_key = (\<lambda>(d, m, fr). (d, metric_kind m))"

lemma load_window_distinct: "distinct (map fst (load_window c t))"
proof -
  have "distinct (map fst (fold add_row rs s))" if "distinct (map fst s)" for rs s
    using that by (induction rs arbitrary: s) (simp_all add: add_row_def Let_def distinct_update)
  then show ?thesis by (simp add: load_window_def)
qed

lemma analytics_metric_kinds: "map metric_kind (analytics_metrics cfg) = [''water'', ''battery'']"
  by (simp add: analytics_metrics_def WATER_def BATTERY_def)

lemma rmap_window_start: "rmap (window_start now) ms = Inr ws \<Longrightarrow> map fst ws = ms"
  by (induction ms arbitrary: ws) (auto simp: window_start_def)

lemma item_keys: "map item_key (pass_items now windows window) = List.product (map fst window) (map (metric_kind \<circ> fst) windows)"
proof (induction window)
  case (Cons x window)
  have "map item_key (map (\<lambda>(m, start). (fst x, m, device_forecast now (snd x) m start)) windows) =
    map (Pair (fst x)) (map (metric_kind \<circ> fst) windows)"
    by (auto simp: item_key_def)
  then show ?case using Cons by (simp add: pass_items_def case_prod_beta)
qed (simp add: pass_items_def)

lemma planned_distinct:
  assumes "planned cfg t = Inr items"
  shows "distinct (map item_key items)"
proof (cases "data_now t")
  case (Some now)
  then obtain ws where ws: "rmap (window_start now) (analytics_metrics cfg) = Inr ws"
    and items: "items = pass_items now ws (load_window (longest_window ws) t)"
    using assms by (auto simp: planned_def)
  have "map (metric_kind \<circ> fst) ws = [''water'', ''battery'']"
    using rmap_window_start [OF ws] analytics_metric_kinds by (metis map_map)
  then have "distinct (map (metric_kind \<circ> fst) ws)" by (simp only:) simp
  then show ?thesis unfolding items item_keys by (intro distinct_product load_window_distinct)
qed (use assms in \<open>simp add: planned_def\<close>)

lemma planned_forecast:
  assumes "planned cfg t = Inr items" and "(d, m, Inr fc) \<in> set items"
  shows "fc_kind fc = metric_kind m" and "aware_forecast fc" and "m \<in> set (analytics_metrics cfg)"
proof -
  obtain now ws where ws: "rmap (window_start now) (analytics_metrics cfg) = Inr ws"
    and items: "items = pass_items now ws (load_window (longest_window ws) t)"
    using assms by (cases "data_now t") (auto simp: planned_def)
  then obtain by_kind start where i: "(m, start) \<in> set ws" "device_forecast now by_kind m start = Inr fc"
    using assms(2) by (fastforce simp: pass_items_def)
  have "map fst ws = analytics_metrics cfg" using rmap_window_start [OF ws] .
  with i(1) show m: "m \<in> set (analytics_metrics cfg)" by (metis fst_conv image_eqI list.set_map)
  then have k: "0 < max_fit_points m" by (auto simp: analytics_metrics_def WATER_def BATTERY_def)
  obtain xs where xs: "forecast xs m (Aware now) (Some (Aware start)) = Inr fc"
    using i(2) by (auto simp: device_forecast_def split: option.splits)
  show "fc_kind fc = metric_kind m" "aware_forecast fc"
    using forecast_kind [OF xs] forecast_aware [OF xs k] by simp_all
qed

section \<open>The loop on views\<close>

definition states_match :: "tie_break \<Rightarrow> (string \<times> string \<rightharpoonup> alert_state) \<Rightarrow> store_tables \<Rightarrow> pass_item list \<Rightarrow> bool" where
  "states_match tie states t items \<longleftrightarrow>
     (\<forall>(d, m, fr) \<in> set items. states (d, metric_kind m) = latest_decision tie (snd (view d (metric_kind m) t)) \<and>
        (\<forall>fc. fr = Inr fc \<longrightarrow> fc_kind fc = metric_kind m \<and> aware_forecast fc))"

text \<open>The views after a loop, settled or partly settled.\<close>

definition partly_done :: "tie_break \<Rightarrow> analytics_settings \<Rightarrow> pass_item list \<Rightarrow> store_tables \<Rightarrow> store_tables \<Rightarrow> bool" where
  "partly_done tie cfg items t t' \<longleftrightarrow> st_telemetry t' = st_telemetry t \<and>
     (\<forall>d k. view d k t' = view d k t \<or>
        (\<exists>m fc. (d, m, Inr fc) \<in> set items \<and> metric_kind m = k \<and> view d k t' \<in> partial_settle tie cfg d m fc (view d k t)))"

definition all_done :: "tie_break \<Rightarrow> analytics_settings \<Rightarrow> pass_item list \<Rightarrow> store_tables \<Rightarrow> store_tables \<Rightarrow> bool" where
  "all_done tie cfg items t t' \<longleftrightarrow> st_telemetry t' = st_telemetry t \<and>
     (\<forall>d k. (d, k) \<notin> item_key ` set items \<longrightarrow> view d k t' = view d k t) \<and>
     (\<forall>(d, m, fr) \<in> set items. \<exists>fc. fr = Inr fc \<and>
        view d (metric_kind m) t' = settle tie cfg d m fc (view d (metric_kind m) t))"

lemma loop_views:
  assumes "afor items (process_item stamp cfg states) w = (r, w')"
    and "distinct (map item_key items)" and "states_match tie states (p_tables w) items"
  shows "partly_done tie cfg items (p_tables w) (p_tables w') \<and>
    (r = Inr () \<longrightarrow> all_done tie cfg items (p_tables w) (p_tables w')) \<and>
    (\<forall>d k. (d, k) \<notin> item_key ` set items \<longrightarrow> view d k (p_tables w') = view d k (p_tables w))"
  using assms
proof (induction items arbitrary: w r w')
  case Nil
  then show ?case by (auto simp: act_simps partly_done_def all_done_def)
next
  case (Cons i items)
  obtain d m fr where i: "i = (d, m, fr)" by (cases i)
  have st: "states (d, metric_kind m) = latest_decision tie (snd (view d (metric_kind m) (p_tables w)))"
    using Cons.prems(3) i by (simp add: states_match_def)
  show ?case
  proof (cases fr)
    case (Inl e)
    then have "w' = w" "r = Inl e"
      using Cons.prems(1) i by (simp_all add: andthen_def process_item_def process_forecast_def act_simps)
    then show ?thesis by (simp add: partly_done_def)
  next
    case (Inr fc)
    obtain q w1 where q: "process_forecast stamp cfg d m (states (d, metric_kind m)) (Inr fc) w = (q, w1)"
      by (cases "process_forecast stamp cfg d m (states (d, metric_kind m)) (Inr fc) w")
    have kind: "fc_kind fc = metric_kind m" using Cons.prems(3) i Inr by (simp add: states_match_def)
    note one = process_forecast_view [OF q [unfolded st] refl kind]
    have other: "view d' k' (p_tables w1) = view d' k' (p_tables w)" if "(d', k') \<noteq> (d, metric_kind m)" for d' k'
      using one that by (simp add: touches_only_def)
    have tel: "st_telemetry (p_tables w1) = st_telemetry (p_tables w)" using one by (simp add: touches_only_def)
    have fresh: "(d, metric_kind m) \<notin> item_key ` set items" using Cons.prems(2) i by (simp add: item_key_def)
    have key: "item_key i = (d, metric_kind m)" using i by (simp add: item_key_def)
    show ?thesis
    proof (cases q)
      case (Inl e)
      then have e: "w' = w1" "r = Inl e"
        using Cons.prems(1) i Inr q by (simp_all add: andthen_def process_item_def)
      have "view d' k' (p_tables w1) = view d' k' (p_tables w) \<or> (\<exists>m fc. (d', m, Inr fc) \<in> set (i # items) \<and> metric_kind m = k' \<and>
          view d' k' (p_tables w1) \<in> partial_settle tie cfg d' m fc (view d' k' (p_tables w)))" for d' k'
      proof (cases "(d', k') = (d, metric_kind m)")
        case True
        then show ?thesis using one i Inr by auto
      qed (use other in blast)
      then show ?thesis using e tel other key by (auto simp: partly_done_def)
    next
      case (Inr u)
      then have rest: "afor items (process_item stamp cfg states) w1 = (r, w')"
        using Cons.prems(1) i \<open>fr = Inr fc\<close> q by (simp add: andthen_def process_item_def)
      have "states_match tie states (p_tables w1) items"
      proof -
        have "view d' (metric_kind m') (p_tables w1) = view d' (metric_kind m') (p_tables w)"
          if "(d', m', fr') \<in> set items" for d' m' fr'
          using other [of d' "metric_kind m'"] fresh that by (force simp: item_key_def)
        then show ?thesis using Cons.prems(3) by (fastforce simp: states_match_def)
      qed
      note IH = Cons.IH [OF rest _ this]
      have IH1: "partly_done tie cfg items (p_tables w1) (p_tables w')"
        and IH2: "r = Inr () \<Longrightarrow> all_done tie cfg items (p_tables w1) (p_tables w')"
        and IH3: "\<And>d' k'. (d', k') \<notin> item_key ` set items \<Longrightarrow> view d' k' (p_tables w') = view d' k' (p_tables w1)"
        using IH Cons.prems(2) by auto
      have mine: "view d (metric_kind m) (p_tables w') = settle tie cfg d m fc (view d (metric_kind m) (p_tables w))"
        using IH3 [OF fresh] one Inr by simp
      have hd: "(d, m, Inr fc) \<in> set (i # items)" using i \<open>fr = Inr fc\<close> by simp
      have p: "view d' k' (p_tables w') = view d' k' (p_tables w) \<or> (\<exists>m fc. (d', m, Inr fc) \<in> set (i # items) \<and> metric_kind m = k' \<and>
          view d' k' (p_tables w') \<in> partial_settle tie cfg d' m fc (view d' k' (p_tables w)))" for d' k'
      proof (cases "(d', k') = (d, metric_kind m)")
        case True
        then have "d' = d" "k' = metric_kind m" by simp_all
        then show ?thesis using hd settle_in_partial by (intro disjI2 exI [of _ m] exI [of _ fc]) (simp add: mine)
      next
        case False
        show ?thesis
          using IH1 unfolding partly_done_def other [OF False, symmetric] by (metis list.set_intros(2))
      qed
      have outside: "view d' k' (p_tables w') = view d' k' (p_tables w)" if "(d', k') \<notin> item_key ` set (i # items)" for d' k'
      proof -
        have "(d', k') \<noteq> (d, metric_kind m)" "(d', k') \<notin> item_key ` set items" using that key by auto
        then show ?thesis using IH3 other by metis
      qed
      have a: "all_done tie cfg (i # items) (p_tables w) (p_tables w')" if "r = Inr ()"
      proof -
        have "\<exists>fc. fr' = Inr fc \<and> view d' (metric_kind m') (p_tables w') = settle tie cfg d' m' fc (view d' (metric_kind m') (p_tables w))"
          if "(d', m', fr') \<in> set (i # items)" for d' m' fr'
        proof (cases "(d', m', fr') = i")
          case True
          then show ?thesis using mine i \<open>fr = Inr fc\<close> by simp
        next
          case False
          then have mem: "(d', m', fr') \<in> set items" using that by simp
          then have ne: "(d', metric_kind m') \<noteq> (d, metric_kind m)" using fresh by (force simp: item_key_def)
          have "\<exists>fc. fr' = Inr fc \<and>
              view d' (metric_kind m') (p_tables w') = settle tie cfg d' m' fc (view d' (metric_kind m') (p_tables w1))"
            using bspec [OF IH2 [OF \<open>r = Inr ()\<close>, unfolded all_done_def, THEN conjunct2, THEN conjunct2] mem] by simp
          then show ?thesis by (simp only: other [OF ne])
        qed
        then have "\<forall>(d', m', fr') \<in> set (i # items). \<exists>fc. fr' = Inr fc \<and>
            view d' (metric_kind m') (p_tables w') = settle tie cfg d' m' fc (view d' (metric_kind m') (p_tables w))"
          by blast
        moreover have "st_telemetry (p_tables w') = st_telemetry (p_tables w)" using tel IH1 by (simp add: partly_done_def)
        ultimately show ?thesis unfolding all_done_def by (intro conjI allI impI) (assumption | erule outside)+
      qed
      show ?thesis using p a outside tel IH1 unfolding partly_done_def by simp
    qed
  qed
qed

section \<open>The pass on views\<close>

lemma read_call:
  assumes "store_call (\<lambda>t. (f t, t)) w = (q, w')"
  shows "p_tables w' = p_tables w" and "q = Inr x \<Longrightarrow> x = f (p_tables w)"
  using store_call_tables [OF assms] by auto

lemma partly_done_refl [simp]: "partly_done tie cfg items t t"
  by (simp add: partly_done_def)

lemma states_match_latest:
  assumes "planned cfg t = Inr items"
  shows "states_match tie (latest_alert_states tie t) t items"
  using planned_forecast(1,2) [OF assms] by (auto simp: states_match_def latest_alert_states_def view_def)

lemma pass_body_views:
  assumes "pass_body tie stamp cfg now ws w = (r, w')"
    and "planned cfg (p_tables w) = Inr items" and "items = pass_items now ws (load_window (longest_window ws) (p_tables w))"
  shows "partly_done tie cfg items (p_tables w) (p_tables w') \<and> (r = Inr () \<longrightarrow> all_done tie cfg items (p_tables w) (p_tables w'))"
proof -
  obtain q1 w1 where q1: "store_call (\<lambda>t. (load_window (longest_window ws) t, t)) w = (q1, w1)" by force
  obtain q2 w2 where q2: "store_call (\<lambda>t. (latest_alert_states tie t, t)) w1 = (q2, w2)" by force
  note t = read_call(1) [OF q1] read_call(1) [OF q2]
  show ?thesis
  proof (cases q1)
    case (Inl e)
    then have "w' = w1" "r = Inl e" using assms(1) q1 by (simp_all add: pass_body_def andthen_def)
    then show ?thesis using t by simp
  next
    case (Inr window)
    note q1' = Inr
    have win: "window = load_window (longest_window ws) (p_tables w)" by (rule read_call(2) [OF q1 Inr])
    show ?thesis
    proof (cases q2)
      case (Inl e)
      then have "w' = w2" "r = Inl e" using assms(1) q1 q1' q2 by (simp_all add: pass_body_def andthen_def)
      then show ?thesis using t by simp
    next
      case (Inr states)
      then have st: "states = latest_alert_states tie (p_tables w)" using read_call(2) [OF q2 Inr] t(1) by simp
      obtain q3 w3 where q3: "afor items (process_item stamp cfg states) w2 = (q3, w3)" by force
      have "partly_done tie cfg items (p_tables w2) (p_tables w3) \<and> (q3 = Inr () \<longrightarrow> all_done tie cfg items (p_tables w2) (p_tables w3))"
        using loop_views [OF q3 planned_distinct [OF assms(2)]] states_match_latest [OF assms(2)] st t by simp
      moreover have "p_tables w' = p_tables w3 \<and> (r = Inr () \<longrightarrow> q3 = Inr ())"
        using assms(1) q1 q1' q2 Inr q3 win
        by (auto simp: pass_body_def andthen_def pass_loop_items assms(3) modify_def split: sum.splits)
      ultimately show ?thesis using t by simp
    qed
  qed
qed

lemma run_pass_views:
  assumes "run_pass tie stamp cfg connect since w = (r, w')"
  obtains items where "partly_done tie cfg items (p_tables w) (p_tables w')"
    and "items = [] \<or> planned cfg (p_tables w) = Inr items"
    and "since = None \<Longrightarrow> r = Inr n \<Longrightarrow> planned cfg (p_tables w) = Inr items \<and>
      all_done tie cfg items (p_tables w) (p_tables w') \<and> n = data_now (p_tables w)"
proof (cases "(\<exists>m \<in> set (analytics_metrics cfg). metric_kind m \<notin> set WINDOW_KINDS) \<or> connect \<noteq> None")
  case True
  then have "w' = w \<and> (\<exists>e. r = Inl e)" using assms by (auto simp: run_pass_def raise_def Let_def split: if_splits)
  then show ?thesis by (intro that [of "[]"]) auto
next
  case False
  then have run: "andthen (store_call (\<lambda>t. (data_now t, t))) (\<lambda>now_data. case now_data of
                None \<Rightarrow> andthen (modify (\<lambda>w. w\<lparr>p_devices := 0\<rparr>)) (\<lambda>_. ret None)
              | Some now \<Rightarrow>
                  if (case since of None \<Rightarrow> False | Some s \<Rightarrow> now \<le> s) then ret (Some now)
                  else case rmap (window_start now) (analytics_metrics cfg) of
                      Inl e \<Rightarrow> raise e
                    | Inr windows \<Rightarrow> andthen (pass_body tie stamp cfg now windows) (\<lambda>_. ret (Some now))) w = (r, w')"
    using assms by (auto simp: run_pass_def Let_def)
  obtain q w1 where q: "store_call (\<lambda>t. (data_now t, t)) w = (q, w1)" by force
  note t = read_call [OF q]
  show ?thesis
  proof (cases q)
    case (Inl e)
    then have "w' = w1" "r = Inl e" using run q by (simp_all add: andthen_def)
    then show ?thesis using t(1) by (intro that [of "[]"]) auto
  next
    case (Inr now_data)
    then have nd: "now_data = data_now (p_tables w)" using t(2) by simp
    show ?thesis
    proof (cases now_data)
      case None
      then have "p_tables w' = p_tables w" "r = Inr None"
        using run q Inr t(1) by (auto simp: andthen_def modify_def ret_def)
      moreover have "planned cfg (p_tables w) = Inr []" using nd None by (simp add: planned_def)
      ultimately show ?thesis using nd None by (intro that [of "[]"]) (auto simp: all_done_def)
    next
      case (Some now)
      show ?thesis
      proof (cases "case since of None \<Rightarrow> False | Some s \<Rightarrow> now \<le> s")
        case True
        then have "w' = w1" using run q Inr Some by (simp add: andthen_def ret_def)
        then show ?thesis using True t(1) by (intro that [of "[]"]) auto
      next
        case False
        show ?thesis
        proof (cases "rmap (window_start now) (analytics_metrics cfg)")
          case (Inl e)
          then have "w' = w1" "r = Inl e" using run q Inr Some False by (simp_all add: andthen_def raise_def)
          then show ?thesis using t(1) by (intro that [of "[]"]) auto
        next
          case (Inr ws)
          define items where "items = pass_items now ws (load_window (longest_window ws) (p_tables w))"
          have pl: "planned cfg (p_tables w) = Inr items"
            using nd [symmetric] Some Inr by (simp add: planned_def items_def)
          obtain q2 w2 where q2: "pass_body tie stamp cfg now ws w1 = (q2, w2)" by force
          have "partly_done tie cfg items (p_tables w) (p_tables w2) \<and>
              (q2 = Inr () \<longrightarrow> all_done tie cfg items (p_tables w) (p_tables w2))"
            using pass_body_views [OF q2, of items] pl t(1) by (simp add: items_def)
          moreover have "w' = w2 \<and> (r = Inr n \<longrightarrow> q2 = Inr () \<and> n = Some now)"
            using run q \<open>q = Inr now_data\<close> Some False Inr q2 by (auto simp: andthen_def ret_def split: sum.splits)
          ultimately show ?thesis using pl nd Some by (intro that [of items]) auto
        qed
      qed
    qed
  qed
qed

section \<open>Passes that work\<close>

lemma post_ntfy_simps: "\<exists>err w'. post_ntfy title message w = (Inr err, w') \<and> p_tables w' = p_tables w \<and> p_faults w' = p_faults w"
  by (simp add: post_ntfy_def Let_def)

lemma alert_message_total: "\<exists>s. alert_message stamp fc h = Inr s"
  by (cases h) (simp_all add: alert_message_def Let_def)

definition works :: "(pass_world, 'a) act \<Rightarrow> bool" where
  "works m \<longleftrightarrow> (\<forall>w. p_faults w = [] \<longrightarrow> (\<exists>x w'. m w = (Inr x, w') \<and> p_faults w' = []))"

lemma works_ret [simp]: "works (ret x)"
  by (simp add: works_def ret_def)

lemma works_store_call [simp]: "works (store_call stmt)"
  by (simp add: works_def store_call_clean)

lemma works_bump [simp]: "works (bump f)"
  by (simp add: works_def bump_def modify_def)

lemma works_post [simp]: "works (post_ntfy title message)"
  using post_ntfy_simps by (fastforce simp: works_def)

lemma works_andthen: "works m \<Longrightarrow> (\<And>x. works (f x)) \<Longrightarrow> works (andthen m f)"
  by (fastforce simp: works_def andthen_def)

lemma works_announce: "works (announce stamp cfg d m fc h tr event)"
  using alert_message_total [of stamp fc h]
  by (auto simp: announce_def announce_firing_def split: option.splits sum.splits intro!: works_andthen)

lemma works_handle_alert:
  assumes "aware_forecast fc" and "\<And>p. previous = Some p \<Longrightarrow> is_aware (alert_as_of p)"
  shows "works (handle_alert stamp cfg d m fc previous)"
proof -
  obtain r where "decide cfg d m fc previous = Inr r" using decide_total [OF assms] by blast
  then show ?thesis
    by (cases r) (auto simp: handle_alert_decide intro!: works_andthen works_announce)
qed

lemma works_process_item:
  assumes "states_match tie states t items" and "(d, m, Inr fc) \<in> set items"
  shows "works (process_item stamp cfg states (d, m, Inr fc))"
proof -
  have s: "aware_forecast fc" "states (d, metric_kind m) = latest_decision tie (snd (view d (metric_kind m) t))"
    using assms by (auto simp: states_match_def)
  have "works (insert_forecast d fc)" by (auto simp: insert_forecast_def split: option.splits)
  moreover have "works (handle_alert stamp cfg d m fc (states (d, metric_kind m)))"
    using works_handle_alert [OF s(1)] latest_aware_decision s(2) by simp
  ultimately show ?thesis
    by (auto simp: process_item_def process_forecast_def intro!: works_andthen)
qed

lemma works_afor: "(\<And>x. x \<in> set xs \<Longrightarrow> works (f x)) \<Longrightarrow> works (afor xs f)"
  by (induction xs) (auto intro: works_andthen)

text \<open>A pass without failures succeeds when no forecast it plans raises.\<close>

lemma run_pass_works:
  assumes pl: "planned cfg (p_tables w) = Inr items" and fine: "\<forall>(d, m, fr) \<in> set items. \<exists>fc. fr = Inr fc"
    and clean: "p_faults w = []"
  shows "\<exists>w'. run_pass tie stamp cfg None None w = (Inr (data_now (p_tables w)), w') \<and> p_faults w' = []"
proof -
  have kinds: "\<not> (\<exists>m \<in> set (analytics_metrics cfg). metric_kind m \<notin> set WINDOW_KINDS)"
    by (auto simp: analytics_metrics_def WINDOW_KINDS_def WATER_def BATTERY_def)
  show ?thesis
  proof (cases "data_now (p_tables w)")
    case None
    then show ?thesis using kinds clean by (simp add: run_pass_def andthen_def store_call_clean modify_def ret_def)
  next
    case (Some now)
    then obtain ws where ws: "rmap (window_start now) (analytics_metrics cfg) = Inr ws"
      and items: "items = pass_items now ws (load_window (longest_window ws) (p_tables w))"
      using pl by (auto simp: planned_def)
    have "works (afor items (process_item stamp cfg (latest_alert_states tie (p_tables w))))"
    proof (rule works_afor)
      fix x assume x: "x \<in> set items"
      then obtain d m fc where i: "x = (d, m, Inr fc)" using fine by fastforce
      show "works (process_item stamp cfg (latest_alert_states tie (p_tables w)) x)"
        using works_process_item [OF states_match_latest [OF pl]] x unfolding i by blast
    qed
    then obtain w2 where w2: "afor items (process_item stamp cfg (latest_alert_states tie (p_tables w))) w = (Inr (), w2)"
      "p_faults w2 = []" using clean by (fastforce simp: works_def)
    then show ?thesis
      using kinds clean Some ws
      by (simp add: run_pass_def pass_body_def andthen_def store_call_clean modify_def ret_def pass_loop_items flip: items)
  qed
qed

end
