(* ===== verification/Window_Laws.thy ===== *)
theory Window_Laws
  imports Analytics_Rerun
begin

text \<open>
  The window a pass reads: per device and kind, the readings newer than the cutoff in device-time
  order. Rows with distinct keys and finite values give series the forecast accepts.
\<close>

section \<open>Series\<close>

definition earlier :: "sample \<Rightarrow> sample \<Rightarrow> bool" where
  "earlier a b \<longleftrightarrow> dt_less (sample_at a) (sample_at b) = Inr True"

lemma transp_earlier: "transp earlier"
proof (rule transpI)
  fix a b c assume "earlier a b" "earlier b c"
  then show "earlier a c"
    by (cases "sample_at a"; cases "sample_at b"; cases "sample_at c") (auto simp: earlier_def)
qed

lemma is_valid_series_sorted:
  "is_valid_series xs \<longleftrightarrow> (\<forall>s \<in> set xs. finite_float (sample_value s) \<and> is_aware (sample_at s)) \<and> sorted_wrt earlier xs"
  unfolding pairwise_sorted_wrt [OF transp_earlier, symmetric]
  by (auto simp: is_valid_series_def list_all_iff earlier_def)

lemma is_valid_series_filter: "is_valid_series xs \<Longrightarrow> is_valid_series (filter P xs)"
  by (auto simp: is_valid_series_sorted sorted_wrt_filter)

section \<open>Grouping\<close>

definition device_rows :: "int \<Rightarrow> string \<Rightarrow> window_row list \<Rightarrow> window_row list" where
  "device_rows cutoff d rows = [r \<leftarrow> select_window cutoff rows. wr_device r = d]"

definition row_samples :: "(window_row \<Rightarrow> pyfloat) \<Rightarrow> window_row list \<Rightarrow> sample list" where
  "row_samples v rs = map (\<lambda>r. \<lparr>sample_at = Aware (wr_at r), sample_value = v r\<rparr>) rs"

definition grouped :: "window_row list \<Rightarrow> (string \<times> sample list) list" where
  "grouped rs = [(''water'', row_samples wr_water rs), (''battery'', row_samples wr_battery rs)]"

lemma fold_add_row:
  "map_of (fold add_row rs []) d =
     (let ds = [r \<leftarrow> rs. wr_device r = d] in if ds = [] then None else Some (grouped ds))"
proof (induction rs rule: rev_induct)
  case (snoc r rs)
  then show ?case
    by (auto simp: add_row_def Let_def update_conv' grouped_def row_samples_def WINDOW_KINDS_def)
qed simp

lemma load_window_device:
  "map_of (load_window cutoff t) d =
     (let ds = device_rows cutoff d (st_telemetry t) in if ds = [] then None else Some (grouped ds))"
  by (simp add: load_window_def fold_add_row device_rows_def)

lemma load_window_entry:
  assumes "(d, by_kind) \<in> set (load_window cutoff t)"
  shows "by_kind = grouped (device_rows cutoff d (st_telemetry t)) \<and> device_rows cutoff d (st_telemetry t) \<noteq> []"
  using map_of_is_SomeI [OF load_window_distinct assms] by (auto simp: load_window_device Let_def split: if_splits)

section \<open>Order\<close>

definition row_key :: "window_row \<Rightarrow> string \<times> int" where
  "row_key r = (wr_device r, wr_at r)"

definition rows_fine :: "window_row list \<Rightarrow> bool" where
  "rows_fine rows \<longleftrightarrow> distinct (map row_key rows) \<and>
     (\<forall>r \<in> set rows. dt_ok (wr_at r) \<and> finite_float (wr_water r) \<and> finite_float (wr_battery r) \<and>
        wf_float (wr_water r) \<and> wf_float (wr_battery r))"

lemma device_rows_sub: "set (device_rows cutoff d rows) \<subseteq> {r \<in> set rows. cutoff < wr_at r \<and> wr_device r = d}"
  by (auto simp: device_rows_def select_window_def)

lemma device_rows_increasing:
  assumes "distinct (map row_key rows)"
  shows "sorted_wrt (\<lambda>a b. wr_at a < wr_at b) (device_rows cutoff d rows)"
proof -
  have key: "(\<lambda>r. (wr_device r, wr_at r)) = row_key" by (simp add: fun_eq_iff row_key_def)
  let ?s = "select_window cutoff rows"
  have "sorted (map row_key ?s)" by (simp add: select_window_def key)
  moreover have "distinct (map row_key ?s)"
  proof -
    have "distinct (map row_key [r \<leftarrow> rows. cutoff < wr_at r])" using assms by (rule distinct_map_filter)
    then show ?thesis by (simp add: select_window_def distinct_map)
  qed
  ultimately have "sorted_wrt (<) (map row_key ?s)" by (simp add: strict_sorted_iff)
  then have "sorted_wrt (\<lambda>a b. row_key a < row_key b) ?s" by (simp add: sorted_wrt_map)
  then have s: "sorted_wrt (\<lambda>a b. row_key a < row_key b) (device_rows cutoff d rows)"
    unfolding device_rows_def by (rule sorted_wrt_filter)
  show ?thesis
    by (rule sorted_wrt_mono_rel [OF _ s]) (auto simp: row_key_def less_prod_def device_rows_def)
qed

lemma row_samples_valid:
  assumes fine: "rows_fine rows" and v: "v = wr_water \<or> v = wr_battery"
  shows "is_valid_series (row_samples v (device_rows cutoff d rows))"
    and "typed_series (row_samples v (device_rows cutoff d rows))"
proof -
  have r: "dt_ok (wr_at r) \<and> finite_float (v r) \<and> wf_float (v r)" if "r \<in> set (device_rows cutoff d rows)" for r
    using that device_rows_sub fine v by (fastforce simp: rows_fine_def)
  have "sorted_wrt (\<lambda>a b. wr_at a < wr_at b) (device_rows cutoff d rows)"
    using device_rows_increasing fine by (simp add: rows_fine_def)
  then show "is_valid_series (row_samples v (device_rows cutoff d rows))"
    using r by (auto simp: is_valid_series_sorted row_samples_def sorted_wrt_map earlier_def)
  show "typed_series (row_samples v (device_rows cutoff d rows))"
    using r by (auto simp: typed_series_def typed_sample_def row_samples_def)
qed

section \<open>The forecasts of a pass over such rows\<close>

lemma newer_samples_aware:
  "\<forall>s \<in> set xs. is_aware (sample_at s) \<Longrightarrow> newer_samples start xs = Inr [s \<leftarrow> xs. start < at_us s]"
  unfolding newer_samples_def by (rule rfilter_Inr) (auto simp: at_us_def split: py_datetime.splits)

lemma planned_item:
  assumes "planned cfg t = Inr items" and "(d, m, fr) \<in> set items"
  obtains now start cutoff by_kind where "data_now t = Some now" and "m \<in> set (analytics_metrics cfg)"
    and "(d, by_kind) \<in> set (load_window cutoff t)" and "fr = device_forecast now by_kind m start"
proof -
  obtain now ws where now: "data_now t = Some now" and ws: "rmap (window_start now) (analytics_metrics cfg) = Inr ws"
    and items: "items = pass_items now ws (load_window (longest_window ws) t)"
    using assms by (cases "data_now t") (auto simp: planned_def)
  then obtain by_kind start where i: "(m, start) \<in> set ws" "fr = device_forecast now by_kind m start"
    "(d, by_kind) \<in> set (load_window (longest_window ws) t)"
    using assms(2) by (fastforce simp: pass_items_def)
  have "map fst ws = analytics_metrics cfg" using rmap_window_start [OF ws] .
  with i(1) have "m \<in> set (analytics_metrics cfg)" by (metis fst_conv image_eqI list.set_map)
  then show ?thesis using that now i by blast
qed

lemma analytics_fit_metric: "m \<in> set (analytics_metrics cfg) \<Longrightarrow> fit_metric m"
  by (auto simp: analytics_metrics_def WATER_def BATTERY_def fit_metric_def)

lemma device_forecast_series:
  assumes fine: "rows_fine (st_telemetry t)" and entry: "(d, by_kind) \<in> set (load_window cutoff t)"
    and m: "m \<in> set (analytics_metrics cfg)"
  obtains xs where "is_valid_series xs" and "typed_series xs"
    and "device_forecast now by_kind m start = forecast xs m (Aware now) (Some (Aware start))"
proof -
  let ?ds = "device_rows cutoff d (st_telemetry t)"
  have bk: "by_kind = grouped ?ds" using load_window_entry [OF entry] by simp
  define v :: "window_row \<Rightarrow> pyfloat" where "v = (if metric_kind m = ''water'' then wr_water else wr_battery)"
  have "metric_kind m = ''water'' \<or> metric_kind m = ''battery''"
    using m by (auto simp: analytics_metrics_def WATER_def BATTERY_def)
  then have mo: "map_of by_kind (metric_kind m) = Some (row_samples v ?ds)"
    by (auto simp: bk grouped_def v_def)
  have va: "is_valid_series (row_samples v ?ds)" and ty: "typed_series (row_samples v ?ds)"
    using row_samples_valid [OF fine] by (simp_all add: v_def)
  let ?xs = "[s \<leftarrow> row_samples v ?ds. start < at_us s]"
  have "newer_samples start (row_samples v ?ds) = Inr ?xs"
    by (rule newer_samples_aware) (use valid_sampleD [OF va] in blast)
  then have "device_forecast now by_kind m start = forecast ?xs m (Aware now) (Some (Aware start))"
    using mo by (simp add: device_forecast_def)
  moreover have "is_valid_series ?xs" using is_valid_series_filter [OF va] .
  moreover have "typed_series ?xs" using ty by (auto simp: typed_series_def)
  ultimately show ?thesis using that by blast
qed

text \<open>No pass over such rows meets an invalid series, and \<open>OverflowError\<close> is all it can raise.\<close>

lemma forecast_not_invalid:
  assumes v: "is_valid_series xs" and now: "is_aware now" and fc: "forecast xs m now w = Inr fc"
  shows "fc_status fc \<noteq> INVALID_SERIES"
proof (cases "xs = []")
  case True
  then show ?thesis using fc by (auto simp: forecast_def)
next
  case False
  then show ?thesis
    using fc with_fit_shape [of m "last xs" _ fc] with_series_shape [of m xs "cadence_value xs" w fc]
    unfolding forecast_valid [OF v False now]
    by (auto split: if_splits)
qed

lemma planned_never_invalid:
  assumes fine: "rows_fine (st_telemetry t)" and pl: "planned cfg t = Inr items" and mem: "(d, m, fr) \<in> set items"
  shows "(\<forall>fc. fr = Inr fc \<longrightarrow> fc_status fc \<noteq> INVALID_SERIES) \<and> (\<forall>e. fr = Inl e \<longrightarrow> e = OverflowError)"
proof -
  obtain now start cutoff by_kind where i: "m \<in> set (analytics_metrics cfg)"
    "(d, by_kind) \<in> set (load_window cutoff t)" "fr = device_forecast now by_kind m start"
    using planned_item [OF pl mem] by metis
  obtain xs where xs: "is_valid_series xs" "typed_series xs"
    "fr = forecast xs m (Aware now) (Some (Aware start))"
    using device_forecast_series [OF fine i(2,1), of now start] i(3) by metis
  have k: "0 < max_fit_points m" "max_fit_points m \<le> 2 ^ 17"
    using analytics_fit_metric [OF i(1)] by (simp_all add: fit_metric_def)
  have "e = OverflowError" if "fr = Inl e" for e
    using forecast_exceptions [OF xs(2) k, of "Some (Aware start)" "Aware now" e] that xs(3) by simp
  then show ?thesis using forecast_not_invalid [OF xs(1)] xs(3) by force
qed

end
