(* ===== verification/End_To_End.thy ===== *)
theory End_To_End
  imports Window_Laws Ingest_Safety
begin

text \<open>
  Ingestion and analytics together: the rows any run of the ingestion service leaves in the
  telemetry table are rows the analytics pass accepts. The contract's bounds make every stored
  value finite, the idempotency key makes the keys distinct.
\<close>

section \<open>What ingestion stores\<close>

text \<open>A float that the JSON decoder delivers is a float.\<close>

definition decodes_floats :: "('p \<Rightarrow> decoded) \<Rightarrow> bool" where
  "decodes_floats decode \<longleftrightarrow> (\<forall>p raw. decode p = Decoded raw \<longrightarrow>
     (\<forall>x. raw_water_level raw = Good x \<longrightarrow> wf_float x) \<and> (\<forall>x. raw_battery_voltage raw = Good x \<longrightarrow> wf_float x))"

definition value_fine :: "pyfloat \<Rightarrow> bool" where
  "value_fine x \<longleftrightarrow> finite_float x \<and> wf_float x"

definition stored_fine :: "'p tables \<Rightarrow> bool" where
  "stored_fine t \<longleftrightarrow> (\<forall>d m row. t_telemetry t (d, m) = Some row \<longrightarrow>
     dt_ok m \<and> value_fine (row_water_level row) \<and> value_fine (row_battery_voltage row))"

lemma between_finite: "fle (Fin a) x \<Longrightarrow> fle x (Fin b) \<Longrightarrow> finite_float x"
  by (cases x) (simp_all add: fle_def)

lemma battery_bounds_finite: "\<exists>a b. fl (25 / 10) = Fin a \<and> fl (44 / 10) = Fin b"
proof -
  have "fl 0 \<le> fl (25 / 10)" "fl (25 / 10) \<le> fl (44 / 10)" "fl (44 / 10) \<le> fl (of_int 5)"
    by (rule fl_mono; simp)+
  moreover have "fl (of_int 5) = Fin 5" using fl_representable [OF representable_of_int [of 5]] by simp
  ultimately show ?thesis by (cases "fl (25 / 10)"; cases "fl (44 / 10)") auto
qed

lemma classified_fine:
  assumes dec: "decodes_floats decode" and c: "classify decode msg topic payload = Inr (ValidReading r)"
  shows "dt_ok (timestamptz (measured_at r)) \<and> value_fine (water_level r) \<and> value_fine (battery_voltage r)"
proof -
  have ok: "telemetry_ok r" using classify_valid_ok [OF c] .
  obtain raw where raw: "decode payload = Decoded raw" "telemetry_errors msg raw = []"
    "water_level r = the_good NaN (raw_water_level raw)" "battery_voltage r = the_good NaN (raw_battery_voltage raw)"
    using c by (auto simp: classify_valid_iff model_validate_json_def split: decoded.splits list.splits)
  then obtain x b where g: "raw_water_level raw = Good x" "raw_battery_voltage raw = Good b"
    by (auto simp: telemetry_errors_def field_error_Nil)
  have "wf_float (water_level r)" "wf_float (battery_voltage r)" using dec raw g by (auto simp: decodes_floats_def)
  moreover obtain lo hi where "fl (25 / 10) = Fin lo" "fl (44 / 10) = Fin hi" using battery_bounds_finite by blast
  ultimately show ?thesis using ok between_finite by (auto simp: telemetry_ok_def value_fine_def)
qed

lemma handle_one_stored_fine:
  assumes dec: "decodes_floats decode" and fine: "stored_fine (w_tables w)"
  shows "stored_fine (w_tables (snd (handle_one decode msg item w)))"
proof -
  have "keeps (\<lambda>w. stored_fine (w_tables w)) (handle_one decode msg item)"
  proof (cases "classify decode msg (fst item) (snd item)")
    case (Inl e)
    then show ?thesis by (simp add: handle_one_def)
  next
    case (Inr out)
    show ?thesis
    proof (cases out)
      case (ValidReading r)
      have ins: "stored_fine (snd (insert_reading r t))" if "stored_fine t" for t :: "'a tables"
        using that classified_fine [OF dec Inr [unfolded ValidReading]]
        by (auto simp: insert_reading_def stored_fine_def reading_row_def reading_key_def split: option.splits)
      have "keeps (\<lambda>w. stored_fine (w_tables w)) (write_reading r :: ('a world, unit) act)"
      proof (rule write_reading_keeps [of stored_fine r])
        fix t :: "'a tables" assume t: "stored_fine t"
        show "stored_fine (snd (upsert_device r t))" using t by (simp add: stored_fine_def upsert_device_def Let_def)
        show "stored_fine (snd (insert_reading r t))" using ins t .
        show "stored_fine (snd (record_dedupe r t))" using t by (simp add: stored_fine_def record_dedupe_def)
      qed
      then show ?thesis using Inr ValidReading
        by (auto simp: handle_one_def intro!: keeps_andthen keeps_note_arrival)
    next
      case (DeadLetter t p why)
      then show ?thesis using Inr
        by (auto simp: handle_one_def stored_fine_def insert_dead_letter_def intro!: keeps_write_dead_letter)
    qed
  qed
  then show ?thesis using fine by (simp add: keeps_def)
qed

lemma reach_stored_fine:
  assumes dec: "decodes_floats decode" and "reach decode msg cfg ok t s" and "stored_fine t"
  shows "stored_fine (w_tables (s_world s))"
  using assms(2)
proof (induction rule: reach.induct)
  case start
  then show ?case using assms(3) by (simp add: start_service_def)
next
  case (step s ev)
  have "stored_fine (w_tables (s_world s2))"
    if "stored_fine (w_tables (s_world s1))" "handle_in decode msg faults item s1 = (r, s2)" for faults item s1 r s2
  proof -
    have "s_world s2 = snd (handle_one decode msg item ((s_world s1)\<lparr>w_faults := faults\<rparr>))"
      using that(2) by (auto simp: handle_in_def split: prod.splits)
    then show ?thesis using handle_one_stored_fine [OF dec, of "(s_world s1)\<lparr>w_faults := faults\<rparr>" msg item] that(1) by simp
  qed
  from service_step_world [of "\<lambda>w. stored_fine (w_tables w)", OF this step.IH] show ?case .
qed

section \<open>What analytics reads\<close>

text \<open>The rows of the telemetry table, each once, in any order.\<close>

definition rows_of_table :: "'p tables \<Rightarrow> window_row list \<Rightarrow> bool" where
  "rows_of_table t rows \<longleftrightarrow> distinct (map row_key rows) \<and> set (map row_key rows) = dom (t_telemetry t) \<and>
     (\<forall>r \<in> set rows. \<exists>row. t_telemetry t (row_key r) = Some row \<and>
        wr_water r = row_water_level row \<and> wr_battery r = row_battery_voltage row)"

lemma rows_of_table_fine: "stored_fine t \<Longrightarrow> rows_of_table t rows \<Longrightarrow> rows_fine rows"
  by (fastforce simp: stored_fine_def rows_of_table_def rows_fine_def row_key_def value_fine_def)

end
