(* ===== verification/Analytics_Converge.thy ===== *)
theory Analytics_Converge
  imports Analytics_Rerun
begin

text \<open>
  Convergence: any number of attempts, failing anywhere, followed by one that works, leaves the forecasts
  and the decisions a single working pass leaves; and a further pass over the same readings changes nothing at all.
\<close>

section \<open>Interrupted passes\<close>

lemma item_unique:
  assumes "distinct (map item_key items)" and "(d, m, fr) \<in> set items" and "(d, m', fr') \<in> set items"
    and "metric_kind m = metric_kind m'"
  shows "m = m' \<and> fr = fr'"
  using assms(1) inj_onD [of item_key "set items" "(d, m, fr)" "(d, m', fr')"] assms(2-4)
  by (simp add: distinct_map item_key_def)

lemma partial_settle_trans:
  "v1 \<in> partial_settle tie cfg d m fc v \<Longrightarrow> v2 \<in> partial_settle tie cfg d m fc v1 \<Longrightarrow> v2 \<in> partial_settle tie cfg d m fc v"
  unfolding partial_settle_def using settle_absorbs [of tie cfg d m fc v]
  by (elim insertE emptyE) (simp_all add: put_row_idem settle_def)

lemma partly_done_trans:
  assumes "distinct (map item_key items)" and p: "partly_done tie cfg items t t1" "partly_done tie cfg items t1 t2"
  shows "partly_done tie cfg items t t2"
proof -
  have "view d k t2 = view d k t \<or> (\<exists>m fc. (d, m, Inr fc) \<in> set items \<and> metric_kind m = k \<and>
      view d k t2 \<in> partial_settle tie cfg d m fc (view d k t))" for d k
  proof (cases "view d k t2 = view d k t1")
    case True
    then show ?thesis using p(1) unfolding partly_done_def by metis
  next
    case False
    then obtain m fc where m: "(d, m, Inr fc) \<in> set items" "metric_kind m = k"
      "view d k t2 \<in> partial_settle tie cfg d m fc (view d k t1)"
      using p(2) unfolding partly_done_def by metis
    consider "view d k t1 = view d k t" |
      m' fc' where "(d, m', Inr fc') \<in> set items" "metric_kind m' = k" "view d k t1 \<in> partial_settle tie cfg d m' fc' (view d k t)"
      using p(1) unfolding partly_done_def by metis
    then show ?thesis
    proof cases
      case 1
      then show ?thesis using m by metis
    next
      case 2
      then have "m' = m" "fc' = fc" using item_unique [OF assms(1) m(1) 2(1)] m(2) by simp_all
      then show ?thesis using partial_settle_trans 2 m by metis
    qed
  qed
  then show ?thesis using p unfolding partly_done_def by metis
qed

lemma partly_done_mono: "partly_done tie cfg items t t' \<Longrightarrow> set items \<subseteq> set items' \<Longrightarrow> partly_done tie cfg items' t t'"
  unfolding partly_done_def by blast

text \<open>Attempts: each with its own connection result, watermark, faults and replies.\<close>

type_synonym attempt = "py_exc option \<times> int option \<times> fault list \<times> http_reply list"

fun attempts ::
  "tie_break \<Rightarrow> (py_datetime \<Rightarrow> string) \<Rightarrow> analytics_settings \<Rightarrow> attempt list \<Rightarrow> pass_world \<Rightarrow> pass_world" where
  "attempts tie stamp cfg [] w = w"
| "attempts tie stamp cfg ((connect, since, faults, replies) # rest) w =
     attempts tie stamp cfg rest (snd (run_pass tie stamp cfg connect since (w\<lparr>p_faults := faults, p_replies := replies\<rparr>)))"

lemma attempts_partly:
  assumes "planned cfg (p_tables w) = Inr items"
  shows "partly_done tie cfg items (p_tables w) (p_tables (attempts tie stamp cfg as w))"
  using assms
proof (induction as arbitrary: w)
  case (Cons a as)
  obtain connect since faults replies where a: "a = (connect, since, faults, replies)" by (cases a)
  let ?w = "w\<lparr>p_faults := faults, p_replies := replies\<rparr>"
  obtain r w' where run: "run_pass tie stamp cfg connect since ?w = (r, w')" by force
  obtain items' where one: "partly_done tie cfg items' (p_tables w) (p_tables w')"
    and "items' = [] \<or> planned cfg (p_tables w) = Inr items'"
    using run_pass_views [OF run] by (metis pass_world.select_convs(1) pass_world.surjective pass_world.update_convs(2,3))
  then have one: "partly_done tie cfg items (p_tables w) (p_tables w')"
    using partly_done_mono [OF one] Cons.prems by auto
  then have "st_telemetry (p_tables w') = st_telemetry (p_tables w)" by (simp add: partly_done_def)
  then have "planned cfg (p_tables w') = Inr items" using Cons.prems planned_telemetry by metis
  from Cons.IH [OF this] show ?case
    using partly_done_trans [OF planned_distinct [OF Cons.prems] one] a run by simp
qed simp

text \<open>A complete pass on a partly done state finishes what it finds.\<close>

lemma all_done_after_partly:
  assumes "distinct (map item_key items)" and "partly_done tie cfg items t t1"
    and "all_done tie cfg items t1 t2" and "all_done tie cfg items t t3"
  shows "view d k t2 = view d k t3"
proof (cases "(d, k) \<in> item_key ` set items")
  case False
  then have "\<not> (\<exists>m fc. (d, m, Inr fc) \<in> set items \<and> metric_kind m = k)" by (force simp: item_key_def)
  then have "view d k t1 = view d k t" using assms(2) unfolding partly_done_def by metis
  then show ?thesis using assms(3,4) False unfolding all_done_def by metis
next
  case True
  then obtain m fr where m: "(d, m, fr) \<in> set items" "metric_kind m = k" by (auto simp: item_key_def)
  obtain fc where fc: "fr = Inr fc" "view d k t2 = settle tie cfg d m fc (view d k t1)"
    using assms(3) m by (fastforce simp: all_done_def)
  have t3: "view d k t3 = settle tie cfg d m fc (view d k t)"
    using assms(4) m fc(1) by (fastforce simp: all_done_def)
  consider "view d k t1 = view d k t" |
    m' fc' where "(d, m', Inr fc') \<in> set items" "metric_kind m' = k" "view d k t1 \<in> partial_settle tie cfg d m' fc' (view d k t)"
    using assms(2) unfolding partly_done_def by metis
  then show ?thesis
  proof cases
    case 1
    then show ?thesis using fc t3 by simp
  next
    case 2
    then have "m' = m" "fc' = fc" using item_unique [OF assms(1) m(1) 2(1)] m(2) fc(1) by simp_all
    then show ?thesis using settle_partial 2(3) fc(2) t3 by metis
  qed
qed

lemma retries_converge:
  assumes pl: "planned cfg (p_tables w) = Inr items" and fine: "\<forall>(d, m, fr) \<in> set items. \<exists>fc. fr = Inr fc"
  shows "\<exists>w1 w2. run_pass tie stamp cfg None None ((attempts tie stamp cfg as w)\<lparr>p_faults := []\<rparr>) = (Inr (data_now (p_tables w)), w1) \<and>
    run_pass tie stamp cfg None None (w\<lparr>p_faults := []\<rparr>) = (Inr (data_now (p_tables w)), w2) \<and>
    st_telemetry (p_tables w1) = st_telemetry (p_tables w) \<and>
    (\<forall>d k. view d k (p_tables w1) = view d k (p_tables w2))"
proof -
  let ?a = "attempts tie stamp cfg as w"
  have part: "partly_done tie cfg items (p_tables w) (p_tables ?a)" by (rule attempts_partly [OF pl])
  then have tel: "st_telemetry (p_tables ?a) = st_telemetry (p_tables w)" by (simp add: partly_done_def)
  have pl': "planned cfg (p_tables ?a) = Inr items" using pl planned_telemetry [OF tel] by simp
  have now: "data_now (p_tables ?a) = data_now (p_tables w)" using tel by (simp add: data_now_def)
  obtain w1 where w1: "run_pass tie stamp cfg None None (?a\<lparr>p_faults := []\<rparr>) = (Inr (data_now (p_tables w)), w1)"
    using run_pass_works [of cfg "?a\<lparr>p_faults := []\<rparr>" items tie stamp] pl' fine now by auto
  obtain w2 where w2: "run_pass tie stamp cfg None None (w\<lparr>p_faults := []\<rparr>) = (Inr (data_now (p_tables w)), w2)"
    using run_pass_works [of cfg "w\<lparr>p_faults := []\<rparr>" items tie stamp] pl fine by auto
  obtain i1 where i1: "planned cfg (p_tables ?a) = Inr i1 \<and> all_done tie cfg i1 (p_tables ?a) (p_tables w1)"
    using run_pass_views [OF w1, of "data_now (p_tables w)"] by auto
  obtain i2 where i2: "planned cfg (p_tables w) = Inr i2 \<and> all_done tie cfg i2 (p_tables w) (p_tables w2)"
    using run_pass_views [OF w2, of "data_now (p_tables w)"] by auto
  have "view d k (p_tables w1) = view d k (p_tables w2)" for d k
    using all_done_after_partly [OF planned_distinct [OF pl] part] i1 i2 pl pl' by simp
  moreover have "st_telemetry (p_tables w1) = st_telemetry (p_tables w)" using i1 tel by (simp add: all_done_def)
  ultimately show ?thesis using w1 w2 by blast
qed

section \<open>A further pass\<close>

lemma put_row_fixed:
  assumes "put_row fc (fst (view d k t)) = fst (view d k t)" and "as_of fc = Some a"
  shows "upsert_forecast (d, k, timestamptz a) (forecast_row_of fc) t = (False, t)"
proof (cases "st_forecasts t (d, k, timestamptz a)")
  case None
  then show ?thesis using assms by (auto simp: put_row_def view_def map_upd_same_iff)
next
  case (Some old)
  then have "fr_status old = fc_status fc"
    using assms by (auto simp: put_row_def view_def map_upd_same_iff split: if_splits)
  then show ?thesis using Some by (simp add: upsert_forecast_def)
qed

lemma insert_alert_fixed:
  assumes "add_decision x (decisions d k t) = decisions d k t" and "ad_device x = d" "ad_kind x = k"
  shows "insert_alert_event x t = (None, t)"
proof -
  have "\<exists>y \<in> set (decisions d k t). same_decision y x"
    using assms(1) by (auto simp: add_decision_def split: if_splits)
  then show ?thesis by (auto simp: insert_alert_event_def decisions_def)
qed

lemma process_settled:
  assumes clean: "p_faults w = []" and kind: "fc_kind fc = metric_kind m" and aw: "aware_forecast fc"
    and fixed: "settle tie cfg d m fc v = v" and v: "v = view d (metric_kind m) (p_tables w)"
  shows "process_forecast stamp cfg d m (latest_decision tie (snd v)) (Inr fc) w = (Inr (), w)"
proof -
  have row: "put_row fc (fst v) = fst v" and dec: "put_decision tie cfg d m fc (snd v) = snd v"
    using fixed by (metis fst_conv settle_def, metis snd_conv settle_def)
  have ins: "insert_forecast d fc w = (Inr False, w)"
    using put_row_fixed [of fc d "metric_kind m" "p_tables w"] row v clean kind
    by (auto simp: insert_forecast_def ret_def store_call_clean split: option.splits)
  obtain r where r: "decide cfg d m fc (latest_decision tie (snd v)) = Inr r"
    using decide_total [OF aw] latest_aware_decision by blast
  have "handle_alert stamp cfg d m fc (latest_decision tie (snd v)) w = (Inr (), w)"
  proof (cases r)
    case None
    then show ?thesis using r by (simp add: handle_alert_decide ret_def)
  next
    case (Some x)
    have "add_decision x (decisions d (metric_kind m) (p_tables w)) = decisions d (metric_kind m) (p_tables w)"
      using dec r Some v by (simp add: put_decision_def view_def)
    from insert_alert_fixed [OF this] decide_key [OF r [unfolded Some]]
    have "insert_alert_event x (p_tables w) = (None, p_tables w)" by simp
    then show ?thesis using r Some clean
      by (simp add: handle_alert_decide andthen_def store_call_clean announce_def ret_def)
  qed
  then show ?thesis using ins by (simp add: process_forecast_def andthen_def ret_def)
qed

lemma loop_settled:
  assumes "p_faults w = []" and "states_match tie states (p_tables w) items"
    and "\<forall>(d, m, fr) \<in> set items. \<exists>fc. fr = Inr fc \<and>
        settle tie cfg d m fc (view d (metric_kind m) (p_tables w)) = view d (metric_kind m) (p_tables w)"
  shows "afor items (process_item stamp cfg states) w = (Inr (), w)"
  using assms(2,3)
proof (induction items)
  case (Cons i items)
  obtain d m fr where i: "i = (d, m, fr)" by (cases i)
  obtain fc where fc: "fr = Inr fc" "settle tie cfg d m fc (view d (metric_kind m) (p_tables w)) = view d (metric_kind m) (p_tables w)"
    using Cons.prems(2) i by auto
  have s: "states (d, metric_kind m) = latest_decision tie (snd (view d (metric_kind m) (p_tables w)))"
    "fc_kind fc = metric_kind m" "aware_forecast fc"
    using Cons.prems(1) i fc(1) by (auto simp: states_match_def)
  have "process_item stamp cfg states i w = (Inr (), w)"
    using process_settled [OF assms(1) s(2,3) fc(2) refl] by (simp add: process_item_def i fc(1) s(1))
  moreover have "states_match tie states (p_tables w) items" using Cons.prems(1) by (simp add: states_match_def)
  ultimately show ?case using Cons.IH Cons.prems(2) by (simp add: andthen_def)
qed (simp add: ret_def)

lemma pass_devices:
  assumes "run_pass tie stamp cfg None None w = (Inr n, w')"
  shows "p_devices w' = (case n of None \<Rightarrow> 0
     | Some now \<Rightarrow> (case rmap (window_start now) (analytics_metrics cfg) of
           Inr ws \<Rightarrow> int (length (load_window (longest_window ws) (p_tables w))) | Inl e \<Rightarrow> 0))"
proof -
  obtain q w1 where q: "store_call (\<lambda>t. (data_now t, t)) w = (q, w1)" by force
  note t = read_call [OF q]
  from assms q obtain nd where nd: "q = Inr nd"
    by (cases q) (auto simp: run_pass_def Let_def raise_def andthen_def split: if_splits)
  show ?thesis
  proof (cases nd)
    case None
    then show ?thesis using assms q nd
      by (auto simp: run_pass_def Let_def raise_def andthen_def modify_def ret_def split: if_splits)
  next
    case (Some now)
    then obtain ws where ws: "rmap (window_start now) (analytics_metrics cfg) = Inr ws"
      using assms q nd
      by (cases "rmap (window_start now) (analytics_metrics cfg)")
        (auto simp: run_pass_def Let_def raise_def andthen_def split: if_splits)
    obtain q2 w2 where q2: "store_call (\<lambda>t. (load_window (longest_window ws) t, t)) w1 = (q2, w2)" by force
    show ?thesis
      using assms q nd Some ws q2 read_call(2) [OF q2] t(1)
      by (auto simp: run_pass_def pass_body_def Let_def raise_def andthen_def modify_def ret_def
          split: if_splits sum.splits prod.splits)
  qed
qed

lemma pass_repeats:
  assumes run: "run_pass tie stamp cfg None None w = (Inr n, w1)" and clean: "p_faults w1 = []"
  shows "run_pass tie stamp cfg None None w1 = (Inr n, w1)"
proof -
  obtain items where pl: "planned cfg (p_tables w) = Inr items"
    and fin: "all_done tie cfg items (p_tables w) (p_tables w1)" and n: "n = data_now (p_tables w)"
    using run_pass_views [OF run, of n] by auto
  have tel: "st_telemetry (p_tables w1) = st_telemetry (p_tables w)" using fin by (simp add: all_done_def)
  have now: "data_now (p_tables w1) = n" using tel n by (simp add: data_now_def)
  have pl1: "planned cfg (p_tables w1) = Inr items" using pl planned_telemetry [OF tel] by simp
  have kinds: "\<not> (\<exists>m \<in> set (analytics_metrics cfg). metric_kind m \<notin> set WINDOW_KINDS)"
    by (auto simp: analytics_metrics_def WINDOW_KINDS_def WATER_def BATTERY_def)
  show ?thesis
  proof (cases n)
    case None
    then have "p_devices w1 = 0" using pass_devices [OF run] by simp
    then show ?thesis using None now kinds clean
      by (simp add: run_pass_def andthen_def store_call_clean modify_def ret_def)
  next
    case (Some d)
    then obtain ws where ws: "rmap (window_start d) (analytics_metrics cfg) = Inr ws"
      and items: "items = pass_items d ws (load_window (longest_window ws) (p_tables w1))"
      using pl1 now by (auto simp: planned_def)
    have "load_window (longest_window ws) (p_tables w1) = load_window (longest_window ws) (p_tables w)"
      using tel by (simp add: load_window_def)
    then have dev: "p_devices w1 = int (length (load_window (longest_window ws) (p_tables w1)))"
      using pass_devices [OF run] Some ws by simp
    have settled: "\<forall>(d, m, fr) \<in> set items. \<exists>fc. fr = Inr fc \<and>
        settle tie cfg d m fc (view d (metric_kind m) (p_tables w1)) = view d (metric_kind m) (p_tables w1)"
    proof safe
      fix d m fr assume "(d, m, fr) \<in> set items"
      with fin obtain fc where "fr = Inr fc"
        "view d (metric_kind m) (p_tables w1) = settle tie cfg d m fc (view d (metric_kind m) (p_tables w))"
        by (fastforce simp: all_done_def)
      then show "\<exists>fc. fr = Inr fc \<and> settle tie cfg d m fc (view d (metric_kind m) (p_tables w1)) = view d (metric_kind m) (p_tables w1)"
        by (simp add: settle_absorbs(2))
    qed
    have "afor items (process_item stamp cfg (latest_alert_states tie (p_tables w1))) w1 = (Inr (), w1)"
      by (rule loop_settled [OF clean states_match_latest [OF pl1] settled])
    then show ?thesis
      using kinds clean now Some ws dev
      by (simp add: run_pass_def pass_body_def andthen_def store_call_clean modify_def ret_def pass_loop_items flip: items)
  qed
qed

end
