(* ===== verification/Demo_Fleet.thy ===== *)
theory Demo_Fleet
  imports Demo_Series End_To_End Analytics_Converge
begin

text \<open>
  One device with the readings of the family of examples, and the pass over it computed: the
  water forecast is the one of the series, the battery forecast is present whatever it says.
\<close>

definition demo_row :: "nat \<Rightarrow> nat \<Rightarrow> window_row" where
  "demo_row j k = \<lparr>wr_device = ''pot-1'', wr_at = int k * 450000000,
     wr_water = sample_value (demo_sample j k), wr_battery = Fin 3\<rparr>"

definition demo_tables :: "nat \<Rightarrow> store_tables" where
  "demo_tables j = \<lparr>st_telemetry = map (demo_row j) [0..<36], st_forecasts = Map.empty, st_alerts = []\<rparr>"

definition default_settings :: analytics_settings where
  "default_settings = \<lparr>interval_seconds = Fin 30, water_target_pct = Fin 10, battery_target_volts = fl (34 / 10),
     water_alert_days = Fin 2, battery_alert_days = Fin 3, alert_cooldown_hours = Fin 24, ntfy_url = ''ntfy''\<rparr>"

definition demo_pass_world :: "nat \<Rightarrow> pass_world" where
  "demo_pass_world j = \<lparr>p_tables = demo_tables j, p_faults = [], p_replies = [],
     p_counters = zero_analytics_counters, p_devices = 0, p_sent = []\<rparr>"

lemma default_metrics: "analytics_metrics default_settings = METRICS"
proof -
  have "fmul (Fin 2) (Fin 86400) = Fin (2 * 86400)" "fmul (Fin 3) (Fin 86400) = Fin (3 * 86400)"
    using small_Fin [of 172800] small_Fin [of 259200] by simp_all
  then show ?thesis by (simp add: analytics_metrics_def default_settings_def METRICS_def WATER_def BATTERY_def)
qed

lemma demo_data_now: "data_now (demo_tables j) = Some (35 * 450000000)"
proof -
  have "map wr_at (st_telemetry (demo_tables j)) = map (\<lambda>k. int k * 450000000) [0..<36]"
    by (simp add: demo_tables_def demo_row_def)
  moreover have "(case map (\<lambda>k. int k * 450000000) [0..<36] of [] \<Rightarrow> None | x # xs \<Rightarrow> Some (fold max xs x)) =
      Some (35 * 450000000)"
    by code_simp
  ultimately show ?thesis unfolding data_now_def by metis
qed

lemma metric_windows:
  assumes "dt_ok (now - 864000000000)" and "dt_ok (now - 3024000000000)"
  shows "rmap (window_start now) METRICS = Inr [(WATER, now - 864000000000), (BATTERY, now - 3024000000000)]"
proof -
  have td: "timedelta_of us_per_second (Fin (of_int n)) = mk_timedelta (n * 1000000)" for n
    by (simp add: scaled_us_def trunc_def)
  have lb: "lookback_seconds WATER = Fin (of_int 864000)" "lookback_seconds BATTERY = Fin (of_int 3024000)"
    by (simp_all add: WATER_def BATTERY_def)
  have mk: "mk_timedelta (864000 * 1000000) = Inr 864000000000" "mk_timedelta (3024000 * 1000000) = Inr 3024000000000"
    by (simp_all add: mk_timedelta_def td_ok_def)
  have "window_start now WATER = Inr (WATER, now - 864000000000)"
    "window_start now BATTERY = Inr (BATTERY, now - 3024000000000)"
    by (simp_all only: window_start_def lb td mk rbind_simps) (simp_all add: assms)
  then show ?thesis by (simp add: METRICS_def)
qed

lemma demo_windows:
  "rmap (window_start (35 * 450000000)) METRICS =
     Inr [(WATER, 35 * 450000000 - 864000000000), (BATTERY, 35 * 450000000 - 3024000000000)]"
  by (rule metric_windows) (simp_all add: dt_ok_def dt_min_def dt_max_def)

lemma fold_add_row_one:
  "rs \<noteq> [] \<Longrightarrow> \<forall>r \<in> set rs. wr_device r = d \<Longrightarrow> fold add_row rs [] = [(d, grouped rs)]"
proof (induction rs rule: rev_induct)
  case (snoc r rs)
  have d: "wr_device r = d" using snoc.prems(2) by simp
  show ?case
  proof (cases "rs = []")
    case True
    then show ?thesis by (simp add: add_row_def grouped_def row_samples_def WINDOW_KINDS_def d)
  next
    case False
    then have "fold add_row rs [] = [(d, grouped rs)]" using snoc by simp
    then have "fold add_row (rs @ [r]) [] = add_row r [(d, grouped rs)]" by simp
    also have "\<dots> = [(d, grouped (rs @ [r]))]" by (simp add: add_row_def grouped_def row_samples_def d)
    finally show ?thesis .
  qed
qed simp

lemma demo_select:
  assumes "cutoff < 0"
  shows "select_window cutoff (map (demo_row j) [0..<36]) = map (demo_row j) [0..<36]"
proof -
  have f: "[r \<leftarrow> map (demo_row j) [0..<36]. cutoff < wr_at r] = map (demo_row j) [0..<36]"
    using assms by (intro filter_True) (auto simp: demo_row_def)
  have "map (\<lambda>r. (wr_device r, wr_at r)) (map (demo_row j) [0..<36]) = map (\<lambda>k. (''pot-1'', int k * 450000000)) [0..<36]"
    by (simp add: demo_row_def)
  moreover have "sorted (map (\<lambda>k. (''pot-1'', int k * 450000000)) [0..<36])"
    by (auto simp: sorted_wrt_map intro!: sorted_wrt_mono_rel [OF _ sorted_wrt_upt])
  ultimately show ?thesis unfolding select_window_def f by (intro sort_key_id_if_sorted) metis
qed

lemma demo_window:
  assumes "cutoff < 0"
  shows "load_window cutoff (demo_tables j) = [(''pot-1'', grouped (map (demo_row j) [0..<36]))]"
  using demo_select [OF assms, of j]
  by (simp add: load_window_def demo_tables_def fold_add_row_one demo_row_def del: upt_0 upt_Suc)

lemma demo_water: "row_samples wr_water (map (demo_row j) [0..<36]) = demo_series j"
  by (simp add: row_samples_def demo_series_def demo_row_def demo_sample_def)

definition demo_battery :: "nat \<Rightarrow> sample list" where
  "demo_battery j = row_samples wr_battery (map (demo_row j) [0..<36])"

lemma demo_newer:
  assumes "start < 0"
  shows "newer_samples start (demo_series j) = Inr (demo_series j)"
    and "newer_samples start (demo_battery j) = Inr (demo_battery j)"
proof -
  have "\<forall>s \<in> set (demo_series j). is_aware (sample_at s) \<and> start < at_us s"
    "\<forall>s \<in> set (demo_battery j). is_aware (sample_at s) \<and> start < at_us s"
    using assms by (auto simp: demo_series_def demo_sample_def at_us_def demo_battery_def row_samples_def demo_row_def)
  then show "newer_samples start (demo_series j) = Inr (demo_series j)"
    and "newer_samples start (demo_battery j) = Inr (demo_battery j)"
    by (simp_all add: newer_samples_aware)
qed

lemma demo_rows_fine: "j \<le> 40 \<Longrightarrow> rows_fine (st_telemetry (demo_tables j))"
proof -
  assume j: "j \<le> 40"
  have "wf_float (Fin 3)" using representable_of_int [of 3] by simp
  moreover have "finite_float (sample_value (demo_sample j k)) \<and> wf_float (sample_value (demo_sample j k))" if "k < 36" for k
    using valid_sampleD [OF demo_valid, of "demo_sample j k" j] demo_typed [of j] that j
    by (auto simp: set_demo typed_series_def typed_sample_def)
  ultimately show ?thesis
    by (auto simp: rows_fine_def demo_tables_def demo_row_def row_key_def distinct_map inj_on_def
        dt_ok_def dt_min_def dt_max_def)
qed

lemma demo_battery_forecast:
  assumes "j \<le> 40"
  shows "\<exists>fc. forecast (demo_battery j) BATTERY demo_now w = Inr fc"
proof -
  have v: "is_valid_series (demo_battery j)"
  proof -
    have "device_rows (-1) ''pot-1'' (st_telemetry (demo_tables j)) = map (demo_row j) [0..<36]"
      unfolding device_rows_def demo_tables_def by (simp add: demo_select demo_row_def del: upt_0 upt_Suc)
    then show ?thesis
      using row_samples_valid(1) [OF demo_rows_fine [OF assms], of wr_battery "-1" "''pot-1''"] by (simp add: demo_battery_def)
  qed
  have ne: "demo_battery j \<noteq> []" by (simp add: demo_battery_def row_samples_def)
  have "fl 3 \<le> fl (34 / 10)" by (rule fl_mono) simp
  then have "Fin 3 \<le> target BATTERY" using small_Fin [of 3] by (simp add: BATTERY_def)
  moreover have "target BATTERY \<noteq> NaN" by (simp add: BATTERY_def)
  ultimately have low: "fle (sample_value (last (demo_battery j))) (target BATTERY)"
    by (simp add: demo_battery_def row_samples_def demo_row_def last_map fle_def)
  have now: "is_aware demo_now" by (simp add: demo_now_def)
  show ?thesis
    unfolding forecast_valid [OF v ne now] using low by simp
qed

text \<open>The plan of the pass.\<close>

definition demo_items :: "nat \<Rightarrow> pass_item list" where
  "demo_items j =
     [(''pot-1'', WATER, forecast (demo_series j) WATER demo_now (Some (Aware (35 * 450000000 - 864000000000)))),
      (''pot-1'', BATTERY, forecast (demo_battery j) BATTERY demo_now (Some (Aware (35 * 450000000 - 3024000000000))))]"

lemma demo_planned: "planned default_settings (demo_tables j) = Inr (demo_items j)"
proof -
  have lw: "longest_window [(WATER, 35 * 450000000 - 864000000000), (BATTERY, 35 * 450000000 - 3024000000000)] = - 3008250000000"
    by (simp add: longest_window_def)
  have k: "metric_kind WATER = ''water''" "metric_kind BATTERY = ''battery''" by (simp_all add: WATER_def BATTERY_def)
  show ?thesis
    unfolding planned_def demo_data_now default_metrics option.case demo_windows rbind_simps lw
    using demo_window [of "- 3008250000000" j]
    by (simp add: pass_items_def device_forecast_def grouped_def demo_water k demo_newer demo_items_def demo_now_def
        flip: demo_battery_def)
qed

lemma demo_items_fine: "\<forall>(d, m, fr) \<in> set (demo_items 0). \<exists>fc. fr = Inr fc"
  using demo_ok_window [of "Some (Aware (35 * 450000000 - 864000000000))"] demo_battery_forecast [of 0]
  by (fastforce simp: demo_items_def)

end
