(* ===== verification/Analytics_Loop.thy ===== *)
theory Analytics_Loop
  imports Window_Laws
begin

text \<open>
  The interval loop: what every reachable state keeps (no push without its recorded decision, no
  decision recorded twice), and what can end the loop other than a stop.
\<close>

section \<open>Invariants of a pass\<close>

lemma read_call_world:
  "store_call (\<lambda>t. (f t, t)) w = (q, w') \<Longrightarrow> w' = w\<lparr>p_faults := tl (p_faults w)\<rparr>"
  by (auto simp: store_call_def execute_def Let_def split: prod.splits fault.splits)

lemma keeps_read: "(\<And>w fs. P w \<Longrightarrow> P (w\<lparr>p_faults := fs\<rparr>)) \<Longrightarrow> keeps P (store_call (\<lambda>t. (f t, t)))"
  by (simp add: keeps_def store_call_def execute_def Let_def split: fault.split list.split)

lemma run_pass_keeps:
  assumes faults: "\<And>w fs. P w \<Longrightarrow> P (w\<lparr>p_faults := fs\<rparr>)" and devices: "\<And>w n. P w \<Longrightarrow> P (w\<lparr>p_devices := n\<rparr>)"
    and one: "\<And>d m previous fr. keeps P (process_forecast stamp cfg d m previous fr)"
  shows "keeps P (run_pass tie stamp cfg connect since)"
proof -
  note read = keeps_read [of P, OF faults]
  have dev: "keeps P (modify (\<lambda>w. w\<lparr>p_devices := n\<rparr>))" for n
    by (rule keeps_modify) (rule devices)
  have body: "keeps P (pass_body tie stamp cfg now ws)" for now ws
    unfolding pass_body_def
    by (intro keeps_andthen read dev keeps_afor) (auto intro!: keeps_afor one)
  show ?thesis
    unfolding run_pass_def Let_def
    by (auto intro!: keeps_andthen read dev body split: option.splits sum.splits)
qed

definition decision_key :: "decision \<Rightarrow> string \<times> string \<times> int \<times> alert_transition_kind" where
  "decision_key x = (ad_device x, ad_kind x, ad_as_of x, ad_state x)"

definition unique_decisions :: "store_tables \<Rightarrow> bool" where
  "unique_decisions t \<longleftrightarrow> distinct (map (decision_key \<circ> ae_decision) (st_alerts t))"

definition firings :: "store_tables \<Rightarrow> int" where
  "firings t = int (length [e \<leftarrow> st_alerts t. ad_state (ae_decision e) = Firing])"

text \<open>\<open>pushes\<close> relative to the number \<open>n\<close> of firings the process found when it started.\<close>

definition pushes_recorded :: "int \<Rightarrow> pass_world \<Rightarrow> bool" where
  "pushes_recorded n w \<longleftrightarrow> int (length (p_sent w)) \<le> alerts_fired (p_counters w) \<and>
     alerts_fired (p_counters w) + n \<le> firings (p_tables w) \<and> unique_decisions (p_tables w)"

lemma mark_unchanged: "unique_decisions (snd (mark_notified i err t)) = unique_decisions t"
  "firings (snd (mark_notified i err t)) = firings t"
proof -
  let ?f = "\<lambda>e. if ae_id e = i then e\<lparr>ae_notified := (err = None), ae_error := err\<rparr> else e"
  have d: "ae_decision (?f e) = ae_decision e" for e by simp
  have m: "map ae_decision (map ?f es) = map ae_decision es" for es by (induction es) simp_all
  have k: "map (decision_key \<circ> ae_decision) (map ?f es) = map (decision_key \<circ> ae_decision) es" for es
    using m [of es] by (metis map_map)
  have a: "st_alerts (snd (mark_notified i err t)) = map ?f (st_alerts t)" by (simp add: mark_notified_def)
  show "unique_decisions (snd (mark_notified i err t)) = unique_decisions t"
    by (simp only: unique_decisions_def a k)
  have "length [e \<leftarrow> map ?f es. ad_state (ae_decision e) = Firing] = length [e \<leftarrow> es. ad_state (ae_decision e) = Firing]" for es
    by (induction es) (simp_all add: d)
  then show "firings (snd (mark_notified i err t)) = firings t" by (simp add: firings_def mark_notified_def)
qed

lemma insert_unique: "unique_decisions t \<Longrightarrow> unique_decisions (snd (insert_alert_event x t))"
  by (auto simp: unique_decisions_def insert_alert_event_def same_decision_def decision_key_def Let_def)

lemma insert_firings:
  "firings t \<le> firings (snd (insert_alert_event x t))"
  "fst (insert_alert_event x t) = Some i \<Longrightarrow> ad_state x = Firing \<Longrightarrow> firings (snd (insert_alert_event x t)) = firings t + 1"
  by (cases "\<exists>e \<in> set (st_alerts t). same_decision (ae_decision e) x"; simp add: firings_def insert_alert_event_def Let_def)+

lemma upsert_unchanged: "unique_decisions (snd (upsert_forecast key row t)) = unique_decisions t"
  "firings (snd (upsert_forecast key row t)) = firings t"
  by (auto simp: unique_decisions_def firings_def upsert_forecast_def split: option.splits)

lemma store_call_fields:
  "store_call stmt w = (r, w') \<Longrightarrow> p_sent w' = p_sent w \<and> p_counters w' = p_counters w \<and> p_devices w' = p_devices w"
  by (auto simp: store_call_def execute_def Let_def split: prod.splits fault.splits)

lemma keeps_pushes_call:
  assumes "\<And>t. unique_decisions t \<Longrightarrow> unique_decisions (snd (stmt t))" and "\<And>t. firings t \<le> firings (snd (stmt t))"
  shows "keeps (pushes_recorded n) (store_call stmt)"
  unfolding keeps_def
proof (intro allI impI)
  fix w assume w: "pushes_recorded n w"
  obtain r w' where c: "store_call stmt w = (r, w')" by force
  show "pushes_recorded n (snd (store_call stmt w))"
    using store_call_tables [OF c] store_call_fields [OF c] c w assms [of "p_tables w"]
    by (auto simp: pushes_recorded_def)
qed

lemma keeps_pushes_bump: "(\<And>c. alerts_fired (f c) = alerts_fired c) \<Longrightarrow> keeps (pushes_recorded n) (bump f)"
  unfolding bump_def by (rule keeps_modify) (simp add: pushes_recorded_def)

lemma announce_firing_pushes:
  assumes "int (length (p_sent w)) \<le> alerts_fired (p_counters w)"
    and "alerts_fired (p_counters w) + 1 + n \<le> firings (p_tables w)" and "unique_decisions (p_tables w)"
  shows "pushes_recorded n (snd (announce_firing stamp cfg d m fc h i w))"
proof -
  let ?w1 = "w\<lparr>p_counters := (p_counters w)\<lparr>alerts_fired := alerts_fired (p_counters w) + 1\<rparr>\<rparr>"
  obtain s where s: "alert_message stamp fc h = Inr s" using alert_message_total by blast
  obtain err w2 where p: "post_ntfy (alert_title d (metric_kind m)) s ?w1 = (Inr err, w2)"
    by (simp add: post_ntfy_def Let_def)
  then have w2: "pushes_recorded n w2" using assms by (auto simp: post_ntfy_def Let_def pushes_recorded_def)
  have "keeps (pushes_recorded n) (andthen (store_call (mark_notified i err))
      (\<lambda>_. if err = None then ret () else bump (\<lambda>c. c\<lparr>notify_failures := notify_failures c + 1\<rparr>)))"
    by (auto intro!: keeps_andthen keeps_pushes_call keeps_pushes_bump simp: mark_unchanged)
  then have "pushes_recorded n (snd (andthen (store_call (mark_notified i err))
      (\<lambda>_. if err = None then ret () else bump (\<lambda>c. c\<lparr>notify_failures := notify_failures c + 1\<rparr>)) w2))"
    using w2 by (simp add: keeps_def)
  moreover have "pushes_recorded n ?w1" using assms by (simp add: pushes_recorded_def)
  ultimately show ?thesis
    using s p by (auto simp: announce_firing_def andthen_def bump_def modify_def ret_def)
qed

lemma keeps_pushes_alert: "keeps (pushes_recorded n) (handle_alert stamp cfg d m fc previous)"
  unfolding keeps_def
proof (intro allI impI)
  fix w assume w: "pushes_recorded n w"
  show "pushes_recorded n (snd (handle_alert stamp cfg d m fc previous w))"
  proof (cases "\<exists>x. decide cfg d m fc previous = Inr (Some x)")
    case False
    then show ?thesis using w by (auto simp: handle_alert_decide act_simps split: sum.splits option.splits)
  next
    case True
    then obtain x where x: "decide cfg d m fc previous = Inr (Some x)" by blast
    obtain q w1 where q: "store_call (insert_alert_event x) w = (q, w1)" by force
    have w1: "pushes_recorded n w1"
      using keeps_pushes_call [of "insert_alert_event x" n] insert_unique insert_firings(1) w q by (metis keeps_def snd_conv)
    note t = store_call_tables [OF q] and f = store_call_fields [OF q]
    have h: "handle_alert stamp cfg d m fc previous w =
        andthen (store_call (insert_alert_event x)) (announce stamp cfg d m fc (ad_horizon x) (ad_state x)) w"
      using x by (simp add: handle_alert_decide)
    show ?thesis
    proof (cases q)
      case (Inl e)
      then show ?thesis using h q w1 by (simp add: andthen_def)
    next
      case (Inr event)
      have h: "handle_alert stamp cfg d m fc previous w = announce stamp cfg d m fc (ad_horizon x) (ad_state x) event w1"
        using h q Inr by (simp add: andthen_def)
      show ?thesis
      proof (cases "\<exists>i. event = Some i \<and> ad_state x = Firing")
        case True
        then obtain i where i: "event = Some i" "ad_state x = Firing" by blast
        then have "firings (p_tables w1) = firings (p_tables w) + 1"
          using t Inr insert_firings(2) by metis
        then show ?thesis
          using announce_firing_pushes [of w1 n stamp cfg d m fc "ad_horizon x" i] w w1 f h i
          by (simp add: announce_def pushes_recorded_def)
      next
        case False
        have "keeps (pushes_recorded n) (bump (\<lambda>c. c\<lparr>alerts_cleared := alerts_cleared c + 1\<rparr>))"
          by (rule keeps_pushes_bump) simp
        then show ?thesis using False h w1 by (auto simp: announce_def ret_def keeps_def split: option.splits)
      qed
    qed
  qed
qed

lemma keeps_pushes_forecast: "keeps (pushes_recorded n) (process_forecast stamp cfg d m previous fr)"
  unfolding process_forecast_def insert_forecast_def
  by (auto intro!: keeps_andthen keeps_pushes_call keeps_pushes_bump keeps_pushes_alert
      split: sum.splits option.splits simp: upsert_unchanged)

lemma keeps_pushes_pass: "keeps (pushes_recorded n) (run_pass tie stamp cfg connect since)"
  by (rule run_pass_keeps) (simp add: pushes_recorded_def, simp add: pushes_recorded_def, rule keeps_pushes_forecast)

section \<open>Reachable states\<close>

lemma reach_pushes:
  assumes "analytics_reach tie stamp cfg t s" and "unique_decisions t"
  shows "pushes_recorded (firings t) (an_world s)"
  using assms(1)
proof (induction rule: analytics_reach.induct)
  case start
  then show ?case
    using assms(2) by (simp add: start_analytics_def pushes_recorded_def zero_analytics_counters_def)
next
  case (step s ev)
  show ?case
  proof (cases ev)
    case (Tick connect faults replies began ended)
    obtain r w where rw: "run_pass tie stamp cfg connect (an_last_data_now s)
        ((an_world s)\<lparr>p_faults := faults, p_replies := replies\<rparr>) = (r, w)" by force
    have "pushes_recorded (firings t) ((an_world s)\<lparr>p_faults := faults, p_replies := replies\<rparr>)"
      using step.IH by (simp add: pushes_recorded_def)
    then have "pushes_recorded (firings t) w" using keepsD [OF keeps_pushes_pass _ rw] by blast
    then show ?thesis
      using Tick rw step.IH
      by (auto simp: tick_def after_pass_def Let_def pushes_recorded_def split: sum.splits)
  qed (use step.IH in \<open>auto simp: pushes_recorded_def firings_def unique_decisions_def\<close>)
qed

section \<open>What ends the loop\<close>

text \<open>
  Over fixed readings \<open>tel\<close>: \<open>m\<close> raises what the fault script holds or something in \<open>X\<close>, and leaves the
  readings alone.
\<close>

definition raises_only :: "window_row list \<Rightarrow> py_exc set \<Rightarrow> (pass_world, 'a) act \<Rightarrow> bool" where
  "raises_only tel X m \<longleftrightarrow> (\<forall>w r w'. st_telemetry (p_tables w) = tel \<longrightarrow> m w = (r, w') \<longrightarrow>
     st_telemetry (p_tables w') = tel \<and> set (p_faults w') \<subseteq> set (p_faults w) \<and>
     (\<forall>e. r = Inl e \<longrightarrow> e \<in> fault_excs (p_faults w) \<union> X))"

lemma raises_only_ret [simp]: "raises_only tel X (ret x)"
  and raises_only_raise: "e \<in> X \<Longrightarrow> raises_only tel X (raise e)"
  and raises_only_modify: "(\<And>w. p_tables (f w) = p_tables w \<and> p_faults (f w) = p_faults w) \<Longrightarrow> raises_only tel X (modify f)"
  by (simp_all add: raises_only_def ret_def raise_def modify_def)

lemma raises_only_bump [simp]: "raises_only tel X (bump f)"
  unfolding bump_def by (rule raises_only_modify) simp

lemma raises_only_post [simp]: "raises_only tel X (post_ntfy title message)"
  by (simp add: raises_only_def post_ntfy_def Let_def)

lemma raises_only_call:
  assumes "\<And>t. st_telemetry (snd (stmt t)) = st_telemetry t"
  shows "raises_only tel X (store_call stmt)"
  unfolding raises_only_def
proof (intro allI impI)
  fix w r w' assume tel: "st_telemetry (p_tables w) = tel" and c: "store_call stmt w = (r, w')"
  have "set (tl (p_faults w)) \<subseteq> set (p_faults w)" by (cases "p_faults w") auto
  moreover have "e \<in> fault_excs (p_faults w)" if "r = Inl e" for e
    using c that by (cases "p_faults w") (auto simp: store_call_def execute_def fault_excs_def split: fault.splits prod.splits)
  moreover have "p_faults w' = tl (p_faults w)" using c by (auto simp: store_call_def Let_def split: prod.splits)
  ultimately show "st_telemetry (p_tables w') = tel \<and> set (p_faults w') \<subseteq> set (p_faults w) \<and>
     (\<forall>e. r = Inl e \<longrightarrow> e \<in> fault_excs (p_faults w) \<union> X)"
    using store_call_tables [OF c] tel assms by auto
qed

lemma raises_only_andthen:
  assumes m: "raises_only tel X m"
    and f: "\<And>x w w'. st_telemetry (p_tables w) = tel \<Longrightarrow> m w = (Inr x, w') \<Longrightarrow> raises_only tel X (f x)"
  shows "raises_only tel X (andthen m f)"
  unfolding raises_only_def
proof (intro allI impI)
  fix w r w' assume tel: "st_telemetry (p_tables w) = tel" and a: "andthen m f w = (r, w')"
  obtain q w1 where q: "m w = (q, w1)" by force
  note m1 = m [unfolded raises_only_def, rule_format, OF tel q]
  show "st_telemetry (p_tables w') = tel \<and> set (p_faults w') \<subseteq> set (p_faults w) \<and>
     (\<forall>e. r = Inl e \<longrightarrow> e \<in> fault_excs (p_faults w) \<union> X)"
  proof (cases q)
    case (Inl e)
    then show ?thesis using a q m1 by (auto simp: andthen_def)
  next
    case (Inr x)
    have "f x w1 = (r, w')" using a q Inr by (simp add: andthen_def)
    then have "st_telemetry (p_tables w') = tel \<and> set (p_faults w') \<subseteq> set (p_faults w1) \<and>
        (\<forall>e. r = Inl e \<longrightarrow> e \<in> fault_excs (p_faults w1) \<union> X)"
      using f [OF tel q [unfolded Inr]] m1 unfolding raises_only_def by blast
    then show ?thesis using m1 unfolding fault_excs_def by blast
  qed
qed

lemma raises_only_afor: "(\<And>x. x \<in> set xs \<Longrightarrow> raises_only tel X (f x)) \<Longrightarrow> raises_only tel X (afor xs f)"
  by (induction xs) (auto intro: raises_only_andthen)

lemma raises_only_announce: "raises_only tel X (announce stamp cfg d m fc h tr event)"
  using alert_message_total [of stamp fc h]
  by (auto simp: announce_def announce_firing_def split: option.splits sum.splits
      intro!: raises_only_andthen raises_only_call)

lemma raises_only_process:
  assumes "fr = Inl e \<Longrightarrow> e \<in> X" and "\<And>fc. fr = Inr fc \<Longrightarrow> aware_forecast fc"
    and "\<And>p. previous = Some p \<Longrightarrow> is_aware (alert_as_of p)" and "\<And>e. fr = Inl e \<Longrightarrow> e \<in> X"
  shows "raises_only tel X (process_forecast stamp cfg d m previous fr)"
proof (cases fr)
  case (Inl e)
  then show ?thesis using assms(4) by (simp add: process_forecast_def raises_only_raise)
next
  case (Inr fc)
  obtain r where r: "decide cfg d m fc previous = Inr r" using decide_total assms(2,3) Inr by blast
  have "raises_only tel X (handle_alert stamp cfg d m fc previous)"
    by (cases r) (auto simp: handle_alert_decide r intro!: raises_only_andthen raises_only_call raises_only_announce)
  then show ?thesis
    using Inr by (auto simp: process_forecast_def insert_forecast_def split: option.splits
        intro!: raises_only_andthen raises_only_call)
qed

lemma window_start_exc: "m \<in> set (analytics_metrics cfg) \<Longrightarrow> window_start now m = Inl e \<Longrightarrow> e = OverflowError"
  by (auto simp: window_start_def analytics_metrics_def WATER_def BATTERY_def scaled_us_def trunc_def mk_timedelta_def
      rbind_Inl_iff split: if_splits)

lemma rmap_exc: "rmap f xs = Inl e \<Longrightarrow> \<exists>x \<in> set xs. f x = Inl e"
  by (induction xs) (auto simp: rbind_Inl_iff)

lemma pass_items_fine:
  assumes fine: "rows_fine (st_telemetry t)" and ws: "rmap (window_start now) (analytics_metrics cfg) = Inr ws"
    and mem: "(d, m, fr) \<in> set (pass_items now ws (load_window c t))"
  shows "(\<forall>fc. fr = Inr fc \<longrightarrow> aware_forecast fc) \<and> (\<forall>e. fr = Inl e \<longrightarrow> e = OverflowError)"
proof -
  obtain by_kind start where i: "(m, start) \<in> set ws" "fr = device_forecast now by_kind m start"
    "(d, by_kind) \<in> set (load_window c t)"
    using mem by (fastforce simp: pass_items_def)
  have "map fst ws = analytics_metrics cfg" using rmap_window_start [OF ws] .
  with i(1) have m: "m \<in> set (analytics_metrics cfg)" by (metis fst_conv image_eqI list.set_map)
  obtain xs where xs: "typed_series xs" "fr = forecast xs m (Aware now) (Some (Aware start))"
    using device_forecast_series [OF fine i(3) m, of now start] i(2) by metis
  have k: "0 < max_fit_points m" "max_fit_points m \<le> 2 ^ 17"
    using analytics_fit_metric [OF m] by (simp_all add: fit_metric_def)
  have "e = OverflowError" if "fr = Inl e" for e
    using forecast_exceptions [OF xs(1) k, of "Some (Aware start)" "Aware now" e] that xs(2) by simp
  moreover have "aware_forecast fc" if "fr = Inr fc" for fc
    using forecast_aware [OF _ k(1)] that xs(2) by metis
  ultimately show ?thesis by blast
qed

lemma raises_only_body:
  assumes fine: "rows_fine tel" and ws: "rmap (window_start now) (analytics_metrics cfg) = Inr ws"
  shows "raises_only tel {OverflowError} (pass_body tie stamp cfg now ws)"
  unfolding pass_body_def pass_loop_items
proof (intro raises_only_andthen raises_only_call raises_only_afor raises_only_modify)
  fix window w w' states v v' x
  assume w: "st_telemetry (p_tables w) = tel" "store_call (\<lambda>t. (load_window (longest_window ws) t, t)) w = (Inr window, w')"
    and v: "store_call (\<lambda>t. (latest_alert_states tie t, t)) v = (Inr states, v')"
    and x: "x \<in> set (pass_items now ws window)"
  obtain d m fr where i: "x = (d, m, fr)" by (cases x)
  have "window = load_window (longest_window ws) (p_tables w)" by (rule read_call(2) [OF w(2) refl])
  then have "(\<forall>fc. fr = Inr fc \<longrightarrow> aware_forecast fc) \<and> (\<forall>e. fr = Inl e \<longrightarrow> e = OverflowError)"
    using pass_items_fine [of "p_tables w" now cfg ws d m fr "longest_window ws"] fine ws w(1) x i by simp
  moreover have "states = latest_alert_states tie (p_tables v)" by (rule read_call(2) [OF v refl])
  then have "is_aware (alert_as_of p)" if "states (d, metric_kind m) = Some p" for p
    using that latest_aware_decision by (simp add: latest_alert_states_def)
  ultimately show "raises_only tel {OverflowError} (process_item stamp cfg states x)"
    unfolding i process_item_def prod.case by (intro raises_only_process) auto
qed simp_all

lemma run_pass_exc:
  assumes fine: "rows_fine (st_telemetry (p_tables w))" and run: "run_pass tie stamp cfg connect since w = (Inl e, w')"
  shows "connect = Some e \<or> e \<in> fault_excs (p_faults w) \<or> e = OverflowError"
proof (cases connect)
  case (Some e')
  have kinds: "\<not> (\<exists>m \<in> set (analytics_metrics cfg). metric_kind m \<notin> set WINDOW_KINDS)"
    by (auto simp: analytics_metrics_def WINDOW_KINDS_def WATER_def BATTERY_def)
  show ?thesis using run Some kinds by (simp add: run_pass_def raise_def)
next
  case None
  have kinds: "\<not> (\<exists>m \<in> set (analytics_metrics cfg). metric_kind m \<notin> set WINDOW_KINDS)"
    by (auto simp: analytics_metrics_def WINDOW_KINDS_def WATER_def BATTERY_def)
  let ?tel = "st_telemetry (p_tables w)"
  have "raises_only ?tel {OverflowError} (run_pass tie stamp cfg None since)"
    unfolding run_pass_def Let_def if_not_P [OF kinds] option.case
    by (intro raises_only_andthen raises_only_call)
      (auto split: option.splits sum.splits intro!: raises_only_andthen raises_only_modify raises_only_raise
        raises_only_body [OF fine] dest!: rmap_exc window_start_exc)
  then show ?thesis using run None unfolding raises_only_def by blast
qed

end
