(* ===== verification/Health.thy ===== *)
theory Health
  imports Ingest_Safety Analytics_Loop
begin

text \<open>
  The ops surface: the two \<^verbatim>\<open>healthz_payload\<close> functions (\<^verbatim>\<open>ingestion/ops.py\<close>, \<^verbatim>\<open>analytics/ops.py\<close>)
  and the metric families the collectors of \<^verbatim>\<open>ops.py\<close> and \<^verbatim>\<open>analytics/ops.py\<close> yield. The HTTP server
  and the Prometheus text format are libraries.
\<close>

section \<open>Health payloads\<close>

record ingest_health =
  ih_status :: string
  ih_broker_connected :: bool
  ih_db_connected :: bool
  ih_counters :: counters

definition status_text :: "bool \<Rightarrow> string" where
  "status_text healthy = (if healthy then ''healthy'' else ''unhealthy'')"

definition ingest_healthz :: "'p service \<Rightarrow> int \<times> ingest_health" where
  "ingest_healthz s =
     (let healthy = broker_connected s \<and> db_connected s
      in (if healthy then 200 else 503,
          \<lparr>ih_status = status_text healthy, ih_broker_connected = broker_connected s,
           ih_db_connected = db_connected s, ih_counters = w_counters (s_world s)\<rparr>))"

record analytics_health =
  ah_status :: string
  ah_last_pass_ok :: bool
  ah_seconds_since_last_pass :: "pyfloat option"
  ah_counters :: analytics_counters

definition OVERDUE_FACTOR :: pyfloat where
  "OVERDUE_FACTOR = Fin 2"

definition OVERDUE_GRACE_SECONDS :: pyfloat where
  "OVERDUE_GRACE_SECONDS = Fin 30"

definition overdue_after :: "pyfloat \<Rightarrow> pyfloat" where
  "overdue_after interval = fadd (fmul interval OVERDUE_FACTOR) OVERDUE_GRACE_SECONDS"

definition analytics_healthz :: "analytics_service \<Rightarrow> pyfloat \<Rightarrow> pyfloat \<Rightarrow> int \<times> analytics_health" where
  "analytics_healthz s interval now =
     (let seconds_since = map_option (\<lambda>t. fsub now t) (last_pass_monotonic s);
          healthy = last_pass_ok s \<and> (case seconds_since of None \<Rightarrow> False | Some x \<Rightarrow> fle x (overdue_after interval))
      in (if healthy then 200 else 503,
          \<lparr>ah_status = status_text healthy, ah_last_pass_ok = last_pass_ok s,
           ah_seconds_since_last_pass = seconds_since, ah_counters = p_counters (an_world s)\<rparr>))"

section \<open>Metric families\<close>

definition spaces :: "string \<Rightarrow> string" where
  "spaces name = map (\<lambda>c. if c = CHR ''_'' then CHR '' '' else c) name"

text \<open>One family per field: name, help text, value. \<open>help\<close> is the filled-in \<^verbatim>\<open>help_format\<close>.\<close>

definition collect_counters :: "string \<Rightarrow> (string \<Rightarrow> string) \<Rightarrow> (string \<times> int) list \<Rightarrow> (string \<times> string \<times> int) list" where
  "collect_counters prefix help entries = map (\<lambda>(name, v). (prefix @ name, help (spaces name), v)) entries"

definition default_help :: "string \<Rightarrow> string" where
  "default_help x = ''Total '' @ x @ '' since service start.''"

definition ingest_help :: "string \<Rightarrow> string" where
  "ingest_help x = ''Messages '' @ x @ '' since service start.''"

text \<open>\<^verbatim>\<open>asdict\<close> of the counters: the fields in the order of the class.\<close>

definition ingest_entries :: "counters \<Rightarrow> (string \<times> int) list" where
  "ingest_entries c =
     [(''ingested'', ingested c), (''deduplicated'', deduplicated c),
      (''dead_lettered'', dead_lettered c), (''out_of_order'', out_of_order c)]"

definition analytics_entries :: "analytics_counters \<Rightarrow> (string \<times> int) list" where
  "analytics_entries c =
     [(''passes'', passes c), (''pass_failures'', pass_failures c), (''forecasts_written'', forecasts_written c),
      (''alerts_fired'', alerts_fired c), (''alerts_cleared'', alerts_cleared c), (''notify_failures'', notify_failures c)]"

text \<open>\<^verbatim>\<open>str.capitalize\<close> on the ASCII field names.\<close>

definition upper :: "char \<Rightarrow> char" where
  "upper c = (if CHR ''a'' \<le> c \<and> c \<le> CHR ''z'' then char_of ((of_char c :: nat) - 32) else c)"

fun capitalize_name :: "string \<Rightarrow> string" where
  "capitalize_name [] = []"
| "capitalize_name (c # cs) = upper c # cs"

definition analytics_gauges :: "analytics_service \<Rightarrow> (string \<times> string \<times> pyfloat) list" where
  "analytics_gauges s = map (\<lambda>(name, v). (''planter_analytics_'' @ name,
       capitalize_name (spaces name) @ '', as of the last pass.'', v))
     [(''last_pass_duration_seconds'', last_pass_duration_seconds s), (''devices_forecast'', fl (of_int (p_devices (an_world s))))]"

section \<open>What the payloads say\<close>

lemma ingest_healthz_code:
  assumes "reach decode msg cfg ok t s"
  shows "fst (ingest_healthz s) = 200 \<longleftrightarrow> broker_phase (s_phase s)"
  using reach_flags [OF assms]
  by (auto simp: ingest_healthz_def flags_ok_def broker_phase_def db_phase_def client_up_def Let_def)

definition pass_counts :: "int \<times> int \<Rightarrow> pass_world \<Rightarrow> bool" where
  "pass_counts n w \<longleftrightarrow> (passes (p_counters w), pass_failures (p_counters w)) = n"

lemma keeps_counts_call: "keeps (pass_counts n) (store_call stmt)"
  unfolding keeps_def using store_call_fields [of stmt] by (metis pass_counts_def prod.collapse)

lemma keeps_counts: "keeps (pass_counts n) (process_forecast stamp cfg d m previous fr)"
proof -
  have bump: "keeps (pass_counts n) (bump f)"
    if "\<And>c. passes (f c) = passes c \<and> pass_failures (f c) = pass_failures c" for f
    unfolding bump_def by (rule keeps_modify) (simp add: pass_counts_def that)
  have post: "keeps (pass_counts n) (post_ntfy title message)" for title message
    by (auto simp: keeps_def post_ntfy_def pass_counts_def Let_def)
  have announce: "keeps (pass_counts n) (announce stamp cfg d m fc h tr event)" for fc h tr event
    by (auto simp: announce_def announce_firing_def split: option.splits sum.splits intro!: keeps_andthen bump post keeps_counts_call)
  have alert: "keeps (pass_counts n) (handle_alert stamp cfg d m fc previous)" for fc
    by (auto simp: handle_alert_decide split: option.splits sum.splits intro!: keeps_andthen keeps_counts_call announce)
  show ?thesis
    by (auto simp: process_forecast_def insert_forecast_def split: option.splits sum.splits
        intro!: keeps_andthen keeps_counts_call bump alert)
qed

lemma run_pass_counts: "keeps (pass_counts n) (run_pass tie stamp cfg connect since)"
  by (rule run_pass_keeps) (simp add: pass_counts_def, simp add: pass_counts_def, rule keeps_counts)

text \<open>A positive verdict means that a pass has succeeded; without an attempt there is none.\<close>

definition attempts_counted :: "analytics_service \<Rightarrow> bool" where
  "attempts_counted s \<longleftrightarrow>
     0 \<le> passes (p_counters (an_world s)) \<and> 0 \<le> pass_failures (p_counters (an_world s)) \<and>
     (last_pass_ok s \<longrightarrow> 1 \<le> passes (p_counters (an_world s))) \<and>
     (last_pass_monotonic s = None \<longleftrightarrow> passes (p_counters (an_world s)) + pass_failures (p_counters (an_world s)) = 0)"

lemma reach_attempts: "analytics_reach tie stamp cfg t s \<Longrightarrow> attempts_counted s"
proof (induction rule: analytics_reach.induct)
  case start
  then show ?case by (simp add: attempts_counted_def start_analytics_def zero_analytics_counters_def)
next
  case (step s ev)
  show ?case
  proof (cases ev)
    case (Tick connect faults replies began ended)
    let ?w = "(an_world s)\<lparr>p_faults := faults, p_replies := replies\<rparr>"
    obtain r w where rw: "run_pass tie stamp cfg connect (an_last_data_now s) ?w = (r, w)" by force
    have "pass_counts (passes (p_counters (an_world s)), pass_failures (p_counters (an_world s))) w"
      by (rule keepsD [OF run_pass_counts _ rw]) (simp add: pass_counts_def)
    then show ?thesis
      using Tick rw step.IH
      by (auto simp: tick_def after_pass_def Let_def attempts_counted_def pass_counts_def split: sum.splits)
  qed (use step.IH in \<open>auto simp: attempts_counted_def\<close>)
qed

lemma analytics_healthz_code:
  "fst (analytics_healthz s interval now) = 200 \<longleftrightarrow>
     last_pass_ok s \<and> (\<exists>t. last_pass_monotonic s = Some t \<and> fle (fsub now t) (overdue_after interval))"
  by (cases "last_pass_monotonic s") (simp_all add: analytics_healthz_def Let_def)

end
