(* ===== verification/Analytics_Claims.thy ===== *)
theory Analytics_Claims
  imports Demo_Fleet Health Ingest_Claims
begin

text \<open>
  The properties of the analytics service and of ingestion and analytics together, each with an
  example. Claim numbers continue those of \<^verbatim>\<open>Ingest_Claims\<close>.
\<close>

section \<open>Passes\<close>

lemma demo_pass:
  "\<exists>w1. run_pass tie stamp default_settings None None (demo_pass_world 0) = (Inr (Some (35 * 450000000)), w1) \<and> p_faults w1 = []"
  using run_pass_works [of default_settings "demo_pass_world 0" "demo_items 0" tie stamp] demo_planned [of 0] demo_items_fine
    demo_data_now [of 0] by (simp add: demo_pass_world_def)

text \<open>
  C28: a pass is idempotent. Over unchanged readings a second pass leaves the whole world as it
  is: forecasts, alert decisions with their delivery marks, counters, gauge, pushes. A pass that
  skips because the watermark has not moved gives the same.
\<close>

theorem pass_idempotent:
  assumes "run_pass tie stamp cfg None None w = (Inr n, w1)" and "p_faults w1 = []"
  shows "run_pass tie stamp cfg None None w1 = (Inr n, w1) \<and> run_pass tie stamp cfg None n w1 = (Inr n, w1)"
proof
  show again: "run_pass tie stamp cfg None None w1 = (Inr n, w1)" by (rule pass_repeats [OF assms])
  have now: "data_now (p_tables w1) = n" by (rule run_pass_views [OF again, of n]) simp
  have kinds: "\<not> (\<exists>m \<in> set (analytics_metrics cfg). metric_kind m \<notin> set WINDOW_KINDS)"
    by (auto simp: analytics_metrics_def WINDOW_KINDS_def WATER_def BATTERY_def)
  show "run_pass tie stamp cfg None n w1 = (Inr n, w1)"
  proof (cases n)
    case None
    then show ?thesis using again by simp
  next
    case (Some d)
    then show ?thesis using kinds now assms(2)
      by (simp add: run_pass_def andthen_def store_call_clean ret_def)
  qed
qed

theorem pass_idempotent_witness:
  "\<exists>n w1. run_pass (\<lambda>_. Firing) (\<lambda>_. '''') default_settings None None (demo_pass_world 0) = (Inr n, w1) \<and>
     run_pass (\<lambda>_. Firing) (\<lambda>_. '''') default_settings None None w1 = (Inr n, w1)"
  using demo_pass [of "\<lambda>_. Firing" "\<lambda>_. ''''"] pass_idempotent by meson

text \<open>
  C29: failed passes leave no wrong forecast and no missing or extra decision. After any number of
  attempts over the same readings, each with its own connection, watermark, database faults and
  notification replies, a pass without failures succeeds and leaves the readings alone, the very table of
  forecasts, and, per device and kind, the very decisions that it would have left without the attempts,
  provided no planned forecast raises. What became of the notifications is not part of this: a decision
  recorded just before the connection was lost is not announced again, so its row may say otherwise.
\<close>

theorem failed_passes_converge:
  assumes "planned cfg (p_tables w) = Inr items" and "\<forall>(d, m, fr) \<in> set items. \<exists>fc. fr = Inr fc"
  shows "\<exists>w1 w2. run_pass tie stamp cfg None None ((attempts tie stamp cfg as w)\<lparr>p_faults := []\<rparr>) = (Inr (data_now (p_tables w)), w1) \<and>
    run_pass tie stamp cfg None None (w\<lparr>p_faults := []\<rparr>) = (Inr (data_now (p_tables w)), w2) \<and>
    st_telemetry (p_tables w1) = st_telemetry (p_tables w) \<and>
    st_forecasts (p_tables w1) = st_forecasts (p_tables w2) \<and>
    (\<forall>d k. decisions d k (p_tables w1) = decisions d k (p_tables w2))"
proof -
  obtain w1 w2 where r: "run_pass tie stamp cfg None None ((attempts tie stamp cfg as w)\<lparr>p_faults := []\<rparr>) = (Inr (data_now (p_tables w)), w1)"
    "run_pass tie stamp cfg None None (w\<lparr>p_faults := []\<rparr>) = (Inr (data_now (p_tables w)), w2)"
    and t: "st_telemetry (p_tables w1) = st_telemetry (p_tables w)"
    and v: "\<And>d k. view d k (p_tables w1) = view d k (p_tables w2)"
    using retries_converge [OF assms, of tie stamp as] by metis
  have "st_forecasts (p_tables w1) (d, k, t) = st_forecasts (p_tables w2) (d, k, t)" for d k t
    using v [of d k] unfolding view_def by (metis fst_conv)
  moreover have "decisions d k (p_tables w1) = decisions d k (p_tables w2)" for d k
    using v [of d k] by (simp add: view_def)
  ultimately show ?thesis using r t by (intro exI [of _ w1] exI [of _ w2] conjI) (auto simp: fun_eq_iff)
qed

theorem failed_passes_converge_witness:
  "\<exists>w1. run_pass (\<lambda>_. Firing) (\<lambda>_. '''') default_settings None None ((attempts (\<lambda>_. Firing) (\<lambda>_. '''') default_settings
       [(None, None, [Works, Works, Works, FailsAfter OperationalError], []), (Some OSError, None, [], [])] (demo_pass_world 0))\<lparr>p_faults := []\<rparr>) =
     (Inr (Some (35 * 450000000)), w1)"
proof -
  have p: "planned default_settings (p_tables (demo_pass_world 0)) = Inr (demo_items 0)"
    using demo_planned by (simp add: demo_pass_world_def)
  have n: "data_now (p_tables (demo_pass_world 0)) = Some (35 * 450000000)"
    using demo_data_now by (simp add: demo_pass_world_def)
  show ?thesis using failed_passes_converge [OF p demo_items_fine] unfolding n by blast
qed

text \<open>
  C30: the table shows the latest status, and the rest of it is kept. After a successful pass every
  planned forecast with a watermark has its row, which carries its status: a device that went dark shows
  \<open>STALE\<close> at the watermark it kept. The row is the one that was there if that had this status, and the
  forecast's otherwise. No row with another key is touched: not those of other devices and kinds, nor
  those a planned device and kind has at other watermarks.
\<close>

theorem forecasts_table_current:
  assumes "run_pass tie stamp cfg None None w = (Inr n, w1)" and "planned cfg (p_tables w) = Inr items"
  shows "(\<forall>(d, m, fr) \<in> set items. \<exists>fc. fr = Inr fc \<and> (\<forall>a. as_of fc = Some a \<longrightarrow>
      (\<exists>row. st_forecasts (p_tables w1) (d, metric_kind m, timestamptz a) = Some row \<and> fr_status row = fc_status fc \<and>
         row = (case st_forecasts (p_tables w) (d, metric_kind m, timestamptz a) of
                  None \<Rightarrow> forecast_row_of fc
                | Some old \<Rightarrow> if fr_status old = fc_status fc then old else forecast_row_of fc)))) \<and>
    (\<forall>d k t. \<not> (\<exists>m fc a. (d, m, Inr fc) \<in> set items \<and> metric_kind m = k \<and> as_of fc = Some a \<and> timestamptz a = t) \<longrightarrow>
       st_forecasts (p_tables w1) (d, k, t) = st_forecasts (p_tables w) (d, k, t))"
proof -
  have fin: "all_done tie cfg items (p_tables w) (p_tables w1)"
    using run_pass_views [OF assms(1), of n] assms(2) by auto
  have rows: "st_forecasts t' (d, k, a) = fst (view d k t') a" for t' d k a by (simp add: view_def)
  have put: "\<exists>row. put_row fc rs (timestamptz a) = Some row \<and> fr_status row = fc_status fc \<and>
      row = (case rs (timestamptz a) of None \<Rightarrow> forecast_row_of fc
         | Some old \<Rightarrow> if fr_status old = fc_status fc then old else forecast_row_of fc)"
    if "as_of fc = Some a" for fc rs a
    using that by (auto simp: put_row_def forecast_row_of_def split: option.splits)
  have kept: "put_row fc rs t = rs t" if "\<And>a. as_of fc = Some a \<Longrightarrow> timestamptz a \<noteq> t" for fc rs t
    using that by (auto simp: put_row_def split: option.splits)
  have "\<exists>fc. fr = Inr fc \<and> (\<forall>a. as_of fc = Some a \<longrightarrow>
      (\<exists>row. st_forecasts (p_tables w1) (d, metric_kind m, timestamptz a) = Some row \<and> fr_status row = fc_status fc \<and>
         row = (case st_forecasts (p_tables w) (d, metric_kind m, timestamptz a) of
                  None \<Rightarrow> forecast_row_of fc
                | Some old \<Rightarrow> if fr_status old = fc_status fc then old else forecast_row_of fc)))"
    if mem: "(d, m, fr) \<in> set items" for d m fr
  proof -
    obtain fc where fc: "fr = Inr fc"
      "view d (metric_kind m) (p_tables w1) = settle tie cfg d m fc (view d (metric_kind m) (p_tables w))"
      using fin mem by (fastforce simp: all_done_def)
    then show ?thesis using put by (simp add: rows settle_def)
  qed
  moreover have "st_forecasts (p_tables w1) (d, k, t) = st_forecasts (p_tables w) (d, k, t)"
    if free: "\<not> (\<exists>m fc a. (d, m, Inr fc) \<in> set items \<and> metric_kind m = k \<and> as_of fc = Some a \<and> timestamptz a = t)" for d k t
  proof (cases "(d, k) \<in> item_key ` set items")
    case False
    then show ?thesis using fin unfolding rows all_done_def by simp
  next
    case True
    then obtain m fr where m: "(d, m, fr) \<in> set items" "metric_kind m = k" by (auto simp: item_key_def)
    obtain fc where fc: "fr = Inr fc" "view d k (p_tables w1) = settle tie cfg d m fc (view d k (p_tables w))"
      using fin m by (fastforce simp: all_done_def)
    have "timestamptz a \<noteq> t" if "as_of fc = Some a" for a using free m fc(1) that by blast
    then show ?thesis using kept [of fc t] by (simp add: rows fc(2) settle_def)
  qed
  ultimately show ?thesis by blast
qed

theorem forecasts_table_current_witness:
  "\<exists>w1 a row. run_pass (\<lambda>_. Firing) (\<lambda>_. '''') default_settings None None (demo_pass_world 0) = (Inr (Some (35 * 450000000)), w1) \<and>
     st_forecasts (p_tables w1) (''pot-1'', ''water'', timestamptz a) = Some row \<and> fr_status row = OK"
proof -
  obtain w1 where w1: "run_pass (\<lambda>_. Firing) (\<lambda>_. '''') default_settings None None (demo_pass_world 0) = (Inr (Some (35 * 450000000)), w1)"
    using demo_pass by blast
  have p: "planned default_settings (p_tables (demo_pass_world 0)) = Inr (demo_items 0)"
    using demo_planned by (simp add: demo_pass_world_def)
  obtain fc where fc: "forecast (demo_series 0) WATER demo_now (Some (Aware (35 * 450000000 - 864000000000))) = Inr fc" "fc_status fc = OK"
    using demo_ok_window [of "Some (Aware (35 * 450000000 - 864000000000))"] by auto
  then obtain a where a: "as_of fc = Some a" using crossing_status_invariant [OF fc(1)] by (cases "as_of fc") auto
  have "(''pot-1'', WATER, Inr fc) \<in> set (demo_items 0)" using fc by (simp add: demo_items_def)
  moreover have "metric_kind WATER = ''water''" by (simp add: WATER_def)
  ultimately have "\<exists>row. st_forecasts (p_tables w1) (''pot-1'', ''water'', timestamptz a) = Some row \<and> fr_status row = OK"
    using bspec [OF conjunct1 [OF forecasts_table_current [OF w1 p]]] a fc(2) by fastforce
  then show ?thesis using w1 by blast
qed

section \<open>Ingestion and analytics\<close>

text \<open>
  C31: what ingestion stores, analytics accepts. Whatever a run of the ingestion service left in an
  initially empty telemetry table, in whatever order its rows are read, a pass over it plans no
  \<open>INVALID_SERIES\<close>, and a forecast can raise nothing but \<open>OverflowError\<close>.
\<close>

theorem stored_readings_accepted:
  assumes "decodes_floats decode" and "reach decode msg cfg ok empty_tables s"
    and "rows_of_table (w_tables (s_world s)) (st_telemetry t)"
    and "planned acfg t = Inr items" and "(d, m, fr) \<in> set items"
  shows "(\<forall>fc. fr = Inr fc \<longrightarrow> fc_status fc \<noteq> INVALID_SERIES) \<and> (\<forall>e. fr = Inl e \<longrightarrow> e = OverflowError)"
proof -
  have "stored_fine empty_tables" by (simp add: stored_fine_def empty_tables_def)
  then have "rows_fine (st_telemetry t)"
    using reach_stored_fine [OF assms(1,2)] rows_of_table_fine [OF _ assms(3)] by blast
  then show ?thesis using planned_never_invalid assms(4,5) by blast
qed

text \<open>The one reading of the ingestion example, as a telemetry table of its own.\<close>

definition one_row_tables :: store_tables where
  "one_row_tables = \<lparr>st_telemetry = [\<lparr>wr_device = ''pot-1'', wr_at = 7, wr_water = Fin 50, wr_battery = Fin 4\<rparr>],
     st_forecasts = Map.empty, st_alerts = []\<rparr>"

lemma one_row_planned: "\<exists>fr fr'. planned default_settings one_row_tables = Inr [(''pot-1'', WATER, fr), (''pot-1'', BATTERY, fr')]"
proof -
  have w: "rmap (window_start 7) METRICS = Inr [(WATER, 7 - 864000000000), (BATTERY, 7 - 3024000000000)]"
    by (rule metric_windows) (simp_all add: dt_ok_def dt_min_def dt_max_def)
  have "load_window (- 3023999999993) one_row_tables = [(''pot-1'', grouped (st_telemetry one_row_tables))]"
    by (simp add: load_window_def one_row_tables_def select_window_def fold_add_row_one del: fold.simps)
  moreover have "data_now one_row_tables = Some 7" by (simp add: data_now_def one_row_tables_def)
  ultimately show ?thesis using w
    by (simp add: planned_def default_metrics longest_window_def pass_items_def)
qed

theorem stored_readings_accepted_witness:
  "\<exists>items d m fr. planned default_settings one_row_tables = Inr items \<and> (d, m, fr) \<in> set items \<and>
     (\<forall>fc. fr = Inr fc \<longrightarrow> fc_status fc \<noteq> INVALID_SERIES) \<and> (\<forall>e. fr = Inl e \<longrightarrow> e = OverflowError)"
proof -
  obtain s where s: "reach demo_decode demo_msg demo_settings (\<lambda>_ _. True) empty_tables s"
    "w_tables (s_world s) = apply_outcome (ValidReading (demo_reading 7)) empty_tables"
    using ingest_one_reach ingest_one_state by blast
  have "wf_float (Fin 50)" "wf_float (Fin 4)" using representable_of_int [of 50] representable_of_int [of 4] by simp_all
  then have dec: "decodes_floats demo_decode" by (simp add: decodes_floats_def demo_decode_def)
  have "t_telemetry (w_tables (s_world s)) = [(''pot-1'', 7) \<mapsto> reading_row (demo_reading 7)]"
    using demo_key [of 7] unfolding s(2) by (simp add: store_reading_telemetry empty_tables_def)
  then have rows: "rows_of_table (w_tables (s_world s)) (st_telemetry one_row_tables)"
    by (simp add: rows_of_table_def one_row_tables_def row_key_def reading_row_def demo_reading_def)
  obtain items fr where p: "planned default_settings one_row_tables = Inr items" "(''pot-1'', WATER, fr) \<in> set items"
    using one_row_planned by fastforce
  from stored_readings_accepted [OF dec s(1) rows p] p show ?thesis by blast
qed

section \<open>The loop\<close>

text \<open>
  C32: no push without a recorded decision, and no decision twice. In every reachable state the
  notifications a process has sent are at most the firing decisions it has counted, these at most
  the firing decisions added to the table since it started, and no two rows of the log decide the
  same thing: a hung or failing notifier can lose a push, never a decision.
\<close>

theorem no_push_without_decision:
  assumes "analytics_reach tie stamp cfg t s" and "unique_decisions t"
  shows "int (length (p_sent (an_world s))) \<le> alerts_fired (p_counters (an_world s)) \<and>
    alerts_fired (p_counters (an_world s)) \<le> firings (p_tables (an_world s)) - firings t \<and>
    unique_decisions (p_tables (an_world s))"
  using reach_pushes [OF assms] by (simp add: pushes_recorded_def)

definition first_tick :: "nat \<Rightarrow> fault list \<Rightarrow> analytics_service" where
  "first_tick j faults = analytics_step (\<lambda>_. Firing) (\<lambda>_. []) default_settings (Tick None faults [] (Fin 0) (Fin 1))
     (start_analytics (demo_tables j))"

lemma first_tick_reach: "analytics_reach (\<lambda>_. Firing) (\<lambda>_. []) default_settings (demo_tables j) (first_tick j faults)"
  unfolding first_tick_def by (intro analytics_reach.step analytics_reach.start)

theorem no_push_without_decision_witness:
  "int (length (p_sent (an_world (first_tick 0 [])))) \<le> firings (p_tables (an_world (first_tick 0 [])))"
  using no_push_without_decision [OF first_tick_reach, of 0 "[]"]
  by (simp add: unique_decisions_def demo_tables_def firings_def)

text \<open>
  C33: what ends the loop. Over rows with distinct keys and finite values, a step ends the process
  with \<open>e\<close> only if \<open>e\<close> is no operational failure and the connection attempt, a database call, or
  the arithmetic of a forecast or of a window (\<open>OverflowError\<close>) raised it. Operational failures never
  end it: the pass counts as failed and the loop waits.
\<close>

theorem analytics_end_causes:
  assumes "rows_fine (st_telemetry (p_tables (an_world s)))" and "an_phase s \<noteq> Died e"
    and "an_phase (analytics_step tie stamp cfg ev s) = Died e"
  shows "\<not> operational e \<and> (\<exists>connect faults replies began ended. ev = Tick connect faults replies began ended \<and>
    (connect = Some e \<or> e \<in> fault_excs faults \<or> e = OverflowError))"
proof -
  obtain connect faults replies began ended where ev: "ev = Tick connect faults replies began ended"
    using assms(2,3) by (cases ev) (auto split: if_splits)
  let ?w = "(an_world s)\<lparr>p_faults := faults, p_replies := replies\<rparr>"
  obtain r w where rw: "run_pass tie stamp cfg connect (an_last_data_now s) ?w = (r, w)" by force
  have r: "r = Inl e \<and> \<not> operational e"
    using assms(2,3) ev rw by (auto simp: tick_def after_pass_def Let_def split: if_splits sum.splits)
  then have "connect = Some e \<or> e \<in> fault_excs (p_faults ?w) \<or> e = OverflowError"
    using run_pass_exc [of ?w tie stamp cfg connect "an_last_data_now s" e w] assms(1) rw by simp
  then show ?thesis using r ev by simp
qed

lemma read_clean: "p_faults w = [] \<Longrightarrow> store_call (\<lambda>t. (f t, t)) w = (Inr (f (p_tables w)), w)"
  by (simp add: store_call_clean)

lemma poison_pass:
  assumes "p_faults w = []" and "p_tables w = demo_tables 37"
  shows "\<exists>w'. run_pass tie stamp default_settings None None w = (Inl OverflowError, w')"
proof -
  have kinds: "\<not> (\<exists>m \<in> set METRICS. metric_kind m \<notin> set WINDOW_KINDS)"
    by (auto simp: METRICS_def WINDOW_KINDS_def WATER_def BATTERY_def)
  have lw: "longest_window [(WATER, 35 * 450000000 - 864000000000), (BATTERY, 35 * 450000000 - 3024000000000)] = - 3008250000000"
    by (simp add: longest_window_def)
  have items: "pass_items (35 * 450000000) [(WATER, 35 * 450000000 - 864000000000), (BATTERY, 35 * 450000000 - 3024000000000)]
      (load_window (- 3008250000000) (demo_tables 37)) = demo_items 37"
    using demo_planned [of 37] unfolding planned_def demo_data_now default_metrics option.case demo_windows rbind_simps lw by simp
  obtain fr where "demo_items 37 = [(''pot-1'', WATER, Inl OverflowError), (''pot-1'', BATTERY, fr)]"
    using demo_overflow_window [of "Some (Aware (35 * 450000000 - 864000000000))"] by (simp add: demo_items_def)
  then have "afor (demo_items 37) (process_item stamp default_settings states) w = (Inl OverflowError, w)" for states
    by (simp add: andthen_def process_item_def process_forecast_def raise_def)
  then have "\<exists>w'. pass_body tie stamp default_settings (35 * 450000000)
      [(WATER, 35 * 450000000 - 864000000000), (BATTERY, 35 * 450000000 - 3024000000000)] w = (Inl OverflowError, w')"
    using assms items unfolding pass_body_def pass_loop_items lw by (simp add: andthen_def read_clean)
  then show ?thesis
    using kinds assms unfolding run_pass_def Let_def default_metrics if_not_P [OF kinds] option.case
    by (auto simp: andthen_def read_clean demo_data_now demo_windows [simplified])
qed

text \<open>
  C34: such an end is reachable from data. There is a telemetry table whose rows satisfy the contract
  on which the first pass ends the analytics process with \<open>OverflowError\<close>, with the default settings
  and no failure anywhere; nothing is written, so a restart ends the same way.
\<close>

theorem slow_depletion_ends_analytics:
  "\<exists>t. rows_fine (st_telemetry t) \<and>
     (\<forall>r \<in> set (st_telemetry t). device_id_ok (wr_device r) \<and> fle (Fin 0) (wr_water r) \<and> fle (wr_water r) (Fin 100) \<and>
        fle (fl (25 / 10)) (wr_battery r) \<and> fle (wr_battery r) (fl (44 / 10))) \<and>
     (\<forall>tie stamp replies b e. an_phase (analytics_step tie stamp default_settings (Tick None [] replies b e) (start_analytics t)) =
        Died OverflowError)"
proof -
  let ?t = "demo_tables 37"
  have "0 \<le> 50 + demo_slope 37 * demo_hour k \<and> 50 + demo_slope 37 * demo_hour k \<le> 100" if "k < 36" for k
    using that by (simp add: demo_slope_def demo_hour_def power_int_minus field_simps)
  then have water: "fle (Fin 0) (sample_value (demo_sample 37 k)) \<and> fle (sample_value (demo_sample 37 k)) (Fin 100)" if "k < 36" for k
    using that by (auto simp: demo_value)
  have three: "fl 3 = Fin 3" using small_Fin [of 3] by simp
  have battery: "fle (fl (25 / 10)) (Fin 3)" "fle (Fin 3) (fl (44 / 10))"
    using fl_mono [of "25 / 10" 3] fl_mono [of 3 "44 / 10"] three by (simp_all add: fle_def)
  have rows: "device_id_ok (wr_device r) \<and> fle (Fin 0) (wr_water r) \<and> fle (wr_water r) (Fin 100) \<and>
      fle (fl (25 / 10)) (wr_battery r) \<and> fle (wr_battery r) (fl (44 / 10))" if "r \<in> set (st_telemetry ?t)" for r
    using that water battery demo_id by (auto simp: demo_tables_def demo_row_def)
  have dies: "an_phase (analytics_step tie stamp default_settings (Tick None [] replies b e) (start_analytics ?t)) = Died OverflowError"
    for tie stamp replies b e
  proof -
    let ?w = "(an_world (start_analytics ?t))\<lparr>p_faults := [], p_replies := replies\<rparr>"
    obtain w' where "run_pass tie stamp default_settings None None ?w = (Inl OverflowError, w')"
      using poison_pass [of ?w tie stamp] by (auto simp: start_analytics_def)
    then show ?thesis by (simp add: start_analytics_def tick_def operational_def)
  qed
  have "rows_fine (st_telemetry ?t)" by (rule demo_rows_fine) simp
  then show ?thesis using rows dies by blast
qed

theorem slow_depletion_ends_analytics_witness:
  "\<exists>t. an_phase (analytics_step (\<lambda>_. Firing) (\<lambda>_. []) default_settings (Tick None [] [] (Fin 0) (Fin 1)) (start_analytics t)) =
     Died OverflowError"
  using slow_depletion_ends_analytics by blast

theorem analytics_end_causes_witness:
  "an_phase (first_tick 37 []) = Died OverflowError \<and> \<not> operational OverflowError"
proof -
  let ?w = "(an_world (start_analytics (demo_tables 37)))\<lparr>p_faults := [], p_replies := []\<rparr>"
  obtain w' where "run_pass (\<lambda>_. Firing) (\<lambda>_. []) default_settings None None ?w = (Inl OverflowError, w')"
    using poison_pass [of ?w] by (auto simp: start_analytics_def)
  then have d: "an_phase (first_tick 37 []) = Died OverflowError"
    by (simp add: first_tick_def start_analytics_def tick_def operational_def)
  have "rows_fine (st_telemetry (p_tables (an_world (start_analytics (demo_tables 37)))))"
    using demo_rows_fine [of 37] by (simp add: start_analytics_def)
  moreover have "an_phase (start_analytics (demo_tables 37)) \<noteq> Died OverflowError" by (simp add: start_analytics_def)
  ultimately show ?thesis using analytics_end_causes d unfolding first_tick_def by blast
qed

text \<open>
  The verdicts behind the health endpoints: ingestion answers 200 exactly while it is subscribed
  with its writer connected and its client context not left; analytics answers 200 exactly when its latest pass succeeded and ended
  no longer ago than two intervals and thirty seconds, and then a pass has succeeded.
\<close>

theorem healthz_truthful:
  assumes "reach decode msg icfg ok it i" and "analytics_reach tie stamp cfg t s"
  shows "(fst (ingest_healthz i) = 200 \<longleftrightarrow> s_phase i \<in> {Replaying, Consuming, Draining} \<union> range (Closing True)) \<and>
    (fst (analytics_healthz s interval now) = 200 \<longleftrightarrow>
       last_pass_ok s \<and> (\<exists>e. last_pass_monotonic s = Some e \<and> fle (fsub now e) (fadd (fmul interval (Fin 2)) (Fin 30)))) \<and>
    (fst (analytics_healthz s interval now) = 200 \<longrightarrow> 1 \<le> passes (p_counters (an_world s)))"
  using ingest_healthz_code [OF assms(1)] reach_attempts [OF assms(2)]
  by (auto simp: analytics_healthz_code broker_phase_def serving_def attempts_counted_def overdue_after_def OVERDUE_FACTOR_def
      OVERDUE_GRACE_SECONDS_def)

theorem healthz_truthful_witness:
  "fst (ingest_healthz ingest_one) = 200 \<and> fst (analytics_healthz (start_analytics (demo_tables 0)) (Fin 30) (Fin 1)) \<noteq> 200"
  using healthz_truthful [OF ingest_one_reach analytics_reach.start, where interval = "Fin 30" and now = "Fin 1"] ingest_one_state
  by (auto simp: start_analytics_def)

end
