(* ===== verification/Py_Random.thy ===== *)
theory Py_Random
  imports Float_Bounds "HOL-Library.State_Monad"
begin

text \<open>
  \<^verbatim>\<open>random.Random\<close>, as far as the simulator uses it, and the builtin \<^verbatim>\<open>round(x, n)\<close>. The generator
  itself (its state, \<open>random()\<close> and \<open>randint\<close>) is a parameter; what the code relies on is the
  documented range of the draws, \<open>rng_ok\<close>. \<open>uniform\<close> is the library's formula over \<open>random()\<close>.
\<close>

section \<open>Draws\<close>

record 'r rng =
  rng_random :: "'r \<Rightarrow> pyfloat \<times> 'r"
  rng_randint :: "int \<Rightarrow> int \<Rightarrow> 'r \<Rightarrow> int \<times> 'r"

definition random :: "'r rng \<Rightarrow> ('r, pyfloat) state" where
  "random g = State (rng_random g)"

definition randint :: "'r rng \<Rightarrow> int \<Rightarrow> int \<Rightarrow> ('r, int) state" where
  "randint g lo hi = State (rng_randint g lo hi)"

definition uniform :: "'r rng \<Rightarrow> pyfloat \<Rightarrow> pyfloat \<Rightarrow> ('r, pyfloat) state" where
  "uniform g a b = do { x \<leftarrow> random g; State_Monad.return (fadd a (fmul (fsub b a) x)) }"

definition unit_float :: "pyfloat \<Rightarrow> bool" where
  "unit_float f \<longleftrightarrow> (\<exists>x. f = Fin x \<and> representable x \<and> 0 \<le> x \<and> x < 1)"

definition rng_ok :: "'r rng \<Rightarrow> bool" where
  "rng_ok g \<longleftrightarrow>
     (\<forall>s. unit_float (fst (rng_random g s))) \<and>
     (\<forall>lo hi s. lo \<le> hi \<longrightarrow> lo \<le> fst (rng_randint g lo hi s) \<and> fst (rng_randint g lo hi s) \<le> hi)"

text \<open>What every result of a draw satisfies, whatever the state of the generator.\<close>

definition draws :: "('a \<Rightarrow> bool) \<Rightarrow> ('r, 'a) state \<Rightarrow> bool" where
  "draws P m \<longleftrightarrow> (\<forall>s. P (fst (run_state m s)))"

lemma drawsD: "draws P m \<Longrightarrow> run_state m s = (x, s') \<Longrightarrow> P x"
  by (metis draws_def fst_conv)

lemma draws_mono: "draws P m \<Longrightarrow> (\<And>x. P x \<Longrightarrow> Q x) \<Longrightarrow> draws Q m"
  by (simp add: draws_def)

lemma draws_return [simp]: "draws P (State_Monad.return x) \<longleftrightarrow> P x"
  by (simp add: draws_def)

lemma draws_bind:
  assumes "draws Q m" and "\<And>x. Q x \<Longrightarrow> draws P (f x)"
  shows "draws P (do { x \<leftarrow> m; f x })"
  using assms by (auto simp: draws_def split: prod.splits) (metis fst_conv)

lemma draws_random: "rng_ok g \<Longrightarrow> draws unit_float (random g)"
  by (simp add: rng_ok_def draws_def random_def)

lemma draws_randint: "rng_ok g \<Longrightarrow> lo \<le> hi \<Longrightarrow> draws (\<lambda>k. lo \<le> k \<and> k \<le> hi) (randint g lo hi)"
  by (simp add: rng_ok_def draws_def randint_def)

text \<open>
  A uniform draw between finite ends stays within them up to the rounding of the width: with
  the width \<open>w\<close> as the float subtraction gives it, between \<open>a\<close> and any float above \<open>a + w\<close>.
\<close>

lemma uniform_between:
  assumes "rng_ok g" and "fsub b (Fin a) = Fin w" and "0 \<le> w"
    and "representable a" and "representable hi" and "a + w \<le> hi"
  shows "draws (\<lambda>f. \<exists>x. f = Fin x \<and> representable x \<and> a \<le> x \<and> x \<le> hi) (uniform g (Fin a) b)"
proof -
  have w: "representable w"
  proof -
    obtain r where "b = Fin r" using assms(2) by (cases b) (auto simp: fsub_def)
    then have "Fin w = fl (r - a)" using assms(2) by (simp add: fsub_def)
    then have "wf_float (Fin w)" by simp
    then show ?thesis by simp
  qed
  have "\<exists>y. fadd (Fin a) (fmul (fsub b (Fin a)) f) = Fin y \<and> representable y \<and> a \<le> y \<and> y \<le> hi"
    if unit: "unit_float f" for f
  proof -
    obtain x where f: "f = Fin x" "0 \<le> x" "x < 1" using unit by (auto simp: unit_float_def)
    have "0 \<le> w * x" and "w * x \<le> w" using f assms(3) by (simp_all add: mult_left_le)
    from fl_between [OF representable_zero w this] obtain p
      where p: "fl (w * x) = Fin p" "0 \<le> p" "p \<le> w" by blast
    have "a \<le> a + p" and "a + p \<le> hi" using p assms(6) by simp_all
    from fl_between [OF assms(4,5) this] obtain y
      where y: "fl (a + p) = Fin y" "a \<le> y" "y \<le> hi" by blast
    have "wf_float (Fin y)" using wf_fl [of "a + p"] unfolding y(1) .
    then show ?thesis using f p y assms(2) by simp
  qed
  then show ?thesis unfolding uniform_def
    by (intro draws_bind [OF draws_random [OF assms(1)]]) simp
qed

section \<open>\<^verbatim>\<open>round(x, ndigits)\<close>\<close>

text \<open>
  The nearest multiple of \<open>10\<^sup>-\<^sup>n\<close> to the exact value, ties to even, as a float; values that are
  not finite are returned as they are.
\<close>

fun py_round :: "nat \<Rightarrow> pyfloat \<Rightarrow> pyfloat res" where
  "py_round n (Fin x) =
     (case fl (of_int (round_half_even (x * 10 ^ n)) / 10 ^ n) of
        Fin y \<Rightarrow> Inr (Fin y)
      | _ \<Rightarrow> Inl OverflowError)"
| "py_round n f = Inr f"

lemma py_round_mono:
  assumes "x \<le> y" and "py_round n (Fin x) = Inr a" and "py_round n (Fin y) = Inr b"
  shows "a \<le> b"
proof -
  have "x * 10 ^ n \<le> y * 10 ^ n" using assms(1) by (simp add: mult_right_mono)
  then have "of_int (round_half_even (x * 10 ^ n)) / 10 ^ n
      \<le> (of_int (round_half_even (y * 10 ^ n)) / 10 ^ n :: rat)"
    by (simp add: round_half_even_mono divide_right_mono)
  from fl_mono [OF this] show ?thesis using assms(2,3) by (auto split: pyfloat.splits)
qed

text \<open>Rounding a value between two integers stays between them.\<close>

lemma py_round_between:
  assumes "of_int lo \<le> x" and "x \<le> of_int hi" and "\<bar>lo\<bar> \<le> 2 ^ 53" and "\<bar>hi\<bar> \<le> 2 ^ 53"
  shows "\<exists>y. py_round n (Fin x) = Inr (Fin y) \<and> representable y \<and> of_int lo \<le> y \<and> y \<le> of_int hi"
proof -
  let ?r = "of_int (round_half_even (x * 10 ^ n)) / 10 ^ n :: rat"
  have "of_int (lo * 10 ^ n) \<le> x * 10 ^ n" and "x * 10 ^ n \<le> of_int (hi * 10 ^ n)"
    using assms(1,2) by (simp_all add: mult_right_mono)
  then have "lo * 10 ^ n \<le> round_half_even (x * 10 ^ n)" and "round_half_even (x * 10 ^ n) \<le> hi * 10 ^ n"
    by (simp_all add: int_le_round_half_even round_half_even_le_int)
  then have "(of_int (lo * 10 ^ n) :: rat) \<le> of_int (round_half_even (x * 10 ^ n))"
    and "of_int (round_half_even (x * 10 ^ n)) \<le> (of_int (hi * 10 ^ n) :: rat)"
    by (simp_all only: of_int_le_iff)
  then have "of_int lo \<le> ?r" and "?r \<le> of_int hi"
    by (simp_all add: pos_le_divide_eq pos_divide_le_eq)
  from fl_between [OF representable_of_int [OF assms(3)] representable_of_int [OF assms(4)] this]
  obtain y where y: "fl ?r = Fin y" "of_int lo \<le> y" "y \<le> of_int hi" by blast
  moreover have "wf_float (Fin y)" using wf_fl [of ?r] unfolding y(1) .
  ultimately show ?thesis by simp
qed

end
