(* ===== verification/Py_Generator.thy ===== *)
theory Py_Generator
  imports Prelude "HOL-Library.Multiset" "HOL-Library.Sublist"
begin

text \<open>
  Generators by their traces: the values yielded so far and what happened then. \<open>StopIteration\<close>
  is a return, \<open>Raised\<close> an exception that leaves the generator, \<open>OutOfFuel\<close> the bound the model
  stops observing at. And \<^verbatim>\<open>heapq.merge\<close> on such traces, with its equivalence to a stable sort.
\<close>

section \<open>Traces\<close>

datatype stop = StopIteration | Raised py_exc | OutOfFuel

type_synonym 'a trace = "'a list \<times> stop"

definition yielding :: "'a list \<Rightarrow> 'a trace \<Rightarrow> 'a trace" where
  "yielding xs t = (xs @ fst t, snd t)"

lemma yielding_simps [simp]: "fst (yielding xs t) = xs @ fst t" "snd (yielding xs t) = snd t"
  by (simp_all add: yielding_def)

text \<open>\<open>extends t t'\<close>: observing longer than \<open>t\<close> did gives \<open>t'\<close>.\<close>

definition extends :: "'a trace \<Rightarrow> 'a trace \<Rightarrow> bool" where
  "extends t t' \<longleftrightarrow> (if snd t = OutOfFuel then prefix (fst t) (fst t') else t' = t)"

lemma extends_refl [simp]: "extends t t"
  by (simp add: extends_def)

lemma extends_fuel [simp]: "extends ([], OutOfFuel) t"
  by (simp add: extends_def)

lemma extends_yielding: "extends t t' \<Longrightarrow> extends (yielding xs t) (yielding xs t')"
  by (simp add: extends_def yielding_def split: if_splits)

lemma extends_prefix: "extends t t' \<Longrightarrow> prefix (fst t) (fst t')"
  by (auto simp: extends_def split: if_splits)

section \<open>\<^verbatim>\<open>heapq.merge\<close>\<close>

text \<open>
  The heap holds the current value of every unfinished iterator with the iterator's position; its
  root has the least key, the lowest position among equal keys. The root is yielded and its iterator
  advanced; an exception of an iterator leaves the merge when it is advanced, before another yield.
\<close>

fun earliest :: "('a \<Rightarrow> 'k::linorder) \<Rightarrow> 'a list list \<Rightarrow> nat option" where
  "earliest key [] = None"
| "earliest key (xs # xss) =
     (case earliest key xss of
        None \<Rightarrow> if xs = [] then None else Some 0
      | Some i \<Rightarrow> if xs \<noteq> [] \<and> key (hd xs) \<le> key (hd (xss ! i)) then Some 0 else Some (Suc i))"

definition interrupted :: "'a trace list \<Rightarrow> stop option" where
  "interrupted ts = map_option snd (find (\<lambda>(xs, s). xs = [] \<and> s \<noteq> StopIteration) ts)"

definition advance :: "nat \<Rightarrow> 'a trace list \<Rightarrow> 'a trace list" where
  "advance i ts = ts[i := (tl (fst (ts ! i)), snd (ts ! i))]"

lemma earliest_Some:
  "earliest key xss = Some i \<Longrightarrow>
     i < length xss \<and> xss ! i \<noteq> [] \<and>
     (\<forall>j < length xss. xss ! j \<noteq> [] \<longrightarrow> key (hd (xss ! i)) \<le> key (hd (xss ! j)) \<and>
        (j < i \<longrightarrow> key (hd (xss ! i)) < key (hd (xss ! j))))"
proof (induction xss arbitrary: i)
  case (Cons xs xss)
  show ?case
  proof (cases "earliest key xss")
    case None
    have "\<forall>ys \<in> set xss. ys = []" using None
    proof (induction xss)
      case (Cons ys yss)
      then show ?case by (auto split: option.splits if_splits)
    qed simp
    then have "\<forall>j < length xss. xss ! j = []" by simp
    then show ?thesis using Cons.prems None by (auto simp: nth_Cons split: if_splits nat.splits)
  next
    case (Some k)
    note ih = Cons.IH [OF Some]
    show ?thesis
    proof (cases "xs \<noteq> [] \<and> key (hd xs) \<le> key (hd (xss ! k))")
      case True
      then have "i = 0" using Cons.prems Some by simp
      then show ?thesis using True ih by (auto simp: nth_Cons split: nat.splits intro: order_trans)
    next
      case False
      then have "i = Suc k" using Cons.prems Some by (auto split: if_splits)
      then show ?thesis using False ih by (auto simp: nth_Cons split: nat.splits)
    qed
  qed
qed simp

lemma earliest_None: "earliest key xss = None \<longleftrightarrow> (\<forall>xs \<in> set xss. xs = [])"
  by (induction xss) (auto split: option.splits)

lemma advance_size:
  assumes "earliest key (map fst ts) = Some i"
  shows "sum_list (map (length \<circ> fst) (advance i ts)) < sum_list (map (length \<circ> fst) ts)"
proof -
  have i: "i < length ts" "fst (ts ! i) \<noteq> []" using earliest_Some [OF assms] by auto
  then have "length (tl (fst (ts ! i))) < length (fst (ts ! i))" by simp
  moreover have "length (fst (ts ! i)) \<le> sum_list (map (length \<circ> fst) ts)"
    using member_le_sum_list [of "length (fst (ts ! i))" "map (length \<circ> fst) ts"] i(1) by simp
  moreover have "sum_list (map (length \<circ> fst) (advance i ts)) =
      sum_list (map (length \<circ> fst) ts) + length (tl (fst (ts ! i))) - length (fst (ts ! i))"
    using i(1) sum_list_update [of i "map (length \<circ> fst) ts"] by (simp add: advance_def map_update)
  ultimately show ?thesis by linarith
qed

function merge_traces :: "('a \<Rightarrow> 'k::linorder) \<Rightarrow> 'a trace list \<Rightarrow> 'a trace" where
  "merge_traces key ts =
     (case interrupted ts of
        Some s \<Rightarrow> ([], s)
      | None \<Rightarrow>
          (case earliest key (map fst ts) of
             None \<Rightarrow> ([], StopIteration)
           | Some i \<Rightarrow> yielding [hd (fst (ts ! i))] (merge_traces key (advance i ts))))"
  by pat_completeness auto

termination
  by (relation "measure (\<lambda>(key, ts). sum_list (map (length \<circ> fst) ts))")
    (simp_all only: wf_measure in_measure prod.case advance_size)

declare merge_traces.simps [simp del]

section \<open>The merge of sorted streams is a stable sort\<close>

lemma insort_key_past: "\<not> key x \<le> key m \<Longrightarrow> insort_key key x (m # S) = m # insort_key key x S"
  by simp

lemma sort_key_least:
  assumes "\<And>x. x \<in> set xs \<Longrightarrow> key m < key x" and "\<And>y. y \<in> set ys \<Longrightarrow> key m \<le> key y"
  shows "sort_key key (xs @ m # ys) = m # sort_key key (xs @ ys)"
  using assms(1)
proof (induction xs)
  case Nil
  have "insort_key key m (sort_key key ys) = m # sort_key key ys"
    by (rule insort_is_Cons) (use assms(2) in simp)
  then show ?case by simp
next
  case (Cons x xs)
  then have "\<not> key x \<le> key m" by (simp add: not_le)
  then show ?case using Cons by simp
qed

lemma concat_split:
  "i < length xss \<Longrightarrow> concat xss = concat (take i xss) @ xss ! i @ concat (drop (Suc i) xss)"
  by (subst id_take_nth_drop) simp_all

lemma concat_update:
  "i < length xss \<Longrightarrow> concat (xss[i := ys]) = concat (take i xss) @ ys @ concat (drop (Suc i) xss)"
  by (simp add: upd_conv_take_nth_drop)

lemma hd_le_sorted: "sorted (map key xs) \<Longrightarrow> x \<in> set xs \<Longrightarrow> key (hd xs) \<le> key x"
  by (cases xs) auto

lemma sort_key_earliest:
  assumes e: "earliest key xss = Some i" and sorted: "\<forall>xs \<in> set xss. sorted (map key xs)"
  shows "sort_key key (concat xss) = hd (xss ! i) # sort_key key (concat (xss[i := tl (xss ! i)]))"
proof -
  let ?m = "hd (xss ! i)"
  have i: "i < length xss" "xss ! i \<noteq> []" using earliest_Some [OF e] by auto
  have le: "key ?m \<le> key x" "j < i \<Longrightarrow> key ?m < key x" if "j < length xss" "x \<in> set (xss ! j)" for x j
  proof -
    have "xss ! j \<noteq> []" using that by auto
    then have "key ?m \<le> key (hd (xss ! j))" "j < i \<Longrightarrow> key ?m < key (hd (xss ! j))"
      using earliest_Some [OF e] that by auto
    moreover have "key (hd (xss ! j)) \<le> key x" using hd_le_sorted sorted that by (metis nth_mem)
    ultimately show "key ?m \<le> key x" "j < i \<Longrightarrow> key ?m < key x" by auto
  qed
  have before: "key ?m < key x" if x: "x \<in> set (concat (take i xss))" for x
  proof -
    obtain xs where "xs \<in> set (take i xss)" "x \<in> set xs" using x by auto
    then obtain j where "j < i" "x \<in> set (xss ! j)" by (auto simp: in_set_conv_nth [of xs])
    then show ?thesis using le(2) i(1) by auto
  qed
  have after: "key ?m \<le> key y" if y: "y \<in> set (tl (xss ! i) @ concat (drop (Suc i) xss))" for y
  proof -
    consider "y \<in> set (tl (xss ! i))" | "y \<in> set (concat (drop (Suc i) xss))" using y by auto
    then show ?thesis
    proof cases
      case 1
      then show ?thesis using le(1) [OF i(1)] i(2) by (simp add: list.set_sel(2))
    next
      case 2
      then obtain xs where "xs \<in> set (drop (Suc i) xss)" "y \<in> set xs" by auto
      then obtain k where "k < length xss - Suc i" "y \<in> set (xss ! (Suc i + k))"
        by (auto simp: in_set_conv_nth [of xs])
      then show ?thesis using le(1) [of "Suc i + k"] by simp
    qed
  qed
  have "xss ! i = ?m # tl (xss ! i)" using i(2) by simp
  then have "concat xss = concat (take i xss) @ ?m # tl (xss ! i) @ concat (drop (Suc i) xss)"
    using concat_split [OF i(1)] by (metis append_Cons)
  then show ?thesis
    using sort_key_least [of "concat (take i xss)" key ?m "tl (xss ! i) @ concat (drop (Suc i) xss)"]
      before after by (simp add: concat_update [OF i(1)])
qed

definition sorted_streams :: "('a \<Rightarrow> 'k::linorder) \<Rightarrow> 'a trace list \<Rightarrow> bool" where
  "sorted_streams key ts \<longleftrightarrow> (\<forall>t \<in> set ts. sorted (map key (fst t)))"

lemma sorted_streams_advance: "sorted_streams key ts \<Longrightarrow> sorted_streams key (advance i ts)"
proof -
  assume s: "sorted_streams key ts"
  show ?thesis
  proof (cases "i < length ts")
    case True
    then have "sorted (map key (fst (ts ! i)))" using s by (simp add: sorted_streams_def)
    then have "sorted (map key (tl (fst (ts ! i))))" by (simp add: map_tl sorted_tl)
    then show ?thesis
      using s set_update_subset_insert [of ts i] by (fastforce simp: sorted_streams_def advance_def)
  next
    case False
    then have "advance i ts = ts" by (simp add: advance_def list_update_beyond)
    then show ?thesis using s by simp
  qed
qed

lemma map_fst_advance:
  "i < length ts \<Longrightarrow> map fst (advance i ts) = (map fst ts)[i := tl (map fst ts ! i)]"
  by (simp add: advance_def map_update)

text \<open>
  On sorted iterators the merge yields a prefix of the stable sort of everything they hold: the
  whole of it, if no iterator raised.
\<close>

theorem merge_traces_prefix:
  assumes "sorted_streams key ts"
  shows "prefix (fst (merge_traces key ts)) (sort_key key (concat (map fst ts)))"
  using assms
proof (induction key ts rule: merge_traces.induct)
  case (1 key ts)
  show ?case
  proof (cases "interrupted ts")
    case (Some s)
    then show ?thesis by (simp add: merge_traces.simps)
  next
    case None
    show ?thesis
    proof (cases "earliest key (map fst ts)")
      case (Some i)
      have i: "i < length ts" using earliest_Some [OF Some] by simp
      have "prefix (fst (merge_traces key (advance i ts))) (sort_key key (concat (map fst (advance i ts))))"
        by (rule 1(1) [OF None Some sorted_streams_advance [OF 1(2)]])
      moreover have "\<forall>xs \<in> set (map fst ts). sorted (map key xs)"
        using 1(2) by (simp add: sorted_streams_def)
      ultimately show ?thesis
        using sort_key_earliest [OF Some] i None Some
        by (simp add: merge_traces.simps [of key ts] map_fst_advance)
    qed (use None in \<open>simp add: merge_traces.simps\<close>)
  qed
qed

lemma interrupted_None: "(\<forall>t \<in> set ts. snd t = StopIteration) \<Longrightarrow> interrupted ts = None"
  by (auto simp: interrupted_def find_None_iff)

lemma stops_advance: "\<forall>t \<in> set ts. snd t = StopIteration \<Longrightarrow> \<forall>t \<in> set (advance i ts). snd t = StopIteration"
proof (cases "i < length ts")
  case True
  assume "\<forall>t \<in> set ts. snd t = StopIteration"
  then show ?thesis using True set_update_subset_insert [of ts i] by (fastforce simp: advance_def)
qed (simp add: advance_def list_update_beyond)

theorem merge_traces_complete:
  assumes "\<forall>t \<in> set ts. snd t = StopIteration" and "sorted_streams key ts"
  shows "merge_traces key ts = (sort_key key (concat (map fst ts)), StopIteration)"
  using assms
proof (induction key ts rule: merge_traces.induct)
  case (1 key ts)
  note none = interrupted_None [OF 1(2)]
  show ?case
  proof (cases "earliest key (map fst ts)")
    case None
    then have "concat (map fst ts) = []" by (simp add: earliest_None)
    then show ?thesis using none None by (simp add: merge_traces.simps del: concat_eq_Nil_conv)
  next
    case (Some i)
    have i: "i < length ts" using earliest_Some [OF Some] by simp
    have "\<forall>xs \<in> set (map fst ts). sorted (map key xs)"
      using 1(3) by (simp add: sorted_streams_def)
    then show ?thesis
      using 1(1) [OF none Some stops_advance [OF 1(2)] sorted_streams_advance [OF 1(3)]]
        sort_key_earliest [OF Some] i none Some
      by (simp add: merge_traces.simps [of key ts] map_fst_advance yielding_def)
  qed
qed

section \<open>Observing longer extends the merge\<close>

lemma extends_head: "extends t t' \<Longrightarrow> fst t \<noteq> [] \<Longrightarrow> fst t' \<noteq> [] \<and> hd (fst t') = hd (fst t)"
  by (auto simp: extends_def prefix_def split: if_splits)

lemma extends_end: "extends t t' \<Longrightarrow> fst t = [] \<Longrightarrow> snd t \<noteq> OutOfFuel \<Longrightarrow> t' = t"
  by (simp add: extends_def)

lemma extends_tl: "extends t t' \<Longrightarrow> fst t \<noteq> [] \<Longrightarrow> extends (tl (fst t), snd t) (tl (fst t'), snd t')"
  by (auto simp: extends_def prefix_def split: if_splits)

lemma interrupted_Cons:
  "interrupted (t # ts) = (if fst t = [] \<and> snd t \<noteq> StopIteration then Some (snd t) else interrupted ts)"
  by (simp add: interrupted_def split: prod.splits)

lemma interrupted_extends:
  "list_all2 extends ts ts' \<Longrightarrow> interrupted ts \<noteq> Some OutOfFuel \<Longrightarrow> interrupted ts' = interrupted ts"
proof (induction rule: list_all2_induct)
  case (Cons t ts t' ts')
  show ?case
  proof (cases "fst t = []")
    case True
    then show ?thesis using Cons extends_end [of t t'] by (auto simp: interrupted_Cons split: if_splits)
  next
    case False
    then show ?thesis using Cons extends_head [of t t'] by (simp add: interrupted_Cons)
  qed
qed simp

lemma earliest_extends:
  "list_all2 extends ts ts' \<Longrightarrow> interrupted ts = None \<Longrightarrow>
   earliest key (map fst ts') = earliest key (map fst ts) \<and>
   (\<forall>i < length ts. fst (ts ! i) \<noteq> [] \<longrightarrow> hd (fst (ts' ! i)) = hd (fst (ts ! i)))"
proof (induction rule: list_all2_induct)
  case (Cons t ts t' ts')
  then have none: "interrupted ts = None" and t: "fst t = [] \<longrightarrow> snd t = StopIteration"
    by (auto simp: interrupted_Cons split: if_splits)
  have same: "(fst t' = [] \<longleftrightarrow> fst t = []) \<and> (fst t \<noteq> [] \<longrightarrow> hd (fst t') = hd (fst t))"
    using t Cons.hyps(1) extends_head [of t t'] extends_end [of t t'] by (cases "fst t = []") auto
  note ih = Cons.IH [OF none]
  have len: "length ts' = length ts" using Cons.hyps(2) by (simp add: list_all2_lengthD)
  have "earliest key (map fst (t' # ts')) = earliest key (map fst (t # ts))"
  proof (cases "earliest key (map fst ts)")
    case None
    then show ?thesis using ih same by simp
  next
    case (Some i)
    then have "i < length ts" "fst (ts ! i) \<noteq> []" using earliest_Some [OF Some] by auto
    then show ?thesis using ih same Some len by auto
  qed
  then show ?case using ih same by (auto simp: nth_Cons split: nat.splits)
qed simp

theorem merge_traces_extends:
  assumes "list_all2 extends ts ts'"
  shows "extends (merge_traces key ts) (merge_traces key ts')"
  using assms
proof (induction key ts arbitrary: ts' rule: merge_traces.induct)
  case (1 key ts)
  show ?case
  proof (cases "interrupted ts")
    case (Some s)
    then show ?thesis
      using interrupted_extends [OF 1(2)] by (cases s) (simp_all add: merge_traces.simps)
  next
    case None
    then have none': "interrupted ts' = None" using interrupted_extends [OF 1(2)] by simp
    note same = earliest_extends [OF 1(2) None, of key]
    show ?thesis
    proof (cases "earliest key (map fst ts)")
      case (Some i)
      have i: "i < length ts" "fst (ts ! i) \<noteq> []" using earliest_Some [OF Some] by auto
      have "extends (tl (fst (ts ! i)), snd (ts ! i)) (tl (fst (ts' ! i)), snd (ts' ! i))"
        using extends_tl 1(2) i by (metis list_all2_nthD)
      then have "list_all2 extends (advance i ts) (advance i ts')"
        using 1(2) by (simp add: advance_def list_all2_update_cong)
      from extends_yielding [OF 1(1) [OF None Some this]] show ?thesis
        using None none' Some same i
        by (simp add: merge_traces.simps [of key ts] merge_traces.simps [of key ts'])
    qed (use None none' same in \<open>simp add: merge_traces.simps\<close>)
  qed
qed

end
