(* ===== verification/Simulator_Dynamics.thy ===== *)
theory Simulator_Dynamics
  imports Contract Crossing Py_Random Py_Generator
begin

text \<open>
  \<^verbatim>\<open>simulator/dynamics.py\<close>: the characteristics of one device and its series of readings in virtual
  time. The generator is the trace of its first \<open>n\<close> wake-ups; an exception of a reading (a
  constraint of the contract, an instant out of range) ends it.
\<close>

section \<open>The device\<close>

record device_params =
  depletion_pct_per_hour :: pyfloat
  refill_threshold_pct :: pyfloat
  refill_prob_per_wake :: pyfloat
  battery_decay_v_per_hour :: pyfloat
  jitter_seconds :: pyfloat

definition BATTERY_RECHARGE_BELOW_V :: pyfloat where
  "BATTERY_RECHARGE_BELOW_V = Fin 3"

definition BATTERY_FULL_V :: pyfloat where
  "BATTERY_FULL_V = fl (42 / 10)"

definition BATTERY_WORKING_RANGE_V :: pyfloat where
  "BATTERY_WORKING_RANGE_V = fsub BATTERY_FULL_V BATTERY_RECHARGE_BELOW_V"

definition draw_device_params :: "'r rng \<Rightarrow> ('r, device_params res) state" where
  "draw_device_params g = do {
     tank_days \<leftarrow> uniform g (Fin 2) (Fin 6);
     battery_days \<leftarrow> uniform g (Fin 14) (Fin 28);
     threshold \<leftarrow> uniform g (Fin 5) (Fin 25);
     prob \<leftarrow> uniform g (fl (2 / 10)) (fl (6 / 10));
     jitter \<leftarrow> uniform g (Fin 0) (Fin 15);
     State_Monad.return
       (rbind (fdiv (Fin 100) (fmul tank_days (Fin 24))) (\<lambda>depletion.
        rbind (fdiv BATTERY_WORKING_RANGE_V (fmul battery_days (Fin 24))) (\<lambda>decay.
        Inr \<lparr>depletion_pct_per_hour = depletion, refill_threshold_pct = threshold,
             refill_prob_per_wake = prob, battery_decay_v_per_hour = decay, jitter_seconds = jitter\<rparr>)))
   }"

section \<open>One wake-up\<close>

text \<open>
  Constructing a \<^verbatim>\<open>TelemetryV1\<close> runs the validation of the contract on the given values; a failed
  constraint is a \<^verbatim>\<open>ValidationError\<close>, which is a \<^verbatim>\<open>ValueError\<close>. The simulated times are UTC.
\<close>

definition fields_of :: "string \<Rightarrow> py_datetime \<Rightarrow> pyfloat \<Rightarrow> pyfloat \<Rightarrow> raw_fields" where
  "fields_of d at_time w b =
     \<lparr>raw_schema_version = Missing, raw_device_id = Good d,
      raw_measured_at = (case at_time of
          Aware t \<Rightarrow> Good \<lparr>wall_us = t, offset_us = 0\<rparr>
        | Naive t \<Rightarrow> Bad ''timezone_aware''),
      raw_water_level = Good w, raw_battery_voltage = Good b\<rparr>"

definition new_telemetry :: "string \<Rightarrow> py_datetime \<Rightarrow> pyfloat \<Rightarrow> pyfloat \<Rightarrow> telemetry res" where
  "new_telemetry d at_time w b =
     rbind (model_validate_json Decoded (\<lambda>_. '''') (fields_of d at_time w b)) (\<lambda>result.
     case result of Inl errors \<Rightarrow> Inl ValueError | Inr r \<Rightarrow> Inr r)"

record device_state =
  ds_level :: pyfloat
  ds_battery :: pyfloat
  ds_at :: py_datetime
  ds_prev_at :: py_datetime

record wake_draws =
  wd_jitter :: pyfloat
  wd_refill_roll :: pyfloat
  wd_refill_target :: pyfloat
  wd_recharge_target :: pyfloat
  wd_adc_noise :: pyfloat

definition draw_wake :: "'r rng \<Rightarrow> pyfloat \<Rightarrow> ('r, wake_draws) state" where
  "draw_wake g jitter_limit = do {
     jitter \<leftarrow> uniform g (fneg jitter_limit) jitter_limit;
     roll \<leftarrow> random g;
     refill \<leftarrow> uniform g (Fin 92) (Fin 100);
     recharge \<leftarrow> uniform g (fl (415 / 100)) (fl (425 / 100));
     noise \<leftarrow> uniform g (fneg (fl (5 / 1000))) (fl (5 / 1000));
     State_Monad.return \<lparr>wd_jitter = jitter, wd_refill_roll = roll, wd_refill_target = refill,
       wd_recharge_target = recharge, wd_adc_noise = noise\<rparr>
   }"

definition next_battery :: "device_params \<Rightarrow> wake_draws \<Rightarrow> pyfloat \<Rightarrow> pyfloat \<Rightarrow> pyfloat" where
  "next_battery p w hours battery =
     (let b = fsub battery (fmul (battery_decay_v_per_hour p) hours)
      in if flt b BATTERY_RECHARGE_BELOW_V then wd_recharge_target w else b)"

definition next_level :: "device_params \<Rightarrow> wake_draws \<Rightarrow> pyfloat \<Rightarrow> pyfloat \<Rightarrow> pyfloat" where
  "next_level p w hours level =
     (let l = py_max (Fin 0) (fsub level (fmul (depletion_pct_per_hour p) hours))
      in if flt l (refill_threshold_pct p) \<and> flt (wd_refill_roll w) (refill_prob_per_wake p)
         then wd_refill_target w else l)"

definition reported_voltage :: "pyfloat \<Rightarrow> pyfloat \<Rightarrow> pyfloat res" where
  "reported_voltage battery noise =
     rbind (py_round 3 (fadd battery noise)) (\<lambda>b. Inr (py_min (fl (44 / 10)) (py_max (fl (25 / 10)) b)))"

definition device_wake ::
  "string \<Rightarrow> device_params \<Rightarrow> wake_draws \<Rightarrow> device_state \<Rightarrow> (telemetry \<times> device_state) res" where
  "device_wake d p w st =
     rbind (dt_sub (ds_at st) (ds_prev_at st)) (\<lambda>elapsed.
     rbind (fdiv (total_seconds elapsed) (Fin 3600)) (\<lambda>hours.
     let st' = st\<lparr>ds_level := next_level p w hours (ds_level st),
                  ds_battery := next_battery p w hours (ds_battery st)\<rparr>
     in rbind (py_round 1 (ds_level st')) (\<lambda>water.
        rbind (reported_voltage (ds_battery st') (wd_adc_noise w)) (\<lambda>volts.
        rbind (new_telemetry d (ds_at st') water volts) (\<lambda>r. Inr (r, st'))))))"

definition advance_clock :: "int \<Rightarrow> pyfloat \<Rightarrow> device_state \<Rightarrow> device_state res" where
  "advance_clock interval jitter st =
     rbind (dt_add (ds_at st) interval) (\<lambda>t.
     rbind (timedelta_of us_per_second jitter) (\<lambda>j.
     rbind (dt_add t j) (\<lambda>t'. Inr (st\<lparr>ds_prev_at := ds_at st, ds_at := t'\<rparr>))))"

section \<open>The series\<close>

fun device_loop ::
  "'r rng \<Rightarrow> string \<Rightarrow> device_params \<Rightarrow> int \<Rightarrow> pyfloat \<Rightarrow> nat \<Rightarrow> device_state \<Rightarrow> 'r \<Rightarrow> telemetry trace" where
  "device_loop g d p interval limit 0 st rs = ([], OutOfFuel)"
| "device_loop g d p interval limit (Suc n) st rs =
     (case run_state (draw_wake g limit) rs of (w, rs') \<Rightarrow>
      case device_wake d p w st of
        Inl e \<Rightarrow> ([], Raised e)
      | Inr (r, st') \<Rightarrow>
          yielding [r] (case advance_clock interval (wd_jitter w) st' of
              Inl e \<Rightarrow> ([], Raised e)
            | Inr st'' \<Rightarrow> device_loop g d p interval limit n st'' rs'))"

definition jitter_limit :: "device_params \<Rightarrow> int \<Rightarrow> pyfloat res" where
  "jitter_limit p interval =
     rbind (fdiv (total_seconds interval) (Fin 4)) (\<lambda>quarter. Inr (py_min (jitter_seconds p) quarter))"

definition device_readings ::
  "'r rng \<Rightarrow> string \<Rightarrow> device_params \<Rightarrow> py_datetime \<Rightarrow> int \<Rightarrow> nat \<Rightarrow> 'r \<Rightarrow> telemetry trace" where
  "device_readings g d p start interval n rs =
     (if n = 0 then ([], OutOfFuel)
      else case run_state (do {
              level \<leftarrow> uniform g (Fin 40) (Fin 100);
              battery \<leftarrow> uniform g (fl (37 / 10)) BATTERY_FULL_V;
              State_Monad.return (level, battery)
            }) rs of ((level, battery), rs') \<Rightarrow>
        (case jitter_limit p interval of
           Inl e \<Rightarrow> ([], Raised e)
         | Inr limit \<Rightarrow>
             device_loop g d p interval limit n
               \<lparr>ds_level = level, ds_battery = battery, ds_at = start, ds_prev_at = start\<rparr> rs'))"

text \<open>The position of a datetime on its own time line, by which emissions are ordered.\<close>

fun instant :: "py_datetime \<Rightarrow> int" where
  "instant (Aware t) = t"
| "instant (Naive t) = t"

end
