(* ===== verification/Dynamics_Laws.thy ===== *)
theory Dynamics_Laws
  imports Simulator_Dynamics
begin

text \<open>
  What the physics promise: the drawn characteristics are plausible, every reading passes the
  contract, time never runs backwards (and moves on for an interval of a microsecond or more),
  and the tank only empties between refills to at least 92 percent.
\<close>

section \<open>Cadence jitter\<close>

lemma fl_minus: "fl (- x) = fneg (fl x)"
  by (auto simp: fl_def Let_def)

lemma trunc_minus: "trunc (- x) = - trunc x"
proof -
  consider "0 < x" | "x = 0" | "x < 0" by linarith
  then show ?thesis by cases (simp_all add: trunc_def ceiling_def)
qed

lemma scaled_us_minus:
  assumes "scaled_us factor x = Inr k"
  shows "scaled_us factor (- x) = Inr (- k)"
proof -
  let ?f = "x - of_int (trunc x)"
  have f: "- x - of_int (trunc (- x)) = - ?f" by (simp add: trunc_minus)
  show ?thesis
  proof (cases "?f = 0")
    case True
    then show ?thesis using assms f by (simp add: scaled_us_def Let_def trunc_minus)
  next
    case False
    then obtain p where p: "fl (of_int factor * ?f) = Fin p"
      and k: "k = round_half_even (of_int (trunc x * factor) + p)"
      using assms by (auto simp: scaled_us_def Let_def split: pyfloat.splits)
    have "of_int factor * - ?f = - (of_int factor * ?f)" by (rule mult_minus_right)
    then have q: "fl (of_int factor * - ?f) = Fin (- p)" using p fl_minus by (metis fneg.simps(1))
    have "of_int (trunc (- x) * factor) + - p = - (of_int (trunc x * factor) + p)"
      by (simp add: trunc_minus)
    have "scaled_us factor (- x) = Inr (round_half_even (of_int (trunc (- x) * factor) + - p))"
      unfolding scaled_us_def Let_def f q using False by simp
    then show ?thesis using k by (simp only: \<open>of_int (trunc (- x) * factor) + - p = _\<close> round_half_even_minus)
  qed
qed

lemma representable_dyadic: "\<bar>m\<bar> \<le> 2 ^ 53 \<Longrightarrow> k \<le> 1000 \<Longrightarrow> representable (of_int m / 2 ^ k)"
proof -
  assume m: "\<bar>m\<bar> \<le> 2 ^ 53" and k: "k \<le> 1000"
  have "of_int m / 2 ^ k = (of_int m * 2 powi (- int k) :: rat)"
    by (simp add: power_int_minus divide_inverse)
  moreover have "rnd (of_int m * 2 powi (- int k)) = of_int m * 2 powi (- int k)"
    by (rule rnd_dyadic [OF m]) (use k in simp)
  moreover have "\<bar>of_int m / 2 ^ k :: rat\<bar> < 2 ^ 1024"
  proof -
    have "(of_int \<bar>m\<bar> :: rat) \<le> of_int (2 ^ 53)" using m by (simp only: of_int_le_iff)
    moreover have "\<bar>of_int m / 2 ^ k :: rat\<bar> \<le> of_int \<bar>m\<bar>"
      by (simp add: pos_divide_le_eq mult_left_mono mult_le_cancel_left1)
    moreover have "(of_int (2 ^ 53) :: rat) < 2 ^ 1024"
      using power_strict_increasing [of 53 1024 "2::rat"] by simp
    ultimately show ?thesis by linarith
  qed
  ultimately show ?thesis unfolding representable_def by metis
qed

lemma half_integer_representable: "\<bar>m\<bar> \<le> 2 ^ 53 \<Longrightarrow> representable (of_int m / 2)"
  using representable_dyadic [of m 1] by simp

lemma round_half_below: "0 < i \<Longrightarrow> y \<le> of_int i / 2 \<Longrightarrow> round_half_even y < i"
proof -
  assume i: "0 < i" and y: "y \<le> of_int i / 2"
  show ?thesis
  proof (cases "i = 1")
    case True
    then have "round_half_even y \<le> round_half_even (1 / 2)" using y by (intro round_half_even_mono) simp
    also have "\<dots> = 0" by (simp add: round_half_even_def floor_divide_of_int_eq [of 1 2, simplified])
    finally show ?thesis using True by simp
  next
    case False
    have "(of_int i :: rat) \<le> of_int (2 * ((i + 1) div 2))" by (subst of_int_le_iff) simp
    then have "y \<le> of_int ((i + 1) div 2)" using y by simp
    then have "round_half_even y \<le> (i + 1) div 2" by (rule round_half_even_le_int)
    then show ?thesis using i False by linarith
  qed
qed

text \<open>A quarter of an interval, or anything up to half of it, moves the clock by less than the interval.\<close>

lemma scaled_us_half:
  assumes "0 \<le> x" and "x * 1000000 \<le> of_int i / 2" and "0 < i"
  shows "\<exists>k. scaled_us us_per_second x = Inr k \<and> 0 \<le> k \<and> k < i"
proof -
  obtain p where s: "scaled_us us_per_second x = Inr (round_half_even (of_int (\<lfloor>x\<rfloor> * us_per_second) + p))"
    and p: "fl (of_int us_per_second * (x - of_int \<lfloor>x\<rfloor>)) = Fin p" "0 \<le> p"
    using scaled_us_nonneg [of us_per_second x] assms(1) by auto
  let ?f = "x - of_int \<lfloor>x\<rfloor>" and ?m = "i - 2 * (\<lfloor>x\<rfloor> * us_per_second)"
  have f: "0 \<le> ?f" "?f < 1" by linarith+
  have half: "1000000 * ?f \<le> of_int ?m / 2" using assms(2) by (simp add: algebra_simps)
  have "p \<le> of_int ?m / 2"
  proof (cases "?m \<le> 2 ^ 53")
    case True
    have "0 \<le> of_int ?m / (2::rat)" using f(1) by (intro order_trans [OF _ half]) simp
    then have "0 \<le> ?m" by (simp only: zero_le_divide_iff of_int_0_le_iff) simp
    then have rep: "representable (of_int ?m / 2)" using True by (intro half_integer_representable) simp
    from fl_mono [OF half] have "Fin p \<le> Fin (of_int ?m / 2)"
      using p(1) fl_representable [OF rep] by simp
    then show ?thesis by simp
  next
    case False
    have "p \<le> 1000000"
    proof -
      have "1000000 * ?f \<le> 1000000" using f by simp
      moreover have "fl 1000000 = Fin 1000000"
        using representable_of_int [of 1000000] by (intro fl_representable) simp
      ultimately show ?thesis using p(1) fl_mono [of "1000000 * ?f" 1000000] by simp
    qed
    also have "\<dots> \<le> of_int (2 ^ 53) / 2" by simp
    also have "(of_int (2 ^ 53) :: rat) \<le> of_int ?m" using False by (simp only: of_int_le_iff not_le less_imp_le)
    then have "of_int (2 ^ 53) / 2 \<le> (of_int ?m / 2 :: rat)" by (rule divide_right_mono) simp
    finally show ?thesis .
  qed
  then have "of_int (\<lfloor>x\<rfloor> * us_per_second) + p \<le> of_int i / 2" by (simp add: algebra_simps)
  from round_half_below [OF assms(3) this]
  have "round_half_even (of_int (\<lfloor>x\<rfloor> * us_per_second) + p) < i" .
  moreover have "0 \<le> round_half_even (of_int (\<lfloor>x\<rfloor> * us_per_second) + p)"
  proof (rule int_le_round_half_even)
    have "0 \<le> \<lfloor>x\<rfloor> * us_per_second" using assms(1) by simp
    then have "(0::rat) \<le> of_int (\<lfloor>x\<rfloor> * us_per_second)" by (simp only: of_int_0_le_iff)
    then show "of_int 0 \<le> of_int (\<lfloor>x\<rfloor> * us_per_second) + p" using p(2) by simp
  qed
  ultimately show ?thesis using s by simp
qed

lemma quarter_interval:
  assumes "0 < i" and "td_ok i"
  shows "\<exists>q. fdiv (total_seconds i) (Fin 4) = Inr (Fin q) \<and> representable q \<and> 0 \<le> q \<and>
             q * 1000000 \<le> of_int i / 2"
proof -
  let ?x = "of_int i / 1000000 :: rat"
  have x0: "0 < ?x" using assms(1) by simp
  define e where "e = ilog2 ?x"
  have lo: "2 powi e \<le> ?x" and hi: "?x < 2 powi (e + 1)"
    using ilog2_bounds [OF x0] by (simp_all add: e_def)
  have "(2::rat) powi - 20 \<le> 1 / 1000000" by (simp add: power_int_minus)
  also have "\<dots> \<le> ?x" using assms(1) by (simp add: divide_right_mono)
  finally have "(2::rat) powi - 20 < 2 powi (e + 1)" using hi by linarith
  then have e1: "- 21 < e" by (drule_tac powi_less_cancel) simp
  have "(of_int i :: rat) < of_int (2 ^ 67)"
    using assms(2) unfolding of_int_less_iff by (simp add: td_ok_def)
  then have "?x < 2 powi 67" by simp
  then have "(2::rat) powi e < 2 powi 67" using lo by linarith
  then have e2: "e < 67" by (rule powi_less_cancel)
  have rep: "representable (2 powi k)" if "- 1074 \<le> k" "k < 100" for k
  proof -
    have "(2::rat) powi k \<le> 2 powi 100" using that by (intro powi_le) simp
    also have "(2::rat) powi 100 < 2 ^ 1024" using power_strict_increasing [of 100 1024 "2::rat"] by simp
    finally show ?thesis using rnd_powi [OF that(1)] by (simp add: representable_def)
  qed
  have "0 \<le> ?x" and "?x \<le> 2 powi (e + 1)" using x0 hi by simp_all
  from fl_between [OF representable_zero rep this] e1 e2
  obtain s where s: "total_seconds i = Fin s" "0 \<le> s" "s \<le> 2 powi (e + 1)"
    by (auto simp: total_seconds_def)
  have split: "(2::rat) powi (e + 1) = 4 * 2 powi (e - 1)"
    using powi_split [of 2 "e - 1"] by (simp add: add.commute)
  have "0 \<le> s / 4" and "s / 4 \<le> 2 powi (e - 1)" using s(2,3) split by simp_all
  from fl_between [OF representable_zero rep this] e1 e2
  obtain q where q: "fl (s / 4) = Fin q" "0 \<le> q" "q \<le> 2 powi (e - 1)" by auto
  have "2 powi e = 2 * (2::rat) powi (e - 1)" using powi_split [of "e - 1" 1] by simp
  then have "q \<le> ?x / 2" using q(3) lo by linarith
  then have "q * 1000000 \<le> of_int i / 2" by simp
  moreover have "wf_float (Fin q)" using wf_fl [of "s / 4"] unfolding q(1) .
  ultimately show ?thesis using s q by simp
qed

section \<open>The draws\<close>

lemma fl_in:
  assumes "representable lo" and "representable hi" and "lo \<le> x" and "x \<le> hi"
  obtains y where "fl x = Fin y" and "representable y" and "lo \<le> y" and "y \<le> hi"
proof -
  obtain y where y: "fl x = Fin y" "lo \<le> y" "y \<le> hi" using fl_between [OF assms] by blast
  moreover have "wf_float (Fin y)" using wf_fl [of x] unfolding y(1) .
  ultimately show ?thesis using that by simp
qed

definition between :: "rat \<Rightarrow> rat \<Rightarrow> pyfloat \<Rightarrow> bool" where
  "between lo hi f \<longleftrightarrow> (\<exists>x. f = Fin x \<and> representable x \<and> lo \<le> x \<and> x \<le> hi)"

lemma between_mono: "between lo hi f \<Longrightarrow> lo' \<le> lo \<Longrightarrow> hi \<le> hi' \<Longrightarrow> between lo' hi' f"
  by (force simp: between_def)

lemma uniform_draw:
  assumes "rng_ok g" and "representable a" and "representable b" and "a \<le> b"
    and "representable w" and "b - a \<le> w" and "representable hi" and "a + w \<le> hi"
  shows "draws (between a hi) (uniform g (Fin a) (Fin b))"
proof -
  obtain v where v: "fl (b - a) = Fin v" "0 \<le> v" "v \<le> w"
    by (rule fl_in [OF representable_zero assms(5), of "b - a"]) (use assms(4,6) in simp_all)
  then have "fsub (Fin b) (Fin a) = Fin v" by (simp add: fsub_def)
  then have "draws (\<lambda>f. \<exists>x. f = Fin x \<and> representable x \<and> a \<le> x \<and> x \<le> hi) (uniform g (Fin a) (Fin b))"
    by (rule uniform_between [OF assms(1)]) (use assms v in simp_all)
  then show ?thesis by (rule draws_mono) (simp add: between_def)
qed

lemma uniform_ints:
  assumes "rng_ok g" and "lo \<le> hi" and "\<bar>lo\<bar> \<le> 1000" and "\<bar>hi\<bar> \<le> 1000"
  shows "draws (between (of_int lo) (of_int hi)) (uniform g (Fin (of_int lo)) (Fin (of_int hi)))"
proof -
  have rep: "representable (of_int k)" if "\<bar>k\<bar> \<le> 2000" for k using that by (intro representable_of_int) simp
  show ?thesis
    by (rule uniform_draw [OF assms(1), where w = "of_int (hi - lo)"])
      (use assms rep [of lo] rep [of hi] rep [of "hi - lo"] in simp_all)
qed

lemma uniform_symmetric:
  assumes "rng_ok g" and "representable l" and "0 \<le> l" and "l \<le> 2 ^ 60"
  shows "draws (between (- l) l) (uniform g (fneg (Fin l)) (Fin l))"
proof -
  have "rnd (2 * l) = 2 * l" using assms(2) by (intro rnd_double) (simp add: representable_def)
  moreover have "\<bar>2 * l\<bar> < 2 ^ 1024"
    using assms(3,4) power_strict_increasing [of 61 1024 "2::rat"] by simp
  ultimately have "representable (2 * l)" unfolding representable_def by blast
  then show ?thesis
    unfolding fneg.simps by (intro uniform_draw [OF assms(1), where w = "2 * l"]) (use assms in simp_all)
qed

definition wake_ok :: "rat \<Rightarrow> wake_draws \<Rightarrow> bool" where
  "wake_ok limit w \<longleftrightarrow>
     between (- limit) limit (wd_jitter w) \<and> between 92 100 (wd_refill_target w) \<and>
     between 4 (9 / 2) (wd_recharge_target w) \<and> between (- 1) 1 (wd_adc_noise w)"

lemma quarters: "\<bar>k\<bar> \<le> 2 ^ 53 \<Longrightarrow> representable (of_int k / 4)"
  using representable_dyadic [of k 2] by simp

lemma fl_quarters:
  assumes "of_int lo / 4 \<le> x" and "x \<le> of_int hi / 4" and "\<bar>lo\<bar> \<le> 1000" and "\<bar>hi\<bar> \<le> 1000"
  obtains y where "fl x = Fin y" and "representable y" and "of_int lo / 4 \<le> y" and "y \<le> of_int hi / 4"
  by (rule fl_in [OF quarters quarters assms(1,2)]) (use assms that in simp_all)

lemma recharge_draw:
  assumes "rng_ok g"
  shows "draws (between 4 (9 / 2)) (uniform g (fl (415 / 100)) (fl (425 / 100)))"
proof -
  obtain a where a: "fl (415 / 100) = Fin a" "representable a" "4 \<le> a" "a \<le> 17 / 4"
    by (rule fl_quarters [of 16 "415 / 100" 17]) simp_all
  obtain b where b: "fl (425 / 100) = Fin b" "representable b" "17 / 4 \<le> b" "b \<le> 17 / 4"
    by (rule fl_quarters [of 17 "425 / 100" 17]) simp_all
  have "draws (between a (9 / 2)) (uniform g (Fin a) (Fin b))"
    by (rule uniform_draw [OF assms a(2) b(2), where w = "1 / 4"])
      (use a b quarters [of 1] quarters [of 18] in simp_all)
  then show ?thesis unfolding a(1) b(1) using a(3) by (elim draws_mono) (simp add: between_mono)
qed

lemma noise_draw:
  assumes "rng_ok g"
  shows "draws (between (- 1) 1) (uniform g (fneg (fl (5 / 1000))) (fl (5 / 1000)))"
proof -
  obtain e where e: "fl (5 / 1000) = Fin e" "representable e" "0 \<le> e" "e \<le> 1 / 4"
    by (rule fl_quarters [of 0 "5 / 1000" 1]) simp_all
  have "e \<le> 2 ^ 60" using e(4) by simp
  from uniform_symmetric [OF assms e(2,3) this] show ?thesis
    unfolding e(1) by (rule draws_mono) (use e in \<open>auto elim!: between_mono\<close>)
qed

lemma draw_wake_ok:
  assumes "rng_ok g" and "representable limit" and "0 \<le> limit" and "limit \<le> 2 ^ 60"
  shows "draws (wake_ok limit) (draw_wake g (Fin limit))"
  unfolding draw_wake_def
  apply (rule draws_bind [OF uniform_symmetric [OF assms]])
  apply (rule draws_bind [OF draws_random [OF assms(1)]])
  apply (rule draws_bind [OF uniform_ints [OF assms(1), of 92 100, simplified]])
  apply (rule draws_bind [OF recharge_draw [OF assms(1)]])
  apply (rule draws_bind [OF noise_draw [OF assms(1)]])
  apply (simp add: wake_ok_def)
  done

text \<open>A full tank lasts two to six days, so it loses at most four percent per hour; a charge two to four weeks.\<close>

definition params_ok :: "device_params \<Rightarrow> bool" where
  "params_ok p \<longleftrightarrow>
     between 0 4 (depletion_pct_per_hour p) \<and> between 5 25 (refill_threshold_pct p) \<and>
     between 0 1 (refill_prob_per_wake p) \<and> between 0 1 (battery_decay_v_per_hour p) \<and>
     between 0 15 (jitter_seconds p)"

lemma per_hour:
  assumes "between lo hi days" and "1 \<le> lo" and "hi \<le> 100" and "0 \<le> v" and "v \<le> 100"
    and "representable r" and "v / (24 * lo) \<le> r" and "representable (24 * lo)"
  shows "\<exists>q. fdiv (Fin v) (fmul days (Fin 24)) = Inr q \<and> between 0 r q"
proof -
  obtain x where x: "days = Fin x" "lo \<le> x" "x \<le> hi" using assms(1) by (auto simp: between_def)
  have "24 * lo \<le> x * 24" and "x * 24 \<le> of_int 2400" using x assms(3) by simp_all
  moreover have "representable (of_int 2400)" by (rule representable_of_int) simp
  ultimately obtain y where y: "fl (x * 24) = Fin y" "24 * lo \<le> y" using fl_in assms(8) by blast
  have y0: "0 < y" using y(2) assms(2) by simp
  have "v / y \<le> v / (24 * lo)" using y(2) assms(2,4) by (intro divide_left_mono) simp_all
  then have "v / y \<le> r" using assms(7) by linarith
  moreover have "0 \<le> v / y" using y0 assms(4) by simp
  ultimately obtain q where "fl (v / y) = Fin q" "representable q" "0 \<le> q" "q \<le> r"
    using fl_in [OF representable_zero assms(6)] by blast
  then show ?thesis using x y y0 by (simp add: between_def)
qed

lemma draw_device_params_ok:
  assumes "rng_ok g"
  shows "draws (\<lambda>res. \<exists>p. res = Inr p \<and> params_ok p) (draw_device_params g)"
proof -
  obtain full where full: "BATTERY_FULL_V = Fin full" "representable full" "4 \<le> full" "full \<le> 17 / 4"
    unfolding BATTERY_FULL_V_def by (rule fl_quarters [of 16 "42 / 10" 17]) simp_all
  have w: "BATTERY_WORKING_RANGE_V = fl (full - 3)"
    by (simp add: BATTERY_WORKING_RANGE_V_def BATTERY_RECHARGE_BELOW_V_def fsub_def full(1))
  obtain range where range: "fl (full - 3) = Fin range" "0 \<le> range" "range \<le> 5 / 4"
    by (rule fl_quarters [of 4 "full - 3" 5]) (use full in simp_all)
  have r12: "representable 4" "representable 1" "representable (24 * 2)" "representable (24 * 14)"
    using representable_of_int [of 4] representable_of_int [of 1] representable_of_int [of 48]
      representable_of_int [of 336] by simp_all
  have probs: "draws (between 0 1) (uniform g (fl (2 / 10)) (fl (6 / 10)))"
  proof -
    obtain a where a: "fl (2 / 10) = Fin a" "representable a" "0 \<le> a" "a \<le> 1 / 4"
      by (rule fl_quarters [of 0 "2 / 10" 1]) simp_all
    obtain b where b: "fl (6 / 10) = Fin b" "representable b" "1 / 2 \<le> b" "b \<le> 3 / 4"
      by (rule fl_quarters [of 2 "6 / 10" 3]) simp_all
    have "draws (between a 1) (uniform g (Fin a) (Fin b))"
      by (rule uniform_draw [OF assms a(2) b(2), where w = "3 / 4"])
        (use a b quarters [of 3] r12 in simp_all)
    then show ?thesis unfolding a(1) b(1) using a(3) by (elim draws_mono) (simp add: between_mono)
  qed
  show ?thesis
    unfolding draw_device_params_def w range(1)
    apply (rule draws_bind [OF uniform_ints [OF assms, of 2 6, simplified]])
    apply (rule draws_bind [OF uniform_ints [OF assms, of 14 28, simplified]])
    apply (rule draws_bind [OF uniform_ints [OF assms, of 5 25, simplified]])
    apply (rule draws_bind [OF probs])
    apply (rule draws_bind [OF uniform_ints [OF assms, of 0 15, simplified]])
    subgoal for tank battery threshold prob jitter
      using per_hour [of 2 6 tank 100 4] per_hour [of 14 28 battery range 1] r12 range
      by (auto simp: params_ok_def)
    done
qed

section \<open>One wake-up\<close>

definition device_ok :: "device_state \<Rightarrow> bool" where
  "device_ok st \<longleftrightarrow>
     between 0 100 (ds_level st) \<and> between 3 (9 / 2) (ds_battery st) \<and>
     (\<exists>a p. ds_at st = Aware a \<and> ds_prev_at st = Aware p \<and> dt_ok a \<and> dt_ok p \<and> p \<le> a)"

lemma elapsed_hours:
  assumes "dt_ok a" and "dt_ok p" and "p \<le> a"
  shows "\<exists>h. fdiv (total_seconds (a - p)) (Fin 3600) = Inr h \<and> between 0 (2 ^ 53) h"
proof -
  obtain s where s: "total_seconds (a - p) = Fin s" "\<bar>s\<bar> \<le> 2 ^ 53"
    using total_seconds_diff_finite assms(1,2) by blast
  have "0 \<le> s" using total_seconds_mono [of 0 "a - p"] s(1) assms(3) by simp
  then have "0 \<le> s / 3600" and "s / 3600 \<le> 2 ^ 53" using s(2) by simp_all
  then obtain h where "fl (s / 3600) = Fin h" "representable h" "0 \<le> h" "h \<le> 2 ^ 53"
    using fl_in [OF representable_zero representable_pow, of 53 "s / 3600"] by auto
  then show ?thesis using s(1) by (simp add: between_def)
qed

text \<open>Taking away a non-negative rate times a non-negative time never increases a quantity.\<close>

lemma decrease:
  assumes "representable x" and "0 \<le> x" and "x \<le> 100" and "between 0 4 rate" and "between 0 (2 ^ 53) h"
  shows "\<exists>y. fsub (Fin x) (fmul rate h) = Fin y \<and> representable y \<and> y \<le> x"
proof -
  obtain r t where r: "rate = Fin r" "0 \<le> r" "r \<le> 4" and t: "h = Fin t" "0 \<le> t" "t \<le> 2 ^ 53"
    using assms(4,5) by (auto simp: between_def)
  have "r * t \<le> 4 * 2 ^ 53" using r t by (intro mult_mono) simp_all
  then have "0 \<le> r * t" and "r * t \<le> 2 ^ 55" using r t by simp_all
  then obtain m where m: "fl (r * t) = Fin m" "0 \<le> m" "m \<le> 2 ^ 55"
    using fl_in [OF representable_zero representable_pow, of 55 "r * t"] by auto
  have "representable (- (2 ^ 55))" by (simp add: representable_pow del: power_numeral)
  moreover have "- (2 ^ 55) \<le> x - m" and "x - m \<le> x" using m assms(2) by simp_all
  ultimately obtain y where "fl (x - m) = Fin y" "representable y" "y \<le> x"
    using fl_in assms(1) by blast
  then show ?thesis using r t m by (simp add: fsub_def)
qed

lemma next_level_ok:
  assumes "params_ok p" and "wake_ok limit w" and "level = Fin l" and "between 0 100 level"
    and "between 0 (2 ^ 53) h"
  shows "\<exists>l'. next_level p w h level = Fin l' \<and> between 0 100 (Fin l') \<and> (l' \<le> l \<or> 92 \<le> l')"
proof -
  have l: "representable l" "0 \<le> l" "l \<le> 100" using assms(3,4) by (auto simp: between_def)
  obtain y where y: "fsub (Fin l) (fmul (depletion_pct_per_hour p) h) = Fin y" "representable y" "y \<le> l"
    using decrease [OF l _ assms(5)] assms(1) by (auto simp: params_ok_def)
  obtain t where t: "wd_refill_target w = Fin t" "representable t" "92 \<le> t" "t \<le> 100"
    using assms(2) by (auto simp: wake_ok_def between_def)
  have "representable (max 0 y)" using y(2) by (simp add: max_def)
  then show ?thesis using y t l assms(3) by (auto simp: next_level_def Let_def between_def)
qed

lemma next_battery_ok:
  assumes "params_ok p" and "wake_ok limit w" and "between 3 (9 / 2) battery" and "between 0 (2 ^ 53) h"
  shows "between 3 (9 / 2) (next_battery p w h battery)"
proof -
  obtain b where b: "battery = Fin b" "representable b" "3 \<le> b" "b \<le> 9 / 2"
    using assms(3) by (auto simp: between_def)
  have "between 0 4 (battery_decay_v_per_hour p)" using assms(1) by (auto simp: params_ok_def elim: between_mono)
  then obtain y where y: "fsub (Fin b) (fmul (battery_decay_v_per_hour p) h) = Fin y" "representable y" "y \<le> b"
    using decrease [of b _ h] b assms(4) by auto
  have "between 3 (9 / 2) (wd_recharge_target w)" using assms(2) by (auto simp: wake_ok_def elim: between_mono)
  then show ?thesis using y b
    by (auto simp: next_battery_def Let_def BATTERY_RECHARGE_BELOW_V_def between_def)
qed

lemma voltage_limits:
  obtains lo hi where "fl (25 / 10) = Fin lo" and "fl (44 / 10) = Fin hi" and "lo \<le> hi"
proof -
  obtain lo where lo: "fl (25 / 10) = Fin lo" "lo \<le> 10 / 4" by (rule fl_quarters [of 10 "25 / 10" 10]) simp_all
  obtain hi where "fl (44 / 10) = Fin hi" "16 / 4 \<le> hi" by (rule fl_quarters [of 16 "44 / 10" 18]) simp_all
  then show ?thesis using that lo by simp
qed

lemma reported_voltage_ok:
  assumes "between 3 (9 / 2) battery" and "between (- 1) 1 noise"
  shows "\<exists>v. reported_voltage battery noise = Inr v \<and> fle (fl (25 / 10)) v \<and> fle v (fl (44 / 10))"
proof -
  obtain b e where b: "battery = Fin b" "3 \<le> b" "b \<le> 9 / 2" and e: "noise = Fin e" "- 1 \<le> e" "e \<le> 1"
    using assms by (auto simp: between_def)
  have "of_int 2 \<le> b + e" and "b + e \<le> of_int 6" using b e by simp_all
  then obtain x where x: "fl (b + e) = Fin x" "of_int 2 \<le> x" "x \<le> of_int 6"
    using fl_in [OF representable_of_int representable_of_int, of 2 6 "b + e"] by auto
  then obtain y where y: "py_round 3 (Fin x) = Inr (Fin y)" using py_round_between [of 2 x 6 3] by auto
  obtain lo hi where lim: "fl (25 / 10) = Fin lo" "fl (44 / 10) = Fin hi" "lo \<le> hi" by (rule voltage_limits)
  show ?thesis
    using b e x y lim by (simp add: reported_voltage_def del: py_round.simps)
qed

lemma new_telemetry_ok:
  assumes "device_id_ok d" and "dt_ok t" and "fle (Fin 0) w" and "fle w (Fin 100)"
    and "fle (fl (25 / 10)) v" and "fle v (fl (44 / 10))"
  shows "new_telemetry d (Aware t) w v =
    Inr \<lparr>schema_version = 1, device_id = d, measured_at = Aware t, water_level = w, battery_voltage = v\<rparr>"
  using assms
  by (simp add: new_telemetry_def fields_of_def model_validate_json_def to_utc_def telemetry_errors_def
      field_error_def in_bounds_def)

definition level_step :: "pyfloat \<Rightarrow> pyfloat \<Rightarrow> bool" where
  "level_step x y \<longleftrightarrow> (\<exists>u v. x = Fin u \<and> y = Fin v \<and> (v \<le> u \<or> 92 \<le> v))"

theorem device_wake_ok:
  assumes "params_ok p" and "wake_ok limit w" and "device_ok st" and "device_id_ok d"
  shows "\<exists>r st'. device_wake d p w st = Inr (r, st') \<and> device_ok st' \<and> telemetry_ok r \<and> device_id r = d \<and>
    measured_at r = ds_at st \<and> ds_at st' = ds_at st \<and> level_step (ds_level st) (ds_level st') \<and>
    py_round 1 (ds_level st') = Inr (water_level r)"
proof -
  obtain a pa where t: "ds_at st = Aware a" "ds_prev_at st = Aware pa" "dt_ok a" "dt_ok pa" "pa \<le> a"
    using assms(3) by (auto simp: device_ok_def)
  obtain h where h: "fdiv (total_seconds (a - pa)) (Fin 3600) = Inr h" "between 0 (2 ^ 53) h"
    using elapsed_hours t by blast
  obtain l where l: "ds_level st = Fin l" using assms(3) by (auto simp: device_ok_def between_def)
  have lv: "between 0 100 (ds_level st)" and bt: "between 3 (9 / 2) (ds_battery st)"
    using assms(3) by (simp_all add: device_ok_def)
  obtain l' where l': "next_level p w h (ds_level st) = Fin l'" "between 0 100 (Fin l')" "l' \<le> l \<or> 92 \<le> l'"
    using next_level_ok [OF assms(1,2) l lv h(2)] by blast
  have b': "between 3 (9 / 2) (next_battery p w h (ds_battery st))"
    by (rule next_battery_ok [OF assms(1,2) bt h(2)])
  have lr: "representable l'" "0 \<le> l'" "l' \<le> 100" using l'(2) by (auto simp: between_def)
  then obtain y where y: "py_round 1 (Fin l') = Inr (Fin y)" "0 \<le> y" "y \<le> 100"
    using py_round_between [of 0 l' 100 1] by auto
  obtain v where v: "reported_voltage (next_battery p w h (ds_battery st)) (wd_adc_noise w) = Inr v"
    "fle (fl (25 / 10)) v" "fle v (fl (44 / 10))"
    using reported_voltage_ok [OF b'] assms(2) by (auto simp: wake_ok_def)
  have nt: "new_telemetry d (Aware a) (Fin y) v = Inr \<lparr>schema_version = 1, device_id = d,
      measured_at = Aware a, water_level = Fin y, battery_voltage = v\<rparr>"
    by (rule new_telemetry_ok) (use assms(4) t y v in simp_all)
  show ?thesis
    using t h l l' b' y v nt assms(4)
    by (simp add: device_wake_def Let_def device_ok_def telemetry_ok_def level_step_def
        del: py_round.simps fdiv.simps)
qed

section \<open>The series\<close>

definition limit_ok :: "int \<Rightarrow> rat \<Rightarrow> bool" where
  "limit_ok interval q \<longleftrightarrow>
     representable q \<and> 0 \<le> q \<and> q \<le> 15 \<and> q * 1000000 \<le> of_int interval / 2"

lemma jitter_limit_ok:
  assumes "params_ok p" and "0 \<le> interval" and "td_ok interval"
  shows "\<exists>q. jitter_limit p interval = Inr (Fin q) \<and> limit_ok interval q"
proof -
  obtain j where j: "jitter_seconds p = Fin j" "representable j" "0 \<le> j" "j \<le> 15"
    using assms(1) by (auto simp: params_ok_def between_def)
  obtain q where q: "fdiv (total_seconds interval) (Fin 4) = Inr (Fin q)" "representable q" "0 \<le> q"
    "q * 1000000 \<le> of_int interval / 2"
  proof (cases "interval = 0")
    case True
    then show ?thesis using that [of 0] by simp
  next
    case False
    then show ?thesis using quarter_interval [of interval] assms(2,3) that by auto
  qed
  have "representable (min j q)" using j(2) q(2) by (simp add: min_def)
  moreover have "min j q * 1000000 \<le> of_int interval / 2"
    by (rule order_trans [OF _ q(4)]) simp
  moreover have "min j q \<le> 15" using j(4) by linarith
  ultimately have "limit_ok interval (min j q)" using j(3) q(3) by (simp add: limit_ok_def)
  then show ?thesis using j(1) q(1) by (simp add: jitter_limit_def del: fdiv.simps)
qed

lemma jitter_us:
  assumes "limit_ok interval q" and "between (- q) q f" and "0 < interval"
  shows "\<exists>k. timedelta_of us_per_second f = Inr k \<and> \<bar>k\<bar> < interval \<or>
             timedelta_of us_per_second f = Inl OverflowError"
proof -
  obtain x where x: "f = Fin x" "- q \<le> x" "x \<le> q" using assms(2) by (auto simp: between_def)
  have "\<bar>x\<bar> * 1000000 \<le> q * 1000000" using x by (simp add: abs_le_iff)
  then have "\<bar>x\<bar> * 1000000 \<le> of_int interval / 2" using assms(1) by (simp add: limit_ok_def)
  from scaled_us_half [OF _ this assms(3)] obtain k
    where k: "scaled_us us_per_second \<bar>x\<bar> = Inr k" "0 \<le> k" "k < interval" by auto
  have "\<exists>k. scaled_us us_per_second x = Inr k \<and> \<bar>k\<bar> < interval"
  proof (cases "0 \<le> x")
    case True
    then show ?thesis using k by auto
  next
    case False
    then show ?thesis using scaled_us_minus [OF k(1)] k by auto
  qed
  then obtain k where "timedelta_of us_per_second f = mk_timedelta k" "\<bar>k\<bar> < interval"
    using x(1) by auto
  then show ?thesis by (cases "td_ok k") (auto simp: mk_timedelta_def)
qed

definition time_step :: "int \<Rightarrow> py_datetime \<Rightarrow> py_datetime \<Rightarrow> bool" where
  "time_step interval t t' \<longleftrightarrow> instant t \<le> instant t' \<and> (0 < interval \<longrightarrow> instant t < instant t')"

lemma time_step_trans: "time_step i s t \<Longrightarrow> time_step i t u \<Longrightarrow> time_step i s u"
  by (auto simp: time_step_def)

lemma advance_clock_ok:
  assumes "device_ok st" and "0 \<le> interval" and "limit_ok interval q" and "between (- q) q jitter"
  shows "advance_clock interval jitter st = Inl OverflowError \<or>
    (\<exists>st'. advance_clock interval jitter st = Inr st' \<and> device_ok st' \<and> ds_level st' = ds_level st \<and>
           time_step interval (ds_at st) (ds_at st'))"
proof -
  obtain a p where a: "ds_at st = Aware a" "dt_ok a" using assms(1) by (auto simp: device_ok_def)
  have moves: "\<exists>k. timedelta_of us_per_second jitter = Inr k \<and> 0 \<le> interval + k \<and> (0 < interval \<longrightarrow> 0 < interval + k) \<or>
      timedelta_of us_per_second jitter = Inl OverflowError"
  proof (cases "0 < interval")
    case True
    then show ?thesis using jitter_us [OF assms(3,4) True] by (auto simp: abs_less_iff)
  next
    case False
    then have "interval = 0" "q = 0" using assms(2,3) by (auto simp: limit_ok_def)
    then have "jitter = Fin 0" using assms(4) by (auto simp: between_def)
    moreover have "timedelta_of us_per_second (Fin 0) = Inr 0"
      by (simp add: scaled_us_def trunc_def mk_timedelta_def td_ok_def)
    ultimately show ?thesis using \<open>interval = 0\<close> by (intro exI [of _ 0]) simp
  qed
  then consider "timedelta_of us_per_second jitter = Inl OverflowError"
    | k where "timedelta_of us_per_second jitter = Inr k" "0 \<le> interval + k" "0 < interval \<longrightarrow> 0 < interval + k"
    by blast
  then show ?thesis
  proof cases
    case 1
    then show ?thesis using a by (simp add: advance_clock_def)
  next
    case 2
    then show ?thesis
      using a assms(1) by (auto simp: advance_clock_def device_ok_def time_step_def)
  qed
qed

definition reading_of_device :: "string \<Rightarrow> telemetry \<Rightarrow> bool" where
  "reading_of_device d r \<longleftrightarrow> telemetry_ok r \<and> device_id r = d"

definition water_step :: "telemetry \<Rightarrow> telemetry \<Rightarrow> bool" where
  "water_step r r' \<longleftrightarrow> fle (water_level r') (water_level r) \<or> fle (Fin 92) (water_level r')"

lemma reported_level_step:
  assumes "level_step x y" and "py_round 1 x = Inr x'" and "py_round 1 y = Inr y'"
  shows "fle y' x' \<or> fle (Fin 92) y'"
proof -
  obtain u v where u: "x = Fin u" and v: "y = Fin v" and uv: "v \<le> u \<or> 92 \<le> v"
    using assms(1) by (auto simp: level_step_def)
  from uv consider "v \<le> u" | "92 \<le> v" by blast
  then show ?thesis
  proof cases
    case 1
    have "y' \<le> x'" by (rule py_round_mono [OF 1, where n = 1]) (use assms(2,3) u v in simp_all)
    moreover have "x' \<noteq> NaN" "y' \<noteq> NaN" using assms(2,3) u v by (auto split: pyfloat.splits)
    ultimately show ?thesis by (simp add: fle_def)
  next
    case 2
    have "round_half_even (of_int 920) \<le> round_half_even (v * 10)"
      by (rule round_half_even_mono) (use 2 in simp)
    then have "(of_int 920 :: rat) \<le> of_int (round_half_even (v * 10))"
      by (simp only: round_half_even_of_int of_int_le_iff)
    then have "fl 92 \<le> fl (of_int (round_half_even (v * 10)) / 10)" by (intro fl_mono) simp
    moreover have "fl 92 = Fin 92" using representable_of_int [of 92] by (intro fl_representable) simp
    moreover have "y' = fl (of_int (round_half_even (v * 10)) / 10)"
      using assms(3) v by (auto split: pyfloat.splits)
    ultimately have "Fin 92 \<le> y' \<and> y' \<noteq> NaN" by simp
    then show ?thesis by (simp add: fle_def)
  qed
qed

text \<open>The invariant of the loop, over the readings it still yields and the state it is in.\<close>

definition series_from :: "string \<Rightarrow> int \<Rightarrow> device_state \<Rightarrow> telemetry list \<Rightarrow> bool" where
  "series_from d interval st rs \<longleftrightarrow>
     (\<forall>r \<in> set rs. reading_of_device d r) \<and>
     sorted_wrt (\<lambda>r r'. time_step interval (measured_at r) (measured_at r')) rs \<and>
     (rs \<noteq> [] \<longrightarrow> measured_at (hd rs) = ds_at st \<and>
        (\<exists>y. level_step (ds_level st) y \<and> py_round 1 y = Inr (water_level (hd rs)))) \<and>
     (\<forall>(r, r') \<in> set (pairwise_list rs). water_step r r')"

lemma device_loop_series:
  assumes "rng_ok g" and "params_ok p" and "device_id_ok d" and "0 \<le> interval" and "limit_ok interval q"
    and "device_ok st"
  shows "series_from d interval st (fst (device_loop g d p interval (Fin q) n st rs)) \<and>
    (snd (device_loop g d p interval (Fin q) n st rs) = OutOfFuel \<and>
       length (fst (device_loop g d p interval (Fin q) n st rs)) = n \<or>
     snd (device_loop g d p interval (Fin q) n st rs) = Raised OverflowError) \<and>
    (0 < n \<longrightarrow> fst (device_loop g d p interval (Fin q) n st rs) \<noteq> [])"
  using assms(6)
proof (induction n arbitrary: st rs)
  case 0
  then show ?case by (simp add: series_from_def)
next
  case (Suc n)
  obtain w rs' where w: "run_state (draw_wake g (Fin q)) rs = (w, rs')" by force
  have q: "representable q" "0 \<le> q" "q \<le> 2 ^ 60" using assms(5) by (auto simp: limit_ok_def)
  have wok: "wake_ok q w" by (rule drawsD [OF draw_wake_ok [OF assms(1) q] w])
  obtain r st' where r: "device_wake d p w st = Inr (r, st')" "device_ok st'" "telemetry_ok r" "device_id r = d"
    "measured_at r = ds_at st" "ds_at st' = ds_at st" "level_step (ds_level st) (ds_level st')"
    "py_round 1 (ds_level st') = Inr (water_level r)"
    using device_wake_ok [OF assms(2) wok Suc.prems assms(3)] by blast
  have jit: "between (- q) q (wd_jitter w)" using wok by (simp add: wake_ok_def)
  consider "advance_clock interval (wd_jitter w) st' = Inl OverflowError"
    | st'' where "advance_clock interval (wd_jitter w) st' = Inr st''" "device_ok st''"
        "ds_level st'' = ds_level st'" "time_step interval (ds_at st') (ds_at st'')"
    using advance_clock_ok [OF r(2) assms(4,5) jit] by blast
  then show ?case
  proof cases
    case 1
    then show ?thesis using w r by (auto simp: series_from_def reading_of_device_def)
  next
    case 2
    obtain ys s where ys: "device_loop g d p interval (Fin q) n st'' rs' = (ys, s)" by force
    then have t: "device_loop g d p interval (Fin q) (Suc n) st rs = (r # ys, s)"
      using w r 2 by (simp add: yielding_def)
    have ih: "series_from d interval st'' ys" "s = OutOfFuel \<and> length ys = n \<or> s = Raised OverflowError"
      using Suc.IH [OF 2(2), of rs'] by (simp_all only: ys fst_conv snd_conv)
    have later: "time_step interval (measured_at r) (measured_at r')" if "r' \<in> set ys" for r'
    proof -
      obtain y zs where yz: "ys = y # zs" using \<open>r' \<in> set ys\<close> by (cases ys) auto
      have "time_step interval (measured_at r) (measured_at y)"
        using 2(4) r(5,6) ih(1) yz by (simp add: series_from_def)
      then show ?thesis using that ih(1) yz time_step_trans by (fastforce simp: series_from_def)
    qed
    have water: "water_step r y" if yz: "ys = y # zs" for y zs
    proof -
      obtain lv where "level_step (ds_level st') lv" "py_round 1 lv = Inr (water_level y)"
        using ih(1) 2(3) unfolding yz series_from_def by auto
      from reported_level_step [OF this(1) r(8) this(2)] show ?thesis by (simp add: water_step_def)
    qed
    have "series_from d interval st (r # ys)"
      using r ih(1) later water
      by (cases ys) (auto simp: series_from_def reading_of_device_def)
    then show ?thesis unfolding t fst_conv snd_conv using ih(2) by auto
  qed
qed

theorem device_readings_series:
  assumes "rng_ok g" and "params_ok p" and "device_id_ok d" and "0 \<le> interval" and "td_ok interval"
    and "dt_ok start"
    and t: "device_readings g d p (Aware start) interval n rs = (readings, s)"
  shows "(\<forall>r \<in> set readings. reading_of_device d r) \<and>
    sorted_wrt (\<lambda>r r'. time_step interval (measured_at r) (measured_at r')) readings \<and>
    (\<forall>(r, r') \<in> set (pairwise_list readings). water_step r r') \<and>
    (readings \<noteq> [] \<longrightarrow> measured_at (hd readings) = Aware start) \<and>
    (s = OutOfFuel \<and> length readings = n \<or> s = Raised OverflowError) \<and> (0 < n \<longrightarrow> readings \<noteq> [])"
proof (cases "n = 0")
  case True
  then show ?thesis using t by (simp add: device_readings_def)
next
  case False
  let ?init = "do { level \<leftarrow> uniform g (Fin 40) (Fin 100); battery \<leftarrow> uniform g (fl (37 / 10)) BATTERY_FULL_V;
      State_Monad.return (level, battery) }"
  obtain level battery rs' where i: "run_state ?init rs = ((level, battery), rs')"
    by (metis prod.collapse)
  have "draws (between 3 (9 / 2)) (uniform g (fl (37 / 10)) BATTERY_FULL_V)"
  proof -
    obtain a where a: "fl (37 / 10) = Fin a" "representable a" "7 / 2 \<le> a" "a \<le> 15 / 4"
      by (rule fl_quarters [of 14 "37 / 10" 15]) simp_all
    obtain b where b: "BATTERY_FULL_V = Fin b" "representable b" "4 \<le> b" "b \<le> 17 / 4"
      unfolding BATTERY_FULL_V_def by (rule fl_quarters [of 16 "42 / 10" 17]) simp_all
    have "draws (between a (9 / 2)) (uniform g (Fin a) (Fin b))"
      by (rule uniform_draw [OF assms(1) a(2) b(2), where w = "3 / 4"])
        (use a b quarters [of 3] quarters [of 18] in simp_all)
    then show ?thesis unfolding a(1) b(1) using a(3) by (elim draws_mono) (simp add: between_mono)
  qed
  then have "draws (\<lambda>(l, b). between 40 100 l \<and> between 3 (9 / 2) b) ?init"
    by (intro draws_bind [OF uniform_ints [OF assms(1), of 40 100, simplified]] draws_bind)
      (auto elim!: draws_mono)
  from drawsD [OF this i] have lb: "between 40 100 level" "between 3 (9 / 2) battery" by simp_all
  obtain q where q: "jitter_limit p interval = Inr (Fin q)" "limit_ok interval q"
    using jitter_limit_ok [OF assms(2,4,5)] by blast
  let ?st = "\<lparr>ds_level = level, ds_battery = battery, ds_at = Aware start, ds_prev_at = Aware start\<rparr>"
  have st: "device_ok ?st" using lb assms(6) between_mono [OF lb(1)] by (simp add: device_ok_def)
  have "device_loop g d p interval (Fin q) n ?st rs' = (readings, s)"
    using t False i q(1) by (simp add: device_readings_def)
  with device_loop_series [OF assms(1-4) q(2) st, of n rs'] show ?thesis
    by (auto simp: series_from_def)
qed

end
