(* ===== verification/Simulator_Stream.thy ===== *)
theory Simulator_Stream
  imports Dynamics_Laws
begin

text \<open>
  \<^verbatim>\<open>simulator/config.py\<close>, \<^verbatim>\<open>stream.py\<close> and the modes of \<^verbatim>\<open>wire.py\<close>: the imperfections injected into
  one device's readings, and the merge of the fleet in virtual time.
\<close>

section \<open>Settings\<close>

record sim_settings =
  sim_device_count :: int
  sim_seed :: int
  sim_acceleration :: pyfloat
  sim_interval_seconds :: pyfloat
  sim_mqtt_host :: string
  sim_mqtt_port :: int
  sim_duplicate_rate :: pyfloat
  sim_out_of_order_rate :: pyfloat
  sim_malformed_rate :: pyfloat
  sim_missed_checkin_rate :: pyfloat

definition rate_ok :: "pyfloat \<Rightarrow> bool" where
  "rate_ok f \<longleftrightarrow> fle (Fin 0) f \<and> fle f (Fin 1)"

definition sim_settings_ok :: "sim_settings \<Rightarrow> bool" where
  "sim_settings_ok cfg \<longleftrightarrow>
     1 \<le> sim_device_count cfg \<and> flt (Fin 0) (sim_acceleration cfg) \<and>
     flt (Fin 0) (sim_interval_seconds cfg) \<and> 1 \<le> sim_mqtt_port cfg \<and> sim_mqtt_port cfg \<le> 65535 \<and>
     rate_ok (sim_duplicate_rate cfg) \<and> rate_ok (sim_out_of_order_rate cfg) \<and>
     rate_ok (sim_malformed_rate cfg) \<and> rate_ok (sim_missed_checkin_rate cfg)"

section \<open>Emissions\<close>

datatype corruption_mode = TRUNCATED | WRONG_TYPE | MISSING_FIELD

text \<open>\<^verbatim>\<open>itertools.cycle(CorruptionMode)\<close>: its state is the mode it yields next.\<close>

fun next_corruption :: "corruption_mode \<Rightarrow> corruption_mode" where
  "next_corruption TRUNCATED = WRONG_TYPE"
| "next_corruption WRONG_TYPE = MISSING_FIELD"
| "next_corruption MISSING_FIELD = TRUNCATED"

datatype emission_kind = Normal | Duplicate | Late

record emission =
  em_publish_at :: py_datetime
  em_reading :: telemetry
  em_corruption :: "corruption_mode option"
  em_kind :: emission_kind

record stream_state =
  ss_modes :: corruption_mode
  ss_deferred :: "(int \<times> emission) list"

record stream_draws =
  sd_missed :: pyfloat
  sd_malformed :: pyfloat
  sd_duplicate :: pyfloat
  sd_defer :: pyfloat
  sd_defer_wakes :: int

definition draw_imperfections :: "'r rng \<Rightarrow> ('r, stream_draws) state" where
  "draw_imperfections g = do {
     missed \<leftarrow> random g;
     malformed \<leftarrow> random g;
     duplicate \<leftarrow> random g;
     defer_roll \<leftarrow> random g;
     wakes \<leftarrow> randint g 1 3;
     State_Monad.return \<lparr>sd_missed = missed, sd_malformed = malformed, sd_duplicate = duplicate,
       sd_defer = defer_roll, sd_defer_wakes = wakes\<rparr>
   }"

text \<open>The queue is first in, first out: an entry that is due waits behind one that is not.\<close>

fun release_due :: "int \<Rightarrow> telemetry \<Rightarrow> (int \<times> emission) list \<Rightarrow> emission list \<times> (int \<times> emission) list" where
  "release_due wake r [] = ([], [])"
| "release_due wake r ((due, held) # rest) =
     (if due \<le> wake then
        (case release_due wake r rest of (out, left) \<Rightarrow>
           (held\<lparr>em_publish_at := measured_at r, em_kind := Late\<rparr> # out, left))
      else ([], (due, held) # rest))"

definition emit_current ::
  "sim_settings \<Rightarrow> stream_draws \<Rightarrow> int \<Rightarrow> telemetry \<Rightarrow> stream_state \<Rightarrow> emission list \<times> stream_state" where
  "emit_current cfg w wake r st =
     (if flt (sd_missed w) (sim_missed_checkin_rate cfg) then ([], st)
      else
        let malformed = flt (sd_malformed w) (sim_malformed_rate cfg);
            st' = (if malformed then st\<lparr>ss_modes := next_corruption (ss_modes st)\<rparr> else st);
            e = \<lparr>em_publish_at = measured_at r, em_reading = r,
                 em_corruption = (if malformed then Some (ss_modes st) else None), em_kind = Normal\<rparr>
        in if flt (sd_defer w) (sim_out_of_order_rate cfg)
           then ([], st'\<lparr>ss_deferred := ss_deferred st' @ [(wake + sd_defer_wakes w, e)]\<rparr>)
           else (e # (if flt (sd_duplicate w) (sim_duplicate_rate cfg) then [e\<lparr>em_kind := Duplicate\<rparr>] else []),
                 st'))"

definition emit_wake ::
  "sim_settings \<Rightarrow> stream_draws \<Rightarrow> int \<Rightarrow> telemetry \<Rightarrow> stream_state \<Rightarrow> emission list \<times> stream_state" where
  "emit_wake cfg w wake r st =
     (case release_due wake r (ss_deferred st) of (late, left) \<Rightarrow>
      case emit_current cfg w wake r (st\<lparr>ss_deferred := left\<rparr>) of (out, st') \<Rightarrow> (late @ out, st'))"

fun emission_loop ::
  "'r rng \<Rightarrow> sim_settings \<Rightarrow> int \<Rightarrow> telemetry list \<Rightarrow> stream_state \<Rightarrow> 'r \<Rightarrow> emission list" where
  "emission_loop g cfg wake [] st rs = []"
| "emission_loop g cfg wake (r # readings) st rs =
     (case run_state (draw_imperfections g) rs of (w, rs') \<Rightarrow>
      case emit_wake cfg w wake r st of (out, st') \<Rightarrow>
        out @ emission_loop g cfg (wake + 1) readings st' rs')"

definition device_emissions :: "'r rng \<Rightarrow> sim_settings \<Rightarrow> telemetry trace \<Rightarrow> 'r \<Rightarrow> emission trace" where
  "device_emissions g cfg readings rs =
     (emission_loop g cfg 0 (fst readings) \<lparr>ss_modes = TRUNCATED, ss_deferred = []\<rparr> rs, snd readings)"

section \<open>The fleet\<close>

definition published :: "emission \<Rightarrow> int" where
  "published e = instant (em_publish_at e)"

definition merged_emissions :: "emission trace list \<Rightarrow> emission trace" where
  "merged_emissions streams = merge_traces published streams"

definition device_name :: "nat \<Rightarrow> string" where
  "device_name index =
     ''planter-'' @ (if index < 10 then ''0'' else '''') @ show_nat index"

definition seed_text :: "sim_settings \<Rightarrow> string \<Rightarrow> string \<Rightarrow> string" where
  "seed_text cfg d purpose = show_int (sim_seed cfg) @ '':'' @ d @ '':'' @ purpose"

text \<open>
  One turn of the loop that wires the fleet. \<open>seeded\<close> is the generator state \<^verbatim>\<open>random.Random(text)\<close>
  starts from; \<open>n\<close> bounds the wake-ups observed.
\<close>

definition device_stream ::
  "'r rng \<Rightarrow> (string \<Rightarrow> 'r) \<Rightarrow> sim_settings \<Rightarrow> py_datetime \<Rightarrow> int \<Rightarrow> nat \<Rightarrow> nat \<Rightarrow> emission trace res" where
  "device_stream g seeded cfg start interval n index =
     (let d = device_name index in
      case run_state (draw_device_params g) (seeded (seed_text cfg d ''dynamics'')) of (params, rs) \<Rightarrow>
        rbind params (\<lambda>p.
        rbind (timedelta_of us_per_second
                 (fmul (fst (run_state (random g) (seeded (seed_text cfg d ''phase'')))) (sim_interval_seconds cfg)))
          (\<lambda>phase.
        rbind (dt_add start phase) (\<lambda>first.
        Inr (device_emissions g cfg (device_readings g d p first interval n rs)
               (seeded (seed_text cfg d ''imperfections'')))))))"

definition build_streams ::
  "'r rng \<Rightarrow> (string \<Rightarrow> 'r) \<Rightarrow> sim_settings \<Rightarrow> py_datetime \<Rightarrow> nat \<Rightarrow> emission trace res" where
  "build_streams g seeded cfg start n =
     rbind (timedelta_of us_per_second (sim_interval_seconds cfg)) (\<lambda>interval.
     rbind (rmap (device_stream g seeded cfg start interval n) [0..<nat (sim_device_count cfg)]) (\<lambda>streams.
     Inr (merged_emissions streams)))"

end
