(* ===== verification/Stream_Laws.thy ===== *)
theory Stream_Laws
  imports Simulator_Stream
begin

text \<open>
  What the imperfections may do to a series and what they may not: the output is in publication
  order, nothing is invented, a reading goes out once (plus its duplicate), a held-back one within
  three wake-ups; and a device's own sequence does not depend on the rest of the fleet.
\<close>

section \<open>The queue of held readings\<close>

lemma release_due_split:
  "release_due wake r q = (out, left) \<Longrightarrow>
     \<exists>released. q = released @ left \<and> (\<forall>(due, e) \<in> set released. due \<le> wake) \<and>
       (left \<noteq> [] \<longrightarrow> wake < fst (hd left)) \<and>
       out = map (\<lambda>(due, e). e\<lparr>em_publish_at := measured_at r, em_kind := Late\<rparr>) released"
proof (induction wake r q arbitrary: out left rule: release_due.induct)
  case (2 wake r due held rest)
  show ?case
  proof (cases "due \<le> wake")
    case True
    obtain out' left' where rel: "release_due wake r rest = (out', left')" by force
    from 2(1) [OF True rel] obtain released where ih: "rest = released @ left'"
      "\<forall>(due, e) \<in> set released. due \<le> wake" "left' \<noteq> [] \<longrightarrow> wake < fst (hd left')"
      "out' = map (\<lambda>(due, e). e\<lparr>em_publish_at := measured_at r, em_kind := Late\<rparr>) released"
      by blast
    have "left = left'" and "out = held\<lparr>em_publish_at := measured_at r, em_kind := Late\<rparr> # out'"
      using 2(2) True rel by simp_all
    then show ?thesis using ih True by (intro exI [of _ "(due, held) # released"]) simp
  next
    case False
    then show ?thesis using 2(2) by (intro exI [of _ "[]"]) auto
  qed
qed simp

text \<open>One turn of the loop, as its effect on the queue and its output.\<close>

definition held_readings :: "stream_state \<Rightarrow> telemetry list" where
  "held_readings st = map (em_reading \<circ> snd) (ss_deferred st)"

abbreviation first_sent :: "emission list \<Rightarrow> telemetry list" where
  "first_sent out \<equiv> map em_reading (filter (\<lambda>e. em_kind e \<noteq> Duplicate) out)"

inductive current_effect ::
  "sim_settings \<Rightarrow> stream_draws \<Rightarrow> int \<Rightarrow> telemetry \<Rightarrow> (int \<times> emission) list \<Rightarrow> emission list \<Rightarrow>
   (int \<times> emission) list \<Rightarrow> bool"
  for cfg :: sim_settings and w :: stream_draws and wake :: int and r :: telemetry where
  missed: "flt (sd_missed w) (sim_missed_checkin_rate cfg) \<Longrightarrow> current_effect cfg w wake r q [] q"
| deferred: "\<not> flt (sd_missed w) (sim_missed_checkin_rate cfg) \<Longrightarrow> em_reading e = r \<Longrightarrow> em_kind e = Normal \<Longrightarrow> em_publish_at e = measured_at r \<Longrightarrow>
    flt (sd_defer w) (sim_out_of_order_rate cfg) \<Longrightarrow>
    current_effect cfg w wake r q [] (q @ [(wake + sd_defer_wakes w, e)])"
| sent: "\<not> flt (sd_missed w) (sim_missed_checkin_rate cfg) \<Longrightarrow> em_reading e = r \<Longrightarrow> em_kind e = Normal \<Longrightarrow> em_publish_at e = measured_at r \<Longrightarrow>
    current_effect cfg w wake r q [e] q"
| sent_twice: "\<not> flt (sd_missed w) (sim_missed_checkin_rate cfg) \<Longrightarrow> em_reading e = r \<Longrightarrow> em_kind e = Normal \<Longrightarrow> em_publish_at e = measured_at r \<Longrightarrow>
    em_reading e' = r \<Longrightarrow> em_kind e' = Duplicate \<Longrightarrow> em_publish_at e' = measured_at r \<Longrightarrow>
    em_corruption e' = em_corruption e \<Longrightarrow> current_effect cfg w wake r q [e, e'] q"

lemma emit_current_effect:
  assumes "emit_current cfg w wake r st = (out, st')"
  shows "current_effect cfg w wake r (ss_deferred st) out (ss_deferred st')"
  using assms unfolding emit_current_def Let_def
  by (auto split: if_splits intro!: current_effect.intros)

lemma emit_wake_effect:
  assumes "emit_wake cfg w wake r st = (out, st')"
  obtains released left out' where "ss_deferred st = released @ left"
    and "\<forall>(due, e) \<in> set released. due \<le> wake" and "left \<noteq> [] \<longrightarrow> wake < fst (hd left)"
    and "out = map (\<lambda>(due, e). e\<lparr>em_publish_at := measured_at r, em_kind := Late\<rparr>) released @ out'"
    and "current_effect cfg w wake r left out' (ss_deferred st')"
proof -
  obtain late left where rel: "release_due wake r (ss_deferred st) = (late, left)" by force
  obtain out' st'' where cur: "emit_current cfg w wake r (st\<lparr>ss_deferred := left\<rparr>) = (out', st'')" by force
  have "out = late @ out'" "st' = st''" using assms rel cur by (simp_all add: emit_wake_def)
  then show ?thesis
    using that release_due_split [OF rel] emit_current_effect [OF cur] by auto
qed

section \<open>Publication order\<close>

lemma emit_wake_published:
  assumes "emit_wake cfg w wake r st = (out, st')"
  shows "\<forall>e \<in> set out. em_publish_at e = measured_at r"
proof -
  obtain released left out' where "ss_deferred st = released @ left"
      and "\<forall>(due, e) \<in> set released. due \<le> wake" and "left \<noteq> [] \<longrightarrow> wake < fst (hd left)"
      and out: "out = map (\<lambda>(due, e). e\<lparr>em_publish_at := measured_at r, em_kind := Late\<rparr>) released @ out'"
      and cur: "current_effect cfg w wake r left out' (ss_deferred st')"
    by (rule emit_wake_effect [OF assms])
  from cur have "\<forall>e \<in> set out'. em_publish_at e = measured_at r" by cases simp_all
  then show ?thesis by (auto simp: out)
qed

lemma emission_loop_step:
  obtains w rs' out st' where "run_state (draw_imperfections g) rs = (w, rs')"
    and "emit_wake cfg w wake r st = (out, st')"
    and "emission_loop g cfg wake (r # readings) st rs = out @ emission_loop g cfg (wake + 1) readings st' rs'"
proof -
  obtain w rs' where w: "run_state (draw_imperfections g) rs = (w, rs')" by force
  obtain out st' where out: "emit_wake cfg w wake r st = (out, st')" by force
  show ?thesis using that [OF w out] w out by simp
qed

lemma sorted_const_append:
  "sorted ys \<Longrightarrow> (\<forall>x \<in> set xs. x = k) \<Longrightarrow> (\<forall>y \<in> set ys. k \<le> y) \<Longrightarrow> sorted (xs @ ys)"
  by (induction xs) (auto simp: sorted_append)

lemma emission_loop_publishes:
  "e \<in> set (emission_loop g cfg wake readings st rs) \<Longrightarrow> \<exists>r \<in> set readings. em_publish_at e = measured_at r"
proof (induction readings arbitrary: wake st rs)
  case (Cons r readings)
  obtain w rs' out st' where out: "emit_wake cfg w wake r st = (out, st')"
    and loop: "emission_loop g cfg wake (r # readings) st rs = out @ emission_loop g cfg (wake + 1) readings st' rs'"
    by (rule emission_loop_step)
  from Cons.prems consider "e \<in> set out" | "e \<in> set (emission_loop g cfg (wake + 1) readings st' rs')"
    unfolding loop by auto
  then show ?case
    by cases (use emit_wake_published [OF out] Cons.IH in auto)
qed simp

theorem emission_loop_sorted:
  "sorted (map (instant \<circ> measured_at) readings) \<Longrightarrow>
     sorted (map published (emission_loop g cfg wake readings st rs))"
proof (induction readings arbitrary: wake st rs)
  case (Cons r readings)
  obtain w rs' out st' where out: "emit_wake cfg w wake r st = (out, st')"
    and loop: "emission_loop g cfg wake (r # readings) st rs = out @ emission_loop g cfg (wake + 1) readings st' rs'"
    by (rule emission_loop_step)
  have "sorted (map published (emission_loop g cfg (wake + 1) readings st' rs'))"
    using Cons by simp
  moreover have "\<forall>e \<in> set out. published e = instant (measured_at r)"
    using emit_wake_published [OF out] by (simp add: published_def)
  moreover have "instant (measured_at r) \<le> published e"
    if "e \<in> set (emission_loop g cfg (wake + 1) readings st' rs')" for e
    using emission_loop_publishes [OF that] Cons.prems by (auto simp: published_def)
  ultimately show ?case
    unfolding loop map_append by (intro sorted_const_append [where k = "instant (measured_at r)"]) auto
qed simp

section \<open>Every reading is accounted for\<close>

text \<open>
  \<open>queue_ok readings wake q\<close>: the entries of \<open>q\<close> are held-back readings of the last three wake-ups
  before \<open>wake\<close>, oldest first, none due later than three wake-ups after its own.
\<close>

definition held_entry :: "telemetry list \<Rightarrow> nat \<Rightarrow> nat \<Rightarrow> int \<times> emission \<Rightarrow> bool" where
  "held_entry readings wake k entry \<longleftrightarrow>
     k < wake \<and> wake \<le> k + 3 \<and> k < length readings \<and> fst entry \<le> int k + 3 \<and>
     em_reading (snd entry) = readings ! k"

definition queue_ok :: "telemetry list \<Rightarrow> nat \<Rightarrow> (int \<times> emission) list \<Rightarrow> bool" where
  "queue_ok readings wake q \<longleftrightarrow> (\<exists>ks. sorted_wrt (<) ks \<and> list_all2 (held_entry readings wake) ks q)"

lemma queue_ok_Nil [simp]: "queue_ok readings wake []"
  by (simp add: queue_ok_def)

lemma strict_sorted_subseq:
  fixes ks :: "nat list"
  assumes "sorted_wrt (<) ks" and "set ks \<subseteq> {a ..< b}"
  shows "subseq ks [a ..< b]"
proof -
  have "sorted_wrt (<) (filter (\<lambda>k. k \<in> set ks) [a ..< b])"
    by (intro sorted_wrt_filter) (simp add: strict_sorted_iff)
  moreover have "set (filter (\<lambda>k. k \<in> set ks) [a ..< b]) = set ks" using assms(2) by auto
  ultimately have "filter (\<lambda>k. k \<in> set ks) [a ..< b] = ks"
    using assms(1) by (simp add: strict_sorted_equal)
  then show ?thesis using subseq_filter_left by metis
qed

text \<open>What is held at a wake-up are readings of the three before it, in their order.\<close>

lemma queue_ok_held:
  assumes "queue_ok readings wake q" and "wake \<le> length readings"
  shows "subseq (map (em_reading \<circ> snd) q) (drop (wake - 3) (take wake readings))"
proof -
  obtain ks where ks: "sorted_wrt (<) ks" "list_all2 (held_entry readings wake) ks q"
    using assms(1) by (auto simp: queue_ok_def)
  have "wake - 3 \<le> k \<and> k < wake" if "k \<in> set ks" for k
    using ks(2) that by (fastforce simp: list_all2_conv_all_nth in_set_conv_nth held_entry_def)
  then have "subseq ks [wake - 3 ..< wake]" by (intro strict_sorted_subseq [OF ks(1)]) auto
  then have "subseq (map ((!) readings) ks) (map ((!) readings) [wake - 3 ..< wake])" by (rule subseq_map)
  moreover have "map ((!) readings) [wake - 3 ..< wake] = drop (wake - 3) (take wake readings)"
    using assms(2) by (intro nth_equalityI) auto
  moreover have "map (em_reading \<circ> snd) q = map ((!) readings) ks"
    using ks(2) by (intro nth_equalityI) (auto simp: list_all2_conv_all_nth held_entry_def)
  ultimately show ?thesis by simp
qed

lemma queue_ok_after:
  assumes "queue_ok readings wake (released @ left)" and "left \<noteq> [] \<longrightarrow> int wake < fst (hd left)"
  shows "queue_ok readings (Suc wake) left \<and>
    (held_entry readings (Suc wake) wake x \<longrightarrow> queue_ok readings (Suc wake) (left @ [x]))"
proof -
  obtain ks where ks: "sorted_wrt (<) ks" "list_all2 (held_entry readings wake) ks (released @ left)"
    using assms(1) by (auto simp: queue_ok_def)
  then obtain us vs where uv: "ks = us @ vs" "list_all2 (held_entry readings wake) vs left"
    by (auto simp: list_all2_append2)
  have vs: "sorted_wrt (<) vs" using ks(1) uv(1) by (simp add: sorted_wrt_append)
  have low: "wake < k + 3" if "k \<in> set vs" for k
  proof (cases vs)
    case (Cons v rest)
    then obtain x xs where x: "left = x # xs" "held_entry readings wake v x"
      using uv(2) by (cases left) auto
    have "wake < v + 3" using assms(2) x by (simp add: held_entry_def)
    moreover have "v \<le> k" using vs Cons that by auto
    ultimately show ?thesis by simp
  qed (use that in simp)
  have stay: "list_all2 (held_entry readings (Suc wake)) vs left"
    using uv(2) low by (auto simp: list_all2_conv_all_nth held_entry_def Suc_le_eq)
  have "\<forall>k \<in> set vs. k < wake"
    using uv(2) by (auto simp: list_all2_conv_all_nth in_set_conv_nth held_entry_def)
  then have "sorted_wrt (<) (vs @ [wake])" using vs by (simp add: sorted_wrt_append)
  moreover have "list_all2 (held_entry readings (Suc wake)) (vs @ [wake]) (left @ [x])"
    if "held_entry readings (Suc wake) wake x"
    using stay that by (simp add: list_all2_appendI)
  ultimately show ?thesis using vs stay unfolding queue_ok_def by blast
qed

text \<open>What an emission may look like: sent with the reading of wake-up \<open>j\<close>, about the reading of \<open>k\<close>.\<close>

definition emission_of :: "telemetry list \<Rightarrow> emission \<Rightarrow> bool" where
  "emission_of readings e \<longleftrightarrow>
     (\<exists>j k. j < length readings \<and> em_publish_at e = measured_at (readings ! j) \<and>
            em_reading e = readings ! k \<and> k \<le> j \<and> j \<le> k + 3 \<and> (em_kind e = Late \<longleftrightarrow> k < j))"

lemma released_emission_of:
  assumes "queue_ok readings wake (released @ left)" and "wake < length readings" and "(due, e) \<in> set released"
  shows "emission_of readings (e\<lparr>em_publish_at := measured_at (readings ! wake), em_kind := Late\<rparr>)"
proof -
  obtain ks where ks: "list_all2 (held_entry readings wake) ks (released @ left)"
    using assms(1) by (auto simp: queue_ok_def)
  obtain i where "i < length released" "released ! i = (due, e)"
    using assms(3) by (auto simp: in_set_conv_nth)
  then have "held_entry readings wake (ks ! i) (due, e)"
    using list_all2_nthD2 [OF ks, of i] by (simp add: nth_append)
  then show ?thesis using assms(2)
    unfolding emission_of_def held_entry_def by (intro exI [of _ wake] exI [of _ "ks ! i"]) simp
qed

lemma emit_wake_account:
  assumes out: "emit_wake cfg w (int wake) (readings ! wake) st = (out, st')"
    and q: "queue_ok readings wake (ss_deferred st)" and wake: "wake < length readings"
    and dw: "1 \<le> sd_defer_wakes w" "sd_defer_wakes w \<le> 3"
  shows "queue_ok readings (Suc wake) (ss_deferred st') \<and> (\<forall>e \<in> set out. emission_of readings e) \<and>
    mset (held_readings st) + {#readings ! wake#} = mset (first_sent out) + mset (held_readings st') +
      (if flt (sd_missed w) (sim_missed_checkin_rate cfg) then {#readings ! wake#} else {#})"
proof -
  let ?r = "readings ! wake"
  let ?late = "\<lambda>(due, e). e\<lparr>em_publish_at := measured_at ?r, em_kind := Late\<rparr>"
  obtain released left out' where split: "ss_deferred st = released @ left"
      and "\<forall>(due, e) \<in> set released. due \<le> int wake" and hd: "left \<noteq> [] \<longrightarrow> int wake < fst (hd left)"
      and outs: "out = map ?late released @ out'"
      and cur: "current_effect cfg w (int wake) ?r left out' (ss_deferred st')"
    by (rule emit_wake_effect [OF out])
  note q' = q [unfolded split]
  note after = queue_ok_after [OF q' hd]
  have "emission_of readings e" if "e \<in> set (map ?late released)" for e
    using that released_emission_of [OF q' wake] by auto
  moreover have now: "emission_of readings e"
    if "em_reading e = ?r" "em_publish_at e = measured_at ?r" "em_kind e \<noteq> Late" for e
    using that wake unfolding emission_of_def by (intro exI [of _ wake]) simp
  from cur have "\<forall>e \<in> set out'. emission_of readings e" by cases (auto intro: now)
  moreover from cur have "queue_ok readings (Suc wake) (ss_deferred st')"
  proof cases
    case (deferred e)
    then have "held_entry readings (Suc wake) wake (int wake + sd_defer_wakes w, e)"
      using wake dw by (simp add: held_entry_def)
    then show ?thesis using after deferred by simp
  qed (use after in auto)
  moreover have late: "first_sent (map ?late xs) = map (em_reading \<circ> snd) xs" for xs
    by (induction xs) auto
  have "mset (held_readings st) = mset (map (em_reading \<circ> snd) released) + mset (map (em_reading \<circ> snd) left)"
    by (simp add: held_readings_def split)
  moreover from cur have "mset (map (em_reading \<circ> snd) left) + {#?r#} =
      mset (first_sent out') + mset (map (em_reading \<circ> snd) (ss_deferred st')) +
      (if flt (sd_missed w) (sim_missed_checkin_rate cfg) then {#?r#} else {#})"
    by cases simp_all
  ultimately show ?thesis
    by (auto simp: outs late held_readings_def add.assoc)
qed

text \<open>The draws of \<open>n\<close> wake-ups, and the readings of the wake-ups whose draw is a missed check-in.\<close>

fun imperfection_draws :: "'r rng \<Rightarrow> nat \<Rightarrow> 'r \<Rightarrow> stream_draws list" where
  "imperfection_draws g 0 rs = []"
| "imperfection_draws g (Suc n) rs =
     (case run_state (draw_imperfections g) rs of (w, rs') \<Rightarrow> w # imperfection_draws g n rs')"

definition missed_readings :: "sim_settings \<Rightarrow> stream_draws list \<Rightarrow> telemetry list \<Rightarrow> telemetry list" where
  "missed_readings cfg ws readings =
     map snd (filter (\<lambda>(w, r). flt (sd_missed w) (sim_missed_checkin_rate cfg)) (zip ws readings))"

lemma imperfections_drawn:
  assumes "rng_ok g"
  shows "draws (\<lambda>w. unit_float (sd_missed w) \<and> 1 \<le> sd_defer_wakes w \<and> sd_defer_wakes w \<le> 3) (draw_imperfections g)"
  unfolding draw_imperfections_def
  by (intro draws_bind [OF draws_random [OF assms]] draws_bind [OF draws_randint [OF assms, of 1 3]]) simp_all

lemma none_missed:
  assumes "rng_ok g" and "sim_missed_checkin_rate cfg = Fin 0"
  shows "missed_readings cfg (imperfection_draws g n rs) readings = []"
proof -
  have "\<forall>w \<in> set (imperfection_draws g n rs). unit_float (sd_missed w)"
  proof (induction n arbitrary: rs)
    case (Suc n)
    obtain w rs' where w: "run_state (draw_imperfections g) rs = (w, rs')" by force
    show ?case using drawsD [OF imperfections_drawn [OF assms(1)] w] Suc by (simp add: w)
  qed simp
  then have "\<not> flt (sd_missed w) (Fin 0)" if "w \<in> set (imperfection_draws g n rs)" for w
    using that by (auto simp: unit_float_def)
  then show ?thesis using assms(2) by (auto simp: missed_readings_def filter_empty_conv dest: set_zip_leftD)
qed

theorem emission_loop_account:
  assumes "rng_ok g"
  shows "queue_ok readings wake (ss_deferred st) \<Longrightarrow> wake \<le> length readings \<Longrightarrow>
    out = emission_loop g cfg (int wake) (drop wake readings) st rs \<Longrightarrow>
    (\<forall>e \<in> set out. emission_of readings e) \<and>
    (\<exists>held. subseq held (drop (length readings - 3) readings) \<and>
       mset (held_readings st) + mset (drop wake readings) = mset (first_sent out) + mset held +
         mset (missed_readings cfg (imperfection_draws g (length readings - wake) rs) (drop wake readings)))"
proof (induction "length readings - wake" arbitrary: wake st rs out)
  case 0
  then have "drop wake readings = []" "out = []" "wake = length readings" by simp_all
  moreover have "subseq (held_readings st) (drop (length readings - 3) readings)"
    using queue_ok_held [OF 0(2,3)] \<open>wake = length readings\<close> by (simp add: held_readings_def)
  ultimately show ?case by (intro conjI exI [of _ "held_readings st"]) (simp_all add: missed_readings_def)
next
  case (Suc m)
  let ?r = "readings ! wake"
  have wake: "wake < length readings" using Suc.hyps(2) by simp
  then have drop: "drop wake readings = ?r # drop (Suc wake) readings" by (rule Cons_nth_drop_Suc [symmetric])
  obtain w rs' now st' where w: "run_state (draw_imperfections g) rs = (w, rs')"
    and now: "emit_wake cfg w (int wake) ?r st = (now, st')"
    and loop: "emission_loop g cfg (int wake) (?r # drop (Suc wake) readings) st rs =
      now @ emission_loop g cfg (int wake + 1) (drop (Suc wake) readings) st' rs'"
    by (rule emission_loop_step)
  define rest where "rest = emission_loop g cfg (int (Suc wake)) (drop (Suc wake) readings) st' rs'"
  have out: "out = now @ rest" using Suc.prems(3) loop by (simp add: drop rest_def add.commute)
  define later where "later = missed_readings cfg (imperfection_draws g m rs') (drop (Suc wake) readings)"
  have missed: "mset (missed_readings cfg (imperfection_draws g (length readings - wake) rs) (drop wake readings)) =
      (if flt (sd_missed w) (sim_missed_checkin_rate cfg) then {#?r#} else {#}) + mset later"
    by (simp add: Suc.hyps(2) [symmetric] drop w missed_readings_def later_def)
  from drawsD [OF imperfections_drawn [OF assms] w] have wd: "1 \<le> sd_defer_wakes w" "sd_defer_wakes w \<le> 3" by simp_all
  note step = emit_wake_account [OF now Suc.prems(1) wake wd]
  have m: "m = length readings - Suc wake" using Suc.hyps(2) by simp
  from Suc.hyps(1) [OF m conjunct1 [OF step] _ rest_def] wake obtain held
    where ih: "\<forall>e \<in> set rest. emission_of readings e" "subseq held (drop (length readings - 3) readings)"
      "mset (held_readings st') + mset (drop (Suc wake) readings) = mset (first_sent rest) + mset held + mset later"
    by (auto simp: m [symmetric] later_def)
  have "mset (held_readings st) + mset (drop wake readings) =
      (mset (held_readings st) + {#?r#}) + mset (drop (Suc wake) readings)" by (simp add: drop)
  also have "\<dots> = mset (first_sent now) + (mset (held_readings st') + mset (drop (Suc wake) readings)) +
      (if flt (sd_missed w) (sim_missed_checkin_rate cfg) then {#?r#} else {#})"
    using step by (simp only: ac_simps)
  also have "\<dots> = (mset (first_sent now) + mset (first_sent rest)) + mset held +
      ((if flt (sd_missed w) (sim_missed_checkin_rate cfg) then {#?r#} else {#}) + mset later)"
    unfolding ih(3) by (simp only: ac_simps)
  finally have "mset (held_readings st) + mset (drop wake readings) = mset (first_sent out) + mset held +
      mset (missed_readings cfg (imperfection_draws g (length readings - wake) rs) (drop wake readings))"
    unfolding missed by (simp add: out)
  then show ?case using ih(1,2) step by (intro conjI exI [of _ held]) (auto simp: out)
qed

end
