(* ===== verification/Fleet_Laws.thy ===== *)
theory Fleet_Laws
  imports Stream_Laws
begin

text \<open>
  The fleet: device names are distinct and pass the contract, the merged stream is the stable sort
  of the devices' streams as far as it goes, and what one device emits depends on the seed, its own
  number and the rates only.
\<close>

section \<open>Device names\<close>

definition digits_value :: "string \<Rightarrow> nat" where
  "digits_value = foldl (\<lambda>n c. 10 * n + (of_char c - 48)) 0"

lemma digits_value_snoc: "digits_value (cs @ [c]) = 10 * digits_value cs + (of_char c - 48)"
  by (simp add: digits_value_def)

lemma of_digit_char: "d < 10 \<Longrightarrow> (of_char (digit_char d) :: nat) = 48 + d"
  by (simp add: digit_char_def)

lemma digits_value_show_nat [simp]: "digits_value (show_nat n) = n"
proof (induction n rule: show_nat.induct)
  case (1 n)
  show ?case
  proof (cases "n < 10")
    case True
    then show ?thesis by (simp add: show_nat.simps [of n] digits_value_def of_digit_char)
  next
    case False
    then show ?thesis using 1
      by (simp add: show_nat.simps [of n] digits_value_snoc of_digit_char)
  qed
qed

lemma digits_value_zero: "digits_value (CHR ''0'' # cs) = digits_value cs"
  by (simp add: digits_value_def)

lemma device_name_inj: "device_name i = device_name j \<longleftrightarrow> i = j"
proof
  assume eq: "device_name i = device_name j"
  have "digits_value (drop 8 (device_name k)) = k" for k
    by (simp add: device_name_def digits_value_zero)
  then show "i = j" using eq by metis
qed simp

lemma show_nat_digits: "c \<in> set (show_nat n) \<Longrightarrow> 48 \<le> (of_char c :: nat) \<and> (of_char c :: nat) \<le> 57"
proof (induction n rule: show_nat.induct)
  case (1 n)
  show ?case
  proof (cases "n < 10")
    case True
    then show ?thesis using 1(2) by (simp add: show_nat.simps [of n] of_digit_char)
  next
    case False
    have "(of_char (digit_char (n mod 10)) :: nat) = 48 + n mod 10" by (rule of_digit_char) simp
    moreover have "n mod 10 < 10" by simp
    ultimately show ?thesis using 1 False by (auto simp: show_nat.simps [of n])
  qed
qed

lemma show_nat_length: "n < 10 ^ Suc k \<Longrightarrow> length (show_nat n) \<le> Suc k"
proof (induction k arbitrary: n)
  case (Suc k)
  show ?case
  proof (cases "n < 10")
    case False
    have "n div 10 < 10 ^ Suc k" using Suc.prems by (simp add: div_less_iff_less_mult mult.commute)
    then show ?thesis using Suc.IH [of "n div 10"] False by (simp add: show_nat.simps [of n])
  qed (simp add: show_nat.simps)
qed (simp add: show_nat.simps)

lemma device_name_ok: "i < 10 ^ 20 \<Longrightarrow> device_id_ok (device_name i)"
proof -
  assume "i < 10 ^ 20"
  then have len: "length (show_nat i) \<le> 20" using show_nat_length [of i 19] by simp
  have "list_all id_tail (show_nat i)"
    using show_nat_digits [of _ i] by (auto simp: list_all_iff id_tail_def id_head_def)
  then show ?thesis using len
    by (auto simp: device_name_def id_tail_def id_head_def)
qed

section \<open>One device\<close>

lemma device_emissions_fst [simp]:
  "fst (device_emissions g cfg t rs) =
     emission_loop g cfg 0 (fst t) \<lparr>ss_modes = TRUNCATED, ss_deferred = []\<rparr> rs"
  "snd (device_emissions g cfg t rs) = snd t"
  by (simp_all add: device_emissions_def)

lemma time_step_sorted:
  "sorted_wrt (\<lambda>r r'. time_step i (measured_at r) (measured_at r')) rs \<Longrightarrow> sorted (map (instant \<circ> measured_at) rs)"
  by (induction rs) (auto simp: time_step_def)

lemma emission_loop_readings:
  assumes "rng_ok g"
  shows "e \<in> set (emission_loop g cfg 0 readings \<lparr>ss_modes = TRUNCATED, ss_deferred = []\<rparr> rs) \<Longrightarrow>
    em_reading e \<in> set readings"
proof -
  assume e: "e \<in> set (emission_loop g cfg 0 readings \<lparr>ss_modes = TRUNCATED, ss_deferred = []\<rparr> rs)"
  have "emission_of readings e"
    using emission_loop_account [OF assms, of readings 0 "\<lparr>ss_modes = TRUNCATED, ss_deferred = []\<rparr>"
        _ cfg rs] e by simp
  then show ?thesis by (auto simp: emission_of_def)
qed

text \<open>The interval the settings give is never negative, and passes the bounds of \<open>timedelta\<close>.\<close>

lemma interval_nonneg:
  assumes "sim_settings_ok cfg" and "timedelta_of us_per_second (sim_interval_seconds cfg) = Inr interval"
  shows "0 \<le> interval \<and> td_ok interval"
proof -
  obtain x where x: "sim_interval_seconds cfg = Fin x" "0 < x"
    using assms by (cases "sim_interval_seconds cfg") (auto simp: sim_settings_ok_def)
  obtain p where "scaled_us us_per_second x = Inr (round_half_even (of_int (\<lfloor>x\<rfloor> * us_per_second) + p))" "0 \<le> p"
    using scaled_us_nonneg [of us_per_second x] x(2) by auto
  moreover have "(0::rat) \<le> of_int (\<lfloor>x\<rfloor> * us_per_second)"
    unfolding of_int_0_le_iff using x(2) by simp
  ultimately have "0 \<le> round_half_even (of_int (\<lfloor>x\<rfloor> * us_per_second) + p)"
    by (intro int_le_round_half_even) simp
  then show ?thesis
    using assms(2) x \<open>scaled_us us_per_second x = _\<close> by (auto simp: mk_timedelta_def split: if_splits)
qed

definition own :: "nat \<Rightarrow> emission \<Rightarrow> bool" where
  "own i e \<longleftrightarrow> device_id (em_reading e) = device_name i"

lemma device_stream_series:
  assumes g: "rng_ok g" and interval: "0 \<le> interval" "td_ok interval" and i: "i < 10 ^ 20"
    and t: "device_stream g seeded cfg (Aware start) interval n i = Inr t"
  obtains readings where "\<forall>e \<in> set (fst t). em_reading e \<in> set readings"
    and "\<forall>r \<in> set readings. reading_of_device (device_name i) r"
    and "sorted_wrt (\<lambda>r r'. time_step interval (measured_at r) (measured_at r')) readings"
    and "sorted (map published (fst t))" and "snd t = OutOfFuel \<or> snd t = Raised OverflowError"
proof -
  obtain params rs where draw: "run_state (draw_device_params g)
      (seeded (seed_text cfg (device_name i) ''dynamics'')) = (params, rs)" by force
  then obtain p where p: "params = Inr p" "params_ok p"
    using drawsD [OF draw_device_params_ok [OF g] draw] by blast
  obtain phase where first: "dt_ok (start + phase)"
    and em: "t = device_emissions g cfg (device_readings g (device_name i) p (Aware (start + phase)) interval n rs)
           (seeded (seed_text cfg (device_name i) ''imperfections''))"
    using t draw p by (auto simp: device_stream_def Let_def split: if_splits)
  obtain readings s where r: "device_readings g (device_name i) p (Aware (start + phase)) interval n rs = (readings, s)"
    by force
  note laws = device_readings_series [OF g p(2) device_name_ok [OF i] interval first r]
  show ?thesis
  proof (rule that)
    show "\<forall>e \<in> set (fst t). em_reading e \<in> set readings" using emission_loop_readings [OF g] by (simp add: em r)
    show "sorted (map published (fst t))"
      using emission_loop_sorted [OF time_step_sorted [of interval readings]] laws by (simp add: em r)
  qed (use laws in \<open>auto simp: em r\<close>)
qed

lemma device_stream_laws:
  assumes "rng_ok g" and "0 \<le> interval" and "td_ok interval" and "i < 10 ^ 20"
    and "device_stream g seeded cfg (Aware start) interval n i = Inr t"
  shows "sorted (map published (fst t)) \<and> (\<forall>e \<in> set (fst t). own i e \<and> telemetry_ok (em_reading e)) \<and>
    (snd t = OutOfFuel \<or> snd t = Raised OverflowError)"
  by (rule device_stream_series [OF assms]) (auto simp: own_def reading_of_device_def)

text \<open>The size of the fleet is not an input of a device's stream.\<close>

lemma emission_loop_count:
  "emission_loop g (cfg\<lparr>sim_device_count := m\<rparr>) wake readings st rs = emission_loop g cfg wake readings st rs"
proof (induction readings arbitrary: wake st rs)
  case (Cons r readings)
  have "emit_wake (cfg\<lparr>sim_device_count := m\<rparr>) = emit_wake cfg"
    by (intro ext) (simp add: emit_wake_def emit_current_def Let_def cong: if_cong)
  then show ?case using Cons by simp
qed simp

lemma device_stream_count:
  "device_stream g seeded (cfg\<lparr>sim_device_count := m\<rparr>) = device_stream g seeded cfg"
  by (intro ext) (simp add: device_stream_def device_emissions_def emission_loop_count seed_text_def)

section \<open>The merged stream\<close>

lemma fleet_streams:
  assumes g: "rng_ok g" and cfg: "sim_settings_ok cfg" "sim_device_count cfg \<le> 10 ^ 20"
    and t: "build_streams g seeded cfg (Aware start) n = Inr t"
  obtains interval ts where "timedelta_of us_per_second (sim_interval_seconds cfg) = Inr interval"
    and "length ts = nat (sim_device_count cfg)" and "t = merged_emissions ts"
    and "\<forall>i < length ts. device_stream g seeded cfg (Aware start) interval n i = Inr (ts ! i) \<and>
      sorted (map published (fst (ts ! i))) \<and>
      (\<forall>e \<in> set (fst (ts ! i)). own i e \<and> telemetry_ok (em_reading e))"
proof -
  obtain interval ts where iv: "timedelta_of us_per_second (sim_interval_seconds cfg) = Inr interval"
    and ts: "rmap (device_stream g seeded cfg (Aware start) interval n) [0..<nat (sim_device_count cfg)] = Inr ts"
    and merged: "t = merged_emissions ts"
    using t unfolding build_streams_def by blast
  have len: "length ts = nat (sim_device_count cfg)" using rmap_InrD [OF ts] by simp
  note nonneg = interval_nonneg [OF cfg(1) iv]
  have "device_stream g seeded cfg (Aware start) interval n i = Inr (ts ! i) \<and>
      sorted (map published (fst (ts ! i))) \<and>
      (\<forall>e \<in> set (fst (ts ! i)). own i e \<and> telemetry_ok (em_reading e))" if i: "i < length ts" for i
  proof -
    have stream: "device_stream g seeded cfg (Aware start) interval n i = Inr (ts ! i)"
      using rmap_InrD [OF ts] i len by simp
    have "int i < 10 ^ 20" using i len cfg(2) by simp
    then have "i < 10 ^ 20" by (simp only: of_nat_less_iff [symmetric, where 'a = int] of_nat_power of_nat_numeral)
    from device_stream_laws [OF g _ _ this stream] show ?thesis using nonneg stream by blast
  qed
  then show ?thesis using that [OF iv len merged] by blast
qed

lemma filter_concat_own:
  assumes "\<forall>j < length ts. \<forall>e \<in> set (fst (ts ! j)). own j e" and "i < length ts"
  shows "filter (own i) (concat (map fst ts)) = fst (ts ! i)"
proof -
  have split: "concat (map fst ts) = concat (take i (map fst ts)) @ fst (ts ! i) @ concat (drop (Suc i) (map fst ts))"
    using concat_split [of i "map fst ts"] assms(2) by simp
  have other: "filter (own i) (fst (ts ! j)) = []" if "j < length ts" "j \<noteq> i" for j
    using assms(1) that by (auto simp: filter_empty_conv own_def device_name_inj)
  have "filter (own i) (concat (take i (map fst ts))) = []"
  proof -
    have "filter (own i) xs = []" if xs: "xs \<in> set (take i (map fst ts))" for xs
    proof -
      obtain j where "j < i" "xs = fst (ts ! j)" using xs assms(2) by (auto simp: in_set_conv_nth)
      then show ?thesis using other assms(2) by simp
    qed
    then show ?thesis by (auto simp: filter_concat filter_empty_conv)
  qed
  moreover have "filter (own i) (concat (drop (Suc i) (map fst ts))) = []"
  proof -
    have "filter (own i) xs = []" if xs: "xs \<in> set (drop (Suc i) (map fst ts))" for xs
    proof -
      obtain k where "k < length ts - Suc i" "xs = fst (ts ! (Suc i + k))"
        using xs by (auto simp: in_set_conv_nth)
      then show ?thesis using other by simp
    qed
    then show ?thesis by (auto simp: filter_concat filter_empty_conv)
  qed
  moreover have "filter (own i) (fst (ts ! i)) = fst (ts ! i)"
    using assms by (simp add: filter_id_conv)
  ultimately show ?thesis by (simp add: split)
qed

lemma prefix_filter: "prefix xs ys \<Longrightarrow> prefix (filter P xs) (filter P ys)"
  by (auto simp: prefix_def)

theorem fleet_own_prefix:
  assumes g: "rng_ok g" and cfg: "sim_settings_ok cfg" "sim_device_count cfg \<le> 10 ^ 20"
    and t: "build_streams g seeded cfg (Aware start) n = Inr t" and i: "i < nat (sim_device_count cfg)"
  shows "\<exists>interval mine. timedelta_of us_per_second (sim_interval_seconds cfg) = Inr interval \<and>
    device_stream g seeded cfg (Aware start) interval n i = Inr mine \<and>
    prefix (filter (own i) (fst t)) (fst mine)"
proof -
  obtain interval ts where iv: "timedelta_of us_per_second (sim_interval_seconds cfg) = Inr interval"
    and len: "length ts = nat (sim_device_count cfg)" and merged: "t = merged_emissions ts"
    and laws: "\<forall>i < length ts. device_stream g seeded cfg (Aware start) interval n i = Inr (ts ! i) \<and>
      sorted (map published (fst (ts ! i))) \<and>
      (\<forall>e \<in> set (fst (ts ! i)). own i e \<and> telemetry_ok (em_reading e))"
    by (rule fleet_streams [OF g cfg t])
  have "sorted_streams published ts"
    using laws by (simp add: sorted_streams_def all_set_conv_all_nth)
  then have "prefix (fst t) (sort_key published (concat (map fst ts)))"
    unfolding merged merged_emissions_def by (rule merge_traces_prefix)
  then have "prefix (filter (own i) (fst t)) (filter (own i) (sort_key published (concat (map fst ts))))"
    by (rule prefix_filter)
  also have "filter (own i) (sort_key published (concat (map fst ts))) = fst (ts ! i)"
    using filter_concat_own [of ts i] laws i len by (simp add: filter_sort sort_key_id_if_sorted)
  finally have own: "prefix (filter (own i) (fst t)) (fst (ts ! i))" .
  have "i < length ts" using i len by simp
  then have "device_stream g seeded cfg (Aware start) interval n i = Inr (ts ! i)" using laws by blast
  then show ?thesis using iv own by blast
qed

text \<open>Every emission of the fleet comes from the stream of one device.\<close>

lemma fleet_member:
  assumes g: "rng_ok g" and cfg: "sim_settings_ok cfg" "sim_device_count cfg \<le> 10 ^ 20"
    and t: "build_streams g seeded cfg (Aware start) n = Inr t"
  shows "sorted (map published (fst t)) \<and>
    (\<exists>interval. timedelta_of us_per_second (sim_interval_seconds cfg) = Inr interval \<and>
      (\<forall>e \<in> set (fst t). \<exists>i mine. i < nat (sim_device_count cfg) \<and>
         device_stream g seeded cfg (Aware start) interval n i = Inr mine \<and> e \<in> set (fst mine)))"
proof -
  obtain interval ts where iv: "timedelta_of us_per_second (sim_interval_seconds cfg) = Inr interval"
    and len: "length ts = nat (sim_device_count cfg)" and merged: "t = merged_emissions ts"
    and laws: "\<forall>i < length ts. device_stream g seeded cfg (Aware start) interval n i = Inr (ts ! i) \<and>
      sorted (map published (fst (ts ! i))) \<and>
      (\<forall>e \<in> set (fst (ts ! i)). own i e \<and> telemetry_ok (em_reading e))"
    by (rule fleet_streams [OF g cfg t])
  have "sorted_streams published ts" using laws by (simp add: sorted_streams_def all_set_conv_all_nth)
  then have pre: "prefix (fst t) (sort_key published (concat (map fst ts)))"
    unfolding merged merged_emissions_def by (rule merge_traces_prefix)
  then obtain rest where all: "sort_key published (concat (map fst ts)) = fst t @ rest" by (auto simp: prefix_def)
  have "sorted (map published (fst t @ rest))" unfolding all [symmetric] by simp
  then have "sorted (map published (fst t))" by (simp add: sorted_append)
  moreover have "set (fst t) \<subseteq> set (concat (map fst ts))"
    using all by (metis Un_iff set_append set_sort subsetI)
  moreover have "\<exists>i mine. i < nat (sim_device_count cfg) \<and>
      device_stream g seeded cfg (Aware start) interval n i = Inr mine \<and> e \<in> set (fst mine)"
    if e: "e \<in> set (concat (map fst ts))" for e
  proof -
    obtain x where x: "x \<in> set ts" "e \<in> set (fst x)" using e by force
    then obtain k where k: "k < length ts" "x = ts ! k" by (metis in_set_conv_nth)
    then show ?thesis using laws x(2) len by metis
  qed
  ultimately show ?thesis using iv by blast
qed

theorem fleet_sorted:
  assumes g: "rng_ok g" and cfg: "sim_settings_ok cfg" "sim_device_count cfg \<le> 10 ^ 20"
    and t: "build_streams g seeded cfg (Aware start) n = Inr t"
  shows "sorted (map published (fst t)) \<and> (\<forall>e \<in> set (fst t). telemetry_ok (em_reading e))"
proof -
  obtain interval where iv: "timedelta_of us_per_second (sim_interval_seconds cfg) = Inr interval"
    and member: "\<forall>e \<in> set (fst t). \<exists>i mine. i < nat (sim_device_count cfg) \<and>
         device_stream g seeded cfg (Aware start) interval n i = Inr mine \<and> e \<in> set (fst mine)"
    using fleet_member [OF g cfg t] by blast
  have "telemetry_ok (em_reading e)" if e: "e \<in> set (fst t)" for e
  proof -
    obtain i mine where i: "i < nat (sim_device_count cfg)" "device_stream g seeded cfg (Aware start) interval n i = Inr mine"
      "e \<in> set (fst mine)" using member e by blast
    then have "i < 10 ^ 20" using cfg(2) by simp
    then show ?thesis
      using device_stream_laws [OF g _ _ _ i(2)] interval_nonneg [OF cfg(1) iv] i(3) by blast
  qed
  then show ?thesis using fleet_member [OF g cfg t] by blast
qed

text \<open>With an interval of a microsecond or more, the key of a reading of the fleet determines it.\<close>

theorem fleet_keys:
  assumes g: "rng_ok g" and cfg: "sim_settings_ok cfg" "sim_device_count cfg \<le> 10 ^ 20"
    and t: "build_streams g seeded cfg (Aware start) n = Inr t"
    and iv: "timedelta_of us_per_second (sim_interval_seconds cfg) = Inr interval" "0 < interval"
    and e: "e \<in> set (fst t)" "e' \<in> set (fst t)" "device_id (em_reading e) = device_id (em_reading e')"
      "instant (measured_at (em_reading e)) = instant (measured_at (em_reading e'))"
  shows "em_reading e = em_reading e'"
proof -
  have member: "\<exists>i mine. i < nat (sim_device_count cfg) \<and>
      device_stream g seeded cfg (Aware start) interval n i = Inr mine \<and> x \<in> set (fst mine)" if "x \<in> set (fst t)" for x
    using fleet_member [OF g cfg t] iv(1) that by auto
  have td: "0 \<le> interval" "td_ok interval" using interval_nonneg [OF cfg(1) iv(1)] by simp_all
  obtain i mine where i: "i < nat (sim_device_count cfg)" "device_stream g seeded cfg (Aware start) interval n i = Inr mine"
    "e \<in> set (fst mine)" using member [OF e(1)] by blast
  obtain j other where j: "j < nat (sim_device_count cfg)" "device_stream g seeded cfg (Aware start) interval n j = Inr other"
    "e' \<in> set (fst other)" using member [OF e(2)] by blast
  have small: "i < 10 ^ 20" "j < 10 ^ 20" using i(1) j(1) cfg(2) by simp_all
  have "own i e" "own j e'"
    using device_stream_laws [OF g td small(1) i(2)] device_stream_laws [OF g td small(2) j(2)] i(3) j(3) by simp_all
  then have "i = j" using e(3) by (simp add: own_def device_name_inj)
  then have "other = mine" using i(2) j(2) by simp
  obtain readings where rs: "\<forall>e \<in> set (fst mine). em_reading e \<in> set readings"
    "sorted_wrt (\<lambda>r r'. time_step interval (measured_at r) (measured_at r')) readings"
    by (rule device_stream_series [OF g td small(1) i(2)])
  obtain a b where ab: "a < length readings" "em_reading e = readings ! a" "b < length readings" "em_reading e' = readings ! b"
    using rs(1) i(3) j(3) \<open>other = mine\<close> by (metis in_set_conv_nth)
  have later: "instant (measured_at (readings ! x)) < instant (measured_at (readings ! y))" if "x < y" "y < length readings" for x y
    using sorted_wrt_nth_less [OF rs(2) that] iv(2) by (simp add: time_step_def)
  have "a = b" using later [of a b] later [of b a] ab e(4) by (cases a b rule: linorder_cases) auto
  then show ?thesis using ab by simp
qed

end
