(* ===== verification/Simulator_Claims.thy ===== *)
theory Simulator_Claims
  imports Fleet_Laws
begin

text \<open>
  The properties of the simulator, each with an application to a concrete generator: \<open>demo_rng\<close>
  draws the eighths in turn and the least integer of a range. Claim numbers continue those of
  \<^verbatim>\<open>Analytics_Claims\<close>.
\<close>

section \<open>A generator\<close>

definition demo_rng :: "nat rng" where
  "demo_rng = \<lparr>rng_random = \<lambda>s. (Fin (of_int (int (s mod 8)) / 2 ^ 3), s + 1), rng_randint = \<lambda>lo hi s. (lo, s + 1)\<rparr>"

lemma demo_rng_ok: "rng_ok demo_rng"
proof -
  have "unit_float (Fin (of_int (int (s mod 8)) / 2 ^ 3))" for s :: nat
  proof -
    have "(of_int (int (s mod 8)) :: rat) < of_int 8" unfolding of_int_less_iff by simp
    moreover have "representable (of_int (int (s mod 8)) / 2 ^ 3)"
      by (rule representable_dyadic) simp_all
    moreover have "(0::rat) \<le> of_int (int (s mod 8)) / 2 ^ 3" by simp
    ultimately show ?thesis unfolding unit_float_def
      by (intro exI [of _ "of_int (int (s mod 8)) / 2 ^ 3"] conjI) simp_all
  qed
  then show ?thesis by (simp add: rng_ok_def demo_rng_def)
qed

definition demo_sim :: sim_settings where
  "demo_sim = \<lparr>sim_device_count = 2, sim_seed = 42, sim_acceleration = Fin 180, sim_interval_seconds = Fin 300,
     sim_mqtt_host = ''localhost'', sim_mqtt_port = 1883, sim_duplicate_rate = Fin (1 / 8),
     sim_out_of_order_rate = Fin (1 / 4), sim_malformed_rate = Fin (1 / 4), sim_missed_checkin_rate = Fin 0\<rparr>"

lemma demo_sim_ok: "sim_settings_ok demo_sim"
  by (simp add: demo_sim_def sim_settings_ok_def rate_ok_def)

section \<open>The properties\<close>

text \<open>
  C36: the simulated physics satisfy the contract. Whatever the generator draws, the characteristics
  exist; every reading validates and carries the device's id; the times start at the given one and
  never run backwards, strictly forwards for an interval of a microsecond or more; the reported
  water only falls, but for refills to at least 92 percent; and all that can end the series is the
  end of the calendar.
\<close>

theorem simulated_readings_valid:
  assumes "rng_ok g" and "device_id_ok d" and "dt_ok start" and "0 \<le> interval" and "td_ok interval"
    and params: "run_state (draw_device_params g) rs = (params, rs')"
  shows "\<exists>p. params = Inr p \<and>
    (case device_readings g d p (Aware start) interval n rs' of (readings, stop) \<Rightarrow>
       (\<forall>r \<in> set readings. telemetry_ok r \<and> device_id r = d) \<and>
       (readings \<noteq> [] \<longrightarrow> measured_at (hd readings) = Aware start) \<and>
       sorted_wrt (\<lambda>r r'. instant (measured_at r) \<le> instant (measured_at r') \<and>
         (0 < interval \<longrightarrow> instant (measured_at r) < instant (measured_at r'))) readings \<and>
       (\<forall>(r, r') \<in> set (pairwise_list readings).
          fle (water_level r') (water_level r) \<or> fle (Fin 92) (water_level r')) \<and>
       (stop = OutOfFuel \<and> length readings = n \<or> stop = Raised OverflowError))"
proof -
  obtain p where p: "params = Inr p" "params_ok p"
    using drawsD [OF draw_device_params_ok [OF assms(1)] params] by blast
  obtain readings stop where t: "device_readings g d p (Aware start) interval n rs' = (readings, stop)" by force
  from device_readings_series [OF assms(1) p(2) assms(2,4,5,3) t] show ?thesis
    unfolding reading_of_device_def time_step_def water_step_def using p(1) t by simp
qed

theorem simulated_readings_valid_witness:
  "\<exists>p. fst (run_state (draw_device_params demo_rng) 0) = Inr p \<and>
    (case device_readings demo_rng ''planter-00'' p (Aware 0) 300000000 5
            (snd (run_state (draw_device_params demo_rng) 0)) of (readings, stop) \<Rightarrow>
       (\<forall>r \<in> set readings. telemetry_ok r \<and> device_id r = ''planter-00'') \<and>
       (stop = OutOfFuel \<and> length readings = 5 \<or> stop = Raised OverflowError))"
proof -
  have h: "device_id_ok ''planter-00''" "dt_ok 0" "(0::int) \<le> 300000000" "td_ok 300000000"
    by (code_simp, simp_all add: dt_ok_def dt_min_def dt_max_def td_ok_def)
  obtain p where p: "fst (run_state (draw_device_params demo_rng) 0) = Inr p"
    and laws: "case device_readings demo_rng ''planter-00'' p (Aware 0) 300000000 5
            (snd (run_state (draw_device_params demo_rng) 0)) of (readings, stop) \<Rightarrow>
       (\<forall>r \<in> set readings. telemetry_ok r \<and> device_id r = ''planter-00'') \<and>
       (readings \<noteq> [] \<longrightarrow> measured_at (hd readings) = Aware 0) \<and>
       sorted_wrt (\<lambda>r r'. instant (measured_at r) \<le> instant (measured_at r') \<and>
         (0 < (300000000 :: int) \<longrightarrow> instant (measured_at r) < instant (measured_at r'))) readings \<and>
       (\<forall>(r, r') \<in> set (pairwise_list readings).
          fle (water_level r') (water_level r) \<or> fle (Fin 92) (water_level r')) \<and>
       (stop = OutOfFuel \<and> length readings = 5 \<or> stop = Raised OverflowError)"
    by (rule exE [OF simulated_readings_valid [OF demo_rng_ok h prod.collapse [symmetric],
          where rs = 0 and n = 5]], erule conjE)
  show ?thesis
    by (rule exI [of _ p]) (use p laws in \<open>simp split: prod.splits\<close>)
qed

text \<open>
  C37: every reading is accounted for. Each emission is about a reading of the series and is sent with
  the wake-up of that reading, or, exactly if it is late, with one of the next three; emissions leave
  in the order of the clock; and, duplicates aside, the readings of the series are together exactly those
  sent, some of the last three, still held back in their order, and the missed check-ins: the readings of
  just those wake-ups whose draw fell below the rate of missed check-ins, none at a rate of zero.
\<close>

theorem emissions_accounted:
  assumes "rng_ok g"
  shows "(\<forall>e \<in> set (fst (device_emissions g cfg (readings, stop) rs)). emission_of readings e) \<and>
    (let missed = missed_readings cfg (imperfection_draws g (length readings) rs) readings
     in (\<exists>held. subseq held (drop (length readings - 3) readings) \<and>
          mset readings = mset (first_sent (fst (device_emissions g cfg (readings, stop) rs))) + mset held + mset missed) \<and>
        (sim_missed_checkin_rate cfg = Fin 0 \<longrightarrow> missed = [])) \<and>
    (sorted (map (instant \<circ> measured_at) readings) \<longrightarrow>
       sorted (map published (fst (device_emissions g cfg (readings, stop) rs))))"
  using emission_loop_account [OF assms, of readings 0 "\<lparr>ss_modes = TRUNCATED, ss_deferred = []\<rparr>" _ cfg rs]
    emission_loop_sorted [of readings g cfg 0 "\<lparr>ss_modes = TRUNCATED, ss_deferred = []\<rparr>" rs] none_missed [OF assms, of cfg]
  by (simp add: held_readings_def device_emissions_def Let_def)

definition demo_reading :: "int \<Rightarrow> telemetry" where
  "demo_reading t = \<lparr>schema_version = 1, device_id = ''planter-00'', measured_at = Aware t,
     water_level = Fin 50, battery_voltage = Fin 4\<rparr>"

theorem emissions_accounted_witness:
  "\<exists>held. subseq held (map demo_reading [2, 3, 4]) \<and>
     mset (map demo_reading [0, 1, 2, 3, 4]) =
       mset (first_sent (fst (device_emissions demo_rng (demo_sim\<lparr>sim_missed_checkin_rate := Fin (1 / 2)\<rparr>)
         (map demo_reading [0, 1, 2, 3, 4], OutOfFuel) 0))) + mset held +
       mset (missed_readings (demo_sim\<lparr>sim_missed_checkin_rate := Fin (1 / 2)\<rparr>) (imperfection_draws demo_rng 5 0)
         (map demo_reading [0, 1, 2, 3, 4]))"
  using emissions_accounted [OF demo_rng_ok, where cfg = "demo_sim\<lparr>sim_missed_checkin_rate := Fin (1 / 2)\<rparr>" and rs = 0
      and stop = OutOfFuel and readings = "map demo_reading [0, 1, 2, 3, 4]"]
  by (simp add: Let_def eval_nat_numeral del: imperfection_draws.simps)

text \<open>
  C38: the fleet size never perturbs a device. Two fleets that differ in the number of devices only,
  both containing device \<open>i\<close>, emit for it initial parts of one and the same sequence, which passes
  the contract; and the merged stream is in publication order.
\<close>

theorem fleet_independent_of_size:
  assumes "rng_ok g" and "sim_settings_ok cfg" and "sim_device_count cfg \<le> 10 ^ 20"
    and "1 \<le> m" and "m \<le> 10 ^ 20"
    and "build_streams g seeded cfg (Aware start) n = Inr t"
    and "build_streams g seeded (cfg\<lparr>sim_device_count := m\<rparr>) (Aware start) n = Inr t'"
    and "i < nat (sim_device_count cfg)" and "i < nat m"
  shows "\<exists>mine. prefix (filter (own i) (fst t)) mine \<and> prefix (filter (own i) (fst t')) mine \<and>
    sorted (map published (fst t)) \<and> (\<forall>e \<in> set (fst t). telemetry_ok (em_reading e))"
proof -
  have ok: "sim_settings_ok (cfg\<lparr>sim_device_count := m\<rparr>)"
    using assms(2,4) by (simp add: sim_settings_ok_def)
  obtain interval mine where a: "timedelta_of us_per_second (sim_interval_seconds cfg) = Inr interval"
    "device_stream g seeded cfg (Aware start) interval n i = Inr mine" "prefix (filter (own i) (fst t)) (fst mine)"
    using fleet_own_prefix [OF assms(1-3,6,8)] by blast
  have "\<exists>interval mine. timedelta_of us_per_second (sim_interval_seconds cfg) = Inr interval \<and>
      device_stream g seeded cfg (Aware start) interval n i = Inr mine \<and>
      prefix (filter (own i) (fst t')) (fst mine)"
    using fleet_own_prefix [OF assms(1) ok _ assms(7), of i] assms(5,9) by (simp add: device_stream_count)
  then have "prefix (filter (own i) (fst t')) (fst mine)" using a(1,2) by auto
  then show ?thesis using a(3) fleet_sorted [OF assms(1-3,6)] by blast
qed

lemma demo_interval: "timedelta_of us_per_second (Fin 300) = Inr 300000000"
proof -
  have "trunc 300 = 300" unfolding trunc_def by (simp add: floor_eq_iff)
  then show ?thesis by (simp add: scaled_us_def mk_timedelta_def td_ok_def)
qed

lemma demo_device:
  "\<exists>p rs. params_ok p \<and> device_stream demo_rng (\<lambda>_. 0) demo_sim (Aware 0) 300000000 n i =
     Inr (device_emissions demo_rng demo_sim (device_readings demo_rng (device_name i) p (Aware 0) 300000000 n rs) 0)"
proof -
  have td0: "timedelta_of us_per_second (fmul (Fin 0) (Fin 300)) = Inr 0"
    by (simp add: scaled_us_def trunc_def mk_timedelta_def td_ok_def)
  have phase: "fst (run_state (random demo_rng) 0) = Fin 0" by (simp add: random_def demo_rng_def)
  obtain params rs where d: "run_state (draw_device_params demo_rng) 0 = (params, rs)" by force
  obtain p where "params = Inr p" "params_ok p" using drawsD [OF draw_device_params_ok [OF demo_rng_ok] d] by blast
  then show ?thesis using d td0 phase
    by (intro exI [of _ p] exI [of _ rs])
      (simp add: device_stream_def Let_def demo_sim_def dt_ok_def dt_min_def dt_max_def del: timedelta_of.simps fmul.simps)
qed

lemma demo_stream: "\<exists>t. build_streams demo_rng (\<lambda>_. 0) (demo_sim\<lparr>sim_device_count := m\<rparr>) (Aware 0) 5 = Inr t"
proof -
  have "\<exists>t. device_stream demo_rng (\<lambda>_. 0) demo_sim (Aware 0) 300000000 5 i = Inr t" for i
    using demo_device [of 5 i] by blast
  then obtain f where f: "\<And>i. device_stream demo_rng (\<lambda>_. 0) demo_sim (Aware 0) 300000000 5 i = Inr (f i)" by metis
  have "rmap (device_stream demo_rng (\<lambda>_. 0) demo_sim (Aware 0) 300000000 5) [0..<nat m] = Inr (map f [0..<nat m])"
    by (rule rmap_Inr) (rule f)
  then show ?thesis using demo_interval
    by (simp add: build_streams_def device_stream_count) (simp add: demo_sim_def)
qed

theorem fleet_independent_of_size_witness:
  "\<exists>t t' mine. build_streams demo_rng (\<lambda>_. 0) demo_sim (Aware 0) 5 = Inr t \<and>
     build_streams demo_rng (\<lambda>_. 0) (demo_sim\<lparr>sim_device_count := 3\<rparr>) (Aware 0) 5 = Inr t' \<and>
     prefix (filter (own 1) (fst t)) mine \<and> prefix (filter (own 1) (fst t')) mine"
proof -
  obtain t where t: "build_streams demo_rng (\<lambda>_. 0) demo_sim (Aware 0) 5 = Inr t"
  proof -
    have "demo_sim\<lparr>sim_device_count := 2\<rparr> = demo_sim" by (simp add: demo_sim_def)
    then show ?thesis using demo_stream [of 2] that by metis
  qed
  obtain t' where t': "build_streams demo_rng (\<lambda>_. 0) (demo_sim\<lparr>sim_device_count := 3\<rparr>) (Aware 0) 5 = Inr t'"
    using demo_stream [of 3] by blast
  have "1 < nat (sim_device_count demo_sim)" "sim_device_count demo_sim \<le> 10 ^ 20" by (simp_all add: demo_sim_def)
  then show ?thesis
    using fleet_independent_of_size [OF demo_rng_ok demo_sim_ok _ _ _ t t', of 1] t t' by auto
qed

end
