(* ===== verification/Codec.thy ===== *)
theory Codec
  imports Main
begin

text \<open>
  The contract of an encoding: what was encoded decodes to itself; for some, what decodes also encodes
  to itself. UTF-8 and base64 are instances (\<^verbatim>\<open>Py_Bytes\<close>).
\<close>

locale codec =
  fixes enc :: "'a \<Rightarrow> 'b option" and dec :: "'b \<Rightarrow> 'a option"
  assumes round_trip: "enc x = Some y \<Longrightarrow> dec y = Some x"
begin

lemma enc_inj: "enc x = Some y \<Longrightarrow> enc x' = Some y \<Longrightarrow> x = x'"
  by (metis round_trip option.inject)

lemma decode_all: "those (map enc xs) = Some ys \<Longrightarrow> those (map dec ys) = Some xs"
  by (induction xs arbitrary: ys) (auto simp: round_trip split: option.splits)

end

locale exact_codec = codec +
  assumes canonical: "dec y = Some x \<Longrightarrow> enc x = Some y"
begin

lemma dec_inj: "dec y = Some x \<Longrightarrow> dec y' = Some x \<Longrightarrow> y = y'"
  by (metis canonical option.inject)

lemma decodable_iff: "dec y = Some x \<longleftrightarrow> enc x = Some y"
  using round_trip canonical by blast

end

end
