(* ===== verification/Py_Bytes.thy ===== *)
theory Py_Bytes
  imports Prelude Codec "HOL-Library.Word"
begin

text \<open>
  Bytes and text: a Python \<^verbatim>\<open>bytes\<close> is a list of 8-bit words, a \<^verbatim>\<open>str\<close> a list of code points
  (\<open>char\<close> would stop at 255). The two codecs the records use: UTF-8 and base64, with their round
  trips.
\<close>

type_synonym bytes = "8 word list"
type_synonym ustr = "nat list"

text \<open>ASCII literals of the source as text.\<close>

definition ascii :: "string \<Rightarrow> ustr" where
  "ascii s = map of_char s"

lemma ascii_simps [simp]: "ascii [] = []" "ascii (c # cs) = of_char c # ascii cs" "ascii (s @ t) = ascii s @ ascii t"
  by (simp_all add: ascii_def)

lemma ascii_inj: "ascii s = ascii t \<longleftrightarrow> s = t"
  unfolding ascii_def by (intro inj_map_eq_map injI) simp

section \<open>UTF-8\<close>

definition surrogate :: "nat \<Rightarrow> bool" where
  "surrogate c \<longleftrightarrow> 0xD800 \<le> c \<and> c \<le> 0xDFFF"

definition continuation :: "nat \<Rightarrow> bool" where
  "continuation b \<longleftrightarrow> 0x80 \<le> b \<and> b < 0xC0"

definition utf8_char :: "nat \<Rightarrow> nat list option" where
  "utf8_char c =
     (if c < 0x80 then Some [c]
      else if c < 0x800 then Some [0xC0 + c div 64, 0x80 + c mod 64]
      else if surrogate c then None
      else if c < 0x10000 then Some [0xE0 + c div 4096, 0x80 + c div 64 mod 64, 0x80 + c mod 64]
      else if c < 0x110000 then
        Some [0xF0 + c div 262144, 0x80 + c div 4096 mod 64, 0x80 + c div 64 mod 64, 0x80 + c mod 64]
      else None)"

fun utf8_bytes :: "ustr \<Rightarrow> nat list option" where
  "utf8_bytes [] = Some []"
| "utf8_bytes (c # cs) =
     (case utf8_char c of None \<Rightarrow> None | Some bs \<Rightarrow> map_option (append bs) (utf8_bytes cs))"

text \<open>
  Decoding is strict: shortest forms only, no surrogates, nothing beyond \<open>U+10FFFF\<close>.
\<close>

fun utf8_text :: "nat list \<Rightarrow> ustr option" where
  "utf8_text [] = Some []"
| "utf8_text (b # bs) =
     (if b < 0x80 then map_option (Cons b) (utf8_text bs)
      else if b < 0xC2 then None
      else if b < 0xE0 then
        (case bs of
           c1 # rest \<Rightarrow>
             if continuation c1 then map_option (Cons ((b - 0xC0) * 64 + (c1 - 0x80))) (utf8_text rest) else None
         | _ \<Rightarrow> None)
      else if b < 0xF0 then
        (case bs of
           c1 # c2 # rest \<Rightarrow>
             let c = (b - 0xE0) * 4096 + (c1 - 0x80) * 64 + (c2 - 0x80)
             in if continuation c1 \<and> continuation c2 \<and> 0x800 \<le> c \<and> \<not> surrogate c
                then map_option (Cons c) (utf8_text rest) else None
         | _ \<Rightarrow> None)
      else if b < 0xF5 then
        (case bs of
           c1 # c2 # c3 # rest \<Rightarrow>
             let c = (b - 0xF0) * 262144 + (c1 - 0x80) * 4096 + (c2 - 0x80) * 64 + (c3 - 0x80)
             in if continuation c1 \<and> continuation c2 \<and> continuation c3 \<and> 0x10000 \<le> c \<and> c < 0x110000
                then map_option (Cons c) (utf8_text rest) else None
         | _ \<Rightarrow> None)
      else None)"

definition utf8_encode :: "ustr \<Rightarrow> bytes option" where
  "utf8_encode cs = map_option (map of_nat) (utf8_bytes cs)"

definition utf8_decode :: "bytes \<Rightarrow> ustr option" where
  "utf8_decode bs = utf8_text (map unat bs)"

text \<open>A code point is the value of its groups of six bits.\<close>

lemma sextets:
  fixes c :: nat
  shows "c div 4096 * 4096 + c div 64 mod 64 * 64 + c mod 64 = c"
    and "c div 262144 * 262144 + c div 4096 mod 64 * 4096 + c div 64 mod 64 * 64 + c mod 64 = c"
proof -
  have 1: "c = c div 64 * 64 + c mod 64" and 2: "c div 64 = c div 4096 * 64 + c div 64 mod 64"
    and 3: "c div 4096 = c div 262144 * 64 + c div 4096 mod 64"
    using div_mult_mod_eq [of "c div 64" 64] div_mult_mod_eq [of "c div 4096" 64]
    by (simp_all add: div_mult2_eq [symmetric])
  show "c div 4096 * 4096 + c div 64 mod 64 * 64 + c mod 64 = c" using 1 2 by linarith
  show "c div 262144 * 262144 + c div 4096 mod 64 * 4096 + c div 64 mod 64 * 64 + c mod 64 = c"
    using 1 2 3 by linarith
qed

lemma sextet_digits:
  fixes x y z w :: nat
  assumes "y < 64" and "z < 64"
  shows "(x * 4096 + y * 64 + z) div 4096 = x" and "(x * 4096 + y * 64 + z) div 64 = x * 64 + y"
    and "(x * 4096 + y * 64 + z) mod 64 = z"
proof -
  have "x * 4096 + y * 64 + z = (x * 64 + y) * 64 + z" by simp
  then show d: "(x * 4096 + y * 64 + z) div 64 = x * 64 + y" and "(x * 4096 + y * 64 + z) mod 64 = z"
    using assms(2) by (metis div_mult_self3 add.commute div_less add_0 zero_neq_numeral, metis mod_mult_self3 mod_less)
  have "(x * 4096 + y * 64 + z) div 4096 = (x * 4096 + y * 64 + z) div 64 div 64"
    by (simp add: div_mult2_eq [symmetric])
  then show "(x * 4096 + y * 64 + z) div 4096 = x" using d assms(1) by simp
qed

lemma utf8_char_text:
  "utf8_char c = Some bs \<Longrightarrow> utf8_text (bs @ rest) = map_option (Cons c) (utf8_text rest)"
proof -
  assume enc: "utf8_char c = Some bs"
  consider "c < 0x80" | "0x80 \<le> c" "c < 0x800" | "0x800 \<le> c" "c < 0x10000" "\<not> surrogate c"
    | "0x10000 \<le> c" "c < 0x110000"
    using enc by (fastforce simp: utf8_char_def split: if_splits)
  then show ?thesis
  proof cases
    case 1
    then show ?thesis using enc by (auto simp: utf8_char_def)
  next
    case 2
    then have "2 \<le> c div 64" "c div 64 < 32" by (simp_all add: div_le_mono [of 128 c 64, simplified] less_mult_imp_div_less)
    then show ?thesis using enc 2 by (auto simp: utf8_char_def continuation_def mult.commute)
  next
    case 3
    have "c div 4096 < 16" using 3 by (simp add: less_mult_imp_div_less)
    then show ?thesis using enc 3 sextets(1) [of c] by (auto simp add: utf8_char_def continuation_def Let_def)
  next
    case 4
    have "c div 262144 < 5" using 4 by (simp add: less_mult_imp_div_less)
    moreover have "\<not> surrogate c" using 4 by (simp add: surrogate_def)
    ultimately show ?thesis using enc 4 sextets(2) [of c] by (auto simp add: utf8_char_def continuation_def Let_def)
  qed
qed

theorem utf8_bytes_text: "utf8_bytes cs = Some bs \<Longrightarrow> utf8_text bs = Some cs"
proof (induction cs arbitrary: bs)
  case (Cons c cs)
  then obtain b rest where "utf8_char c = Some b" "utf8_bytes cs = Some rest" "bs = b @ rest"
    by (auto split: option.splits)
  then show ?case using utf8_char_text Cons.IH by simp
qed simp

lemma utf8_text_bytes: "utf8_text bs = Some cs \<Longrightarrow> utf8_bytes cs = Some bs"
proof (induction bs arbitrary: cs rule: utf8_text.induct)
  case (2 b bs)
  consider "b < 0x80" | "0xC2 \<le> b" "b < 0xE0" | "0xE0 \<le> b" "b < 0xF0" | "0xF0 \<le> b" "b < 0xF5"
    using 2(5) by (fastforce split: if_splits)
  then show ?case
  proof cases
    case 1
    then obtain ds where "utf8_text bs = Some ds" "cs = b # ds" using 2(5) by auto
    then show ?thesis using 1 2(1) by (simp add: utf8_char_def)
  next
    case two: 2
    then obtain c1 rest ds where r: "bs = c1 # rest" "continuation c1" "utf8_text rest = Some ds"
      "cs = ((b - 0xC0) * 64 + (c1 - 0x80)) # ds"
      using 2(5) by (auto split: list.splits if_splits)
    define x y where "x = b - 0xC0" and "y = c1 - 0x80"
    have xy: "2 \<le> x" "x < 32" "y < 64" "b = 0xC0 + x" "c1 = 0x80 + y"
      using two r(2) unfolding x_def y_def continuation_def by linarith+
    define c where "c = x * 64 + y"
    have "c < 0x800" "0x80 \<le> c" "c div 64 = x" "c mod 64 = y"
      using xy(1-3) unfolding c_def by simp_all
    moreover have "utf8_bytes ds = Some rest" using 2(2) two r by simp
    moreover have "cs = c # ds" using r(4) by (simp add: c_def x_def y_def)
    ultimately show ?thesis using r xy by (simp add: utf8_char_def)
  next
    case three: 3
    then obtain c1 c2 rest ds where r: "bs = c1 # c2 # rest" "continuation c1" "continuation c2" "utf8_text rest = Some ds"
      and c: "cs = ((b - 0xE0) * 4096 + (c1 - 0x80) * 64 + (c2 - 0x80)) # ds"
        "0x800 \<le> (b - 0xE0) * 4096 + (c1 - 0x80) * 64 + (c2 - 0x80)"
        "\<not> surrogate ((b - 0xE0) * 4096 + (c1 - 0x80) * 64 + (c2 - 0x80))"
      using 2(5) by (auto simp: Let_def split: list.splits if_splits)
    define x y z where "x = b - 0xE0" and "y = c1 - 0x80" and "z = c2 - 0x80"
    have xyz: "x < 16" "y < 64" "z < 64" "b = 0xE0 + x" "c1 = 0x80 + y" "c2 = 0x80 + z"
      using three r(2,3) unfolding x_def y_def z_def continuation_def by linarith+
    define c where "c = x * 4096 + y * 64 + z"
    have "c < 0x10000" "c div 4096 = x" "c div 64 mod 64 = y" "c mod 64 = z"
      using xyz(1-3) sextet_digits [of y z x] unfolding c_def by simp_all
    moreover have "utf8_bytes ds = Some rest" using 2(3) three r c by (simp add: Let_def)
    moreover have "0x800 \<le> c" "\<not> surrogate c" "cs = c # ds" using c by (simp_all add: c_def x_def y_def z_def)
    ultimately show ?thesis using r xyz by (simp add: utf8_char_def)
  next
    case four: 4
    then obtain c1 c2 c3 rest ds where r: "bs = c1 # c2 # c3 # rest" "continuation c1" "continuation c2"
        "continuation c3" "utf8_text rest = Some ds"
      and c: "cs = ((b - 0xF0) * 262144 + (c1 - 0x80) * 4096 + (c2 - 0x80) * 64 + (c3 - 0x80)) # ds"
        "0x10000 \<le> (b - 0xF0) * 262144 + (c1 - 0x80) * 4096 + (c2 - 0x80) * 64 + (c3 - 0x80)"
        "(b - 0xF0) * 262144 + (c1 - 0x80) * 4096 + (c2 - 0x80) * 64 + (c3 - 0x80) < 0x110000"
      using 2(5) by (auto simp: Let_def split: list.splits if_splits)
    define w x y z where "w = b - 0xF0" and "x = c1 - 0x80" and "y = c2 - 0x80" and "z = c3 - 0x80"
    have xyz: "x < 64" "y < 64" "z < 64" "b = 0xF0 + w" "c1 = 0x80 + x" "c2 = 0x80 + y" "c3 = 0x80 + z"
      using four r(2-4) unfolding w_def x_def y_def z_def continuation_def by linarith+
    define c where "c = w * 262144 + x * 4096 + y * 64 + z"
    have c': "c = (w * 64 + x) * 4096 + y * 64 + z" by (simp add: c_def)
    have "c div 4096 = w * 64 + x" "c div 64 = (w * 64 + x) * 64 + y" "c mod 64 = z"
      using sextet_digits [of y z "w * 64 + x"] xyz(2,3) unfolding c' by simp_all
    moreover have "c div 262144 = c div 4096 div 64" by (simp add: div_mult2_eq [symmetric])
    ultimately have "c div 262144 = w" "c div 4096 mod 64 = x" "c div 64 mod 64 = y" "c mod 64 = z"
      using xyz(1,2) mod_mult_self3 [of "w * 64 + x" 64 y] by simp_all
    moreover have "utf8_bytes ds = Some rest" using 2(4) four r c by (simp add: Let_def)
    moreover have "0x10000 \<le> c" "c < 0x110000" "\<not> surrogate c" "cs = c # ds"
      using c by (simp_all add: c_def w_def x_def y_def z_def surrogate_def)
    ultimately show ?thesis using r xyz by (simp add: utf8_char_def)
  qed
qed simp

lemma utf8_char_small: "utf8_char c = Some bs \<Longrightarrow> \<forall>b \<in> set bs. b < 256"
  using mod_less_divisor [of 64 c] mod_less_divisor [of 64 "c div 64"] mod_less_divisor [of 64 "c div 4096"]
  by (auto simp: utf8_char_def div_less_iff_less_mult less_mult_imp_div_less split: if_splits)

lemma utf8_bytes_small: "utf8_bytes cs = Some bs \<Longrightarrow> \<forall>b \<in> set bs. b < 256"
proof (induction cs arbitrary: bs)
  case (Cons c cs)
  then obtain b rest where "utf8_char c = Some b" "utf8_bytes cs = Some rest" "bs = b @ rest"
    by (auto split: option.splits)
  then show ?case using utf8_char_small Cons.IH by auto
qed simp

lemma unat_of_small: "\<forall>b \<in> set bs. b < 256 \<Longrightarrow> map unat (map of_nat bs :: bytes) = bs"
  by (induction bs) (auto simp: unat_of_nat)

theorem utf8_decode_encode: "utf8_encode cs = Some bs \<Longrightarrow> utf8_decode bs = Some cs"
  using utf8_bytes_text utf8_bytes_small unat_of_small
  by (fastforce simp: utf8_encode_def utf8_decode_def)

theorem utf8_encode_decode: "utf8_decode bs = Some cs \<Longrightarrow> utf8_encode cs = Some bs"
  by (drule utf8_text_bytes [of "map unat bs", folded utf8_decode_def])
    (simp add: utf8_encode_def comp_def)

interpretation utf8: exact_codec utf8_encode utf8_decode
  by unfold_locales (fact utf8_decode_encode, fact utf8_encode_decode)

section \<open>base64\<close>

definition b64_char :: "nat \<Rightarrow> nat" where
  "b64_char v =
     (if v < 26 then 65 + v else if v < 52 then 71 + v else if v < 62 then v - 4 else if v = 62 then 43 else 47)"

definition b64_value :: "nat \<Rightarrow> nat option" where
  "b64_value c =
     (if 65 \<le> c \<and> c \<le> 90 then Some (c - 65)
      else if 97 \<le> c \<and> c \<le> 122 then Some (c - 71)
      else if 48 \<le> c \<and> c \<le> 57 then Some (c + 4)
      else if c = 43 then Some 62
      else if c = 47 then Some 63
      else None)"

fun b64_text :: "nat list \<Rightarrow> ustr" where
  "b64_text [] = []"
| "b64_text [a] = [b64_char (a div 4), b64_char (a mod 4 * 16), 61, 61]"
| "b64_text [a, b] = [b64_char (a div 4), b64_char (a mod 4 * 16 + b div 16), b64_char (b mod 16 * 4), 61]"
| "b64_text (a # b # c # rest) =
     b64_char (a div 4) # b64_char (a mod 4 * 16 + b div 16) # b64_char (b mod 16 * 4 + c div 64) #
     b64_char (c mod 64) # b64_text rest"

definition b64encode :: "bytes \<Rightarrow> ustr" where
  "b64encode bs = b64_text (map unat bs)"

text \<open>
  The strict decoder of \<^verbatim>\<open>binascii\<close>: a position in the quad, the bits left over, the pads seen in
  this quad and whether padding has started. \<open>None\<close> is \<^verbatim>\<open>binascii.Error\<close> (or the \<^verbatim>\<open>ValueError\<close> for a
  character outside ASCII).
\<close>

fun b64_scan :: "nat \<Rightarrow> nat \<Rightarrow> nat \<Rightarrow> bool \<Rightarrow> ustr \<Rightarrow> nat list option" where
  "b64_scan quad left pads padding [] = (if quad = 0 then Some [] else None)"
| "b64_scan quad left pads padding (c # cs) =
     (if c = 61 then
        if 2 \<le> quad then
          if 4 \<le> quad + pads + 1 then (if cs = [] then Some [] else None)
          else b64_scan quad left (pads + 1) True cs
        else b64_scan quad left pads True cs
      else case b64_value c of
          None \<Rightarrow> None
        | Some v \<Rightarrow>
            if padding then None
            else if quad = 0 then b64_scan 1 v 0 padding cs
            else if quad = 1 then map_option (Cons (left * 4 + v div 16)) (b64_scan 2 (v mod 16) 0 padding cs)
            else if quad = 2 then map_option (Cons (left * 16 + v div 4)) (b64_scan 3 (v mod 4) 0 padding cs)
            else map_option (Cons (left * 64 + v)) (b64_scan 0 0 0 padding cs))"

definition b64decode :: "ustr \<Rightarrow> bytes option" where
  "b64decode cs =
     (if cs \<noteq> [] \<and> hd cs = 61 then None else map_option (map of_nat) (b64_scan 0 0 0 False cs))"

lemma b64_value_char: "v < 64 \<Longrightarrow> b64_value (b64_char v) = Some v \<and> b64_char v \<noteq> 61"
  by (auto simp: b64_value_def b64_char_def)

lemma b64_scan_char:
  assumes "v < 64"
  shows "b64_scan 0 left pads False (b64_char v # cs) = b64_scan 1 v 0 False cs"
    and "b64_scan (Suc 0) left pads False (b64_char v # cs) = map_option (Cons (left * 4 + v div 16)) (b64_scan 2 (v mod 16) 0 False cs)"
    and "b64_scan 2 left pads False (b64_char v # cs) = map_option (Cons (left * 16 + v div 4)) (b64_scan 3 (v mod 4) 0 False cs)"
    and "b64_scan 3 left pads False (b64_char v # cs) = map_option (Cons (left * 64 + v)) (b64_scan 0 0 0 False cs)"
  using b64_value_char [OF assms] by simp_all

lemma b64_digits:
  fixes a b :: nat
  assumes "a < 256" and "b < 256"
  shows "a div 4 < 64" and "a mod 4 * 16 < 64" and "a mod 4 * 16 + b div 16 < 64"
    and "b mod 16 * 4 < 64" and "b mod 16 * 4 + a div 64 < 64"
proof -
  have "a div 4 < 64" "a div 64 < 4" "b div 16 < 16" using assms by (simp_all add: less_mult_imp_div_less)
  moreover have "a mod 4 < 4" "b mod 16 < 16" by simp_all
  ultimately show "a div 4 < 64" and "a mod 4 * 16 < 64" and "a mod 4 * 16 + b div 16 < 64"
    and "b mod 16 * 4 < 64" and "b mod 16 * 4 + a div 64 < 64" by linarith+
qed

lemma b64_scan_text: "\<forall>b \<in> set bs. b < 256 \<Longrightarrow> b64_scan 0 left pads False (b64_text bs) = Some bs"
proof (induction bs arbitrary: left pads rule: b64_text.induct)
  case (2 a)
  then show ?case using b64_digits [of a a]
    by (simp add: b64_scan_char del: b64_scan.simps(2)) (simp add: mult.commute [of _ 4])
next
  case (3 a b)
  then have "b div 16 < 16" by (simp add: less_mult_imp_div_less)
  then show ?case using 3 b64_digits [of a b]
    by (simp add: b64_scan_char del: b64_scan.simps(2)) (simp add: mult.commute [of _ 4])
next
  case (4 a b c rest)
  then have "b div 16 < 16" "c div 64 < 4" by (simp_all add: less_mult_imp_div_less)
  then show ?case using 4 b64_digits [of a b] b64_digits [of c b]
    by (simp add: b64_scan_char del: b64_scan.simps(2))
qed simp

theorem b64decode_encode: "b64decode (b64encode bs) = Some bs"
proof -
  have "\<forall>b \<in> set (map unat bs). b < 256" by (auto simp: unsigned_less [where 'a = nat and 'b = 8, simplified])
  then have scan: "b64_scan 0 0 0 False (b64_text (map unat bs)) = Some (map unat bs)" by (rule b64_scan_text)
  have first: "b64_char (a div 4) \<noteq> 61" if "a < 256" for a
    using b64_value_char [OF b64_digits(1) [OF that that]] by simp
  have "b64_text (map unat bs) = [] \<or> hd (b64_text (map unat bs)) \<noteq> 61"
    using \<open>\<forall>b \<in> set (map unat bs). b < 256\<close>
    by (cases "map unat bs" rule: b64_text.cases) (use first in auto)
  then show ?thesis using scan by (simp add: b64decode_def b64encode_def comp_def)
qed

interpretation base64: codec "\<lambda>bs. Some (b64encode bs)" b64decode
  by unfold_locales (auto simp: b64decode_encode)

end
