(* ===== verification/Json.thy ===== *)
theory Json
  imports Py_Bytes "HOL-Library.AList"
begin

text \<open>
  Python's \<^verbatim>\<open>json\<close>: the printer with its options and the strict reader. Numbers stay lexemes: no
  code of the program computes with a number it read this way. The reader is a scanner and a
  stack machine over its tokens; the nesting it admits is a parameter (the interpreter's recursion
  limit), beyond which \<open>RecursionError\<close> is raised, all other malformed input being a
  \<^verbatim>\<open>JSONDecodeError\<close>, which is a \<open>ValueError\<close>.
\<close>

datatype json = JNull | JBool bool | JNum ustr | JStr ustr | JArr "json list" | JObj "(ustr \<times> json) list"

section \<open>Printing\<close>

fun ujoin :: "'a list \<Rightarrow> 'a list list \<Rightarrow> 'a list" where
  "ujoin sep [] = []"
| "ujoin sep [p] = p"
| "ujoin sep (p # q # ps) = p @ sep @ ujoin sep (q # ps)"

definition hex_digit :: "nat \<Rightarrow> nat" where
  "hex_digit d = (if d < 10 then 48 + d else 87 + d)"

definition unicode_escape :: "nat \<Rightarrow> ustr" where
  "unicode_escape u =
     [92, 117, hex_digit (u div 4096), hex_digit (u div 256 mod 16), hex_digit (u div 16 mod 16), hex_digit (u mod 16)]"

definition short_escape :: "nat \<Rightarrow> nat option" where
  "short_escape c =
     (if c = 34 then Some 34 else if c = 92 then Some 92 else if c = 8 then Some 98 else if c = 12 then Some 102
      else if c = 10 then Some 110 else if c = 13 then Some 114 else if c = 9 then Some 116 else None)"

definition escape_char :: "bool \<Rightarrow> nat \<Rightarrow> ustr" where
  "escape_char ensure_ascii c =
     (case short_escape c of
        Some e \<Rightarrow> [92, e]
      | None \<Rightarrow>
          if c < 32 then unicode_escape c
          else if \<not> ensure_ascii \<or> c \<le> 126 then [c]
          else if c < 0x10000 then unicode_escape c
          else unicode_escape (0xD800 + (c - 0x10000) div 1024) @ unicode_escape (0xDC00 + (c - 0x10000) mod 1024))"

definition dumps_str :: "bool \<Rightarrow> ustr \<Rightarrow> ustr" where
  "dumps_str ensure_ascii s = 34 # concat (map (escape_char ensure_ascii) s) @ [34]"

record json_style =
  ensure_ascii :: bool
  item_separator :: ustr
  key_separator :: ustr

text \<open>\<^verbatim>\<open>json.dumps\<close> without options.\<close>

definition default_style :: json_style where
  "default_style = \<lparr>ensure_ascii = True, item_separator = ascii '', '', key_separator = ascii '': ''\<rparr>"

fun dumps :: "json_style \<Rightarrow> json \<Rightarrow> ustr" where
  "dumps y JNull = ascii ''null''"
| "dumps y (JBool b) = ascii (if b then ''true'' else ''false'')"
| "dumps y (JNum l) = l"
| "dumps y (JStr s) = dumps_str (ensure_ascii y) s"
| "dumps y (JArr vs) = 91 # ujoin (item_separator y) (map (dumps y) vs) @ [93]"
| "dumps y (JObj kvs) =
     123 # ujoin (item_separator y)
       (map (\<lambda>(k, v). dumps_str (ensure_ascii y) k @ key_separator y @ dumps y v) kvs) @ [125]"

section \<open>Scanning\<close>

datatype token = TOpenArr | TCloseArr | TOpenObj | TCloseObj | TComma | TColon | TValue json | TBad

definition hex_value :: "nat \<Rightarrow> nat option" where
  "hex_value c =
     (if 48 \<le> c \<and> c \<le> 57 then Some (c - 48)
      else if 97 \<le> c \<and> c \<le> 102 then Some (c - 87)
      else if 65 \<le> c \<and> c \<le> 70 then Some (c - 55)
      else None)"

fun hex4 :: "nat \<Rightarrow> nat \<Rightarrow> nat \<Rightarrow> nat \<Rightarrow> nat option" where
  "hex4 a b c d =
     (case (hex_value a, hex_value b, hex_value c, hex_value d) of
        (Some p, Some q, Some r, Some s) \<Rightarrow> Some (p * 4096 + q * 256 + r * 16 + s)
      | _ \<Rightarrow> None)"

definition unescape :: "nat \<Rightarrow> nat option" where
  "unescape e =
     (if e = 34 then Some 34 else if e = 92 then Some 92 else if e = 47 then Some 47 else if e = 98 then Some 8
      else if e = 102 then Some 12 else if e = 110 then Some 10 else if e = 114 then Some 13
      else if e = 116 then Some 9 else None)"

definition high_surrogate :: "nat \<Rightarrow> bool" where
  "high_surrogate u \<longleftrightarrow> 0xD800 \<le> u \<and> u \<le> 0xDBFF"

definition low_surrogate :: "nat \<Rightarrow> bool" where
  "low_surrogate u \<longleftrightarrow> 0xDC00 \<le> u \<and> u \<le> 0xDFFF"

definition with_char :: "nat \<Rightarrow> (ustr \<times> 'a) option \<Rightarrow> (ustr \<times> 'a) option" where
  "with_char c = map_option (apfst (Cons c))"

text \<open>The body of a string, up to its closing quote.\<close>

fun lex_string :: "ustr \<Rightarrow> (ustr \<times> ustr) option" where
  "lex_string [] = None"
| "lex_string (c # cs) =
     (if c = 34 then Some ([], cs)
      else if c < 32 then None
      else if c \<noteq> 92 then with_char c (lex_string cs)
      else case cs of
          [] \<Rightarrow> None
        | e # rest \<Rightarrow>
            if e \<noteq> 117 then
              (case unescape e of None \<Rightarrow> None | Some d \<Rightarrow> with_char d (lex_string rest))
            else
              (case rest of
                 h1 # h2 # h3 # h4 # after \<Rightarrow>
                   (case hex4 h1 h2 h3 h4 of
                      None \<Rightarrow> None
                    | Some u \<Rightarrow>
                        if \<not> high_surrogate u then with_char u (lex_string after)
                        else
                          (case after of
                             b # x # k1 # k2 # k3 # k4 # tail \<Rightarrow>
                               if b = 92 \<and> x = 117 then
                                 (case hex4 k1 k2 k3 k4 of
                                    None \<Rightarrow> None
                                  | Some v \<Rightarrow>
                                      if low_surrogate v
                                      then with_char (0x10000 + (u - 0xD800) * 1024 + (v - 0xDC00)) (lex_string tail)
                                      else with_char u (lex_string after))
                               else with_char u (lex_string after)
                           | _ \<Rightarrow> with_char u (lex_string after)))
               | _ \<Rightarrow> None))"

definition digit :: "nat \<Rightarrow> bool" where
  "digit c \<longleftrightarrow> 48 \<le> c \<and> c \<le> 57"

definition lex_fraction :: "ustr \<Rightarrow> ustr \<times> ustr" where
  "lex_fraction s =
     (case s of
        c # d # rest \<Rightarrow>
          if c = 46 \<and> digit d then (c # takeWhile digit (d # rest), dropWhile digit (d # rest)) else ([], s)
      | _ \<Rightarrow> ([], s))"

definition lex_exponent :: "ustr \<Rightarrow> ustr \<times> ustr" where
  "lex_exponent s =
     (case s of
        e # rest \<Rightarrow>
          let sign = (case rest of x # _ \<Rightarrow> if x = 43 \<or> x = 45 then [x] else [] | [] \<Rightarrow> []);
              ds = drop (length sign) rest
          in if (e = 101 \<or> e = 69) \<and> ds \<noteq> [] \<and> digit (hd ds)
             then (e # sign @ takeWhile digit ds, dropWhile digit ds) else ([], s)
      | [] \<Rightarrow> ([], s))"

definition lex_integer :: "ustr \<Rightarrow> (ustr \<times> ustr) option" where
  "lex_integer s =
     (let sign = (if s \<noteq> [] \<and> hd s = 45 then [45] else []); ds = drop (length sign) s
      in case ds of
          [] \<Rightarrow> None
        | d # rest \<Rightarrow>
            if d = 48 then Some (sign @ [48], rest)
            else if digit d then Some (sign @ takeWhile digit ds, dropWhile digit ds)
            else None)"

text \<open>An integer literal beyond the interpreter's limit of digits is a \<^verbatim>\<open>ValueError\<close> as well.\<close>

definition MAX_STR_DIGITS :: nat where
  "MAX_STR_DIGITS = 4300"

definition lex_number :: "ustr \<Rightarrow> (ustr \<times> ustr) option" where
  "lex_number s =
     (case lex_integer s of
        None \<Rightarrow> None
      | Some (i, s1) \<Rightarrow>
          (case lex_fraction s1 of (f, s2) \<Rightarrow>
           case lex_exponent s2 of (e, s3) \<Rightarrow>
             if f = [] \<and> e = [] \<and> MAX_STR_DIGITS < length (filter digit i) then None
             else Some (i @ f @ e, s3)))"

fun strip_prefix :: "'a list \<Rightarrow> 'a list \<Rightarrow> 'a list option" where
  "strip_prefix [] s = Some s"
| "strip_prefix (p # ps) [] = None"
| "strip_prefix (p # ps) (c # cs) = (if p = c then strip_prefix ps cs else None)"

definition WORDS :: "(ustr \<times> json) list" where
  "WORDS =
     [(ascii ''null'', JNull), (ascii ''true'', JBool True), (ascii ''false'', JBool False),
      (ascii ''NaN'', JNum (ascii ''NaN'')), (ascii ''Infinity'', JNum (ascii ''Infinity'')),
      (ascii ''-Infinity'', JNum (ascii ''-Infinity''))]"

fun lex_word :: "(ustr \<times> json) list \<Rightarrow> ustr \<Rightarrow> (json \<times> ustr) option" where
  "lex_word [] s = None"
| "lex_word ((w, v) # ws) s = (case strip_prefix w s of Some rest \<Rightarrow> Some (v, rest) | None \<Rightarrow> lex_word ws s)"

definition punctuation :: "nat \<Rightarrow> token option" where
  "punctuation c =
     (if c = 91 then Some TOpenArr else if c = 93 then Some TCloseArr else if c = 123 then Some TOpenObj
      else if c = 125 then Some TCloseObj else if c = 44 then Some TComma else if c = 58 then Some TColon else None)"

definition next_token :: "ustr \<Rightarrow> (token \<times> ustr) option" where
  "next_token s =
     (case punctuation (hd s) of
        Some t \<Rightarrow> Some (t, tl s)
      | None \<Rightarrow>
          if hd s = 34 then map_option (apfst (TValue \<circ> JStr)) (lex_string (tl s))
          else case lex_word WORDS s of
              Some (v, rest) \<Rightarrow> Some (TValue v, rest)
            | None \<Rightarrow> map_option (apfst (TValue \<circ> JNum)) (lex_number s))"

definition blank :: "nat \<Rightarrow> bool" where
  "blank c \<longleftrightarrow> c = 32 \<or> c = 9 \<or> c = 10 \<or> c = 13"

subsection \<open>Every token consumes input\<close>

lemma with_char_Some: "with_char c m = Some (t, rest) \<longleftrightarrow> (\<exists>t'. m = Some (t', rest) \<and> t = c # t')"
  by (auto simp: with_char_def)

lemma lex_string_shorter: "lex_string s = Some (t, rest) \<Longrightarrow> length rest < length s"
proof (induction "length s" arbitrary: s t rest rule: less_induct)
  case less
  have tail: "length rest < length s" if "with_char c (lex_string u) = Some (t, rest)" "length u < length s" for c u
    using less.hyps [of u] that by (fastforce simp: with_char_Some)
  show ?case
  proof (cases s)
    case (Cons c cs)
    show ?thesis
      using less.prems unfolding Cons lex_string.simps(2)
      by (auto simp del: lex_string.simps simp: Cons split: if_splits list.splits option.splits dest!: tail)
  qed (use less.prems in simp)
qed

declare lex_string.simps(2) [simp del]

lemma lex_integer_shorter: "lex_integer s = Some (i, rest) \<Longrightarrow> length rest < length s"
  using length_dropWhile_le [of digit "tl s"] length_dropWhile_le [of digit "tl (tl s)"]
  by (cases s; cases "tl s") (auto simp: lex_integer_def Let_def split: if_splits)

lemma lex_fraction_shorter: "lex_fraction s = (f, rest) \<Longrightarrow> length rest \<le> length s"
  using length_dropWhile_le [of digit "tl s"]
  by (auto simp: lex_fraction_def split: list.splits if_splits)

lemma lex_exponent_shorter: "lex_exponent s = (e, rest) \<Longrightarrow> length rest \<le> length s"
proof (cases s)
  case (Cons c cs)
  assume lex: "lex_exponent s = (e, rest)"
  show ?thesis
    using lex Cons length_dropWhile_le [of digit cs] length_dropWhile_le [of digit "tl cs"]
    by (auto simp: lex_exponent_def Let_def split: list.splits if_splits)
qed (simp add: lex_exponent_def)

lemma strip_prefix_length: "strip_prefix p s = Some rest \<Longrightarrow> length s = length p + length rest"
  by (induction p s rule: strip_prefix.induct) (auto split: if_splits)

lemma lex_word_shorter: "lex_word ws s = Some (v, rest) \<Longrightarrow> \<forall>(w, v) \<in> set ws. w \<noteq> [] \<Longrightarrow> length rest < length s"
  by (induction ws s rule: lex_word.induct) (auto dest: strip_prefix_length split: option.splits)

lemma next_token_shorter: "s \<noteq> [] \<Longrightarrow> next_token s = Some (t, rest) \<Longrightarrow> length rest < length s"
proof -
  assume s: "s \<noteq> []" and t: "next_token s = Some (t, rest)"
  have words: "\<forall>(w, v) \<in> set WORDS. w \<noteq> []" by (simp add: WORDS_def)
  have number: "length r < length s" if "lex_number s = Some (l, r)" for l r
    using that lex_integer_shorter [of s] lex_fraction_shorter lex_exponent_shorter
    by (fastforce simp: lex_number_def split: option.splits prod.splits if_splits)
  show ?thesis
    using s t lex_string_shorter [of "tl s"] lex_word_shorter [OF _ words, of s] number
    by (cases s) (fastforce simp: next_token_def split: option.splits if_splits)+
qed

function tokenize :: "ustr \<Rightarrow> token list" where
  "tokenize [] = []"
| "tokenize (c # cs) =
     (if blank c then tokenize cs
      else case next_token (c # cs) of
          None \<Rightarrow> [TBad]
        | Some (t, rest) \<Rightarrow> t # tokenize rest)"
  by pat_completeness auto

termination
  by (relation "measure length") (auto dest: next_token_shorter [rotated])

section \<open>Reading\<close>

text \<open>
  What is open around the place reached: an array with its values so far, or an object with its
  entries so far and the key whose value is being read. A repeated key keeps its place and takes
  the new value, as in a \<^verbatim>\<open>dict\<close>.
\<close>

datatype frame = InArray "json list" | InObject "(ustr \<times> json) list" ustr

datatype place = AtValue | AtFirstItem | AtFirstKey | AtKey "(ustr \<times> json) list" | AtColon "(ustr \<times> json) list" ustr | AfterValue json

function machine :: "nat \<Rightarrow> frame list \<Rightarrow> place \<Rightarrow> token list \<Rightarrow> json res" where
  "machine limit st AtValue toks =
     (case toks of
        TValue v # rest \<Rightarrow> machine limit st (AfterValue v) rest
      | TOpenArr # rest \<Rightarrow> if limit \<le> length st then Inl RecursionError else machine limit st AtFirstItem rest
      | TOpenObj # rest \<Rightarrow> if limit \<le> length st then Inl RecursionError else machine limit st AtFirstKey rest
      | _ \<Rightarrow> Inl ValueError)"
| "machine limit st AtFirstItem toks =
     (case toks of
        TCloseArr # rest \<Rightarrow> machine limit st (AfterValue (JArr [])) rest
      | _ \<Rightarrow> machine limit (InArray [] # st) AtValue toks)"
| "machine limit st AtFirstKey toks =
     (case toks of
        TCloseObj # rest \<Rightarrow> machine limit st (AfterValue (JObj [])) rest
      | TValue (JStr k) # rest \<Rightarrow> machine limit st (AtColon [] k) rest
      | _ \<Rightarrow> Inl ValueError)"
| "machine limit st (AtKey kvs) toks =
     (case toks of
        TValue (JStr k) # rest \<Rightarrow> machine limit st (AtColon kvs k) rest
      | _ \<Rightarrow> Inl ValueError)"
| "machine limit st (AtColon kvs k) toks =
     (case toks of
        TColon # rest \<Rightarrow> machine limit (InObject kvs k # st) AtValue rest
      | _ \<Rightarrow> Inl ValueError)"
| "machine limit st (AfterValue v) toks =
     (case st of
        [] \<Rightarrow> if toks = [] then Inr v else Inl ValueError
      | InArray vs # st' \<Rightarrow>
          (case toks of
             TComma # rest \<Rightarrow> machine limit (InArray (vs @ [v]) # st') AtValue rest
           | TCloseArr # rest \<Rightarrow> machine limit st' (AfterValue (JArr (vs @ [v]))) rest
           | _ \<Rightarrow> Inl ValueError)
      | InObject kvs k # st' \<Rightarrow>
          (case toks of
             TComma # rest \<Rightarrow> machine limit st' (AtKey (AList.update k v kvs)) rest
           | TCloseObj # rest \<Rightarrow> machine limit st' (AfterValue (JObj (AList.update k v kvs))) rest
           | _ \<Rightarrow> Inl ValueError))"
  by pat_completeness auto

termination
  by (relation "measure (\<lambda>(limit, st, place, toks). 2 * length toks + (if place = AtFirstItem then 1 else 0))")
    auto

definition loads :: "nat \<Rightarrow> ustr \<Rightarrow> json res" where
  "loads limit s =
     (if s \<noteq> [] \<and> hd s = 0xFEFF then Inl ValueError else machine limit [] AtValue (tokenize s))"

end
