(* ===== verification/Json_Laws.thy ===== *)
theory Json_Laws
  imports Json
begin

text \<open>
  Reading what was printed gives the value back, in every style whose separators are a comma and a
  colon with blanks, for every value whose nesting the reader admits; and what is printed has no
  control character, so that a value takes one line.
\<close>

declare tokenize.simps(2) [simp del]

section \<open>Strings\<close>

definition char_ok :: "bool \<Rightarrow> nat \<Rightarrow> bool" where
  "char_ok ensure c \<longleftrightarrow> (ensure \<longrightarrow> \<not> surrogate c \<and> c < 0x110000)"

lemma hex_value_digit: "d < 16 \<Longrightarrow> hex_value (hex_digit d) = Some d"
  by (auto simp: hex_value_def hex_digit_def)

lemma nibbles:
  fixes u :: nat
  shows "u div 4096 * 4096 + u div 256 mod 16 * 256 + u div 16 mod 16 * 16 + u mod 16 = u"
proof -
  have 1: "u = u div 16 * 16 + u mod 16" and 2: "u div 16 = u div 256 * 16 + u div 16 mod 16"
    and 3: "u div 256 = u div 4096 * 16 + u div 256 mod 16"
    using div_mult_mod_eq [of "u div 16" 16] div_mult_mod_eq [of "u div 256" 16]
    by (simp_all add: div_mult2_eq [symmetric])
  then show ?thesis by linarith
qed

lemma hex4_digits:
  "u < 0x10000 \<Longrightarrow>
   hex4 (hex_digit (u div 4096)) (hex_digit (u div 256 mod 16)) (hex_digit (u div 16 mod 16)) (hex_digit (u mod 16)) = Some u"
  by (simp add: hex_value_digit less_mult_imp_div_less nibbles)

lemma lex_string_unicode:
  assumes "u < 0x10000" and "\<not> high_surrogate u"
  shows "lex_string (unicode_escape u @ t) = with_char u (lex_string t)"
  using assms hex4_digits [OF assms(1)] unfolding unicode_escape_def
  by (simp add: lex_string.simps(2) [of 92] del: hex4.simps)

lemma lex_string_pair:
  assumes "high_surrogate u" and "low_surrogate v"
  shows "lex_string (unicode_escape u @ unicode_escape v @ t) =
    with_char (0x10000 + (u - 0xD800) * 1024 + (v - 0xDC00)) (lex_string t)"
proof -
  have "u < 0x10000" "v < 0x10000" using assms by (simp_all add: high_surrogate_def low_surrogate_def)
  then show ?thesis
    using assms hex4_digits [of u] hex4_digits [of v] unfolding unicode_escape_def
    by (simp add: lex_string.simps(2) [of 92 "117 # _"] del: hex4.simps)
qed

lemma lex_string_escape:
  assumes "char_ok ensure c"
  shows "lex_string (escape_char ensure c @ t) = with_char c (lex_string t)"
proof (cases "short_escape c")
  case (Some e)
  then have "unescape e = Some c" "e \<noteq> 117"
    by (auto simp: short_escape_def unescape_def split: if_splits)
  then show ?thesis using Some by (simp add: escape_char_def lex_string.simps(2) [of 92])
next
  case None
  then have c: "c \<noteq> 34" "c \<noteq> 92" by (auto simp: short_escape_def split: if_splits)
  consider "c < 32" | "32 \<le> c" "\<not> ensure \<or> c \<le> 126" | "32 \<le> c" "ensure" "\<not> c \<le> 126" "c < 0x10000"
    | "ensure" "0x10000 \<le> c" by linarith
  then show ?thesis
  proof cases
    case 1
    then show ?thesis using None by (simp add: escape_char_def lex_string_unicode high_surrogate_def)
  next
    case 2
    then show ?thesis using None c by (auto simp: escape_char_def lex_string.simps(2) [of c])
  next
    case 3
    then have "\<not> high_surrogate c" using assms by (auto simp: char_ok_def surrogate_def high_surrogate_def)
    then show ?thesis using None 3 by (simp add: escape_char_def lex_string_unicode)
  next
    case 4
    define u v where "u = 0xD800 + (c - 0x10000) div 1024" and "v = 0xDC00 + (c - 0x10000) mod 1024"
    have "c - 0x10000 < 1024 * 1024" using assms 4 unfolding char_ok_def by linarith
    then have "(c - 0x10000) div 1024 < 1024" by (simp add: less_mult_imp_div_less)
    moreover have "(c - 0x10000) mod 1024 < 1024" by simp
    ultimately have uv: "high_surrogate u" "low_surrogate v"
      unfolding u_def v_def high_surrogate_def low_surrogate_def by linarith+
    have "0x10000 + (u - 0xD800) * 1024 + (v - 0xDC00) = c" using 4(2) by (simp add: u_def v_def)
    then show ?thesis using None 4 lex_string_pair [OF uv, of t]
      by (simp add: escape_char_def u_def [symmetric] v_def [symmetric])
  qed
qed

lemma lex_string_dumps:
  "list_all (char_ok ensure) s \<Longrightarrow> lex_string (concat (map (escape_char ensure) s) @ 34 # rest) = Some (s, rest)"
  by (induction s) (simp_all add: lex_string_escape with_char_Some lex_string.simps(2) [of 34])

lemma tokenize_dumps_str:
  assumes "list_all (char_ok ensure) s"
  shows "tokenize (dumps_str ensure s @ rest) = TValue (JStr s) # tokenize rest"
  using lex_string_dumps [OF assms, of rest]
  by (simp add: dumps_str_def tokenize.simps(2) blank_def next_token_def punctuation_def)

section \<open>Numbers\<close>

text \<open>What may follow a number without changing how far it reaches.\<close>

definition stops :: "ustr \<Rightarrow> bool" where
  "stops rest \<longleftrightarrow> rest = [] \<or> \<not> digit (hd rest) \<and> hd rest \<notin> {43, 45, 46, 69, 101}"

definition number_ok :: "ustr \<Rightarrow> bool" where
  "number_ok l \<longleftrightarrow> lex_number l = Some (l, [])"

lemma takeWhile_stop:
  "rest = [] \<or> \<not> digit (hd rest) \<Longrightarrow>
     takeWhile digit (xs @ rest) = takeWhile digit xs \<and> dropWhile digit (xs @ rest) = dropWhile digit xs @ rest"
  by (induction xs) (cases rest; auto)+

lemma lex_integer_append:
  assumes "lex_integer s = Some (i, r)" and "stops rest"
  shows "lex_integer (s @ rest) = Some (i, r @ rest)"
proof -
  have stop: "rest = [] \<or> \<not> digit (hd rest)" using assms(2) by (auto simp: stops_def)
  obtain c cs where s: "s = c # cs" using assms(1) by (cases s) (auto simp: lex_integer_def)
  show ?thesis
  proof (cases "c = 45")
    case True
    then obtain d ds where "cs = d # ds" using assms(1) s by (cases cs) (auto simp: lex_integer_def)
    then show ?thesis using assms(1) s True takeWhile_stop [OF stop, of "d # ds"]
      by (auto simp: lex_integer_def Let_def split: if_splits)
  next
    case False
    then show ?thesis using assms(1) s takeWhile_stop [OF stop, of "c # cs"]
      by (auto simp: lex_integer_def Let_def split: if_splits)
  qed
qed

lemma lex_fraction_append:
  assumes "lex_fraction s = (f, r)" and "stops rest"
  shows "lex_fraction (s @ rest) = (f, r @ rest)"
proof -
  have stop: "rest = [] \<or> \<not> digit (hd rest)" using assms(2) by (auto simp: stops_def)
  consider "s = []" | c where "s = [c]" | c d cs where "s = c # d # cs" by (metis list.exhaust)
  then show ?thesis
  proof cases
    case 1
    then show ?thesis using assms by (auto simp: lex_fraction_def stops_def split: list.splits)
  next
    case 2
    then show ?thesis using assms by (auto simp: lex_fraction_def stops_def split: list.splits)
  next
    case 3
    then show ?thesis using assms(1) takeWhile_stop [OF stop, of "d # cs"]
      by (auto simp: lex_fraction_def split: if_splits)
  qed
qed

lemma lex_exponent_append:
  assumes "lex_exponent s = (e, r)" and "stops rest"
  shows "lex_exponent (s @ rest) = (e, r @ rest)"
proof -
  have stop: "rest = [] \<or> \<not> digit (hd rest)" using assms(2) by (auto simp: stops_def)
  have rest: "rest \<noteq> [] \<Longrightarrow> hd rest \<noteq> 43 \<and> hd rest \<noteq> 45 \<and> hd rest \<noteq> 69 \<and> hd rest \<noteq> 101"
    using assms(2) by (auto simp: stops_def)
  consider "s = []" | c where "s = [c]" | c x where "s = [c, x]" "x = 43 \<or> x = 45"
    | c x y xs where "s = c # x # y # xs" "x = 43 \<or> x = 45" | c x xs where "s = c # x # xs" "\<not> (x = 43 \<or> x = 45)"
    by (metis list.exhaust)
  then show ?thesis
  proof cases
    case 1
    then show ?thesis using assms(1) rest by (cases rest) (auto simp: lex_exponent_def Let_def)
  next
    case 2
    then show ?thesis using assms(1) rest stop by (cases rest) (auto simp: lex_exponent_def Let_def split: if_splits)
  next
    case 3
    then show ?thesis using assms(1) stop by (cases rest) (auto simp: lex_exponent_def Let_def split: if_splits)
  next
    case 4
    then show ?thesis using assms(1) takeWhile_stop [OF stop, of "y # xs"]
      by (auto simp: lex_exponent_def Let_def split: if_splits)
  next
    case 5
    then show ?thesis using assms(1) takeWhile_stop [OF stop, of "x # xs"]
      by (auto simp: lex_exponent_def Let_def split: if_splits)
  qed
qed

lemma lex_number_append:
  assumes "lex_number s = Some (l, r)" and "stops rest"
  shows "lex_number (s @ rest) = Some (l, r @ rest)"
  using assms(1) lex_integer_append [OF _ assms(2), of s] lex_fraction_append [OF _ assms(2)]
    lex_exponent_append [OF _ assms(2)]
  by (auto simp: lex_number_def split: option.splits prod.splits if_splits)

lemma number_head:
  assumes "number_ok l"
  shows "l \<noteq> [] \<and> (digit (hd l) \<or> hd l = 45 \<and> tl l \<noteq> [] \<and> digit (hd (tl l)))"
proof -
  have "\<exists>i r. lex_integer l = Some (i, r)"
    using assms by (auto simp: number_ok_def lex_number_def split: option.splits)
  then show ?thesis
    by (cases l; cases "tl l") (auto simp: lex_integer_def digit_def Let_def split: if_splits)
qed

lemma tokenize_number:
  assumes "number_ok l" and "stops rest"
  shows "tokenize (l @ rest) = TValue (JNum l) # tokenize rest"
proof -
  obtain c cs where l: "l = c # cs" using number_head [OF assms(1)] by (cases l) auto
  have c: "digit c \<or> c = 45 \<and> (\<exists>d ds. cs = d # ds \<and> digit d)"
    using number_head [OF assms(1)] by (cases cs) (auto simp: l)
  then have "punctuation c = None" "c \<noteq> 34" "\<not> blank c"
    by (auto simp: punctuation_def blank_def digit_def)
  moreover have "lex_word WORDS (l @ rest) = None"
    using c by (auto simp: l WORDS_def digit_def of_char_def)
  moreover have "lex_number (l @ rest) = Some (l, rest)"
    using lex_number_append [OF _ assms(2), of l l "[]"] assms(1) by (simp add: number_ok_def)
  ultimately show ?thesis by (simp add: l tokenize.simps(2) next_token_def)
qed

section \<open>Values\<close>

definition style_ok :: "json_style \<Rightarrow> bool" where
  "style_ok y \<longleftrightarrow>
     (\<exists>b. item_separator y = 44 # b \<and> list_all blank b) \<and> (\<exists>b. key_separator y = 58 # b \<and> list_all blank b)"

fun printable :: "bool \<Rightarrow> json \<Rightarrow> bool" where
  "printable ensure (JNum l) = number_ok l"
| "printable ensure (JStr s) = list_all (char_ok ensure) s"
| "printable ensure (JArr vs) = list_all (printable ensure) vs"
| "printable ensure (JObj kvs) =
     (distinct (map fst kvs) \<and> list_all (\<lambda>(k, v). list_all (char_ok ensure) k \<and> printable ensure v) kvs)"
| "printable ensure v = True"

fun toks :: "json \<Rightarrow> token list" where
  "toks (JArr vs) = TOpenArr # ujoin [TComma] (map toks vs) @ [TCloseArr]"
| "toks (JObj kvs) =
     TOpenObj # ujoin [TComma] (map (\<lambda>(k, v). TValue (JStr k) # TColon # toks v) kvs) @ [TCloseObj]"
| "toks v = [TValue v]"

lemma tokenize_blanks: "list_all blank b \<Longrightarrow> tokenize (b @ s) = tokenize s"
  by (induction b) (simp_all add: tokenize.simps(2))

lemma tokenize_separator:
  "list_all blank b \<Longrightarrow> tokenize (44 # b @ s) = TComma # tokenize s"
  "list_all blank b \<Longrightarrow> tokenize (58 # b @ s) = TColon # tokenize s"
  by (simp_all add: tokenize.simps(2) blank_def next_token_def punctuation_def tokenize_blanks)

lemma tokenize_bracket:
  "tokenize (91 # s) = TOpenArr # tokenize s" "tokenize (93 # s) = TCloseArr # tokenize s"
  "tokenize (123 # s) = TOpenObj # tokenize s" "tokenize (125 # s) = TCloseObj # tokenize s"
  by (simp_all add: tokenize.simps(2) blank_def next_token_def punctuation_def)

lemma tokenize_word:
  "tokenize (ascii ''null'' @ s) = TValue JNull # tokenize s"
  "tokenize (ascii ''true'' @ s) = TValue (JBool True) # tokenize s"
  "tokenize (ascii ''false'' @ s) = TValue (JBool False) # tokenize s"
  by (simp_all add: tokenize.simps(2) blank_def next_token_def punctuation_def WORDS_def)

lemma tokenize_join:
  assumes "style_ok y" and "\<And>x rest. x \<in> set xs \<Longrightarrow> stops rest \<Longrightarrow> tokenize (f x @ rest) = g x @ tokenize rest"
    and "stops rest"
  shows "tokenize (ujoin (item_separator y) (map f xs) @ rest) = ujoin [TComma] (map g xs) @ tokenize rest"
  using assms(2)
proof (induction xs rule: induct_list012)
  case (3 x z zs)
  obtain b where b: "item_separator y = 44 # b" "list_all blank b" using assms(1) by (auto simp: style_ok_def)
  have "stops (44 # b @ t)" for t by (simp add: stops_def digit_def)
  then have "tokenize (f x @ 44 # b @ ujoin (item_separator y) (map f (z # zs)) @ rest) =
      g x @ TComma # tokenize (ujoin (item_separator y) (map f (z # zs)) @ rest)"
    using 3(3) [of x] by (simp add: tokenize_separator(1) [OF b(2)])
  moreover have "tokenize (ujoin (item_separator y) (map f (z # zs)) @ rest) =
      ujoin [TComma] (map g (z # zs)) @ tokenize rest"
    by (rule 3(2)) (use 3(3) in simp)
  ultimately show ?case by (simp add: b(1))
qed (use assms(3) in simp_all)

theorem tokenize_dumps:
  assumes "style_ok y"
  shows "printable (ensure_ascii y) j \<Longrightarrow> stops rest \<Longrightarrow> tokenize (dumps y j @ rest) = toks j @ tokenize rest"
proof (induction j arbitrary: rest)
  case (JArr vs)
  have close: "stops (93 # rest)" by (simp add: stops_def digit_def)
  have "tokenize (ujoin (item_separator y) (map (dumps y) vs) @ 93 # rest) =
      ujoin [TComma] (map toks vs) @ tokenize (93 # rest)"
    by (rule tokenize_join [OF assms _ close]) (use JArr in \<open>auto simp: list_all_iff\<close>)
  then show ?case by (simp add: tokenize_bracket)
next
  case (JObj kvs)
  have close: "stops (125 # rest)" by (simp add: stops_def digit_def)
  obtain b where b: "key_separator y = 58 # b" "list_all blank b" using assms by (auto simp: style_ok_def)
  let ?f = "\<lambda>(k, v). dumps_str (ensure_ascii y) k @ key_separator y @ dumps y v"
  let ?g = "\<lambda>(k, v). TValue (JStr k) # TColon # toks v"
  have "tokenize (?f kv @ t) = ?g kv @ tokenize t" if kv: "kv \<in> set kvs" and t: "stops t" for kv t
  proof -
    obtain k v where [simp]: "kv = (k, v)" by force
    have "list_all (char_ok (ensure_ascii y)) k" "printable (ensure_ascii y) v"
      using JObj.prems(1) kv by (auto simp: list_all_iff)
    moreover have "tokenize (dumps y v @ t) = toks v @ tokenize t"
      using JObj.IH [OF kv, of v] calculation(2) t by simp
    ultimately show ?thesis by (simp add: tokenize_dumps_str b(1) tokenize_separator(2) [OF b(2)])
  qed
  then have "tokenize (ujoin (item_separator y) (map ?f kvs) @ 125 # rest) =
      ujoin [TComma] (map ?g kvs) @ tokenize (125 # rest)"
    by (rule tokenize_join [OF assms _ close])
  then show ?case by (simp add: tokenize_bracket)
qed (simp_all add: tokenize_word tokenize_dumps_str tokenize_number del: ascii_simps)

section \<open>The machine on the tokens of a value\<close>

fun fits :: "nat \<Rightarrow> json \<Rightarrow> bool" where
  "fits n (JArr vs) = (0 < n \<and> list_all (fits (n - 1)) vs)"
| "fits n (JObj kvs) = (0 < n \<and> list_all (\<lambda>(k, v). fits (n - 1) v) kvs)"
| "fits n v = True"

lemma fits_mono: "fits n j \<Longrightarrow> n \<le> m \<Longrightarrow> fits m j"
proof (induction j arbitrary: n m)
  case (JArr vs)
  then show ?case by (auto simp: list_all_iff)
next
  case (JObj kvs)
  then show ?case by (fastforce simp: list_all_iff intro: diff_le_mono)
qed simp_all

fun keys_ok :: "json \<Rightarrow> bool" where
  "keys_ok (JArr vs) = list_all keys_ok vs"
| "keys_ok (JObj kvs) = (distinct (map fst kvs) \<and> list_all (\<lambda>(k, v). keys_ok v) kvs)"
| "keys_ok v = True"

lemma update_new: "k \<notin> set (map fst kvs) \<Longrightarrow> AList.update k v kvs = kvs @ [(k, v)]"
  by (induction kvs) auto

declare machine.simps [simp del]

lemma machine_after:
  "machine limit (InArray vs # st) (AfterValue v) (TComma # r) = machine limit (InArray (vs @ [v]) # st) AtValue r"
  "machine limit (InArray vs # st) (AfterValue v) (TCloseArr # r) = machine limit st (AfterValue (JArr (vs @ [v]))) r"
  "machine limit (InObject kvs k # st) (AfterValue v) (TComma # r) = machine limit st (AtKey (AList.update k v kvs)) r"
  "machine limit (InObject kvs k # st) (AfterValue v) (TCloseObj # r) =
     machine limit st (AfterValue (JObj (AList.update k v kvs))) r"
  by (simp_all add: machine.simps(6))

lemma machine_items:
  assumes "\<And>v st r. v \<in> set (x # xs) \<Longrightarrow> length st = m \<Longrightarrow>
      machine limit st AtValue (toks v @ r) = machine limit st (AfterValue v) r"
    and "length st + 1 = m"
  shows "machine limit (InArray acc # st) AtValue (ujoin [TComma] (map toks (x # xs)) @ TCloseArr # r) =
    machine limit st (AfterValue (JArr (acc @ x # xs))) r"
  using assms(1)
proof (induction xs arbitrary: x acc)
  case Nil
  have "machine limit (InArray acc # st) AtValue (toks x @ TCloseArr # r) =
      machine limit (InArray acc # st) (AfterValue x) (TCloseArr # r)"
    by (rule Nil) (use assms(2) in simp_all)
  then show ?case by (simp add: machine_after)
next
  case (Cons z zs)
  have "machine limit (InArray acc # st) AtValue (toks x @ TComma # ujoin [TComma] (map toks (z # zs)) @ TCloseArr # r) =
      machine limit (InArray acc # st) (AfterValue x) (TComma # ujoin [TComma] (map toks (z # zs)) @ TCloseArr # r)"
    by (rule Cons.prems) (use assms(2) in simp_all)
  also have "\<dots> = machine limit (InArray (acc @ [x]) # st) AtValue (ujoin [TComma] (map toks (z # zs)) @ TCloseArr # r)"
    by (simp add: machine_after del: ujoin.simps)
  also have "\<dots> = machine limit st (AfterValue (JArr ((acc @ [x]) @ z # zs))) r"
    by (rule Cons.IH) (use Cons.prems in simp)
  finally show ?case by simp
qed

abbreviation entry_toks :: "ustr \<times> json \<Rightarrow> token list" where
  "entry_toks \<equiv> \<lambda>(k, v). TValue (JStr k) # TColon # toks v"

lemma machine_entries:
  assumes "\<And>k v st r. (k, v) \<in> set (x # xs) \<Longrightarrow> length st = m \<Longrightarrow>
      machine limit st AtValue (toks v @ r) = machine limit st (AfterValue v) r"
    and "length st + 1 = m" and "distinct (map fst (acc @ x # xs))"
  shows "machine limit (InObject acc (fst x) # st) AtValue
      (toks (snd x) @ (if xs = [] then [] else TComma # ujoin [TComma] (map entry_toks xs)) @ TCloseObj # r) =
    machine limit st (AfterValue (JObj (acc @ x # xs))) r"
  using assms(1,3)
proof (induction xs arbitrary: x acc)
  case Nil
  have "machine limit (InObject acc (fst x) # st) AtValue (toks (snd x) @ TCloseObj # r) =
      machine limit (InObject acc (fst x) # st) (AfterValue (snd x)) (TCloseObj # r)"
    by (rule Nil(1) [of "fst x"]) (use assms(2) in simp_all)
  then show ?case using Nil(2) by (simp add: machine_after update_new)
next
  case (Cons z zs)
  let ?rest = "(if zs = [] then [] else TComma # ujoin [TComma] (map entry_toks zs)) @ TCloseObj # r"
  have join: "ujoin [TComma] (map entry_toks (z # zs)) @ TCloseObj # r =
      TValue (JStr (fst z)) # TColon # toks (snd z) @ ?rest"
    by (cases z; cases zs) auto
  have "machine limit (InObject acc (fst x) # st) AtValue (toks (snd x) @ TComma # ujoin [TComma] (map entry_toks (z # zs)) @ TCloseObj # r) =
      machine limit (InObject acc (fst x) # st) (AfterValue (snd x)) (TComma # ujoin [TComma] (map entry_toks (z # zs)) @ TCloseObj # r)"
    by (rule Cons.prems(1) [of "fst x"]) (use assms(2) in simp_all)
  also have "\<dots> = machine limit (InObject (acc @ [x]) (fst z) # st) AtValue (toks (snd z) @ ?rest)"
    unfolding join using Cons.prems(2) by (simp add: machine.simps(4,5) machine_after update_new)
  also have "\<dots> = machine limit st (AfterValue (JObj ((acc @ [x]) @ z # zs))) r"
    by (rule Cons.IH) (use Cons.prems in auto)
  finally show ?case by simp
qed

lemma toks_not_close: "toks v \<noteq> [] \<and> hd (toks v) \<noteq> TCloseArr \<and> hd (toks v) \<noteq> TCloseObj"
  by (cases v) simp_all

theorem machine_value:
  "fits n j \<Longrightarrow> keys_ok j \<Longrightarrow> length st + n \<le> limit \<Longrightarrow>
     machine limit st AtValue (toks j @ r) = machine limit st (AfterValue j) r"
proof (induction j arbitrary: n st r)
  case (JArr vs)
  then have n: "\<not> limit \<le> length st" by simp
  show ?case
  proof (cases vs)
    case Nil
    then show ?thesis using n by (simp add: machine.simps(1,2))
  next
    case (Cons x xs)
    have "machine limit (InArray [] # st) AtValue (ujoin [TComma] (map toks (x # xs)) @ TCloseArr # r) =
        machine limit st (AfterValue (JArr ([] @ x # xs))) r"
    proof (rule machine_items [where m = "length st + 1"])
      fix v st' r' assume "v \<in> set (x # xs)" and "length (st' :: frame list) = length st + 1"
      then show "machine limit st' AtValue (toks v @ r') = machine limit st' (AfterValue v) r'"
        using JArr Cons by (intro JArr.IH [where n = "n - 1"]) (auto simp: list_all_iff)
    qed simp
    moreover have "ujoin [TComma] (map toks (x # xs)) @ TCloseArr # r = toks x @ t \<Longrightarrow>
        machine limit st AtFirstItem (toks x @ t) = machine limit (InArray [] # st) AtValue (toks x @ t)" for t
      using toks_not_close [of x] by (cases "toks x") (auto simp: machine.simps(2) split: token.splits)
    moreover obtain t where "ujoin [TComma] (map toks (x # xs)) @ TCloseArr # r = toks x @ t"
      by (cases xs) auto
    ultimately show ?thesis using n Cons by (simp add: machine.simps(1) del: ujoin.simps)
  qed
next
  case (JObj kvs)
  then have n: "\<not> limit \<le> length st" by simp
  show ?case
  proof (cases kvs)
    case Nil
    then show ?thesis using n by (simp add: machine.simps(1,3))
  next
    case (Cons x xs)
    let ?rest = "(if xs = [] then [] else TComma # ujoin [TComma] (map entry_toks xs)) @ TCloseObj # r"
    have join: "ujoin [TComma] (map entry_toks (x # xs)) @ TCloseObj # r =
        TValue (JStr (fst x)) # TColon # toks (snd x) @ ?rest"
      by (cases x; cases xs) auto
    have "machine limit (InObject [] (fst x) # st) AtValue (toks (snd x) @ ?rest) =
        machine limit st (AfterValue (JObj ([] @ x # xs))) r"
    proof (rule machine_entries [where m = "length st + 1"])
      fix k v st' r' assume kv: "(k, v) \<in> set (x # xs)" and "length (st' :: frame list) = length st + 1"
      then show "machine limit st' AtValue (toks v @ r') = machine limit st' (AfterValue v) r'"
        using JObj Cons by (intro JObj.IH [where n = "n - 1" and xa = "(k, v)"]) (auto simp: list_all_iff)
    qed (use JObj Cons in auto)
    then show ?thesis unfolding toks.simps Cons append_Cons append_assoc append_Nil join
      using n by (simp add: machine.simps(1,3,5))
  qed
qed (simp_all add: machine.simps(1))

theorem loads_dumps:
  assumes "style_ok y" and "printable (ensure_ascii y) j" and "fits limit j" and "list_all blank b"
  shows "loads limit (dumps y j @ b) = Inr j"
proof -
  have "keys_ok j" using assms(2)
    by (induction j) (auto simp: list_all_iff)
  then have "machine limit [] AtValue (toks j @ []) = Inr j"
    using machine_value [OF assms(3), of "[]" limit "[]"] by (simp add: machine.simps(6))
  moreover have "stops b" using assms(4) by (cases b) (auto simp: stops_def blank_def digit_def)
  then have "tokenize (dumps y j @ b) = toks j"
    using tokenize_dumps [OF assms(1,2), of b] tokenize_blanks [OF assms(4), of "[]"] by simp
  moreover have "dumps y j \<noteq> [] \<and> hd (dumps y j) \<noteq> 0xFEFF"
  proof (cases j)
    case (JNum l)
    then have "l \<noteq> [] \<and> (digit (hd l) \<or> hd l = 45)" using assms(2) number_head [of l] by auto
    then show ?thesis using JNum by (auto simp: digit_def)
  qed (simp_all add: dumps_str_def)
  ultimately show ?thesis by (simp add: loads_def)
qed

section \<open>One line\<close>

lemma hex_digit_visible: "32 \<le> hex_digit d"
  by (simp add: hex_digit_def)

lemma unicode_escape_visible: "list_all (\<lambda>u. 32 \<le> u) (unicode_escape c)"
  by (simp add: unicode_escape_def hex_digit_visible)

lemma short_escape_visible: "short_escape c = Some e \<Longrightarrow> 32 \<le> e"
  by (auto simp: short_escape_def split: if_splits)

lemma escape_char_visible: "list_all (\<lambda>u. 32 \<le> u) (escape_char ensure c)"
  using short_escape_visible [of c] unicode_escape_visible
  by (simp add: escape_char_def split: option.splits)

lemma dumps_str_visible: "u \<in> set (dumps_str ensure s) \<Longrightarrow> 32 \<le> u"
  using escape_char_visible by (fastforce simp: dumps_str_def list_all_iff)

lemma digits_visible: "u \<in> set (takeWhile digit s) \<Longrightarrow> 32 \<le> u"
  by (auto simp: digit_def dest!: set_takeWhileD)

lemma number_visible: "number_ok l \<Longrightarrow> u \<in> set l \<Longrightarrow> 32 \<le> u"
proof -
  assume l: "number_ok l" and u: "u \<in> set l"
  obtain i s1 f s2 e where parts: "lex_integer l = Some (i, s1)" "lex_fraction s1 = (f, s2)"
    "lex_exponent s2 = (e, [])" "l = i @ f @ e"
    using l by (auto simp: number_ok_def lex_number_def split: option.splits prod.splits if_splits)
  have "32 \<le> u" if "u \<in> set i"
    using parts(1) that digits_visible [of u "drop 1 l"] digits_visible [of u l]
    by (auto simp: lex_integer_def Let_def split: if_splits list.splits)
  moreover have "32 \<le> u" if "u \<in> set f"
    using parts(2) that digits_visible [of u "tl s1"]
    by (auto simp: lex_fraction_def split: if_splits list.splits)
  moreover have "32 \<le> u" if "u \<in> set e"
    using parts(3) that digits_visible [of u "tl s2"] digits_visible [of u "tl (tl s2)"]
    by (auto simp: lex_exponent_def Let_def split: if_splits list.splits)
  ultimately show ?thesis using u parts(4) by auto
qed

lemma ujoin_set: "u \<in> set (ujoin sep ps) \<Longrightarrow> u \<in> set sep \<or> (\<exists>p \<in> set ps. u \<in> set p)"
  by (induction sep ps rule: ujoin.induct) auto

theorem dumps_visible:
  assumes "\<forall>u \<in> set (item_separator y) \<union> set (key_separator y). 32 \<le> u"
  shows "printable (ensure_ascii y) j \<Longrightarrow> u \<in> set (dumps y j) \<Longrightarrow> 32 \<le> u"
proof (induction j)
  case (JArr vs)
  then show ?case using assms by (fastforce simp: list_all_iff dest: ujoin_set)
next
  case (JObj kvs)
  then consider "u = 123" | "u = 125" | "u \<in> set (item_separator y)" |
    k v where "(k, v) \<in> set kvs" "u \<in> set (dumps_str (ensure_ascii y) k) \<union> set (key_separator y) \<union> set (dumps y v)"
    by (auto dest!: ujoin_set)
  then show ?case
  proof cases
    case 4
    moreover from 4(1) have "printable (ensure_ascii y) v" using JObj.prems(1) by (auto simp: list_all_iff)
    ultimately show ?thesis using assms dumps_str_visible JObj.IH [OF 4(1), of v] by auto
  qed (use assms in auto)
qed (auto simp: number_visible dumps_str_visible split: if_splits)

end
