(* ===== verification/Simulator_Wire.thy ===== *)
theory Simulator_Wire
  imports Simulator_Stream Ingest_Core Json_Laws
begin

text \<open>
  \<^verbatim>\<open>simulator/wire.py\<close>: a reading as its JSON payload, and the three ways of damaging one. The texts
  libraries give times and numbers are parameters; the rest of the payload (fields, their order,
  the JSON around them) is computed. The laws follow a payload into the ingestion classifier.
\<close>

section \<open>Encoding\<close>

text \<open>
  \<open>wt_time\<close> and \<open>wt_float\<close> are pydantic's texts of an instant and a float, \<open>wt_number\<close> the text
  \<^verbatim>\<open>json.dumps\<close> gives the number \<^verbatim>\<open>json.loads\<close> reads from a lexeme.
\<close>

record wire_text =
  wt_time :: "int \<Rightarrow> ustr"
  wt_float :: "pyfloat \<Rightarrow> ustr"
  wt_number :: "ustr \<Rightarrow> ustr"

definition wire_style :: json_style where
  "wire_style = \<lparr>ensure_ascii = False, item_separator = ascii '','', key_separator = ascii '':''\<rparr>"

definition model_entries :: "wire_text \<Rightarrow> telemetry \<Rightarrow> (ustr \<times> json) list" where
  "model_entries f r =
     [(ascii ''schema_version'', JNum (ascii (show_int (schema_version r)))),
      (ascii ''device_id'', JStr (ascii (device_id r))),
      (ascii ''measured_at'', JStr (wt_time f (instant (measured_at r)))),
      (ascii ''water_level'', JNum (wt_float f (water_level r))),
      (ascii ''battery_voltage'', JNum (wt_float f (battery_voltage r)))]"

definition to_bytes :: "ustr \<Rightarrow> bytes res" where
  "to_bytes t = (case utf8_encode t of Some bs \<Rightarrow> Inr bs | None \<Rightarrow> Inl ValueError)"

definition encode :: "wire_text \<Rightarrow> telemetry \<Rightarrow> bytes res" where
  "encode f r = to_bytes (dumps wire_style (JObj (model_entries f r)))"

section \<open>Corruption\<close>

fun renumber :: "(ustr \<Rightarrow> ustr) \<Rightarrow> json \<Rightarrow> json" where
  "renumber f (JNum l) = JNum (f l)"
| "renumber f (JArr vs) = JArr (map (renumber f) vs)"
| "renumber f (JObj kvs) = JObj (map (\<lambda>(k, v). (k, renumber f v)) kvs)"
| "renumber f v = v"

text \<open>
  \<^verbatim>\<open>json.loads\<close> of bytes; a payload that starts with \<open>{"\<close>, as every one here, is read as UTF-8.
\<close>

definition loads_bytes :: "nat \<Rightarrow> bytes \<Rightarrow> json res" where
  "loads_bytes limit bs = (case utf8_decode bs of Some t \<Rightarrow> loads limit t | None \<Rightarrow> Inl ValueError)"

definition corrupt :: "nat \<Rightarrow> wire_text \<Rightarrow> bytes \<Rightarrow> corruption_mode \<Rightarrow> bytes res" where
  "corrupt limit f payload mode =
     (if mode = TRUNCATED then Inr (take (length payload div 2) payload)
      else
        rbind (loads_bytes limit payload) (\<lambda>obj.
        case obj of
          JObj kvs \<Rightarrow>
            rbind (if mode = WRONG_TYPE then Inr (AList.update (ascii ''water_level'') (JStr (ascii ''high'')) kvs)
                   else if ascii ''device_id'' \<in> fst ` set kvs then Inr (AList.delete (ascii ''device_id'') kvs)
                   else Inl KeyError) (\<lambda>kvs'.
            to_bytes (dumps default_style (renumber (wt_number f) (JObj kvs'))))
        | _ \<Rightarrow> Inl TypeError))"

text \<open>What is published for an emission.\<close>

definition emission_payload :: "nat \<Rightarrow> wire_text \<Rightarrow> emission \<Rightarrow> bytes res" where
  "emission_payload limit f e =
     rbind (encode f (em_reading e)) (\<lambda>payload.
     case em_corruption e of None \<Rightarrow> Inr payload | Some mode \<Rightarrow> corrupt limit f payload mode)"

section \<open>Plain text\<close>

text \<open>ASCII without control characters and brackets.\<close>

definition plain :: "nat \<Rightarrow> bool" where
  "plain c \<longleftrightarrow> 32 \<le> c \<and> c < 127 \<and> c \<notin> {91, 93, 123, 125}"

lemma hex_digit_plain: "d < 16 \<Longrightarrow> plain (hex_digit d)"
  by (auto simp: plain_def hex_digit_def)

lemma escape_char_plain: "plain c \<Longrightarrow> list_all plain (escape_char b c)"
  by (auto simp: escape_char_def short_escape_def plain_def)

lemma number_plain: "number_ok l \<Longrightarrow> list_all plain l"
proof -
  assume l: "number_ok l"
  have digits: "list_all plain (takeWhile digit s)" for s
    by (auto simp: list_all_iff digit_def plain_def dest!: set_takeWhileD)
  obtain i s1 f s2 e where parts: "lex_integer l = Some (i, s1)" "lex_fraction s1 = (f, s2)"
    "lex_exponent s2 = (e, [])" "l = i @ f @ e"
    using l by (auto simp: number_ok_def lex_number_def split: option.splits prod.splits if_splits)
  have "list_all plain i" using parts(1) digits
    by (auto simp: lex_integer_def Let_def plain_def digit_def split: list.splits if_splits)
  moreover have "list_all plain f" using parts(2) digits
    by (auto simp: lex_fraction_def plain_def digit_def split: list.splits if_splits)
  moreover have "list_all plain e" using parts(3) digits
    by (auto simp: lex_exponent_def Let_def plain_def digit_def split: list.splits if_splits)
  ultimately show ?thesis by (simp add: parts(4))
qed

lemma utf8_bytes_ascii: "list_all (\<lambda>c. c < 128) s \<Longrightarrow> utf8_bytes s = Some s"
  by (induction s) (auto simp: utf8_char_def)

lemma utf8_encode_ascii: "list_all (\<lambda>c. c < 128) s \<Longrightarrow> utf8_encode s = Some (map of_nat s)"
  by (simp add: utf8_encode_def utf8_bytes_ascii)

section \<open>Objects that are cut short\<close>

lemma with_char_None [simp]: "with_char c None = None"
  by (simp add: with_char_def)

lemma lex_string_sub: "lex_string s = Some (t, rest) \<Longrightarrow> x \<in> set rest \<Longrightarrow> x \<in> set s"
proof (induction "length s" arbitrary: s t rest rule: less_induct)
  case less
  have tail: "x \<in> set u" if "with_char c (lex_string u) = Some (t, rest)" "length u < length s" for c u
    using less.hyps [of u] less.prems(2) that by (fastforce simp: with_char_Some)
  show ?case
  proof (cases s)
    case (Cons c cs)
    show ?thesis
      using trans [OF lex_string.simps(2) [symmetric] less.prems(1) [unfolded Cons]] less.prems(2) Cons
      by (auto split: if_splits list.splits option.splits dest!: tail)
  qed (use less.prems in simp)
qed

lemma set_dropWhile_sub: "set (dropWhile P xs) \<subseteq> set xs"
  by (auto dest: set_dropWhileD)

lemma lex_number_sub: "lex_number s = Some (l, rest) \<Longrightarrow> set rest \<subseteq> set s"
proof -
  have 1: "lex_integer s = Some (i, r) \<Longrightarrow> set r \<subseteq> set s" for s i r
    using set_dropWhile_sub [of digit]
    by (cases s) (fastforce simp: lex_integer_def Let_def split: list.splits if_splits)+
  have 2: "lex_fraction s = (i, r) \<Longrightarrow> set r \<subseteq> set s" for s i r
    using set_dropWhile_sub [of digit] by (fastforce simp: lex_fraction_def split: list.splits if_splits)
  have 3: "set r \<subseteq> set s" if "lex_exponent s = (i, r)" for s i r
  proof -
    have "r = s \<or> r = dropWhile digit (tl s) \<or> r = dropWhile digit (tl (tl s))"
      using that by (cases s) (auto simp: lex_exponent_def Let_def split: list.splits if_splits)
    moreover have "set (tl s) \<subseteq> set s" "set (tl (tl s)) \<subseteq> set s" by (cases s; cases "tl s"; auto)+
    moreover note set_dropWhile_sub [of digit "tl s"] set_dropWhile_sub [of digit "tl (tl s)"]
    ultimately show ?thesis by auto
  qed
  assume "lex_number s = Some (l, rest)"
  then show ?thesis using 1 2 3
    by (fastforce simp: lex_number_def split: option.splits prod.splits if_splits)
qed

lemma strip_prefix_sub: "strip_prefix p s = Some rest \<Longrightarrow> set rest \<subseteq> set s"
  by (induction p s rule: strip_prefix.induct) (auto split: if_splits)

lemma lex_word_sub: "lex_word ws s = Some (v, rest) \<Longrightarrow> set rest \<subseteq> set s"
  by (induction ws s rule: lex_word.induct) (auto dest: strip_prefix_sub split: option.splits)

lemma next_token_sub: "s \<noteq> [] \<Longrightarrow> next_token s = Some (t, rest) \<Longrightarrow> set rest \<subseteq> set s"
  using lex_string_sub [of "tl s"] lex_word_sub [of WORDS s] lex_number_sub [of s]
  by (cases s) (fastforce simp: next_token_def split: option.splits if_splits)+

text \<open>A bracket token comes from the bracket.\<close>

lemma tokenize_punctuation:
  assumes "t \<in> {TOpenArr, TOpenObj, TCloseObj}"
  shows "t \<in> set (tokenize s) \<Longrightarrow> \<exists>c \<in> set s. punctuation c = Some t"
proof (induction s rule: tokenize.induct)
  case (2 c cs)
  show ?case
  proof (cases "blank c")
    case True
    then show ?thesis using 2 by (simp add: tokenize.simps(2))
  next
    case False
    then obtain t' rest where next': "next_token (c # cs) = Some (t', rest)" and
      mem: "t = t' \<or> t \<in> set (tokenize rest)"
      using 2(3) assms by (auto simp: tokenize.simps(2) split: option.splits)
    have "punctuation c = Some t'" if "t = t'"
      using next' that assms by (auto simp: next_token_def split: option.splits if_splits)
    then show ?thesis
      using mem 2(2) [OF False next' refl] next_token_sub [OF _ next'] by auto
  qed
qed simp

text \<open>An object that is not closed is no value, and without nesting it is a \<open>ValueError\<close>.\<close>

lemma machine_unclosed:
  "machine limit st place ts = Inr v \<Longrightarrow> TCloseObj \<notin> set ts \<Longrightarrow> \<not> (\<exists>kvs k. InObject kvs k \<in> set st) \<and>
     (case place of AtFirstKey \<Rightarrow> False | AtKey kvs \<Rightarrow> False | AtColon kvs k \<Rightarrow> False | _ \<Rightarrow> True)"
proof (induction limit st place ts rule: machine.induct)
  case (1 limit st ts)
  from trans [OF machine.simps(1) [symmetric] 1(4)] 1(5) show ?case
    by (auto split: list.splits token.splits if_splits dest: 1(1) 1(2) 1(3))
next
  case (2 limit st ts)
  show ?case
  proof (cases "\<exists>rest. ts = TCloseArr # rest")
    case True
    then show ?thesis using 2 by (auto simp: machine.simps(2))
  next
    case False
    then have "machine limit st AtFirstItem ts = machine limit (InArray [] # st) AtValue ts"
      by (auto simp: machine.simps(2) split: list.splits token.splits)
    then show ?thesis using 2 False by (cases ts; cases "hd ts") auto
  qed
next
  case (3 limit st ts)
  from trans [OF machine.simps(3) [symmetric] 3(3)] 3(4) show ?case
    by (auto split: list.splits token.splits json.splits dest: 3(1-2))
next
  case (4 limit st kvs ts)
  from trans [OF machine.simps(4) [symmetric] 4(2)] 4(3) show ?case
    by (auto split: list.splits token.splits json.splits dest: 4(1))
next
  case (5 limit st kvs k ts)
  from trans [OF machine.simps(5) [symmetric] 5(2)] 5(3) show ?case
    by (fastforce split: list.splits token.splits dest: 5(1))
next
  case (6 limit st v ts)
  from trans [OF machine.simps(6) [symmetric] 6(5)] 6(6) show ?case
    by (auto split: list.splits token.splits frame.splits if_splits dest: 6(1-4))
qed

lemma machine_flat:
  "machine limit st place ts = Inl e \<Longrightarrow> TOpenArr \<notin> set ts \<Longrightarrow> TOpenObj \<notin> set ts \<Longrightarrow> e = ValueError"
proof (induction limit st place ts rule: machine.induct)
  case (1 limit st ts)
  from trans [OF machine.simps(1) [symmetric] 1(4)] 1(5,6) show ?case
    by (auto split: list.splits token.splits if_splits dest: 1(1-3))
next
  case (2 limit st ts)
  show ?case
  proof (cases "\<exists>rest. ts = TCloseArr # rest")
    case True
    then show ?thesis using 2 by (auto simp: machine.simps(2))
  next
    case False
    then have "machine limit st AtFirstItem ts = machine limit (InArray [] # st) AtValue ts"
      by (auto simp: machine.simps(2) split: list.splits token.splits)
    then show ?thesis using 2 False by (cases ts; cases "hd ts") auto
  qed
next
  case (3 limit st ts)
  from trans [OF machine.simps(3) [symmetric] 3(3)] 3(4,5) show ?case
    by (auto split: list.splits token.splits json.splits dest: 3(1-2))
next
  case (4 limit st kvs ts)
  from trans [OF machine.simps(4) [symmetric] 4(2)] 4(3,4) show ?case
    by (auto split: list.splits token.splits json.splits dest: 4(1))
next
  case (5 limit st kvs k ts)
  from trans [OF machine.simps(5) [symmetric] 5(2)] 5(3,4) show ?case
    by (auto split: list.splits token.splits dest: 5(1))
next
  case (6 limit st v ts)
  from trans [OF machine.simps(6) [symmetric] 6(5)] 6(6,7) show ?case
    by (auto split: list.splits token.splits frame.splits if_splits dest: 6(1-4))
qed

lemma loads_unclosed:
  assumes "list_all plain body" and "1 \<le> limit"
  shows "loads limit (123 # body) = Inl ValueError"
proof -
  have no: "punctuation c \<notin> {Some TOpenArr, Some TOpenObj, Some TCloseObj}" if "c \<in> set body" for c
    using that assms(1) by (auto simp: list_all_iff plain_def punctuation_def split: if_splits)
  then have none: "TOpenArr \<notin> set (tokenize body)" "TOpenObj \<notin> set (tokenize body)" "TCloseObj \<notin> set (tokenize body)"
    using tokenize_punctuation [of _ body] by blast+
  have l: "loads limit (123 # body) = machine limit [] AtFirstKey (tokenize body)"
    using assms(2) by (simp add: loads_def tokenize_bracket machine.simps(1))
  show ?thesis
  proof (cases "machine limit [] AtFirstKey (tokenize body)")
    case (Inl e)
    then show ?thesis using machine_flat [OF Inl] none l by simp
  next
    case (Inr v)
    then show ?thesis using machine_unclosed [OF Inr] none by simp
  qed
qed

end
