(* ===== verification/Wire_Laws.thy ===== *)
theory Wire_Laws
  imports Simulator_Wire
begin

text \<open>
  A reading the contract admits travels as its JSON and comes out of the ingestion classifier as
  itself; damaged in any of the three ways, it comes out as a dead letter.
\<close>

section \<open>What is assumed of the libraries\<close>

text \<open>The texts of times and numbers are ASCII, numbers being JSON numbers.\<close>

definition wire_text_ok :: "wire_text \<Rightarrow> telemetry \<Rightarrow> bool" where
  "wire_text_ok f r \<longleftrightarrow>
     list_all plain (wt_time f (instant (measured_at r))) \<and>
     (\<forall>l \<in> {ascii (show_int (schema_version r)), wt_float f (water_level r), wt_float f (battery_voltage r)}.
        number_ok l \<and> number_ok (wt_number f l))"

definition raw_reading :: "telemetry \<Rightarrow> raw_fields" where
  "raw_reading r =
     \<lparr>raw_schema_version = Good (schema_version r), raw_device_id = Good (device_id r),
      raw_measured_at = Good \<lparr>wall_us = instant (measured_at r), offset_us = 0\<rparr>,
      raw_water_level = Good (water_level r), raw_battery_voltage = Good (battery_voltage r)\<rparr>"

text \<open>
  Pydantic's decoder: what is no JSON is refused, an object is read by its keys, and the texts of a
  reading's own values read back.
\<close>

definition pydantic_reads :: "nat \<Rightarrow> wire_text \<Rightarrow> (bytes \<Rightarrow> decoded) \<Rightarrow> telemetry \<Rightarrow> bool" where
  "pydantic_reads limit f decode r \<longleftrightarrow>
     (\<forall>p t. utf8_decode p = Some t \<longrightarrow> loads limit t = Inl ValueError \<longrightarrow> (\<exists>errors. decode p = Undecodable errors)) \<and>
     (\<forall>y kvs p. style_ok y \<longrightarrow> printable True (JObj kvs) \<longrightarrow> fits limit (JObj kvs) \<longrightarrow>
        utf8_encode (dumps y (JObj kvs)) = Some p \<longrightarrow>
        map_of kvs (ascii ''measured_at'') = Some (JStr (wt_time f (instant (measured_at r)))) \<longrightarrow>
        (\<exists>raw. decode p = Decoded raw \<and>
           raw_measured_at raw = Good \<lparr>wall_us = instant (measured_at r), offset_us = 0\<rparr> \<and>
           (map_of kvs (ascii ''device_id'') = None \<longrightarrow> raw_device_id raw = Missing) \<and>
           (map_of kvs (ascii ''water_level'') = Some (JStr (ascii ''high'')) \<longrightarrow> (\<exists>e. raw_water_level raw = Bad e)) \<and>
           (kvs = model_entries f r \<longrightarrow> raw = raw_reading r)))"

section \<open>The texts\<close>

lemma dumps_str_plain: "list_all plain s \<Longrightarrow> list_all plain (dumps_str b s)"
proof -
  assume s: "list_all plain s"
  have "list_all plain (concat (map (escape_char b) s))"
    using s by (induction s) (auto simp: escape_char_plain)
  then show ?thesis by (simp add: dumps_str_def plain_def)
qed

lemma style_facts:
  "style_ok wire_style" "style_ok default_style" "ensure_ascii wire_style = False" "ensure_ascii default_style = True"
  by (simp_all add: style_ok_def wire_style_def default_style_def blank_def)

text \<open>A flat object of plain strings and numbers, as a payload is.\<close>

definition plain_entries :: "(ustr \<times> json) list \<Rightarrow> bool" where
  "plain_entries kvs \<longleftrightarrow>
     list_all (\<lambda>(k, v). list_all plain k \<and> (case v of JNum l \<Rightarrow> number_ok l | JStr s \<Rightarrow> list_all plain s | _ \<Rightarrow> False)) kvs"

lemma list_all_ujoin: "list_all P sep \<Longrightarrow> list_all (list_all P) ps \<Longrightarrow> list_all P (ujoin sep ps)"
  by (induction sep ps rule: ujoin.induct) auto

lemma dumps_plain:
  assumes "plain_entries kvs" and "list_all plain (item_separator y)" and "list_all plain (key_separator y)"
  obtains body where "dumps y (JObj kvs) = 123 # body @ [125]" "list_all plain body"
proof
  let ?body = "ujoin (item_separator y) (map (\<lambda>(k, v). dumps_str (ensure_ascii y) k @ key_separator y @ dumps y v) kvs)"
  show "dumps y (JObj kvs) = 123 # ?body @ [125]" by simp
  have "list_all plain (dumps_str (ensure_ascii y) k @ key_separator y @ dumps y v)" if "(k, v) \<in> set kvs" for k v
  proof -
    have "list_all plain k" "case v of JNum l \<Rightarrow> number_ok l | JStr s \<Rightarrow> list_all plain s | _ \<Rightarrow> False"
      using assms(1) that by (auto simp: plain_entries_def list_all_iff)
    then have "list_all plain (dumps_str (ensure_ascii y) k)" "list_all plain (dumps y v)"
      by (auto intro: dumps_str_plain number_plain split: json.splits)
    then show ?thesis using assms(3) by simp
  qed
  then show "list_all plain ?body"
    by (intro list_all_ujoin assms(2)) (auto simp: list_all_iff)
qed

lemma plain_separators:
  "list_all plain (item_separator wire_style)" "list_all plain (key_separator wire_style)"
  "list_all plain (item_separator default_style)" "list_all plain (key_separator default_style)"
  by (simp_all add: wire_style_def default_style_def plain_def)

lemma plain_less: "plain c \<Longrightarrow> c < 128"
  by (simp add: plain_def)

lemma braces_bytes:
  assumes "list_all plain body"
  shows "utf8_encode (123 # body @ [125]) = Some (map of_nat (123 # body @ [125]))"
    and "utf8_encode (123 # body) = Some (map of_nat (123 # body))"
proof -
  have "list_all (\<lambda>c. c < 128) body" using assms plain_less by (auto simp: list_all_iff)
  then have "list_all (\<lambda>c. c < 128) (123 # body @ [125])" "list_all (\<lambda>c. c < 128) (123 # body)" by simp_all
  then show "utf8_encode (123 # body @ [125]) = Some (map of_nat (123 # body @ [125]))"
    "utf8_encode (123 # body) = Some (map of_nat (123 # body))"
    using utf8_encode_ascii by blast+
qed

lemma plain_char: "plain c \<Longrightarrow> char_ok b c"
proof -
  assume "plain c"
  then have "c < 127" by (simp add: plain_def)
  then show ?thesis unfolding char_ok_def surrogate_def by linarith
qed

lemma plain_chars: "list_all plain s \<Longrightarrow> list_all (char_ok b) s"
  by (rule list.pred_mono_strong [of plain]) (simp_all add: plain_char)

lemma plain_printable:
  assumes "plain_entries kvs" and "distinct (map fst kvs)"
  shows "printable b (JObj kvs)" and "1 \<le> limit \<Longrightarrow> fits limit (JObj kvs)"
proof -
  have entry: "list_all (char_ok b) k \<and> printable b v \<and> fits n v" if "(k, v) \<in> set kvs" for k v n
  proof -
    have "list_all plain k" "case v of JNum l \<Rightarrow> number_ok l | JStr s \<Rightarrow> list_all plain s | _ \<Rightarrow> False"
      using assms(1) that by (auto simp: plain_entries_def list_all_iff)
    then show ?thesis by (cases v) (simp_all add: plain_chars)
  qed
  then show "printable b (JObj kvs)"
    unfolding printable.simps list_all_iff [of _ kvs] using assms(2) by auto
  show "1 \<le> limit \<Longrightarrow> fits limit (JObj kvs)"
    unfolding fits.simps list_all_iff using entry by auto
qed

section \<open>A payload\<close>

lemma id_tail_plain: "id_tail c \<Longrightarrow> plain (of_char c)"
  by (auto simp: id_tail_def id_head_def plain_def)

lemma device_id_plain: "device_id_ok d \<Longrightarrow> list_all plain (ascii d)"
  using device_id_chars [of d] id_tail_plain by (auto simp: ascii_def list_all_iff)

lemma model_entries_plain:
  assumes "telemetry_ok r" and "wire_text_ok f r"
  shows "plain_entries (model_entries f r)" "distinct (map fst (model_entries f r))"
proof -
  have names: "list_all plain (ascii n)"
    if "n \<in> {''schema_version'', ''device_id'', ''measured_at'', ''water_level'', ''battery_voltage''}" for n
    using that by (auto simp: plain_def)
  have "list_all plain (ascii (device_id r))" using assms(1) device_id_plain by (simp add: telemetry_ok_def)
  then show "plain_entries (model_entries f r)"
    using assms(2) names unfolding plain_entries_def model_entries_def wire_text_ok_def
    by (simp del: ascii_simps(2))
  show "distinct (map fst (model_entries f r))" by (simp add: model_entries_def)
qed

lemma encode_bytes:
  assumes "telemetry_ok r" and "wire_text_ok f r"
  obtains body where "dumps wire_style (JObj (model_entries f r)) = 123 # body @ [125]" "list_all plain body"
    "encode f r = Inr (map of_nat (123 # body @ [125]))"
proof -
  obtain body where b: "dumps wire_style (JObj (model_entries f r)) = 123 # body @ [125]" "list_all plain body"
    using dumps_plain [OF model_entries_plain(1) [OF assms] plain_separators(1,2)] by blast
  then have "encode f r = Inr (map of_nat (123 # body @ [125]))"
    unfolding encode_def to_bytes_def using braces_bytes(1) [OF b(2)] by simp
  with b that show ?thesis by blast
qed

lemma encode_reads_back:
  assumes "telemetry_ok r" and "wire_text_ok f r" and "1 \<le> limit" and "encode f r = Inr p"
  shows "loads_bytes limit p = Inr (JObj (model_entries f r))"
proof -
  have "utf8_encode (dumps wire_style (JObj (model_entries f r))) = Some p"
    using assms(4) by (auto simp: encode_def to_bytes_def split: option.splits)
  then have "utf8_decode p = Some (dumps wire_style (JObj (model_entries f r)))" by (rule utf8_decode_encode)
  moreover have "loads limit (dumps wire_style (JObj (model_entries f r)) @ []) = Inr (JObj (model_entries f r))"
    using plain_printable [OF model_entries_plain [OF assms(1,2)]] assms(3)
    by (intro loads_dumps style_facts) simp_all
  ultimately show ?thesis by (simp add: loads_bytes_def)
qed

section \<open>Through the classifier\<close>

definition dead_lettered :: "(bytes \<Rightarrow> decoded) \<Rightarrow> (constraint \<Rightarrow> string) \<Rightarrow> string \<Rightarrow> bytes \<Rightarrow> bool" where
  "dead_lettered decode msg topic p \<longleftrightarrow> (\<exists>why. classify decode msg topic p = Inr (DeadLetter topic p why))"

lemma telemetry_topic_id: "telemetry_ok r \<Longrightarrow> device_id_from_topic (telemetry_topic (device_id r)) = Some (device_id r)"
  by (rule telemetry_ok_id)

lemma undecodable_dead_lettered:
  "telemetry_ok r \<Longrightarrow> decode p = Undecodable errors \<Longrightarrow> dead_lettered decode msg (telemetry_topic (device_id r)) p"
  by (simp add: dead_lettered_def classify_def telemetry_ok_id model_validate_json_def)

lemma invalid_dead_lettered:
  assumes "telemetry_ok r" and "decode p = Decoded raw"
    and "raw_measured_at raw = Good \<lparr>wall_us = instant (measured_at r), offset_us = 0\<rparr>"
    and "telemetry_errors msg raw \<noteq> []"
  shows "dead_lettered decode msg (telemetry_topic (device_id r)) p"
proof -
  obtain t where "measured_at r = Aware t" "dt_ok t" using assms(1) by (auto simp: telemetry_ok_def)
  then show ?thesis using assms
    by (auto simp: dead_lettered_def classify_def telemetry_ok_id model_validate_json_def to_utc_def split: list.splits)
qed

lemma missing_id_error: "raw_device_id raw = Missing \<Longrightarrow> telemetry_errors msg raw \<noteq> []"
  by (simp add: telemetry_errors_def field_error_def)

lemma bad_water_error: "raw_water_level raw = Bad e \<Longrightarrow> telemetry_errors msg raw \<noteq> []"
  by (simp add: telemetry_errors_def field_error_def)

lemma raw_reading_valid:
  assumes "telemetry_ok r" and "decode p = Decoded (raw_reading r)"
  shows "classify decode msg (telemetry_topic (device_id r)) p = Inr (ValidReading r)"
proof -
  obtain t where t: "measured_at r = Aware t" "dt_ok t" using assms(1) by (auto simp: telemetry_ok_def)
  have "telemetry_errors msg (raw_reading r) = []"
    using assms(1) by (simp add: telemetry_errors_def raw_reading_def field_error_Nil field_error_default_Nil
        in_bounds_def telemetry_ok_def)
  then have "model_validate_json decode msg p = Inr (Inr r)"
    using assms(2) t by (simp add: model_validate_json_def raw_reading_def to_utc_def)
  then show ?thesis by (simp add: classify_valid_iff)
qed

text \<open>A corrupted object is printed again, and pydantic reads it by its keys.\<close>

lemma reprinted:
  assumes "plain_entries kvs" and "distinct (map fst kvs)" and "1 \<le> limit" and "pydantic_reads limit f decode r"
    and "map_of kvs (ascii ''measured_at'') = Some (JStr (wt_time f (instant (measured_at r))))"
  obtains p raw where "to_bytes (dumps default_style (JObj kvs)) = Inr p" "decode p = Decoded raw"
    "raw_measured_at raw = Good \<lparr>wall_us = instant (measured_at r), offset_us = 0\<rparr>"
    "map_of kvs (ascii ''device_id'') = None \<Longrightarrow> raw_device_id raw = Missing"
    "map_of kvs (ascii ''water_level'') = Some (JStr (ascii ''high'')) \<Longrightarrow> \<exists>e. raw_water_level raw = Bad e"
proof -
  obtain body where b: "dumps default_style (JObj kvs) = 123 # body @ [125]" "list_all plain body"
    using dumps_plain [OF assms(1) plain_separators(3,4)] by blast
  let ?p = "map of_nat (123 # body @ [125]) :: bytes"
  have p: "utf8_encode (dumps default_style (JObj kvs)) = Some ?p" unfolding b(1) by (rule braces_bytes(1) [OF b(2)])
  have "\<exists>raw. decode ?p = Decoded raw \<and>
           raw_measured_at raw = Good \<lparr>wall_us = instant (measured_at r), offset_us = 0\<rparr> \<and>
           (map_of kvs (ascii ''device_id'') = None \<longrightarrow> raw_device_id raw = Missing) \<and>
           (map_of kvs (ascii ''water_level'') = Some (JStr (ascii ''high'')) \<longrightarrow> (\<exists>e. raw_water_level raw = Bad e))"
    using assms(4) style_facts(2) plain_printable [OF assms(1,2)] assms(3,5) p
    unfolding pydantic_reads_def by blast
  then show ?thesis using that [of ?p] p by (auto simp: to_bytes_def)
qed

text \<open>The entries of the two corrupted objects, printed again.\<close>

definition wrong_type_entries :: "wire_text \<Rightarrow> telemetry \<Rightarrow> (ustr \<times> json) list" where
  "wrong_type_entries f r =
     [(ascii ''schema_version'', JNum (wt_number f (ascii (show_int (schema_version r))))),
      (ascii ''device_id'', JStr (ascii (device_id r))),
      (ascii ''measured_at'', JStr (wt_time f (instant (measured_at r)))),
      (ascii ''water_level'', JStr (ascii ''high'')),
      (ascii ''battery_voltage'', JNum (wt_number f (wt_float f (battery_voltage r))))]"

definition missing_field_entries :: "wire_text \<Rightarrow> telemetry \<Rightarrow> (ustr \<times> json) list" where
  "missing_field_entries f r =
     [(ascii ''schema_version'', JNum (wt_number f (ascii (show_int (schema_version r))))),
      (ascii ''measured_at'', JStr (wt_time f (instant (measured_at r)))),
      (ascii ''water_level'', JNum (wt_number f (wt_float f (water_level r)))),
      (ascii ''battery_voltage'', JNum (wt_number f (wt_float f (battery_voltage r))))]"

lemma corrupt_object:
  assumes "loads_bytes limit p = Inr (JObj (model_entries f r))"
  shows "corrupt limit f p WRONG_TYPE = to_bytes (dumps default_style (JObj (wrong_type_entries f r)))"
    and "corrupt limit f p MISSING_FIELD = to_bytes (dumps default_style (JObj (missing_field_entries f r)))"
proof -
  have u: "AList.update (ascii ''water_level'') (JStr (ascii ''high'')) (model_entries f r) =
      (model_entries f r)[3 := (ascii ''water_level'', JStr (ascii ''high''))]"
    by (simp add: model_entries_def)
  have d: "AList.delete (ascii ''device_id'') (model_entries f r) = filter (\<lambda>(k, v). k \<noteq> ascii ''device_id'') (model_entries f r)"
    by (simp add: model_entries_def AList.delete_eq)
  have m: "ascii ''device_id'' \<in> fst ` set (model_entries f r)" by (simp add: model_entries_def)
  show "corrupt limit f p WRONG_TYPE = to_bytes (dumps default_style (JObj (wrong_type_entries f r)))"
    using assms by (simp add: corrupt_def u del: dumps.simps) (simp add: model_entries_def wrong_type_entries_def)
  show "corrupt limit f p MISSING_FIELD = to_bytes (dumps default_style (JObj (missing_field_entries f r)))"
    using assms m by (simp add: corrupt_def d del: dumps.simps) (simp add: model_entries_def missing_field_entries_def)
qed

lemma corrupted_entries_plain:
  assumes "telemetry_ok r" and "wire_text_ok f r"
  shows "plain_entries (wrong_type_entries f r)" "distinct (map fst (wrong_type_entries f r))"
    "plain_entries (missing_field_entries f r)" "distinct (map fst (missing_field_entries f r))"
proof -
  have names: "list_all plain (ascii n)"
    if "n \<in> {''schema_version'', ''device_id'', ''measured_at'', ''water_level'', ''battery_voltage'', ''high''}" for n
    using that by (auto simp: plain_def)
  have "list_all plain (ascii (device_id r))" using assms(1) device_id_plain by (simp add: telemetry_ok_def)
  then show "plain_entries (wrong_type_entries f r)" "plain_entries (missing_field_entries f r)"
    using assms(2) names unfolding plain_entries_def wrong_type_entries_def missing_field_entries_def wire_text_ok_def
    by (simp_all del: ascii_simps(2))
  show "distinct (map fst (wrong_type_entries f r))" "distinct (map fst (missing_field_entries f r))"
    by (simp_all add: wrong_type_entries_def missing_field_entries_def)
qed

lemma truncated_dead_lettered:
  assumes "telemetry_ok r" and "wire_text_ok f r" and "pydantic_reads limit f decode r" and "1 \<le> limit"
    and "encode f r = Inr p"
  shows "dead_lettered decode msg (telemetry_topic (device_id r)) (take (length p div 2) p)"
proof -
  obtain body where b: "list_all plain body" "encode f r = Inr (map of_nat (123 # body @ [125]))"
    using encode_bytes [OF assms(1,2)] by metis
  then have p: "p = map of_nat (123 # body @ [125])" using assms(5) by simp
  define k where "k = length p div 2 - 1"
  have k: "length p div 2 = Suc k" "k \<le> length body" by (simp_all add: k_def p)
  have t: "take (length p div 2) p = map of_nat (123 # take k body)"
    unfolding k(1) using k(2) by (simp add: p take_map)
  have cut: "list_all plain (take k body)" using b(1) by (auto simp: list_all_iff dest: in_set_takeD)
  have "utf8_decode (take (length p div 2) p) = Some (123 # take k body)"
    unfolding t by (rule utf8_decode_encode [OF braces_bytes(2) [OF cut]])
  moreover have "loads limit (123 # take k body) = Inl ValueError" using cut assms(4) by (rule loads_unclosed)
  ultimately obtain errors where "decode (take (length p div 2) p) = Undecodable errors"
    using assms(3) unfolding pydantic_reads_def by blast
  then show ?thesis by (rule undecodable_dead_lettered [OF assms(1)])
qed

lemma printable_ascii: "printable True j \<Longrightarrow> printable b j"
proof (induction j)
  case (JStr s)
  then show ?case by (auto simp: list_all_iff char_ok_def)
next
  case (JArr vs)
  then show ?case by (auto simp: list_all_iff)
next
  case (JObj kvs)
  then show ?case by (fastforce simp: list_all_iff char_ok_def)
qed simp_all

end
