(* ===== verification/Simulator_Publisher.thy ===== *)
theory Simulator_Publisher
  imports Wire_Laws
begin

text \<open>
  \<^verbatim>\<open>simulator/publisher.py\<close>: connecting with retries and publishing the merged stream against the
  wall clock. Broker, clock, file system and signals are scripts: what each attempt, and each turn
  of the loop, meets. A run is the list of its effects and how it ended; \<open>OutOfFuel\<close> is a run still
  going when the observation of the stream stops. The handler of SIGTERM raises \<open>KeyboardInterrupt\<close>
  wherever the program is; signals are a script of their own, which cuts a part of the run off after
  any number of its effects.
\<close>

section \<open>Effects\<close>

datatype effect =
    BrokerWait nat
  | LoopStarted
  | Slept pyfloat
  | Sent string bytes
  | LoggedPublish emission
  | LoggedFailure string int
  | Touched
  | LoggedHeartbeat
  | LoggedInterrupt
  | LoopStopped
  | Disconnected

type_synonym run = "effect list \<times> stop"

text \<open>A step that has effects and returns or raises.\<close>

type_synonym 'a step = "effect list \<times> 'a res"

definition sbind :: "'a step \<Rightarrow> ('a \<Rightarrow> 'b step) \<Rightarrow> 'b step" where
  "sbind m f = (case snd m of Inl e \<Rightarrow> (fst m, Inl e) | Inr x \<Rightarrow> (fst m @ fst (f x), snd (f x)))"

definition effect :: "effect list \<Rightarrow> unit step" where
  "effect evs = (evs, Inr ())"

definition lift :: "'a res \<Rightarrow> 'a step" where
  "lift m = ([], m)"

text \<open>\<^verbatim>\<open>TimeoutError\<close> is an \<^verbatim>\<open>OSError\<close>.\<close>

definition os_error :: "py_exc \<Rightarrow> bool" where
  "os_error e \<longleftrightarrow> e = OSError \<or> e = TimeoutError"

section \<open>Connecting\<close>

fun connect_attempts :: "(nat \<Rightarrow> py_exc option) \<Rightarrow> pyfloat \<Rightarrow> nat \<Rightarrow> nat \<Rightarrow> unit step" where
  "connect_attempts connects delay attempt 0 = lift (Inl AssertionError)"
| "connect_attempts connects delay attempt (Suc left) =
     (case connects attempt of
        None \<Rightarrow> effect [LoopStarted]
      | Some e \<Rightarrow>
          if os_error e \<and> left \<noteq> 0
          then sbind (effect [BrokerWait attempt, Slept delay])
                 (\<lambda>_. connect_attempts connects delay (attempt + 1) left)
          else lift (Inl e))"

definition connect_with_retry :: "(nat \<Rightarrow> py_exc option) \<Rightarrow> nat \<Rightarrow> pyfloat \<Rightarrow> unit step" where
  "connect_with_retry connects attempts delay = connect_attempts connects delay 1 attempts"

section \<open>Publishing\<close>

text \<open>What a turn meets: the clock, the result code of the publication, the connection, the file.\<close>

record turn =
  tn_now :: pyfloat
  tn_rc :: int
  tn_connected :: bool
  tn_touch :: "py_exc option"

definition MQTT_ERR_SUCCESS :: int where
  "MQTT_ERR_SUCCESS = 0"

text \<open>The result is whether the heartbeat warning has been logged.\<close>

definition beat :: "py_exc option \<Rightarrow> bool \<Rightarrow> bool step" where
  "beat touch warned =
     (case touch of
        None \<Rightarrow> ([Touched], Inr warned)
      | Some e \<Rightarrow>
          if os_error e then (if warned then [] else [LoggedHeartbeat], Inr True) else ([], Inl e))"

definition publish_emission ::
  "nat \<Rightarrow> wire_text \<Rightarrow> sim_settings \<Rightarrow> py_datetime \<Rightarrow> pyfloat \<Rightarrow> turn \<Rightarrow> emission \<Rightarrow> bool \<Rightarrow> bool step" where
  "publish_emission limit f cfg anchor wall_start tn e warned =
     sbind (lift (dt_sub (em_publish_at e) anchor)) (\<lambda>d.
     sbind (lift (fdiv (total_seconds d) (sim_acceleration cfg))) (\<lambda>wall_target.
     let sleep_for = fsub wall_target (fsub (tn_now tn) wall_start) in
     sbind (effect (if flt (Fin 0) sleep_for then [Slept sleep_for] else [])) (\<lambda>_.
     sbind (lift (emission_payload limit f e)) (\<lambda>payload.
     let topic = telemetry_topic (device_id (em_reading e)) in
     sbind (effect [Sent topic payload]) (\<lambda>_.
     if tn_rc tn \<noteq> MQTT_ERR_SUCCESS then sbind (effect [LoggedFailure topic (tn_rc tn)]) (\<lambda>_. lift (Inr warned))
     else
       sbind (if tn_connected tn then beat (tn_touch tn) warned else lift (Inr warned)) (\<lambda>warned'.
       sbind (effect [LoggedPublish e]) (\<lambda>_. lift (Inr warned'))))))))"

fun publish_loop ::
  "nat \<Rightarrow> wire_text \<Rightarrow> sim_settings \<Rightarrow> py_datetime \<Rightarrow> pyfloat \<Rightarrow> turn list \<Rightarrow> emission list \<Rightarrow> stop \<Rightarrow> bool \<Rightarrow> run" where
  "publish_loop limit f cfg anchor wall_start turns [] stop warned = ([], stop)"
| "publish_loop limit f cfg anchor wall_start [] (e # es) stop warned = ([], OutOfFuel)"
| "publish_loop limit f cfg anchor wall_start (tn # turns) (e # es) stop warned =
     (case publish_emission limit f cfg anchor wall_start tn e warned of
        (evs, Inl x) \<Rightarrow> (evs, Raised x)
      | (evs, Inr warned') \<Rightarrow> yielding evs (publish_loop limit f cfg anchor wall_start turns es stop warned'))"

section \<open>Signals\<close>

text \<open>
  When a signal arrives during each part of \<^verbatim>\<open>run\<close>: after so many effects of that part. The parts are
  what precedes the \<^verbatim>\<open>try\<close>, its body, the handler of the interrupt, and the \<^verbatim>\<open>finally\<close>.
\<close>

record signals =
  sg_setup :: "nat option"
  sg_loop :: "nat option"
  sg_handler :: "nat option"
  sg_finally :: "nat option"

text \<open>A part with \<open>k\<close> effects can be interrupted before each of them, and after the last.\<close>

definition cut_short :: "nat option \<Rightarrow> 'x \<Rightarrow> effect list \<times> 'x \<Rightarrow> effect list \<times> 'x" where
  "cut_short signal raising r =
     (case signal of
        Some k \<Rightarrow> if k \<le> length (fst r) then (take k (fst r), raising) else r
      | None \<Rightarrow> r)"

text \<open>
  The handlers around the loop. An interrupt of the body is logged and is then a normal end; every end
  goes through the \<^verbatim>\<open>finally\<close>. A further interrupt, of the handler or of the \<^verbatim>\<open>finally\<close>, is not caught.
\<close>

definition shut_down :: "signals \<Rightarrow> run \<Rightarrow> run" where
  "shut_down sg r =
     (if snd r = OutOfFuel then r
      else
        let handled = (if snd r = Raised KeyboardInterrupt
                       then cut_short (sg_handler sg) (Raised KeyboardInterrupt) ([LoggedInterrupt], StopIteration)
                       else ([], snd r));
            final = cut_short (sg_finally sg) (Raised KeyboardInterrupt) ([LoopStopped, Disconnected], snd handled)
        in (fst r @ fst handled @ fst final, snd final))"

text \<open>What precedes the \<^verbatim>\<open>try\<close>: nothing there catches an exception or closes the client.\<close>

definition set_up :: "(nat \<Rightarrow> py_exc option) \<Rightarrow> py_exc option \<Rightarrow> signals \<Rightarrow> bool step" where
  "set_up connects touch sg =
     cut_short (sg_setup sg) (Inl KeyboardInterrupt)
       (sbind (connect_with_retry connects 30 (Fin 1)) (\<lambda>_. beat touch False))"

definition run_publisher ::
  "'r rng \<Rightarrow> (string \<Rightarrow> 'r) \<Rightarrow> nat \<Rightarrow> wire_text \<Rightarrow> sim_settings \<Rightarrow> (nat \<Rightarrow> py_exc option) \<Rightarrow> py_exc option \<Rightarrow> signals \<Rightarrow>
   py_datetime \<Rightarrow> pyfloat \<Rightarrow> turn list \<Rightarrow> nat \<Rightarrow> run" where
  "run_publisher g seeded limit f cfg connects touch sg anchor wall_start turns n =
     (case set_up connects touch sg of
        (evs, Inl e) \<Rightarrow> (evs, Raised e)
      | (evs, Inr warned) \<Rightarrow>
          yielding evs (shut_down sg (cut_short (sg_loop sg) (Raised KeyboardInterrupt)
            (case build_streams g seeded cfg anchor n of
               Inl e \<Rightarrow> ([], Raised e)
             | Inr (es, stop) \<Rightarrow> publish_loop limit f cfg anchor wall_start turns es stop warned))))"

section \<open>Laws of the steps\<close>

lemma sbind_fst: "fst (sbind m f) = fst m @ (case snd m of Inl e \<Rightarrow> [] | Inr x \<Rightarrow> fst (f x))"
  by (simp add: sbind_def split: sum.split)

lemma sbind_snd: "snd (sbind m f) = (case snd m of Inl e \<Rightarrow> Inl e | Inr x \<Rightarrow> snd (f x))"
  by (simp add: sbind_def split: sum.split)

lemma step_simps [simp]: "fst (effect evs) = evs" "snd (effect evs) = Inr ()" "fst (lift m) = []" "snd (lift m) = m"
  by (simp_all add: effect_def lift_def)

text \<open>Connecting succeeds iff one of the attempts does before an error that is not the operating system's.\<close>

lemma connect_attempts_snd:
  "snd (connect_attempts connects delay attempt n) = Inr () \<longleftrightarrow>
     (\<exists>k < n. connects (attempt + k) = None \<and> (\<forall>j < k. \<exists>e. connects (attempt + j) = Some e \<and> os_error e))"
proof (induction n arbitrary: attempt)
  case (Suc n)
  show ?case
  proof (cases "connects attempt")
    case None
    then show ?thesis by (auto intro!: exI [of _ 0])
  next
    case (Some e)
    have "(\<exists>k < Suc n. connects (attempt + k) = None \<and> (\<forall>j < k. \<exists>e. connects (attempt + j) = Some e \<and> os_error e)) \<longleftrightarrow>
        os_error e \<and> (\<exists>k < n. connects (attempt + 1 + k) = None \<and> (\<forall>j < k. \<exists>e. connects (attempt + 1 + j) = Some e \<and> os_error e))"
      (is "?lhs \<longleftrightarrow> ?rhs")
    proof
      assume ?lhs
      then obtain k where k: "k < Suc n" "connects (attempt + k) = None"
        "\<forall>j < k. \<exists>e. connects (attempt + j) = Some e \<and> os_error e" by blast
      then have "k \<noteq> 0" using Some by (cases k) auto
      then obtain k' where "k = Suc k'" by (cases k) auto
      then show ?rhs using k Some by (intro conjI exI [of _ k']) force+
    next
      assume ?rhs
      then obtain k where k: "os_error e" "k < n" "connects (attempt + 1 + k) = None"
        "\<forall>j < k. \<exists>e. connects (attempt + 1 + j) = Some e \<and> os_error e" by blast
      have "\<exists>e. connects (attempt + j) = Some e \<and> os_error e" if "j < Suc k" for j
        using that k Some by (cases j) auto
      then show ?lhs using k by (intro exI [of _ "Suc k"]) auto
    qed
    then show ?thesis using Some Suc.IH [of "attempt + 1"] by (cases n) (auto simp: sbind_snd)
  qed
qed simp

end
