(* ===== verification/Publisher_Laws.thy ===== *)
theory Publisher_Laws
  imports Simulator_Publisher
begin

text \<open>
  What every run of the publisher satisfies: the emissions go out in stream order with their
  payloads, the heartbeat file is touched only while connected, its failure is logged once, and a run that
  ends inside its \<^verbatim>\<open>try\<close> closes the network loop and disconnects as its last two effects, unless a
  second interrupt cuts the clean-up short.
\<close>

definition quiet :: "effect \<Rightarrow> bool" where
  "quiet ev \<longleftrightarrow> ev \<notin> {LoopStarted, LoggedInterrupt, LoopStopped, Disconnected}"

fun sent :: "effect list \<Rightarrow> (string \<times> bytes) list" where
  "sent [] = []"
| "sent (Sent topic payload # evs) = (topic, payload) # sent evs"
| "sent (ev # evs) = sent evs"

lemma sent_append [simp]: "sent (evs @ evs') = sent evs @ sent evs'"
  by (induction evs rule: sent.induct) simp_all

definition carries :: "nat \<Rightarrow> wire_text \<Rightarrow> string \<times> bytes \<Rightarrow> emission \<Rightarrow> bool" where
  "carries limit f m e \<longleftrightarrow>
     fst m = telemetry_topic (device_id (em_reading e)) \<and> emission_payload limit f e = Inr (snd m)"

definition turn_connected :: "turn \<Rightarrow> bool" where
  "turn_connected tn \<longleftrightarrow> tn_connected tn \<and> tn_rc tn = MQTT_ERR_SUCCESS"

abbreviation warnings :: "effect list \<Rightarrow> nat" where
  "warnings evs \<equiv> count_list evs LoggedHeartbeat"

abbreviation touches :: "effect list \<Rightarrow> nat" where
  "touches evs \<equiv> count_list evs Touched"

lemma beat_law:
  "list_all quiet (fst (beat touch warned)) \<and> sent (fst (beat touch warned)) = [] \<and>
   touches (fst (beat touch warned)) \<le> 1 \<and>
   (case snd (beat touch warned) of
      Inl e \<Rightarrow> \<not> os_error e \<and> touch = Some e \<and> fst (beat touch warned) = []
    | Inr warned' \<Rightarrow> warnings (fst (beat touch warned)) + of_bool warned = of_bool warned')"
  by (auto simp: beat_def quiet_def split: option.split)

text \<open>The ways a turn can go.\<close>

definition pause :: "effect list \<Rightarrow> bool" where
  "pause evs \<longleftrightarrow> evs = [] \<or> (\<exists>s. evs = [Slept s])"

lemma publish_emission_cases:
  assumes "publish_emission limit f cfg anchor wall_start tn e warned = (evs, r)"
  obtains (raises) x where "pause evs" "r = Inl x"
  | (fails) pre p where "pause pre" "evs = pre @ [Sent (telemetry_topic (device_id (em_reading e))) p,
        LoggedFailure (telemetry_topic (device_id (em_reading e))) (tn_rc tn)]"
      "emission_payload limit f e = Inr p" "r = Inr warned"
  | (beats) pre p b x where "pause pre" "turn_connected tn" "beat (tn_touch tn) warned = (b, Inl x)"
      "evs = pre @ Sent (telemetry_topic (device_id (em_reading e))) p # b"
      "emission_payload limit f e = Inr p" "r = Inl x"
  | (publishes) pre p b warned' where "pause pre"
      "turn_connected tn \<and> beat (tn_touch tn) warned = (b, Inr warned') \<or> b = [] \<and> warned' = warned"
      "evs = pre @ Sent (telemetry_topic (device_id (em_reading e))) p # b @ [LoggedPublish e]"
      "emission_payload limit f e = Inr p" "r = Inr warned'"
proof (cases "dt_sub (em_publish_at e) anchor")
  case (Inl x)
  then show ?thesis using assms raises [of x] by (auto simp: publish_emission_def sbind_def pause_def)
next
  case d: (Inr d)
  show ?thesis
  proof (cases "fdiv (total_seconds d) (sim_acceleration cfg)")
    case (Inl x)
    then show ?thesis using assms d raises [of x] by (auto simp: publish_emission_def sbind_def pause_def)
  next
    case w: (Inr w)
    define pre where "pre = (let s = fsub w (fsub (tn_now tn) wall_start) in if flt (Fin 0) s then [Slept s] else [])"
    have pre: "pause pre" by (simp add: pre_def pause_def Let_def)
    show ?thesis
      proof (cases "emission_payload limit f e")
        case (Inl x)
        then have "evs = pre" "r = Inl x"
          using assms d w by (auto simp: publish_emission_def sbind_def Let_def pre_def)
        then show ?thesis using raises pre by blast
      next
        case p: (Inr p)
        obtain b br where beat: "beat (tn_touch tn) warned = (b, br)" by force
        consider "tn_rc tn \<noteq> MQTT_ERR_SUCCESS" | "tn_rc tn = MQTT_ERR_SUCCESS" "\<not> tn_connected tn"
          | x where "turn_connected tn" "br = Inl x" | v where "turn_connected tn" "br = Inr v"
          by (cases br) (auto simp: turn_connected_def)
        then show ?thesis
        proof cases
          case 1
          then have "evs = pre @ [Sent (telemetry_topic (device_id (em_reading e))) p,
              LoggedFailure (telemetry_topic (device_id (em_reading e))) (tn_rc tn)]" "r = Inr warned"
            using assms d w p by (auto simp: publish_emission_def sbind_def Let_def pre_def)
          then show ?thesis using fails pre p by blast
        next
          case 2
          then have "evs = pre @ Sent (telemetry_topic (device_id (em_reading e))) p # [] @ [LoggedPublish e]" "r = Inr warned"
            using assms d w p by (auto simp: publish_emission_def sbind_def Let_def pre_def)
          then show ?thesis using publishes [OF pre] p by blast
        next
          case 3
          then have "evs = pre @ Sent (telemetry_topic (device_id (em_reading e))) p # b" "r = Inl x"
            using assms d w p beat by (auto simp: publish_emission_def sbind_def Let_def pre_def turn_connected_def)
          then show ?thesis using beats pre 3 beat p by blast
        next
          case 4
          then have "evs = pre @ Sent (telemetry_topic (device_id (em_reading e))) p # b @ [LoggedPublish e]" "r = Inr v"
            using assms d w p beat by (auto simp: publish_emission_def sbind_def Let_def pre_def turn_connected_def)
          then show ?thesis using publishes [OF pre] 4 beat p by blast
        qed
      qed
  qed
qed

lemma pause_law: "pause evs \<Longrightarrow> list_all quiet evs \<and> sent evs = [] \<and> touches evs = 0 \<and> warnings evs = 0"
  by (auto simp: pause_def quiet_def)

lemma beat_cases:
  assumes "beat touch warned = (b, r)"
  shows "list_all quiet b \<and> sent b = [] \<and> touches b \<le> 1 \<and>
    (case r of Inl e \<Rightarrow> b = [] \<and> \<not> os_error e | Inr warned' \<Rightarrow> warnings b + of_bool warned = of_bool warned')"
  using beat_law [of touch warned] assms by (auto simp: of_bool_def split: sum.splits if_splits)

lemma publish_emission_law:
  assumes "publish_emission limit f cfg anchor wall_start tn e warned = (evs, r)"
  shows "list_all quiet evs \<and> touches evs \<le> of_bool (turn_connected tn) \<and>
    (sent evs = [] \<or> (\<exists>m. sent evs = [m] \<and> carries limit f m e)) \<and>
    (case r of
       Inl x \<Rightarrow> warnings evs = 0
     | Inr warned' \<Rightarrow> warnings evs + of_bool warned = of_bool warned' \<and> sent evs \<noteq> [])"
proof -
  have q: "quiet (Sent t p)" "quiet (LoggedFailure t k)" "quiet (LoggedPublish e)" for t p k
    by (simp_all add: quiet_def)
  from assms show ?thesis
  proof (cases rule: publish_emission_cases)
    case raises
    then show ?thesis using pause_law by auto
  next
    case fails
    then show ?thesis using pause_law [OF fails(1)] by (simp add: q carries_def)
  next
    case (beats pre p b x)
    then show ?thesis using pause_law [OF beats(1)] beat_cases [OF beats(3)] by (simp add: q carries_def)
  next
    case (publishes pre p b warned')
    from publishes(2) have "list_all quiet b" "sent b = []" "touches b \<le> of_bool (turn_connected tn)"
      "warnings b + of_bool warned = of_bool warned'"
      using beat_cases [of "tn_touch tn" warned b "Inr warned'"] by (auto simp: of_bool_def split: if_splits)
    then show ?thesis using pause_law [OF publishes(1)] publishes(3-5) by (simp add: q carries_def)
  qed
qed

lemma publish_loop_law:
  assumes "publish_loop limit f cfg anchor wall_start turns es stop warned = (evs, s)"
  shows "list_all quiet evs \<and> touches evs \<le> length (filter turn_connected turns) \<and>
    warnings evs + of_bool warned \<le> 1 \<and>
    (\<exists>es'. prefix es' es \<and> list_all2 (carries limit f) (sent evs) es')"
  using assms
proof (induction turns es arbitrary: warned evs s rule: list_induct2')
  case (4 tn turns e es)
  obtain evs1 r where step: "publish_emission limit f cfg anchor wall_start tn e warned = (evs1, r)" by force
  note law = publish_emission_law [OF step]
  show ?case
  proof (cases r)
    case (Inl x)
    have "\<exists>es'. prefix es' (e # es) \<and> list_all2 (carries limit f) (sent evs1) es'"
      using law by (auto intro: exI [of _ "[]"] exI [of _ "[e]"])
    moreover have "evs = evs1" using 4(2) step Inl by simp
    ultimately show ?thesis using law Inl by (cases "turn_connected tn") auto
  next
    case (Inr warned')
    obtain evs2 s2 where rest: "publish_loop limit f cfg anchor wall_start turns es stop warned' = (evs2, s2)" by force
    then have evs: "evs = evs1 @ evs2" using 4(2) step Inr by (simp add: yielding_def)
    from 4(1) [OF rest] obtain es' where ih: "list_all quiet evs2" "touches evs2 \<le> length (filter turn_connected turns)"
      "warnings evs2 + of_bool warned' \<le> 1" "prefix es' es" "list_all2 (carries limit f) (sent evs2) es'" by blast
    from law Inr obtain m where m: "sent evs1 = [m]" "carries limit f m e" by auto
    have "prefix (e # es') (e # es) \<and> list_all2 (carries limit f) (sent evs) (e # es')"
      using m ih(4,5) by (simp add: evs)
    moreover have "touches evs \<le> length (filter turn_connected (tn # turns))"
      using law ih(2) by (auto simp: evs split: if_splits)
    moreover have "warnings evs + of_bool warned \<le> 1" using law Inr ih(3) by (simp add: evs)
    moreover have "list_all quiet evs" using law ih(1) by (simp add: evs)
    ultimately show ?thesis by blast
  qed
qed (auto intro: exI [of _ "[]"])

section \<open>Whole runs\<close>

lemma connect_effects:
  "list_all (\<lambda>ev. ev \<notin> {LoopStopped, Disconnected, Touched, LoggedHeartbeat}) (fst (connect_attempts connects delay attempt n)) \<and>
   sent (fst (connect_attempts connects delay attempt n)) = []"
  by (induction n arbitrary: attempt) (auto simp: sbind_fst split: option.splits)

lemma count_list_none: "list_all (\<lambda>ev. ev \<noteq> x) evs \<Longrightarrow> count_list evs x = 0"
  by (induction evs) auto

lemma connect_with_retry_effects:
  "list_all (\<lambda>ev. ev \<notin> {LoopStopped, Disconnected}) (fst (connect_with_retry connects n delay))"
  "sent (fst (connect_with_retry connects n delay)) = []"
  "touches (fst (connect_with_retry connects n delay)) = 0" "warnings (fst (connect_with_retry connects n delay)) = 0"
proof -
  let ?evs = "fst (connect_with_retry connects n delay)"
  have e: "list_all (\<lambda>ev. ev \<notin> {LoopStopped, Disconnected, Touched, LoggedHeartbeat}) ?evs"
    and s: "sent ?evs = []"
    using connect_effects [of connects delay 1 n] by (simp_all only: connect_with_retry_def)
  show "list_all (\<lambda>ev. ev \<notin> {LoopStopped, Disconnected}) ?evs" by (rule list.pred_mono_strong [OF e]) blast
  show "sent ?evs = []" by (rule s)
  show "touches ?evs = 0" "warnings ?evs = 0"
    by (rule count_list_none, rule list.pred_mono_strong [OF e], blast)+
qed

section \<open>Interrupts\<close>

lemma cut_short_effects: "\<exists>k. fst (cut_short signal x r) = take k (fst r)"
  by (auto simp: cut_short_def split: option.split intro: exI [of _ "length (fst r)"])

lemma cut_short_quiet: "list_all P (fst r) \<Longrightarrow> list_all P (fst (cut_short signal x r))"
  using cut_short_effects [of signal x r] unfolding list_all_iff by (metis in_set_takeD)

lemma count_take: "count_list (take k evs) x \<le> count_list evs x"
  by (metis append_take_drop_id count_list_append le_add1)

lemma cut_short_count: "count_list (fst (cut_short signal y r)) x \<le> count_list (fst r) x"
  using cut_short_effects [of signal y r] count_take by metis

lemma cut_short_sent: "prefix (sent (fst (cut_short signal x r))) (sent (fst r))"
proof -
  obtain k where "fst (cut_short signal x r) = take k (fst r)"
    using cut_short_effects [of signal x r] by blast
  then have "fst r = fst (cut_short signal x r) @ drop k (fst r)" by simp
  then show ?thesis by (metis prefixI sent_append)
qed

lemma cut_short_result: "snd (cut_short signal x r) = snd r \<or> snd (cut_short signal x r) = x \<and> (\<exists>k \<le> length (fst r). signal = Some k)"
  by (auto simp: cut_short_def split: option.split)

definition closes :: "effect \<Rightarrow> bool" where
  "closes ev \<longleftrightarrow> ev \<in> {LoopStopped, Disconnected}"

text \<open>A second interrupt, which the handler or the \<^verbatim>\<open>finally\<close> does not catch.\<close>

definition interrupted_again :: "signals \<Rightarrow> bool" where
  "interrupted_again sg \<longleftrightarrow> (\<exists>k \<le> 1. sg_handler sg = Some k) \<or> (\<exists>k \<le> 2. sg_finally sg = Some k)"

text \<open>How much of the clean-up is done.\<close>

definition cleaned :: "signals \<Rightarrow> effect list" where
  "cleaned sg = (case sg_finally sg of Some k \<Rightarrow> take k [LoopStopped, Disconnected] | None \<Rightarrow> [LoopStopped, Disconnected])"

lemma shut_down_law:
  assumes q: "list_all quiet evs" and d: "shut_down sg (evs, stop) = (evs', s)"
  shows "(\<exists>body. list_all (\<lambda>ev. \<not> closes ev) body \<and> evs' = body @ (if s = OutOfFuel then [] else cleaned sg)) \<and>
    (s = Raised KeyboardInterrupt \<longrightarrow> interrupted_again sg) \<and> warnings evs' = warnings evs \<and> touches evs' = touches evs \<and>
    sent evs' = sent evs"
proof (cases "stop = OutOfFuel")
  case True
  have "list_all (\<lambda>ev. \<not> closes ev) evs" by (rule list.pred_mono_strong [OF q]) (simp add: quiet_def closes_def)
  then show ?thesis using d True by (auto simp: shut_down_def)
next
  case False
  have e: "list_all (\<lambda>ev. \<not> closes ev) evs" by (rule list.pred_mono_strong [OF q]) (simp add: quiet_def closes_def)
  define h where "h = (if stop = Raised KeyboardInterrupt
    then cut_short (sg_handler sg) (Raised KeyboardInterrupt) ([LoggedInterrupt], StopIteration) else ([], stop))"
  define fin where "fin = cut_short (sg_finally sg) (Raised KeyboardInterrupt) ([LoopStopped, Disconnected], snd h)"
  have "(evs', s) = (evs @ fst h @ fst fin, snd fin)"
    unfolding d [symmetric] shut_down_def Let_def h_def fin_def
    by (cases "stop = Raised KeyboardInterrupt") (use False in simp_all)
  then have r: "evs' = evs @ fst h @ fst fin" "s = snd fin" by simp_all
  have h: "fst h = [] \<or> fst h = [LoggedInterrupt]" "snd h \<noteq> OutOfFuel"
    "snd h = Raised KeyboardInterrupt \<longrightarrow> (\<exists>k \<le> 1. sg_handler sg = Some k)"
    using False by (auto simp: h_def cut_short_def take_Cons' split: option.splits)
  have f: "fst fin = cleaned sg" "snd fin \<noteq> OutOfFuel"
    "snd fin = Raised KeyboardInterrupt \<longrightarrow> interrupted_again sg"
    using h(2,3) by (auto simp: fin_def cut_short_def cleaned_def interrupted_again_def split: option.splits)
  have none: "warnings (cleaned sg) = 0" "touches (cleaned sg) = 0" "sent (cleaned sg) = []"
    by (auto simp: cleaned_def take_Cons' split: option.split)
  show ?thesis
  proof (intro conjI)
    show "\<exists>body. list_all (\<lambda>ev. \<not> closes ev) body \<and> evs' = body @ (if s = OutOfFuel then [] else cleaned sg)"
      using e h(1) f r by (intro exI [of _ "evs @ fst h"]) (auto simp: closes_def)
  qed (use r f none h(1) in \<open>auto\<close>)
qed

text \<open>A connected run is its two beginnings and the shut-down of its loop.\<close>

definition publishing ::
  "'r rng \<Rightarrow> (string \<Rightarrow> 'r) \<Rightarrow> nat \<Rightarrow> wire_text \<Rightarrow> sim_settings \<Rightarrow> py_datetime \<Rightarrow> pyfloat \<Rightarrow> turn list \<Rightarrow> nat \<Rightarrow> bool \<Rightarrow> run" where
  "publishing g seeded limit f cfg anchor wall_start turns n warned =
     (case build_streams g seeded cfg anchor n of
        Inl e \<Rightarrow> ([], Raised e)
      | Inr (es, stop) \<Rightarrow> publish_loop limit f cfg anchor wall_start turns es stop warned)"

lemma publishing_law:
  assumes "publishing g seeded limit f cfg anchor wall_start turns n warned = (evs, s)"
  shows "list_all quiet evs" "touches evs \<le> length (filter turn_connected turns)" "warnings evs + of_bool warned \<le> 1"
    "build_streams g seeded cfg anchor n = Inr (es, stop) \<Longrightarrow>
       \<exists>es'. prefix es' es \<and> list_all2 (carries limit f) (sent evs) es'"
proof -
  have "list_all quiet evs \<and> touches evs \<le> length (filter turn_connected turns) \<and> warnings evs + of_bool warned \<le> 1 \<and>
    (build_streams g seeded cfg anchor n = Inr (es, stop) \<longrightarrow>
       (\<exists>es'. prefix es' es \<and> list_all2 (carries limit f) (sent evs) es'))"
  proof (cases "build_streams g seeded cfg anchor n")
    case (Inl e)
    then have "evs = []" using assms by (simp add: publishing_def)
    then show ?thesis using Inl by simp
  next
    case (Inr t)
    obtain es0 stop0 where t: "t = (es0, stop0)" by force
    have "publish_loop limit f cfg anchor wall_start turns es0 stop0 warned = (evs, s)"
      using assms Inr t by (simp add: publishing_def)
    from publish_loop_law [OF this] show ?thesis using Inr t by auto
  qed
  then show "list_all quiet evs" "touches evs \<le> length (filter turn_connected turns)" "warnings evs + of_bool warned \<le> 1"
    "build_streams g seeded cfg anchor n = Inr (es, stop) \<Longrightarrow>
       \<exists>es'. prefix es' es \<and> list_all2 (carries limit f) (sent evs) es'" by blast+
qed

text \<open>What precedes the \<^verbatim>\<open>try\<close> sends nothing, touches and warns at most once, and closes nothing.\<close>

lemma set_up_law:
  assumes "set_up connects touch sg = (evs, r)"
  shows "list_all (\<lambda>ev. \<not> closes ev) evs" "sent evs = []" "touches evs \<le> 1"
    "case r of Inr warned \<Rightarrow> warnings evs = of_bool warned | Inl e \<Rightarrow> warnings evs \<le> 1"
proof -
  let ?m = "sbind (connect_with_retry connects 30 (Fin 1)) (\<lambda>_. beat touch False)"
  obtain c cr where conn: "connect_with_retry connects 30 (Fin 1) = (c, cr)" by force
  obtain b br where beat: "beat touch False = (b, br)" by force
  have m: "fst ?m = c @ (case cr of Inl _ \<Rightarrow> [] | Inr _ \<Rightarrow> b)" "snd ?m = (case cr of Inl x \<Rightarrow> Inl x | Inr _ \<Rightarrow> br)"
    by (simp_all add: sbind_fst sbind_snd conn beat split: sum.split)
  have e: "evs = fst (cut_short (sg_setup sg) (Inl KeyboardInterrupt) ?m)" "r = snd (cut_short (sg_setup sg) (Inl KeyboardInterrupt) ?m)"
    using assms by (simp_all add: set_up_def)
  note c = connect_with_retry_effects [of connects 30 "Fin 1", unfolded conn fst_conv]
  note bc = beat_cases [OF beat]
  have "list_all (\<lambda>ev. \<not> closes ev) b" by (rule list.pred_mono_strong [OF conjunct1 [OF bc]]) (simp add: quiet_def closes_def)
  then have all: "list_all (\<lambda>ev. \<not> closes ev) (fst ?m)"
    using c(1) unfolding m by (simp add: closes_def split: sum.split)
  have s: "sent (fst ?m) = []" "touches (fst ?m) \<le> 1" "warnings (fst ?m) \<le> 1"
    unfolding m using c bc by (auto simp: of_bool_def split: sum.splits if_splits)
  show "list_all (\<lambda>ev. \<not> closes ev) evs" unfolding e by (rule cut_short_quiet [OF all])
  show "sent evs = []" using cut_short_sent [of "sg_setup sg" "Inl KeyboardInterrupt" ?m] s(1) by (simp add: e)
  show "touches evs \<le> 1" using cut_short_count [of "sg_setup sg" "Inl KeyboardInterrupt" ?m Touched] s(2) by (simp add: e)
  show "case r of Inr warned \<Rightarrow> warnings evs = of_bool warned | Inl e \<Rightarrow> warnings evs \<le> 1"
  proof (cases r)
    case (Inl x)
    then show ?thesis
      using cut_short_count [of "sg_setup sg" "Inl KeyboardInterrupt" ?m LoggedHeartbeat] s(3) by (simp add: e(1))
  next
    case (Inr warned)
    then have whole: "cut_short (sg_setup sg) (Inl KeyboardInterrupt) ?m = ?m"
      using e(2) by (auto simp: cut_short_def split: option.splits if_splits)
    then have r: "snd ?m = Inr warned" using e(2) Inr by simp
    then obtain u where "cr = Inr u" "br = Inr warned" unfolding m by (auto split: sum.splits)
    then show ?thesis using bc c(4) Inr unfolding e(1) whole m by simp
  qed
qed

lemma run_publisher_up:
  assumes "set_up connects touch sg = (b, Inr warned)"
    and "run_publisher g seeded limit f cfg connects touch sg anchor wall_start turns n = (evs, s)"
  shows "(\<exists>body. list_all (\<lambda>ev. \<not> closes ev) body \<and> evs = body @ (if s = OutOfFuel then [] else cleaned sg))"
    and "s = Raised KeyboardInterrupt \<Longrightarrow> interrupted_again sg" and "warnings evs \<le> 1"
    and "touches evs \<le> 1 + length (filter turn_connected turns)"
    and "build_streams g seeded cfg anchor n = Inr (es, stop) \<Longrightarrow>
       \<exists>es'. prefix es' es \<and> list_all2 (carries limit f) (sent evs) es'"
proof -
  note b = set_up_law [OF assms(1)]
  let ?p = "publishing g seeded limit f cfg anchor wall_start turns n warned"
  let ?c = "cut_short (sg_loop sg) (Raised KeyboardInterrupt) ?p"
  note p = publishing_law [OF prod.collapse [symmetric, of ?p]]
  obtain sevs where down: "shut_down sg (fst ?c, snd ?c) = (sevs, s)" and evs: "evs = b @ sevs"
    using assms by (cases "shut_down sg ?c") (auto simp: run_publisher_def publishing_def yielding_def)
  note sd = shut_down_law [OF cut_short_quiet [OF p(1)] down]
  then obtain q where q: "list_all (\<lambda>ev. \<not> closes ev) q" "sevs = q @ (if s = OutOfFuel then [] else cleaned sg)" by blast
  show "\<exists>body. list_all (\<lambda>ev. \<not> closes ev) body \<and> evs = body @ (if s = OutOfFuel then [] else cleaned sg)"
    by (rule exI [of _ "b @ q"]) (simp only: evs q append.assoc list_all_append b(1) simp_thms)
  show "s = Raised KeyboardInterrupt \<Longrightarrow> interrupted_again sg" using sd by blast
  have "warnings (fst ?c) \<le> warnings (fst ?p)" "touches (fst ?c) \<le> touches (fst ?p)" by (rule cut_short_count)+
  then show "warnings evs \<le> 1" "touches evs \<le> 1 + length (filter turn_connected turns)"
    using sd p(2,3) b(3,4) by (simp_all add: evs)
  have "sent evs = sent (fst ?c)" using sd b(2) by (simp add: evs)
  then have pre: "prefix (sent evs) (sent (fst ?p))" using cut_short_sent by metis
  show "\<exists>es'. prefix es' es \<and> list_all2 (carries limit f) (sent evs) es'"
    if streams: "build_streams g seeded cfg anchor n = Inr (es, stop)"
  proof -
    obtain es' where es': "prefix es' es" "list_all2 (carries limit f) (sent (fst ?p)) es'" using p(4) [OF streams] by blast
    have "sent evs = take (length (sent evs)) (sent (fst ?p))" using pre by (auto simp: prefix_def)
    then have "list_all2 (carries limit f) (sent evs) (take (length (sent evs)) es')"
      using list_all2_takeI [OF es'(2)] by metis
    moreover have "prefix (take (length (sent evs)) es') es" using es'(1) take_is_prefix prefix_order.trans by blast
    ultimately show ?thesis by blast
  qed
qed

end
