(* ===== verification/Publisher_Claims.thy ===== *)
theory Publisher_Claims
  imports Publisher_Laws Simulator_Claims
begin

text \<open>
  The properties of the payloads and of the publisher, with their applications to a concrete reading
  and a concrete decoder. Claim numbers are those of the whole development.
\<close>

section \<open>A reading and its decoder\<close>

definition wire_reading :: telemetry where
  "wire_reading = \<lparr>schema_version = 1, device_id = ''planter-00'', measured_at = Aware 0,
     water_level = Fin 50, battery_voltage = Fin 4\<rparr>"

definition demo_wire :: wire_text where
  "demo_wire = \<lparr>wt_time = \<lambda>_. ascii ''1970-01-01T00:00:00Z'',
     wt_float = \<lambda>v. if v = Fin 50 then ascii ''50.0'' else ascii ''4.0'', wt_number = \<lambda>l. l\<rparr>"

definition demo_decode :: "bytes \<Rightarrow> decoded" where
  "demo_decode p =
     (case utf8_decode p of
        None \<Rightarrow> Undecodable []
      | Some t \<Rightarrow>
          (case loads 10 t of
             Inr (JObj kvs) \<Rightarrow> Decoded
               \<lparr>raw_schema_version = Good 1,
                raw_device_id = (if map_of kvs (ascii ''device_id'') = None then Missing else Good ''planter-00''),
                raw_measured_at = Good \<lparr>wall_us = 0, offset_us = 0\<rparr>,
                raw_water_level = (if map_of kvs (ascii ''water_level'') = Some (JStr (ascii ''high'')) then Bad ''float''
                  else Good (Fin 50)),
                raw_battery_voltage = Good (Fin 4)\<rparr>
           | _ \<Rightarrow> Undecodable []))"

lemma wire_reading_ok: "telemetry_ok wire_reading"
proof -
  have "device_id_ok ''planter-00''" by code_simp
  moreover have "fl 4 = Fin 4" by (intro fl_representable representable_of_int [of 4, simplified]) 
  then have "fle (fl (25 / 10)) (Fin 4)" "fle (Fin 4) (fl (44 / 10))"
    using fl_mono [of "25 / 10" 4] fl_mono [of 4 "44 / 10"] by (simp_all add: fle_def)
  ultimately show ?thesis by (simp add: telemetry_ok_def wire_reading_def dt_ok_def dt_min_def dt_max_def)
qed

lemma demo_wire_ok: "wire_text_ok demo_wire wire_reading"
proof -
  have "list_all plain (ascii ''1970-01-01T00:00:00Z'')" by (simp add: plain_def)
  moreover have "number_ok (ascii ''1'')" "number_ok (ascii ''50.0'')" "number_ok (ascii ''4.0'')" "show_int 1 = ''1''"
    by code_simp+
  ultimately show ?thesis unfolding wire_text_ok_def demo_wire_def wire_reading_def by simp
qed

lemma demo_decode_reads: "pydantic_reads 10 demo_wire demo_decode wire_reading"
proof -
  have "demo_decode p = Undecodable []" if "utf8_decode p = Some t" "loads 10 t = Inl ValueError" for p t
    using that by (simp add: demo_decode_def)
  moreover have "demo_decode p = Decoded
      \<lparr>raw_schema_version = Good 1,
       raw_device_id = (if map_of kvs (ascii ''device_id'') = None then Missing else Good ''planter-00''),
       raw_measured_at = Good \<lparr>wall_us = 0, offset_us = 0\<rparr>,
       raw_water_level = (if map_of kvs (ascii ''water_level'') = Some (JStr (ascii ''high'')) then Bad ''float''
         else Good (Fin 50)),
       raw_battery_voltage = Good (Fin 4)\<rparr>"
    if "style_ok y" "printable True (JObj kvs)" "fits 10 (JObj kvs)" "utf8_encode (dumps y (JObj kvs)) = Some p" for y kvs p
  proof -
    have "loads 10 (dumps y (JObj kvs) @ []) = Inr (JObj kvs)"
      using that(1-3) by (intro loads_dumps printable_ascii [OF that(2)]) simp_all
    then show ?thesis using utf8_decode_encode [OF that(4)] by (simp add: demo_decode_def)
  qed
  ultimately show ?thesis
    unfolding pydantic_reads_def by (auto simp: raw_reading_def wire_reading_def model_entries_def)
qed

section \<open>The classifier on the payload of an emission\<close>

lemma emission_classified:
  assumes "telemetry_ok (em_reading e)" and "wire_text_ok f (em_reading e)"
    and "pydantic_reads limit f decode (em_reading e)" and "1 \<le> limit"
  shows "\<exists>p. emission_payload limit f e = Inr p \<and>
    (case em_corruption e of
       None \<Rightarrow> classify decode msg (telemetry_topic (device_id (em_reading e))) p = Inr (ValidReading (em_reading e))
     | Some mode \<Rightarrow> dead_lettered decode msg (telemetry_topic (device_id (em_reading e))) p)"
proof -
  let ?r = "em_reading e"
  obtain body where b: "dumps wire_style (JObj (model_entries f ?r)) = 123 # body @ [125]" "list_all plain body"
    "encode f ?r = Inr (map of_nat (123 # body @ [125]))"
    using encode_bytes [OF assms(1,2)] .
  let ?p = "map of_nat (123 # body @ [125]) :: bytes"
  note obj = encode_reads_back [OF assms(1,2,4) b(3)]
  note entries = corrupted_entries_plain [OF assms(1,2)]
  show ?thesis
  proof (cases "em_corruption e")
    case None
    note kvs = model_entries_plain [OF assms(1,2)]
    have "map_of (model_entries f ?r) (ascii ''measured_at'') = Some (JStr (wt_time f (instant (measured_at ?r))))"
      by (simp add: model_entries_def)
    moreover have "utf8_encode (dumps wire_style (JObj (model_entries f ?r))) = Some ?p"
      unfolding b(1) by (rule braces_bytes(1) [OF b(2)])
    ultimately have "decode ?p = Decoded (raw_reading ?r)"
      using assms(3,4) style_facts(1) plain_printable [OF kvs] unfolding pydantic_reads_def by metis
    then show ?thesis using raw_reading_valid [OF assms(1)] None b(3) by (simp add: emission_payload_def)
  next
    case (Some mode)
    have pay: "emission_payload limit f e = corrupt limit f ?p mode" using Some b(3) by (simp add: emission_payload_def)
    show ?thesis
    proof (cases mode)
      case TRUNCATED
      then show ?thesis
        using truncated_dead_lettered [OF assms b(3)] Some pay by (simp add: corrupt_def)
    next
      case WRONG_TYPE
      obtain p raw where "to_bytes (dumps default_style (JObj (wrong_type_entries f ?r))) = Inr p" "decode p = Decoded raw"
        "raw_measured_at raw = Good \<lparr>wall_us = instant (measured_at ?r), offset_us = 0\<rparr>" "\<exists>e. raw_water_level raw = Bad e"
        by (rule reprinted [OF entries(1,2) assms(4,3)]) (auto simp: wrong_type_entries_def)
      then show ?thesis
        using invalid_dead_lettered [OF assms(1)] bad_water_error corrupt_object(1) [OF obj] Some pay WRONG_TYPE by fastforce
    next
      case MISSING_FIELD
      obtain p raw where "to_bytes (dumps default_style (JObj (missing_field_entries f ?r))) = Inr p" "decode p = Decoded raw"
        "raw_measured_at raw = Good \<lparr>wall_us = instant (measured_at ?r), offset_us = 0\<rparr>" "raw_device_id raw = Missing"
        by (rule reprinted [OF entries(3,4) assms(4,3)]) (auto simp: missing_field_entries_def)
      then show ?thesis
        using invalid_dead_lettered [OF assms(1)] missing_id_error corrupt_object(2) [OF obj] Some pay MISSING_FIELD by fastforce
    qed
  qed
qed

section \<open>The properties\<close>

text \<open>
  C39: what the simulator injects is what ingestion finds. A reading the contract admits is published
  as a payload that the classifier turns back into that very reading; damaged in any of the three ways,
  it is published as a payload that the classifier turns into a dead letter, which keeps its bytes.
\<close>

theorem payload_classified:
  assumes "telemetry_ok (em_reading e)" and "wire_text_ok f (em_reading e)"
    and "pydantic_reads limit f decode (em_reading e)" and "1 \<le> limit"
  shows "\<exists>p. emission_payload limit f e = Inr p \<and>
    (case em_corruption e of
       None \<Rightarrow> classify decode msg (telemetry_topic (device_id (em_reading e))) p = Inr (ValidReading (em_reading e))
     | Some mode \<Rightarrow> dead_lettered decode msg (telemetry_topic (device_id (em_reading e))) p)"
  by (rule emission_classified [OF assms])

theorem payload_classified_witness:
  "\<exists>p. emission_payload 10 demo_wire
        \<lparr>em_publish_at = Aware 0, em_reading = wire_reading, em_corruption = Some TRUNCATED, em_kind = Normal\<rparr> = Inr p \<and>
     dead_lettered demo_decode (\<lambda>_. '''') (telemetry_topic ''planter-00'') p"
proof -
  let ?e = "\<lparr>em_publish_at = Aware 0, em_reading = wire_reading, em_corruption = Some TRUNCATED, em_kind = Normal\<rparr>"
  have "telemetry_ok (em_reading ?e)" "wire_text_ok demo_wire (em_reading ?e)"
    "pydantic_reads 10 demo_wire demo_decode (em_reading ?e)" "(1::nat) \<le> 10"
    using wire_reading_ok demo_wire_ok demo_decode_reads by simp_all
  from payload_classified [OF this, of "\<lambda>_. ''''"] show ?thesis by (simp add: wire_reading_def)
qed

text \<open>
  C15: a publisher behaves. A signal can arrive anywhere. What precedes the \<open>try\<close> (connecting, the first
  heartbeat, the anchor) may fail, or be interrupted: then the exception, an interrupt too, leaves the
  program as it is, nothing has been sent, and neither the network loop is stopped nor the client
  disconnected. Once past it, whatever clock, broker, file system and signals do, what is sent are the
  emissions of the stream in their order, each on its device's topic with its payload; the heartbeat file
  is touched once at the start and then only in turns that published while connected; the failure to touch
  it is logged at most once; an interrupt is a normal end unless a second one hits its handler or the
  clean-up; and a run that ends does so with the network loop stopped and the client disconnected, once, as
  its last effects, or with the part of these that precedes an interrupt of the clean-up.
\<close>

theorem publisher_disciplined:
  assumes "run_publisher g seeded limit f cfg connects touch sg anchor wall_start turns n = (evs, s)"
  shows "case set_up connects touch sg of
      (evs', Inl e) \<Rightarrow> evs = evs' \<and> s = Raised e \<and> sent evs = [] \<and> {LoopStopped, Disconnected} \<inter> set evs = {} \<and>
        count_list evs LoggedHeartbeat \<le> 1 \<and> count_list evs Touched \<le> 1
    | (_, Inr warned) \<Rightarrow>
        (\<exists>body. {LoopStopped, Disconnected} \<inter> set body = {} \<and> evs = body @ (if s = OutOfFuel then [] else cleaned sg)) \<and>
        (s = Raised KeyboardInterrupt \<longrightarrow> interrupted_again sg) \<and> count_list evs LoggedHeartbeat \<le> 1 \<and>
        count_list evs Touched \<le> 1 + length (filter turn_connected turns) \<and>
        (\<forall>es stop. build_streams g seeded cfg anchor n = Inr (es, stop) \<longrightarrow>
           (\<exists>es'. prefix es' es \<and> list_all2 (carries limit f) (sent evs) es'))"
proof -
  obtain evs' r where u: "set_up connects touch sg = (evs', r)" by force
  note law = set_up_law [OF u]
  have none: "list_all (\<lambda>ev. \<not> closes ev) body \<longleftrightarrow> {LoopStopped, Disconnected} \<inter> set body = {}" for body
    by (auto simp: list_all_iff closes_def)
  show ?thesis
  proof (cases r)
    case (Inl e)
    then show ?thesis using law u assms by (simp add: run_publisher_def none)
  next
    case (Inr warned)
    note up = run_publisher_up [OF u [unfolded Inr] assms]
    show ?thesis using up unfolding u Inr none prod.case sum.case by blast
  qed
qed

text \<open>
  One device, one turn: the first emission goes out, the signal arrives before it is logged, and the run
  ends disconnected. A signal during the first heartbeat leaves the loop running.
\<close>

definition one_device :: sim_settings where
  "one_device = demo_sim\<lparr>sim_device_count := 1\<rparr>"

definition any_wire :: wire_text where
  "any_wire = \<lparr>wt_time = \<lambda>_. ascii ''1970-01-01T00:00:00Z'', wt_float = \<lambda>_. ascii ''4.0'', wt_number = \<lambda>l. l\<rparr>"

definition quiet_turn :: turn where
  "quiet_turn = \<lparr>tn_now = Fin 0, tn_rc = 0, tn_connected = True, tn_touch = None\<rparr>"

definition signalled :: "nat option \<Rightarrow> nat option \<Rightarrow> signals" where
  "signalled i j = \<lparr>sg_setup = i, sg_loop = j, sg_handler = None, sg_finally = None\<rparr>"

definition demo_run :: "signals \<Rightarrow> run" where
  "demo_run sg = run_publisher demo_rng (\<lambda>_. 0) 10 any_wire one_device (\<lambda>_. None) None sg (Aware 0) (Fin 0) [quiet_turn] 1"

lemma one_emission:
  "\<exists>e es stop. build_streams demo_rng (\<lambda>_. 0) one_device (Aware 0) 1 = Inr (e # es, stop) \<and> em_publish_at e = Aware 0 \<and>
     telemetry_ok (em_reading e) \<and> em_corruption e = Some TRUNCATED"
proof -
  obtain p rs where p: "params_ok p" and ds: "device_stream demo_rng (\<lambda>_. 0) demo_sim (Aware 0) 300000000 1 0 =
     Inr (device_emissions demo_rng demo_sim (device_readings demo_rng (device_name 0) p (Aware 0) 300000000 1 rs) 0)"
    using demo_device by blast
  obtain readings stop where t: "device_readings demo_rng (device_name 0) p (Aware 0) 300000000 1 rs = (readings, stop)" by force
  have dom: "device_id_ok (device_name 0)" "(0::int) \<le> 300000000" "td_ok 300000000" "dt_ok 0"
    by (code_simp, simp_all add: td_ok_def dt_ok_def dt_min_def dt_max_def)
  from device_readings_series [OF demo_rng_ok p dom t] obtain r rest
    where r: "readings = r # rest" "measured_at r = Aware 0" "telemetry_ok r"
    by (cases readings) (auto simp: reading_of_device_def)
  obtain e es where e: "device_emissions demo_rng demo_sim (r # rest, stop) 0 = (e # es, stop)"
    "em_publish_at e = measured_at r" "em_reading e = r" "em_corruption e = Some TRUNCATED"
    by (simp add: device_emissions_def draw_imperfections_def demo_rng_def demo_sim_def emit_wake_def emit_current_def
        random_def randint_def Let_def)
  have "merged_emissions [(e # es, stop)] = (e # fst (merged_emissions [(es, stop)]), snd (merged_emissions [(es, stop)]))"
    by (simp add: merged_emissions_def merge_traces.simps [of published "[(e # es, stop)]"] interrupted_def
        advance_def yielding_def)
  then show ?thesis
    using ds t r e demo_interval
    by (simp add: build_streams_def one_device_def device_stream_count) (simp add: demo_sim_def)
qed

lemma signalled_simps: "sg_setup (signalled i j) = i" "sg_loop (signalled i j) = j" "sg_handler (signalled i j) = None"
  "sg_finally (signalled i j) = None"
  by (simp_all add: signalled_def)

lemma demo_set_up:
  "set_up (\<lambda>_. None) None (signalled None j) = ([LoopStarted, Touched], Inr False)"
  "set_up (\<lambda>_. None) None (signalled (Some 1) j) = ([LoopStarted], Inl KeyboardInterrupt)"
  by (simp_all add: set_up_def signalled_def cut_short_def connect_with_retry_def numeral_eq_Suc sbind_def effect_def beat_def)

lemma any_wire_ok: "telemetry_ok r \<Longrightarrow> wire_text_ok any_wire r"
proof -
  assume "telemetry_ok r"
  then have "schema_version r = 1" by (simp add: telemetry_ok_def)
  moreover have "list_all plain (ascii ''1970-01-01T00:00:00Z'')" by (simp add: plain_def)
  moreover have "number_ok (ascii ''1'')" "number_ok (ascii ''4.0'')" "show_int 1 = ''1''" by code_simp+
  ultimately show ?thesis unfolding wire_text_ok_def any_wire_def by simp
qed

theorem publisher_disciplined_witness:
  "(\<exists>m e. demo_run (signalled None (Some 2)) =
      ([LoopStarted, Touched, Sent (fst m) (snd m), Touched, LoggedInterrupt, LoopStopped, Disconnected], StopIteration) \<and>
      carries 10 any_wire m e) \<and>
   demo_run (signalled (Some 1) None) = ([LoopStarted], Raised KeyboardInterrupt)"
proof -
  obtain e es stop where st: "build_streams demo_rng (\<lambda>_. 0) one_device (Aware 0) 1 = Inr (e # es, stop)"
    and e: "em_publish_at e = Aware 0" "telemetry_ok (em_reading e)" "em_corruption e = Some TRUNCATED"
    using one_emission by blast
  obtain bytes where "encode any_wire (em_reading e) = Inr bytes"
    using encode_bytes [OF e(2) any_wire_ok [OF e(2)]] by metis
  then obtain p where p: "emission_payload 10 any_wire e = Inr p"
    using e(3) by (simp add: emission_payload_def corrupt_def)
  have zero: "total_seconds 0 = Fin 0" by (simp add: total_seconds_def)
  have turn: "publish_emission 10 any_wire one_device (Aware 0) (Fin 0) quiet_turn e False =
      ([Sent (telemetry_topic (device_id (em_reading e))) p, Touched, LoggedPublish e], Inr False)"
    using e(1) p zero by (simp add: publish_emission_def sbind_def lift_def effect_def quiet_turn_def MQTT_ERR_SUCCESS_def
        beat_def one_device_def demo_sim_def Let_def)
  let ?m = "(telemetry_topic (device_id (em_reading e)), p)"
  have run: "demo_run (signalled None (Some 2)) =
      ([LoopStarted, Touched, Sent (fst ?m) (snd ?m), Touched, LoggedInterrupt, LoopStopped, Disconnected], StopIteration)"
    by (simp add: demo_run_def run_publisher_def demo_set_up st turn yielding_def cut_short_def shut_down_def signalled_simps
        Let_def del: One_nat_def)
  from publisher_disciplined [OF run [unfolded demo_run_def]]
  have "\<exists>es'. prefix es' (e # es) \<and> list_all2 (carries 10 any_wire) [?m] es'"
    by (simp add: demo_set_up st del: One_nat_def)
  then obtain e' where "carries 10 any_wire ?m e'" by (auto simp: list_all2_Cons1)
  moreover have "snd (demo_run (signalled (Some 1) None)) = Raised KeyboardInterrupt \<and>
      fst (demo_run (signalled (Some 1) None)) = [LoopStarted]"
    using publisher_disciplined [OF prod.collapse [symmetric], of demo_rng "\<lambda>_. 0" 10 any_wire one_device "\<lambda>_. None" None
        "signalled (Some 1) None" "Aware 0" "Fin 0" "[quiet_turn]" 1]
    by (simp add: demo_set_up demo_run_def del: One_nat_def)
  ultimately show ?thesis using run by (metis prod.collapse)
qed

end
