(* ===== verification/Cli_Records.thy ===== *)
theory Cli_Records
  imports Contract Json_Laws
begin

text \<open>
  \<^verbatim>\<open>cli/records.py\<close>: one captured MQTT message as a line of JSON and back. \<open>isoformat\<close> and \<open>fromisoformat\<close>
  stand for \<^verbatim>\<open>datetime.isoformat\<close> and \<^verbatim>\<open>fromisoformat\<close> on aware values, of which the code relies on
  the second undoing the first (\<open>iso_inverse\<close>); \<open>limit\<close> is the nesting the JSON reader admits.
\<close>

section \<open>Messages\<close>

datatype captured_time = Zoned wall_clock | Zoneless int

record captured_message =
  cm_topic :: ustr
  cm_payload :: bytes
  cm_captured_at :: captured_time

definition iso_inverse :: "(wall_clock \<Rightarrow> ustr) \<Rightarrow> (ustr \<Rightarrow> captured_time res) \<Rightarrow> bool" where
  "iso_inverse isoformat fromisoformat \<longleftrightarrow> (\<forall>w. fromisoformat (isoformat w) = Inr (Zoned w))"

definition record_style :: json_style where
  "record_style = \<lparr>ensure_ascii = False, item_separator = ascii '','', key_separator = ascii '':''\<rparr>"

section \<open>Encoding\<close>

definition payload_entry :: "bytes \<Rightarrow> ustr \<times> json" where
  "payload_entry payload =
     (case utf8_decode payload of
        Some t \<Rightarrow> (ascii ''payload'', JStr t)
      | None \<Rightarrow> (ascii ''payload_b64'', JStr (b64encode payload)))"

definition encode_record :: "(wall_clock \<Rightarrow> ustr) \<Rightarrow> captured_message \<Rightarrow> ustr res" where
  "encode_record isoformat m =
     (case cm_captured_at m of
        Zoneless t \<Rightarrow> Inl ValueError
      | Zoned w \<Rightarrow>
          Inr (dumps record_style (JObj
            [(ascii ''topic'', JStr (cm_topic m)), (ascii ''captured_at'', JStr (isoformat w)), payload_entry (cm_payload m)])))"

section \<open>Decoding\<close>

text \<open>\<^verbatim>\<open>record.get(name)\<close>: an absent key and a null give the same \<open>None\<close>.\<close>

definition get_field :: "(ustr \<times> json) list \<Rightarrow> string \<Rightarrow> json option" where
  "get_field kvs name = (case map_of kvs (ascii name) of Some JNull \<Rightarrow> None | found \<Rightarrow> found)"

definition decode_topic :: "(ustr \<times> json) list \<Rightarrow> ustr res" where
  "decode_topic kvs =
     (case get_field kvs ''topic'' of
        Some (JStr t) \<Rightarrow> if t = [] then Inl ValueError else Inr t
      | _ \<Rightarrow> Inl ValueError)"

definition decode_captured_at :: "(ustr \<Rightarrow> captured_time res) \<Rightarrow> (ustr \<times> json) list \<Rightarrow> captured_time res" where
  "decode_captured_at fromisoformat kvs =
     (case get_field kvs ''captured_at'' of
        Some (JStr s) \<Rightarrow>
          (case fromisoformat s of
             Inl e \<Rightarrow> Inl ValueError
           | Inr (Zoneless t) \<Rightarrow> Inl ValueError
           | Inr (Zoned w) \<Rightarrow> Inr (Zoned w))
      | _ \<Rightarrow> Inl ValueError)"

definition decode_payload :: "(ustr \<times> json) list \<Rightarrow> bytes res" where
  "decode_payload kvs =
     (case (get_field kvs ''payload'', get_field kvs ''payload_b64'') of
        (Some v, None) \<Rightarrow>
          (case v of
             JStr s \<Rightarrow> (case utf8_encode s of Some bs \<Rightarrow> Inr bs | None \<Rightarrow> Inl ValueError)
           | _ \<Rightarrow> Inl ValueError)
      | (None, Some v) \<Rightarrow>
          (case v of
             JStr s \<Rightarrow> (case b64decode s of Some bs \<Rightarrow> Inr bs | None \<Rightarrow> Inl ValueError)
           | _ \<Rightarrow> Inl ValueError)
      | _ \<Rightarrow> Inl ValueError)"

definition decode_record :: "nat \<Rightarrow> (ustr \<Rightarrow> captured_time res) \<Rightarrow> ustr \<Rightarrow> captured_message res" where
  "decode_record limit fromisoformat line =
     rbind (loads limit line) (\<lambda>v.
     case v of
       JObj kvs \<Rightarrow>
         rbind (decode_topic kvs) (\<lambda>topic.
         rbind (decode_captured_at fromisoformat kvs) (\<lambda>captured_at.
         rbind (decode_payload kvs) (\<lambda>payload.
         Inr \<lparr>cm_topic = topic, cm_payload = payload, cm_captured_at = captured_at\<rparr>)))
     | _ \<Rightarrow> Inl ValueError)"

section \<open>Laws\<close>

lemma record_style_ok: "style_ok record_style" "ensure_ascii record_style = False"
  by (simp_all add: style_ok_def record_style_def)

lemma char_ok_raw [simp]: "char_ok False c"
  by (simp add: char_ok_def)

lemma list_all_char_ok [simp]: "list_all (char_ok False) s"
  by (simp add: list_all_iff)

lemma record_keys_distinct:
  "fst (payload_entry payload) \<noteq> ascii ''topic''" "fst (payload_entry payload) \<noteq> ascii ''captured_at''"
  by (auto simp: payload_entry_def split: option.splits)

lemma payload_entry_get:
  assumes "kvs = [(ascii ''topic'', JStr t), (ascii ''captured_at'', JStr c), payload_entry payload]"
  shows "get_field kvs ''topic'' = Some (JStr t)" "get_field kvs ''captured_at'' = Some (JStr c)"
    and "decode_payload kvs = Inr payload"
  using utf8_encode_decode [of payload] b64decode_encode [of payload]
  by (auto simp: assms get_field_def payload_entry_def decode_payload_def split: option.splits)

text \<open>Two payloads never share an entry.\<close>

lemma payload_entry_inj: "payload_entry p = payload_entry q \<Longrightarrow> p = q"
  using base64.enc_inj [of p "b64encode q" q]
  by (auto simp: payload_entry_def dest: utf8.dec_inj split: option.splits)

theorem encode_record_line:
  assumes "encode_record isoformat m = Inr line"
  shows "\<forall>c \<in> set line. 32 \<le> c"
proof -
  obtain w where line: "line = dumps record_style (JObj
      [(ascii ''topic'', JStr (cm_topic m)), (ascii ''captured_at'', JStr (isoformat w)), payload_entry (cm_payload m)])"
    using assms by (auto simp: encode_record_def split: captured_time.splits)
  have p: "printable (ensure_ascii record_style) (JObj
      [(ascii ''topic'', JStr (cm_topic m)), (ascii ''captured_at'', JStr (isoformat w)), payload_entry (cm_payload m)])"
    by (auto simp: record_style_ok payload_entry_def split: option.splits)
  have "\<forall>u \<in> set (item_separator record_style) \<union> set (key_separator record_style). 32 \<le> u"
    by (simp add: record_style_def)
  from dumps_visible [OF this p] show ?thesis unfolding line by blast
qed

theorem decode_encode_record:
  assumes "iso_inverse isoformat fromisoformat" and "encode_record isoformat m = Inr line" and "1 \<le> limit"
    and "list_all blank b"
  shows "decode_record limit fromisoformat (line @ b) = (if cm_topic m = [] then Inl ValueError else Inr m)"
proof -
  obtain w where w: "cm_captured_at m = Zoned w"
    using assms(2) by (auto simp: encode_record_def split: captured_time.splits)
  define kvs where "kvs =
    [(ascii ''topic'', JStr (cm_topic m)), (ascii ''captured_at'', JStr (isoformat w)), payload_entry (cm_payload m)]"
  have line: "line = dumps record_style (JObj kvs)"
    using assms(2) w by (simp add: encode_record_def kvs_def)
  have "printable (ensure_ascii record_style) (JObj kvs)" "fits limit (JObj kvs)"
    using assms(3) by (auto simp: kvs_def record_style_ok payload_entry_def split: option.splits)
  then have "loads limit (line @ b) = Inr (JObj kvs)"
    unfolding line by (intro loads_dumps record_style_ok assms(4))
  then show ?thesis
    using payload_entry_get [OF kvs_def] assms(1) w
    by (simp add: decode_record_def decode_topic_def decode_captured_at_def iso_inverse_def)
qed

text \<open>What decoding can raise.\<close>

lemma machine_exc: "machine limit st place ts = Inl e \<Longrightarrow> e = ValueError \<or> e = RecursionError"
proof (induction limit st place ts rule: machine.induct)
  case (1 limit st ts)
  from 1(4) show ?case unfolding machine.simps(1)
    by (auto split: list.splits token.splits if_splits dest: 1(1-3))
next
  case (2 limit st ts)
  show ?case
  proof (cases "\<exists>rest. ts = TCloseArr # rest")
    case True
    then show ?thesis using 2 by (auto simp: machine.simps(2))
  next
    case False
    then have "machine limit st AtFirstItem ts = machine limit (InArray [] # st) AtValue ts"
      by (auto simp: machine.simps(2) split: list.splits token.splits)
    then show ?thesis using 2 False by (cases ts; cases "hd ts") auto
  qed
next
  case (3 limit st ts)
  from 3(3) show ?case unfolding machine.simps(3)
    by (auto split: list.splits token.splits json.splits dest: 3(1-2))
next
  case (4 limit st kvs ts)
  from 4(2) show ?case unfolding machine.simps(4)
    by (auto split: list.splits token.splits json.splits dest: 4(1))
next
  case (5 limit st kvs k ts)
  from 5(2) show ?case unfolding machine.simps(5)
    by (auto split: list.splits token.splits dest: 5(1))
next
  case (6 limit st v ts)
  from trans [OF machine.simps(6) [symmetric] 6(5)] show ?case
    by (auto split: list.splits token.splits frame.splits if_splits dest: 6(1-4))
qed

lemma decode_field_exc:
  "decode_topic kvs = Inl e \<Longrightarrow> e = ValueError"
  "decode_captured_at fromisoformat kvs = Inl e \<Longrightarrow> e = ValueError"
  "decode_payload kvs = Inl e \<Longrightarrow> e = ValueError"
  by (auto simp: decode_topic_def split: option.splits json.splits if_splits)
    (auto simp: decode_captured_at_def decode_payload_def
      split: option.splits json.splits sum.splits captured_time.splits)

lemma decode_record_exc:
  assumes "decode_record limit fromisoformat line = Inl e"
  shows "e = ValueError \<or> e = RecursionError"
proof (cases "loads limit line")
  case (Inl e')
  then have "e' = ValueError \<or> e' = RecursionError"
    by (auto simp: loads_def dest: machine_exc split: if_splits)
  then show ?thesis using assms Inl by (auto simp: decode_record_def)
next
  case (Inr v)
  then show ?thesis using assms
    by (auto simp: decode_record_def rbind_Inl_iff split: json.splits dest: decode_field_exc)
qed

lemma tokenize_opens: "tokenize (replicate n 91) = replicate n TOpenArr"
  by (induction n) (simp_all add: tokenize_bracket)

lemma machine_opens:
  "length st + n = Suc limit \<Longrightarrow> 0 < n \<Longrightarrow> machine limit st AtValue (replicate n TOpenArr) = Inl RecursionError"
proof (induction n arbitrary: st)
  case (Suc n)
  show ?case
  proof (cases n)
    case 0
    then show ?thesis using Suc.prems by (simp add: machine.simps(1))
  next
    case (Suc m)
    then have "machine limit (InArray [] # st) AtValue (replicate n TOpenArr) = Inl RecursionError"
      using Suc.IH Suc.prems by simp
    then show ?thesis using Suc Suc.prems by (simp add: machine.simps(1,2))
  qed
qed simp

lemma deep_line_raises: "decode_record limit fromisoformat (replicate (Suc limit) 91) = Inl RecursionError"
  using machine_opens [of "[]" "Suc limit" limit] tokenize_opens [of "Suc limit"]
  by (simp add: decode_record_def loads_def del: replicate_Suc)

end
