(* ===== verification/Cli_Replay.thy ===== *)
theory Cli_Replay
  imports Cli_Records Py_Generator
begin

text \<open>
  \<^verbatim>\<open>cli/schedule.py\<close>, \<^verbatim>\<open>capture.py\<close> and \<^verbatim>\<open>replay.py\<close>: when each record is published, and the two
  edges. What the broker and the clock do is a script: \<open>env i\<close> has the clock reading before message
  \<open>i\<close> and the exception its publication raises, if any.
\<close>

section \<open>Pacing\<close>

fun captured_instant :: "captured_time \<Rightarrow> py_datetime" where
  "captured_instant (Zoned w) = Aware (wall_us w - offset_us w)"
| "captured_instant (Zoneless t) = Naive t"

record pacer =
  pc_offset :: pyfloat
  pc_previous :: "py_datetime option"

definition first_pacer :: pacer where
  "first_pacer = \<lparr>pc_offset = Fin 0, pc_previous = None\<rparr>"

definition pace :: "pyfloat \<Rightarrow> py_datetime \<Rightarrow> pacer \<Rightarrow> (pyfloat \<times> pacer) res" where
  "pace speed t p =
     (case pc_previous p of
        None \<Rightarrow> Inr (pc_offset p, p\<lparr>pc_previous := Some t\<rparr>)
      | Some previous \<Rightarrow>
          rbind (dt_sub t previous) (\<lambda>d.
          rbind (fdiv (py_max (Fin 0) (total_seconds d)) speed) (\<lambda>gap.
          let offset = fadd (pc_offset p) gap
          in Inr (offset, \<lparr>pc_offset = offset, pc_previous = Some t\<rparr>))))"

fun pace_all :: "pyfloat \<Rightarrow> pacer \<Rightarrow> py_datetime list \<Rightarrow> pyfloat trace" where
  "pace_all speed p [] = ([], StopIteration)"
| "pace_all speed p (t # ts) =
     (case pace speed t p of
        Inl e \<Rightarrow> ([], Raised e)
      | Inr (offset, p') \<Rightarrow> yielding [offset] (pace_all speed p' ts))"

definition replay_offsets :: "py_datetime list \<Rightarrow> pyfloat \<Rightarrow> pyfloat trace" where
  "replay_offsets ts speed =
     (if fle speed (Fin 0) then ([], Raised ValueError) else pace_all speed first_pacer ts)"

section \<open>Replay\<close>

text \<open>\<^verbatim>\<open>str.isspace\<close> on a code point; a line of such only is skipped.\<close>

definition py_space :: "nat \<Rightarrow> bool" where
  "py_space c \<longleftrightarrow>
     9 \<le> c \<and> c \<le> 13 \<or> 28 \<le> c \<and> c \<le> 32 \<or> c = 0x85 \<or> c = 0xA0 \<or> c = 0x1680 \<or>
     0x2000 \<le> c \<and> c \<le> 0x200A \<or> c = 0x2028 \<or> c = 0x2029 \<or> c = 0x202F \<or> c = 0x205F \<or> c = 0x3000"

fun decoded_lines :: "nat \<Rightarrow> (ustr \<Rightarrow> captured_time res) \<Rightarrow> ustr list \<Rightarrow> captured_message trace" where
  "decoded_lines limit fromisoformat [] = ([], StopIteration)"
| "decoded_lines limit fromisoformat (line # lines) =
     (if list_all py_space line then decoded_lines limit fromisoformat lines
      else case decode_record limit fromisoformat line of
          Inl e \<Rightarrow> ([], Raised e)
        | Inr m \<Rightarrow> yielding [m] (decoded_lines limit fromisoformat lines))"

text \<open>
  \<^verbatim>\<open>zip(records, offsets)\<close>: a record is taken first, then its offset is computed from it; \<open>None\<close> is
  the mode without delays.
\<close>

definition next_offset :: "pyfloat option \<Rightarrow> captured_message \<Rightarrow> pacer \<Rightarrow> (pyfloat \<times> pacer) res" where
  "next_offset speed m p =
     (case speed of
        None \<Rightarrow> Inr (Fin 0, p)
      | Some v \<Rightarrow> if fle v (Fin 0) then Inl ValueError else pace v (captured_instant (cm_captured_at m)) p)"

fun paced :: "pyfloat option \<Rightarrow> pacer \<Rightarrow> captured_message list \<Rightarrow> stop \<Rightarrow> (captured_message \<times> pyfloat) trace" where
  "paced speed p [] stop = ([], stop)"
| "paced speed p (m # ms) stop =
     (case next_offset speed m p of
        Inl e \<Rightarrow> ([], Raised e)
      | Inr (offset, p') \<Rightarrow> yielding [(m, offset)] (paced speed p' ms stop))"

record replay_log =
  rl_sleeps :: "pyfloat list"
  rl_published :: "(ustr \<times> bytes) list"

text \<open>A sleep of infinite length never returns, and with it the replay: the result is \<open>None\<close>.\<close>

fun publish_all ::
  "pyfloat \<Rightarrow> (nat \<Rightarrow> pyfloat \<times> py_exc option) \<Rightarrow> (captured_message \<times> pyfloat) list \<Rightarrow> stop \<Rightarrow> replay_log \<Rightarrow>
   nat res option \<times> replay_log" where
  "publish_all start env [] stop lg =
     (Some (case stop of Raised e \<Rightarrow> Inl e | _ \<Rightarrow> Inr (length (rl_published lg))), lg)"
| "publish_all start env ((m, offset) # rest) stop lg =
     (let (now, failure) = env (length (rl_published lg));
          delay = fsub (fadd start offset) now;
          lg' = (if flt (Fin 0) delay then lg\<lparr>rl_sleeps := rl_sleeps lg @ [delay]\<rparr> else lg)
      in if delay = PInf then (None, lg')
         else case failure of
          Some e \<Rightarrow> (Some (Inl e), lg')
        | None \<Rightarrow>
            publish_all start env rest stop
              (lg'\<lparr>rl_published := rl_published lg' @ [(cm_topic m, cm_payload m)]\<rparr>))"

definition replay ::
  "nat \<Rightarrow> (ustr \<Rightarrow> captured_time res) \<Rightarrow> py_exc option \<Rightarrow> pyfloat \<Rightarrow> (nat \<Rightarrow> pyfloat \<times> py_exc option) \<Rightarrow>
   ustr list \<Rightarrow> pyfloat option \<Rightarrow> nat res option \<times> replay_log" where
  "replay limit fromisoformat connection start env lines speed =
     (case connection of
        Some e \<Rightarrow> (Some (Inl e), \<lparr>rl_sleeps = [], rl_published = []\<rparr>)
      | None \<Rightarrow>
          (case decoded_lines limit fromisoformat lines of (ms, stop) \<Rightarrow>
           case paced speed first_pacer ms stop of (items, stop') \<Rightarrow>
             publish_all start env items stop' \<lparr>rl_sleeps = [], rl_published = []\<rparr>))"

section \<open>Capture\<close>

text \<open>
  The loop waits for messages; the time bound or a failure of the connection ends the wait from
  outside. A script that ends leaves it waiting.
\<close>

datatype capture_event = Received ustr bytes int | DurationOver | ConnectionFails py_exc

datatype capture_end = StillWaiting | Captured int | CaptureRaised py_exc

fun capture_loop ::
  "(wall_clock \<Rightarrow> ustr) \<Rightarrow> int option \<Rightarrow> int \<Rightarrow> ustr list \<Rightarrow> capture_event list \<Rightarrow> capture_end \<times> ustr list" where
  "capture_loop isoformat cnt written out [] = (StillWaiting, out)"
| "capture_loop isoformat cnt written out (DurationOver # events) = (Captured written, out)"
| "capture_loop isoformat cnt written out (ConnectionFails e # events) =
     ((if e = TimeoutError then Captured written else CaptureRaised e), out)"
| "capture_loop isoformat cnt written out (Received topic payload now # events) =
     (case encode_record isoformat \<lparr>cm_topic = topic, cm_payload = payload,
              cm_captured_at = Zoned \<lparr>wall_us = now, offset_us = 0\<rparr>\<rparr> of
        Inl e \<Rightarrow> (CaptureRaised e, out)
      | Inr line \<Rightarrow>
          let written' = written + 1; out' = out @ [line @ [10]]
          in case cnt of
              Some n \<Rightarrow>
                if n \<le> written' then (Captured written', out')
                else capture_loop isoformat cnt written' out' events
            | None \<Rightarrow> capture_loop isoformat cnt written' out' events)"

definition capture :: "(wall_clock \<Rightarrow> ustr) \<Rightarrow> int option \<Rightarrow> capture_event list \<Rightarrow> capture_end \<times> ustr list" where
  "capture isoformat cnt events = capture_loop isoformat cnt 0 [] events"

text \<open>Reading a text file by lines: newlines are universal, and each line keeps its \<open>\\n\<close>.\<close>

fun universal_newlines :: "ustr \<Rightarrow> ustr" where
  "universal_newlines [] = []"
| "universal_newlines (c # cs) =
     (if c = 13 then 10 # (case cs of d # rest \<Rightarrow> universal_newlines (if d = 10 then rest else cs) | [] \<Rightarrow> [])
      else c # universal_newlines cs)"

fun split_lines :: "ustr \<Rightarrow> ustr list" where
  "split_lines [] = []"
| "split_lines (c # cs) =
     (if c = 10 then [10] # split_lines cs
      else case split_lines cs of [] \<Rightarrow> [[c]] | line # lines \<Rightarrow> (c # line) # lines)"

definition file_lines :: "ustr \<Rightarrow> ustr list" where
  "file_lines content = split_lines (universal_newlines content)"

section \<open>Laws of the pacing\<close>

definition nonneg_float :: "pyfloat \<Rightarrow> bool" where
  "nonneg_float f \<longleftrightarrow> fle (Fin 0) f"

lemma nonneg_cases: "nonneg_float f \<longleftrightarrow> f = PInf \<or> (\<exists>r. f = Fin r \<and> 0 \<le> r)"
  by (cases f) (auto simp: nonneg_float_def fle_def)

lemma nonneg_fl: "0 \<le> x \<Longrightarrow> nonneg_float (fl x)"
  using fl_nonneg [of x] by (simp add: nonneg_float_def fle_def)

text \<open>Adding a gap to an offset never decreases it, whatever is rounded away or overflows.\<close>

lemma fadd_gap:
  assumes "nonneg_float f" and "nonneg_float g" and "wf_float f"
  shows "nonneg_float (fadd f g) \<and> fle f (fadd f g)"
proof (cases "\<exists>a b. f = Fin a \<and> g = Fin b")
  case True
  then obtain a b where ab: "f = Fin a" "g = Fin b" "0 \<le> a" "0 \<le> b" using assms by (auto simp: nonneg_cases)
  have "fl a \<le> fl (a + b)" using ab by (intro fl_mono) simp
  then show ?thesis using ab assms(3) nonneg_fl [of "a + b"] by (simp add: fl_representable fle_def)
next
  case False
  then show ?thesis using assms by (auto simp: nonneg_cases fle_def nonneg_float_def)
qed

lemma gap_nonneg:
  assumes "flt (Fin 0) speed" and "total_seconds d = Fin s"
  shows "\<exists>gap. fdiv (py_max (Fin 0) (total_seconds d)) speed = Inr gap \<and> nonneg_float gap"
proof (cases speed)
  case (Fin v)
  then have "0 < v" using assms(1) by simp
  then show ?thesis using nonneg_fl [of "max 0 s / v"] Fin by (simp add: assms(2))
next
  case PInf
  then show ?thesis by (simp add: assms(2) nonneg_float_def)
qed (use assms(1) in \<open>auto simp: flt_def less_pyfloat_def\<close>)

end
