(* ===== verification/Replay_Laws.thy ===== *)
theory Replay_Laws
  imports Cli_Replay
begin

text \<open>
  The offsets of a replay start at zero and never decrease; a replay publishes its records in the
  order of the file and stops at the first failure; what a capture writes, a replay reads back.
\<close>

section \<open>Offsets\<close>

lemma pace_instants:
  assumes "flt (Fin 0) speed" and "dt_ok t"
    and "nonneg_float (pc_offset p)" "wf_float (pc_offset p)"
    and "case pc_previous p of None \<Rightarrow> True | Some q \<Rightarrow> \<exists>u. q = Aware u \<and> dt_ok u"
  obtains offset where "pace speed (Aware t) p = Inr (offset, \<lparr>pc_offset = offset, pc_previous = Some (Aware t)\<rparr>)"
    "fle (pc_offset p) offset" "nonneg_float offset" "wf_float offset"
    "pc_previous p = None \<longrightarrow> offset = pc_offset p"
proof (cases "pc_previous p")
  case None
  have "fle (pc_offset p) (pc_offset p)" using assms(3) by (auto simp: nonneg_float_def fle_def)
  then show ?thesis
    using None assms by (intro that [of "pc_offset p"]) (simp_all add: pace_def)
next
  case (Some q)
  then obtain u where u: "q = Aware u" "dt_ok u" using assms(5) by auto
  obtain s where "total_seconds (t - u) = Fin s" using total_seconds_diff_finite [OF assms(2) u(2)] by blast
  from gap_nonneg [OF assms(1) this] obtain gap where
    gap: "fdiv (py_max (Fin 0) (total_seconds (t - u))) speed = Inr gap" "nonneg_float gap" by blast
  show ?thesis
    using fadd_gap [OF assms(3) gap(2) assms(4)] Some u gap(1)
    by (intro that [of "fadd (pc_offset p) gap"]) (simp_all add: pace_def Let_def)
qed

lemma pace_all_instants:
  assumes "flt (Fin 0) speed" and "\<forall>t \<in> set ts. dt_ok t"
    and "nonneg_float (pc_offset p)" "wf_float (pc_offset p)"
    and "case pc_previous p of None \<Rightarrow> True | Some q \<Rightarrow> \<exists>u. q = Aware u \<and> dt_ok u"
  shows "\<exists>offsets. pace_all speed p (map Aware ts) = (offsets, StopIteration) \<and>
    length offsets = length ts \<and> sorted (pc_offset p # offsets) \<and>
    (ts \<noteq> [] \<longrightarrow> pc_previous p = None \<longrightarrow> hd offsets = pc_offset p)"
  using assms(2-)
proof (induction ts arbitrary: p)
  case Nil
  then show ?case by simp
next
  case (Cons t ts)
  then have "dt_ok t" by simp
  from pace_instants [OF assms(1) this Cons.prems(2-4)]
  obtain offset where o: "pace speed (Aware t) p = Inr (offset, \<lparr>pc_offset = offset, pc_previous = Some (Aware t)\<rparr>)"
    "fle (pc_offset p) offset" "nonneg_float offset" "wf_float offset" "pc_previous p = None \<longrightarrow> offset = pc_offset p" .
  let ?p = "\<lparr>pc_offset = offset, pc_previous = Some (Aware t)\<rparr>"
  from Cons.IH [of ?p] o(3,4) Cons.prems(1) obtain offsets where
    "pace_all speed ?p (map Aware ts) = (offsets, StopIteration)" "length offsets = length ts" "sorted (offset # offsets)"
    by auto
  moreover have "pc_offset p \<le> offset" using o(2) by (simp add: fle_def)
  ultimately show ?case using o by (auto simp: yielding_def)
qed

lemma replay_offsets_instants:
  assumes "flt (Fin 0) speed" and "\<forall>t \<in> set ts. dt_ok t"
  obtains offsets where "replay_offsets (map Aware ts) speed = (offsets, StopIteration)"
    "length offsets = length ts" "sorted (Fin 0 # offsets)" "ts \<noteq> [] \<Longrightarrow> hd offsets = Fin 0"
proof -
  have "\<not> fle speed (Fin 0)" using assms(1) by (auto simp: flt_def fle_def)
  then show ?thesis
    using pace_all_instants [OF assms(1), of ts first_pacer] assms(2) that
    by (auto simp: replay_offsets_def first_pacer_def nonneg_float_def)
qed

text \<open>NaN is not rejected as a speed: every offset but the first is then NaN, and no sleep is made.\<close>

lemma pace_all_NaN:
  "pc_previous p = Some (Aware u) \<Longrightarrow> pace_all NaN p (map Aware ts) = (replicate (length ts) NaN, StopIteration)"
proof (induction ts arbitrary: p u)
  case (Cons t ts)
  have "fdiv (py_max (Fin 0) (total_seconds (t - u))) NaN = Inr NaN"
    by (cases "py_max (Fin 0) (total_seconds (t - u))") simp_all
  moreover have "fadd (pc_offset p) NaN = NaN" by (cases "pc_offset p") simp_all
  ultimately show ?case using Cons by (simp add: pace_def yielding_def)
qed simp

lemma replay_offsets_NaN:
  "replay_offsets (map Aware (t # ts)) NaN = (Fin 0 # replicate (length ts) NaN, StopIteration)"
  using pace_all_NaN [of "\<lparr>pc_offset = Fin 0, pc_previous = Some (Aware t)\<rparr>" t ts]
  by (simp add: replay_offsets_def pace_def first_pacer_def yielding_def)

section \<open>Publishing\<close>

text \<open>The lockstep of records and offsets computes the offsets of the records alone.\<close>

lemma paced_none: "paced None p ms stop = (map (\<lambda>m. (m, Fin 0)) ms, stop)"
  by (induction ms) (simp_all add: next_offset_def yielding_def)

lemma paced_some:
  assumes "\<not> fle v (Fin 0)"
    and "pace_all v p (map (\<lambda>m. captured_instant (cm_captured_at m)) ms) = (offsets, StopIteration)"
  shows "paced (Some v) p ms stop = (zip ms offsets, stop)"
  using assms(2)
proof (induction ms arbitrary: p offsets)
  case (Cons m ms)
  show ?case
  proof (cases "pace v (captured_instant (cm_captured_at m)) p")
    case (Inr r)
    then obtain offset p' where p: "pace v (captured_instant (cm_captured_at m)) p = Inr (offset, p')"
      by (cases r) auto
    obtain rest where rest: "pace_all v p' (map (\<lambda>m. captured_instant (cm_captured_at m)) ms) = (rest, StopIteration)"
      "offsets = offset # rest"
      using Cons.prems p by (auto simp: yielding_def prod_eq_iff)
    from Cons.IH [OF rest(1)] show ?thesis
      using rest(2) p assms(1) by (simp add: next_offset_def yielding_def)
  qed (use Cons.prems in simp)
qed simp

lemma paced_prefix: "prefix (map fst (fst (paced speed p ms stop))) ms"
proof (induction ms arbitrary: p)
  case (Cons m ms)
  then show ?case by (auto split: sum.splits)
qed simp

lemma paced_complete:
  "snd (paced speed p ms stop) = StopIteration \<Longrightarrow> map fst (fst (paced speed p ms stop)) = ms \<and> stop = StopIteration"
  by (induction ms arbitrary: p) (auto split: sum.splits)

abbreviation as_published :: "captured_message list \<Rightarrow> (ustr \<times> bytes) list" where
  "as_published \<equiv> map (\<lambda>m. (cm_topic m, cm_payload m))"

abbreviation delay_of :: "pyfloat \<Rightarrow> (nat \<Rightarrow> pyfloat \<times> py_exc option) \<Rightarrow> nat \<Rightarrow> pyfloat \<Rightarrow> pyfloat" where
  "delay_of start env i offset \<equiv> fsub (fadd start offset) (fst (env i))"

lemma publish_all_step:
  assumes "snd (env (length (rl_published lg))) = None" and "delay_of start env (length (rl_published lg)) offset \<noteq> PInf"
  obtains lg' where "rl_published lg' = rl_published lg @ [(cm_topic m, cm_payload m)]"
    "publish_all start env ((m, offset) # items) stop lg = publish_all start env items stop lg'"
proof -
  obtain now where now: "env (length (rl_published lg)) = (now, None)" using assms(1) by (metis prod.collapse)
  define lg1 where "lg1 =
    (let delay = fsub (fadd start offset) now
     in if flt (Fin 0) delay then lg\<lparr>rl_sleeps := rl_sleeps lg @ [delay]\<rparr> else lg)"
  have "rl_published lg1 = rl_published lg" by (simp add: lg1_def Let_def)
  then show ?thesis using assms(2)
    by (intro that [of "lg1\<lparr>rl_published := rl_published lg1 @ [(cm_topic m, cm_payload m)]\<rparr>"])
      (simp_all add: now Let_def lg1_def)
qed

lemma publish_all_fails:
  assumes "snd (env (length (rl_published lg))) = Some e" and "delay_of start env (length (rl_published lg)) offset \<noteq> PInf"
  obtains lg' where "rl_published lg' = rl_published lg"
    "publish_all start env ((m, offset) # items) stop lg = (Some (Inl e), lg')"
proof -
  obtain now where "env (length (rl_published lg)) = (now, Some e)" using assms(1) by (metis prod.collapse)
  then show ?thesis using assms(2)
    by (intro that [of "snd (publish_all start env ((m, offset) # items) stop lg)"]) (simp_all add: Let_def)
qed

lemma publish_all_endless:
  assumes "delay_of start env (length (rl_published lg)) offset = PInf"
  obtains lg' where "rl_published lg' = rl_published lg" "publish_all start env ((m, offset) # items) stop lg = (None, lg')"
proof -
  obtain now failure where "env (length (rl_published lg)) = (now, failure)" by fastforce
  then show ?thesis using assms
    by (intro that [of "snd (publish_all start env ((m, offset) # items) stop lg)"]) (simp_all add: Let_def)
qed

text \<open>The three ways of a message: an endless sleep, a failing publication, or on to the next.\<close>

lemma publish_all_cases:
  obtains lg' where "delay_of start env (length (rl_published lg)) offset = PInf"
      "rl_published lg' = rl_published lg" "publish_all start env ((m, offset) # items) stop lg = (None, lg')"
  | lg' e where "snd (env (length (rl_published lg))) = Some e"
      "rl_published lg' = rl_published lg" "publish_all start env ((m, offset) # items) stop lg = (Some (Inl e), lg')"
  | lg' where "rl_published lg' = rl_published lg @ [(cm_topic m, cm_payload m)]"
      "publish_all start env ((m, offset) # items) stop lg = publish_all start env items stop lg'"
proof (cases "delay_of start env (length (rl_published lg)) offset = PInf")
  case True
  show ?thesis by (rule publish_all_endless [where start = start and env = env and lg = lg and offset = offset and m = m and items = items and stop = stop, OF True]) (rule that(1) [OF True])
next
  case False
  show ?thesis
  proof (cases "snd (env (length (rl_published lg)))")
    case None
    show ?thesis by (rule publish_all_step [where start = start and env = env and lg = lg and offset = offset and m = m and items = items and stop = stop, OF None False]) (rule that(3))
  next
    case (Some e)
    show ?thesis by (rule publish_all_fails [where start = start and env = env and lg = lg and offset = offset and m = m and items = items and stop = stop, OF Some False]) (rule that(2) [OF Some])
  qed
qed

declare publish_all.simps(2) [simp del]

lemma publish_all_prefix:
  "prefix (rl_published lg) (rl_published (snd (publish_all start env items stop lg))) \<and>
   prefix (rl_published (snd (publish_all start env items stop lg))) (rl_published lg @ as_published (map fst items))"
proof (induction items arbitrary: lg)
  case (Cons item items)
  obtain m offset where item: "item = (m, offset)" by (cases item)
  show ?case
  proof (cases rule: publish_all_cases [where start = start and env = env and lg = lg and offset = offset and m = m and items = items and stop = stop])
    case (3 lg')
    then show ?thesis using item Cons.IH [of lg'] by (auto simp: append_prefixD)
  qed (use item in simp_all)
qed simp

text \<open>With a working broker a replay publishes everything, or stands in a sleep that does not end.\<close>

lemma publish_all_ok:
  assumes "\<forall>i. snd (env i) = None"
  shows "fst (publish_all start env items StopIteration lg) = Some (Inr (length (rl_published lg) + length items)) \<or>
    fst (publish_all start env items StopIteration lg) = None \<and>
    (\<exists>i < length items. length (rl_published (snd (publish_all start env items StopIteration lg))) = length (rl_published lg) + i \<and>
       delay_of start env (length (rl_published lg) + i) (snd (items ! i)) = PInf)"
proof (induction items arbitrary: lg)
  case (Cons item items)
  obtain m offset where item: "item = (m, offset)" by (cases item)
  show ?case
  proof (cases rule: publish_all_cases [where start = start and env = env and lg = lg and offset = offset and m = m and items = items and stop = StopIteration])
    case (1 lg')
    then show ?thesis unfolding item by (intro disjI2 conjI exI [of _ 0]) simp_all
  next
    case (2 lg' e)
    then show ?thesis using assms by simp
  next
    case (3 lg')
    from Cons.IH [of lg'] show ?thesis
    proof (elim disjE conjE exE)
      fix i assume "fst (publish_all start env items StopIteration lg') = None" "i < length items"
        "length (rl_published (snd (publish_all start env items StopIteration lg'))) = length (rl_published lg') + i"
        "delay_of start env (length (rl_published lg') + i) (snd (items ! i)) = PInf"
      then show ?thesis using 3 unfolding item by (intro disjI2 conjI exI [of _ "Suc i"]) simp_all
    qed (use 3 item in simp)
  qed
qed simp

lemma publish_all_Inr:
  assumes "publish_all start env items stop lg = (Some (Inr n), lg')"
  shows "(\<forall>e. stop \<noteq> Raised e) \<and> n = length (rl_published lg) + length items \<and> length (rl_published lg') = n"
  using assms
proof (induction items arbitrary: lg)
  case (Cons item items)
  obtain m offset where item: "item = (m, offset)" by (cases item)
  show ?case
  proof (cases rule: publish_all_cases [where start = start and env = env and lg = lg and offset = offset and m = m and items = items and stop = stop])
    case (3 lg1)
    then show ?thesis using Cons.IH [of lg1] Cons.prems item by simp
  qed (use Cons.prems item in simp_all)
qed (auto split: stop.splits)

text \<open>
  Whatever fails, what a replay published is a beginning of the decoded records in file order,
  with topic and payload unchanged; it returns a count only after publishing all of them.
\<close>

lemma decoded_lines_stop: "snd (decoded_lines limit fromisoformat lines) \<noteq> OutOfFuel"
  by (induction lines) (auto split: sum.splits)

lemma paced_stop: "stop \<noteq> OutOfFuel \<Longrightarrow> snd (paced speed p ms stop) \<noteq> OutOfFuel"
  by (induction ms arbitrary: p) (auto split: sum.splits)

lemma prefix_same_length: "prefix xs ys \<Longrightarrow> length xs = length ys \<Longrightarrow> xs = ys"
  by (auto simp: prefix_def)

lemma replay_publishes:
  assumes "decoded_lines limit fromisoformat lines = (records, stop)"
    and "replay limit fromisoformat connection start env lines speed = (outcome, lg)"
  shows "prefix (rl_published lg) (as_published records) \<and>
    (\<forall>n. outcome = Some (Inr n) \<longrightarrow> stop = StopIteration \<and> n = length records \<and> rl_published lg = as_published records)"
proof -
  let ?lg = "\<lparr>rl_sleeps = [], rl_published = []\<rparr>"
  obtain items stop' where i: "paced speed first_pacer records stop = (items, stop')" by fastforce
  have pre: "prefix (map fst items) records" using paced_prefix [of speed first_pacer records stop] i by simp
  have "prefix (rl_published lg) (as_published (map fst items))"
    using publish_all_prefix [of ?lg start env items stop'] assms i
    by (auto simp: replay_def split: option.splits)
  moreover from pre have "prefix (as_published (map fst items)) (as_published records)"
    by (rule map_mono_prefix)
  ultimately have 1: "prefix (rl_published lg) (as_published records)" by (rule prefix_order.trans)
  have "stop = StopIteration \<and> n = length records \<and> rl_published lg = as_published records" if "outcome = Some (Inr n)" for n
  proof -
    have "publish_all start env items stop' ?lg = (Some (Inr n), lg)"
      using assms i that by (auto simp: replay_def split: option.splits)
    from publish_all_Inr [OF this]
    have p: "stop' \<noteq> Raised e" "n = length items" "length (rl_published lg) = n" for e by auto
    have "stop \<noteq> OutOfFuel" using decoded_lines_stop [of limit fromisoformat lines] assms(1) by simp
    from paced_stop [OF this, of speed first_pacer records] have "stop' = StopIteration" using i p(1) by (cases stop') auto
    with paced_complete [of speed first_pacer records stop] i
    have c: "map fst items = records" "stop = StopIteration" by auto
    then have "length items = length records" by (metis length_map)
    moreover have "rl_published lg = as_published records"
      by (rule prefix_same_length [OF 1]) (use p(2,3) \<open>length items = length records\<close> in simp)
    ultimately show ?thesis using c p by simp
  qed
  with 1 show ?thesis by simp
qed

text \<open>The offset of the record at a position, and the delay it gets.\<close>

definition offset_at :: "pyfloat option \<Rightarrow> captured_message list \<Rightarrow> nat \<Rightarrow> pyfloat" where
  "offset_at speed records i =
     (case speed of
        None \<Rightarrow> Fin 0
      | Some v \<Rightarrow> fst (replay_offsets (map (\<lambda>m. captured_instant (cm_captured_at m)) records) v) ! i)"

text \<open>
  With a working broker and a positive speed, everything is published, unless a delay is infinite: then the
  replay stands before that record for ever.
\<close>

lemma replay_ok:
  assumes "decoded_lines limit fromisoformat lines = (records, StopIteration)"
    and "\<forall>i. snd (env i) = None"
    and "\<forall>m \<in> set records. \<exists>w. cm_captured_at m = Zoned w \<and> dt_ok (wall_us w - offset_us w)"
    and "case speed of None \<Rightarrow> True | Some v \<Rightarrow> flt (Fin 0) v"
    and "replay limit fromisoformat None start env lines speed = (outcome, lg)"
  shows "outcome = Some (Inr (length records)) \<or>
    outcome = None \<and> length (rl_published lg) < length records \<and>
    delay_of start env (length (rl_published lg)) (offset_at speed records (length (rl_published lg))) = PInf"
proof -
  have "\<exists>items. paced speed first_pacer records StopIteration = (items, StopIteration) \<and> length items = length records \<and>
      (\<forall>i < length records. snd (items ! i) = offset_at speed records i)"
  proof (cases speed)
    case None
    then show ?thesis by (simp add: paced_none offset_at_def)
  next
    case (Some v)
    then have v: "flt (Fin 0) v" "\<not> fle v (Fin 0)" using assms(4) by (auto simp: flt_def fle_def)
    define ts where "ts = map (\<lambda>m. case cm_captured_at m of Zoned w \<Rightarrow> wall_us w - offset_us w | Zoneless t \<Rightarrow> t) records"
    have ts: "map (\<lambda>m. captured_instant (cm_captured_at m)) records = map Aware ts" "\<forall>t \<in> set ts. dt_ok t"
      "length ts = length records"
      using assms(3) by (auto simp: ts_def)
    from replay_offsets_instants [OF v(1) ts(2)] obtain offsets where
      offsets: "replay_offsets (map Aware ts) v = (offsets, StopIteration)" "length offsets = length ts" by metis
    then have "pace_all v first_pacer (map Aware ts) = (offsets, StopIteration)"
      using v(2) by (simp add: replay_offsets_def)
    with paced_some [OF v(2)] ts(1) have "paced (Some v) first_pacer records StopIteration = (zip records offsets, StopIteration)"
      by simp
    then show ?thesis using Some ts(1,3) offsets by (simp add: offset_at_def)
  qed
  then obtain items where items: "paced speed first_pacer records StopIteration = (items, StopIteration)"
    "length items = length records" "\<forall>i < length records. snd (items ! i) = offset_at speed records i" by blast
  have run: "publish_all start env items StopIteration \<lparr>rl_sleeps = [], rl_published = []\<rparr> = (outcome, lg)"
    using assms(1,5) items(1) by (simp add: replay_def)
  from publish_all_ok [OF assms(2), of start items "\<lparr>rl_sleeps = [], rl_published = []\<rparr>"]
  show ?thesis unfolding run using items(2,3) by auto
qed

section \<open>A capture reads back\<close>

lemma universal_newlines_visible: "\<forall>c \<in> set s. c \<noteq> 13 \<Longrightarrow> universal_newlines s = s"
  by (induction s) auto

lemma split_lines_line: "\<forall>c \<in> set line. c \<noteq> 10 \<Longrightarrow> split_lines (line @ 10 # rest) = (line @ [10]) # split_lines rest"
  by (induction line) auto

lemma file_lines_concat:
  assumes "\<forall>line \<in> set lines. \<forall>c \<in> set line. 32 \<le> c"
  shows "file_lines (concat (map (\<lambda>line. line @ [10]) lines)) = map (\<lambda>line. line @ [10]) lines"
proof -
  let ?content = "concat (map (\<lambda>line. line @ [10]) lines)"
  have "split_lines ?content = map (\<lambda>line. line @ [10]) lines"
    using assms
  proof (induction lines)
    case (Cons line lines)
    then have "\<forall>c \<in> set line. c \<noteq> 10" by fastforce
    then show ?case using Cons split_lines_line [of line] by simp
  qed simp
  moreover have "\<forall>c \<in> set ?content. c \<noteq> 13" by (auto, use assms in fastforce)
  ultimately show ?thesis by (simp add: file_lines_def universal_newlines_visible)
qed

text \<open>The messages a capture receives, and the line of each.\<close>

fun received :: "capture_event list \<Rightarrow> captured_message list" where
  "received [] = []"
| "received (Received topic payload now # events) =
     \<lparr>cm_topic = topic, cm_payload = payload, cm_captured_at = Zoned \<lparr>wall_us = now, offset_us = 0\<rparr>\<rparr> # received events"
| "received (event # events) = received events"

definition record_line :: "(wall_clock \<Rightarrow> ustr) \<Rightarrow> captured_message \<Rightarrow> ustr" where
  "record_line isoformat m = (case encode_record isoformat m of Inl e \<Rightarrow> [] | Inr line \<Rightarrow> line)"

lemma record_line_Zoned:
  "cm_captured_at m = Zoned w \<Longrightarrow> encode_record isoformat m = Inr (record_line isoformat m)"
  by (simp add: record_line_def encode_record_def)

lemma received_Zoned: "m \<in> set (received events) \<Longrightarrow> \<exists>now. cm_captured_at m = Zoned \<lparr>wall_us = now, offset_us = 0\<rparr>"
  by (induction events rule: received.induct) auto

definition captured_lines :: "(wall_clock \<Rightarrow> ustr) \<Rightarrow> captured_message list \<Rightarrow> ustr list" where
  "captured_lines isoformat ms = map (\<lambda>m. record_line isoformat m @ [10]) ms"

lemma capture_loop_writes:
  "\<exists>ms. prefix ms (received events) \<and>
     snd (capture_loop isoformat cnt written out events) = out @ captured_lines isoformat ms \<and>
     (\<forall>n. fst (capture_loop isoformat cnt written out events) = Captured n \<longrightarrow> n = written + int (length ms)) \<and>
     (\<forall>k. cnt = Some k \<longrightarrow> written < k \<longrightarrow> written + int (length ms) \<le> k)"
proof (induction isoformat cnt written out events rule: capture_loop.induct)
  case (4 isoformat cnt written out topic payload now events)
  let ?m = "\<lparr>cm_topic = topic, cm_payload = payload, cm_captured_at = Zoned \<lparr>wall_us = now, offset_us = 0\<rparr>\<rparr>"
  let ?out = "out @ [record_line isoformat ?m @ [10]]"
  have e: "encode_record isoformat ?m = Inr (record_line isoformat ?m)" by (rule record_line_Zoned) simp
  show ?case
  proof (cases "\<exists>k. cnt = Some k \<and> k \<le> written + 1")
    case True
    then show ?thesis using e
      by (intro exI [of _ "[?m]"]) (auto simp: captured_lines_def)
  next
    case False
    then have r: "capture_loop isoformat cnt written out (Received topic payload now # events) =
        capture_loop isoformat cnt (written + 1) ?out events"
      using e by (cases cnt) (simp_all add: Let_def)
    have "\<exists>ms. prefix ms (received events) \<and>
     snd (capture_loop isoformat cnt (written + 1) ?out events) = ?out @ captured_lines isoformat ms \<and>
     (\<forall>n. fst (capture_loop isoformat cnt (written + 1) ?out events) = Captured n \<longrightarrow> n = written + 1 + int (length ms)) \<and>
     (\<forall>k. cnt = Some k \<longrightarrow> written + 1 < k \<longrightarrow> written + 1 + int (length ms) \<le> k)"
      using 4 e False by (cases cnt) (auto simp: Let_def)
    then obtain ms where ms: "prefix ms (received events)"
     "snd (capture_loop isoformat cnt (written + 1) ?out events) = ?out @ captured_lines isoformat ms"
     "\<forall>n. fst (capture_loop isoformat cnt (written + 1) ?out events) = Captured n \<longrightarrow> n = written + 1 + int (length ms)"
     "\<forall>k. cnt = Some k \<longrightarrow> written + 1 < k \<longrightarrow> written + 1 + int (length ms) \<le> k" by blast
    show ?thesis
      unfolding r using ms False
      by (intro exI [of _ "?m # ms"]) (auto simp: captured_lines_def)
  qed
qed (simp_all add: captured_lines_def)

lemma record_line_visible: "cm_captured_at m = Zoned w \<Longrightarrow> \<forall>c \<in> set (record_line isoformat m). 32 \<le> c"
  using encode_record_line record_line_Zoned by blast

lemma record_line_not_blank:
  assumes "cm_captured_at m = Zoned w"
  shows "\<not> list_all py_space (record_line isoformat m @ [10])"
proof -
  have "\<exists>rest. record_line isoformat m = 123 # rest"
    using assms by (simp add: record_line_def encode_record_def)
  then show ?thesis by (auto simp: py_space_def)
qed

lemma decoded_lines_captured:
  assumes "iso_inverse isoformat fromisoformat" and "1 \<le> limit"
    and "\<forall>m \<in> set ms. \<exists>w. cm_captured_at m = Zoned w" and "\<forall>m \<in> set ms. cm_topic m \<noteq> []"
  shows "decoded_lines limit fromisoformat (captured_lines isoformat ms) = (ms, StopIteration)"
  using assms(3,4)
proof (induction ms)
  case (Cons m ms)
  then obtain w where w: "cm_captured_at m = Zoned w" by auto
  have "decode_record limit fromisoformat (record_line isoformat m @ [10]) = Inr m"
    using decode_encode_record [OF assms(1) record_line_Zoned [OF w] assms(2), of "[10]"] Cons.prems
    by (simp add: blank_def)
  then show ?case using Cons record_line_not_blank [OF w, of isoformat]
    by (simp add: captured_lines_def yielding_def del: list_all_append)
qed (simp add: captured_lines_def)

lemma capture_reads_back:
  assumes "capture isoformat cnt events = (outcome, out)"
    and "iso_inverse isoformat fromisoformat" and "1 \<le> limit"
    and "\<forall>m \<in> set (received events). cm_topic m \<noteq> []"
  shows "decoded_lines limit fromisoformat (file_lines (concat out)) = (take (length out) (received events), StopIteration)"
proof -
  obtain ms where ms: "prefix ms (received events)" "out = captured_lines isoformat ms"
    using capture_loop_writes [of events isoformat cnt 0 "[]"] assms(1) by (auto simp: capture_def)
  then have sub: "set ms \<subseteq> set (received events)" using set_mono_prefix by blast
  have zoned: "\<forall>m \<in> set ms. \<exists>w. cm_captured_at m = Zoned w" using sub received_Zoned by blast
  have "file_lines (concat out) = out"
    using file_lines_concat [of "map (record_line isoformat) ms"] zoned record_line_visible
    by (fastforce simp: ms(2) captured_lines_def comp_def)
  moreover have "length out = length ms" by (simp add: ms(2) captured_lines_def)
  moreover have "take (length ms) (received events) = ms" using ms(1) by (auto simp: prefix_def)
  ultimately show ?thesis
    using decoded_lines_captured [OF assms(2,3) zoned] assms(4) sub by (simp add: ms(2) subset_iff)
qed

end
