(* ===== verification/Cli_App.thy ===== *)
theory Cli_App
  imports Replay_Laws Wire_Laws
begin

text \<open>
  \<^verbatim>\<open>cli/app.py\<close> and \<^verbatim>\<open>cli/sample.py\<close>: the declared arguments, the checks on what \<^verbatim>\<open>argparse\<close> returns for
  them (\<open>parse\<close>, a parameter), the dispatch with its streams, and the generated sample.
\<close>

section \<open>Commands\<close>

definition DEFAULT_SPEED :: pyfloat where
  "DEFAULT_SPEED = Fin 100"

record capture_command =
  cc_host :: ustr
  cc_port :: int
  cc_topic :: ustr
  cc_count :: "int option"
  cc_duration_seconds :: "pyfloat option"
  cc_out :: ustr

record replay_command =
  rc_host :: ustr
  rc_port :: int
  rc_speed :: "pyfloat option"
  rc_source :: ustr

datatype command = CaptureCommand capture_command | ReplayCommand replay_command | SampleCommand ustr

section \<open>Arguments\<close>

datatype argument_type = TextArgument | IntArgument | FloatArgument | FlagArgument

datatype default = NoDefault | TextDefault string | IntDefault int | FlagDefault

record option_spec =
  op_name :: string
  op_type :: argument_type
  op_default :: default

record subparser =
  sp_name :: string
  sp_options :: "option_spec list"
  sp_exclusive :: "string list list"

definition option_of :: "string \<Rightarrow> argument_type \<Rightarrow> default \<Rightarrow> option_spec" where
  "option_of n ty d = \<lparr>op_name = n, op_type = ty, op_default = d\<rparr>"

definition add_broker_arguments :: "option_spec list" where
  "add_broker_arguments =
     [option_of ''--host'' TextArgument (TextDefault ''localhost''), option_of ''--port'' IntArgument (IntDefault 1883)]"

definition TELEMETRY_TOPIC_FILTER :: string where
  "TELEMETRY_TOPIC_FILTER = ''planter/v1/+/telemetry''"

definition build_parser :: "subparser list" where
  "build_parser =
     [\<lparr>sp_name = ''capture'',
       sp_options = add_broker_arguments @
         [option_of ''--topic'' TextArgument (TextDefault TELEMETRY_TOPIC_FILTER),
          option_of ''--count'' IntArgument NoDefault,
          option_of ''--duration'' FloatArgument NoDefault,
          option_of ''--out'' TextArgument (TextDefault ''-'')],
       sp_exclusive = []\<rparr>,
      \<lparr>sp_name = ''replay'',
       sp_options = add_broker_arguments @
         [option_of ''--speed'' FloatArgument NoDefault,
          option_of ''--no-delay'' FlagArgument FlagDefault,
          option_of ''source'' TextArgument (TextDefault ''-'')],
       sp_exclusive = [[''--speed'', ''--no-delay'']]\<rparr>,
      \<lparr>sp_name = ''sample'',
       sp_options = [option_of ''--out'' TextArgument (TextDefault ''-'')],
       sp_exclusive = []\<rparr>]"

text \<open>What \<^verbatim>\<open>parse_args\<close> returns, by subcommand.\<close>

datatype namespace =
    CaptureArgs ustr int ustr "int option" "pyfloat option" ustr
  | ReplayArgs ustr int "pyfloat option" bool ustr
  | SampleArgs ustr

text \<open>\<^verbatim>\<open>parser.error\<close> ends the process with status 2.\<close>

definition parser_error :: "'a res" where
  "parser_error = Inl (SystemExit 2)"

definition parse_command :: "(subparser list \<Rightarrow> 'a \<Rightarrow> namespace res) \<Rightarrow> 'a \<Rightarrow> command res" where
  "parse_command parse argv =
     rbind (parse build_parser argv) (\<lambda>args.
     case args of
       CaptureArgs host port topic cnt duration out \<Rightarrow>
         if cnt = None \<and> duration = None then parser_error
         else if (case cnt of Some n \<Rightarrow> n < 1 | None \<Rightarrow> False) then parser_error
         else if (case duration of Some d \<Rightarrow> fle d (Fin 0) | None \<Rightarrow> False) then parser_error
         else Inr (CaptureCommand \<lparr>cc_host = host, cc_port = port, cc_topic = topic, cc_count = cnt,
                cc_duration_seconds = duration, cc_out = out\<rparr>)
     | ReplayArgs host port speed no_delay source \<Rightarrow>
         if (case speed of Some v \<Rightarrow> fle v (Fin 0) | None \<Rightarrow> False) then parser_error
         else Inr (ReplayCommand \<lparr>rc_host = host, rc_port = port,
                rc_speed = (if no_delay then None else Some (case speed of Some v \<Rightarrow> v | None \<Rightarrow> DEFAULT_SPEED)),
                rc_source = source\<rparr>)
     | SampleArgs out \<Rightarrow> Inr (SampleCommand out))"

section \<open>The sample\<close>

definition SAMPLE_START :: py_datetime where
  "SAMPLE_START = Aware 1767225600000000"

definition SAMPLE_MESSAGE_COUNT :: nat where
  "SAMPLE_MESSAGE_COUNT = 200"

text \<open>What is not passed comes from the environment or the defaults: \<open>base\<close>.\<close>

definition sample_settings :: "sim_settings \<Rightarrow> sim_settings" where
  "sample_settings base =
     base\<lparr>sim_device_count := 3, sim_seed := 42, sim_interval_seconds := Fin 300,
          sim_duplicate_rate := fl (5 / 100), sim_out_of_order_rate := fl (3 / 100),
          sim_malformed_rate := fl (2 / 100), sim_missed_checkin_rate := fl (3 / 100)\<rparr>"

definition islice :: "nat \<Rightarrow> 'a trace \<Rightarrow> 'a trace" where
  "islice n t = (if n \<le> length (fst t) then (take n (fst t), StopIteration) else t)"

definition captured_time_of :: "py_datetime \<Rightarrow> captured_time" where
  "captured_time_of t = (case t of Aware us \<Rightarrow> Zoned \<lparr>wall_us = us, offset_us = 0\<rparr> | Naive us \<Rightarrow> Zoneless us)"

fun sample_loop :: "nat \<Rightarrow> wire_text \<Rightarrow> emission list \<Rightarrow> stop \<Rightarrow> captured_message trace" where
  "sample_loop limit f [] stop = ([], stop)"
| "sample_loop limit f (e # es) stop =
     (case emission_payload limit f e of
        Inl x \<Rightarrow> ([], Raised x)
      | Inr payload \<Rightarrow>
          yielding [\<lparr>cm_topic = ascii (telemetry_topic (device_id (em_reading e))), cm_payload = payload,
                     cm_captured_at = captured_time_of (em_publish_at e)\<rparr>]
            (sample_loop limit f es stop))"

definition sample_records ::
  "'r rng \<Rightarrow> (string \<Rightarrow> 'r) \<Rightarrow> nat \<Rightarrow> wire_text \<Rightarrow> sim_settings \<Rightarrow> nat \<Rightarrow> captured_message trace" where
  "sample_records g seeded limit f base n =
     (case build_streams g seeded (sample_settings base) SAMPLE_START n of
        Inl e \<Rightarrow> ([], Raised e)
      | Inr t \<Rightarrow> (case islice SAMPLE_MESSAGE_COUNT t of (es, stop) \<Rightarrow> sample_loop limit f es stop))"

section \<open>Dispatch\<close>

datatype sink = Stdout | OutputFile ustr

definition DASH :: ustr where
  "DASH = ascii ''-''"

definition open_out :: "(ustr \<Rightarrow> py_exc option) \<Rightarrow> ustr \<Rightarrow> sink res" where
  "open_out cannot_write path =
     (if path = DASH then Inr Stdout
      else case cannot_write path of Some e \<Rightarrow> Inl e | None \<Rightarrow> Inr (OutputFile path))"

definition open_source :: "ustr \<Rightarrow> (ustr \<Rightarrow> ustr res) \<Rightarrow> ustr \<Rightarrow> ustr res" where
  "open_source stdin read path = (if path = DASH then Inr stdin else read path)"

text \<open>Writing stops at the first record that does not encode.\<close>

fun write_records :: "(wall_clock \<Rightarrow> ustr) \<Rightarrow> captured_message list \<Rightarrow> stop \<Rightarrow> ustr list \<Rightarrow> stop \<times> ustr list" where
  "write_records isoformat [] stop out = (stop, out)"
| "write_records isoformat (m # ms) stop out =
     (case encode_record isoformat m of
        Inl e \<Rightarrow> (Raised e, out)
      | Inr line \<Rightarrow> write_records isoformat ms stop (out @ [line @ [10]]))"

text \<open>The world of one run: the streams, and what each edge meets.\<close>

record cli_world =
  cw_cannot_write :: "ustr \<Rightarrow> py_exc option"
  cw_stdin :: ustr
  cw_read :: "ustr \<Rightarrow> ustr res"
  cw_arrivals :: "capture_command \<Rightarrow> capture_event list"
  cw_connection :: "py_exc option"
  cw_start :: pyfloat
  cw_broker :: "nat \<Rightarrow> pyfloat \<times> py_exc option"
  cw_sample :: "captured_message trace"

datatype cli_end = Running | Exited "int res"

record cli_result =
  cr_end :: cli_end
  cr_written :: "(sink \<times> ustr list) option"
  cr_published :: "(ustr \<times> bytes) list"

definition cli_main ::
  "(subparser list \<Rightarrow> 'a \<Rightarrow> namespace res) \<Rightarrow> nat \<Rightarrow> (wall_clock \<Rightarrow> ustr) \<Rightarrow> (ustr \<Rightarrow> captured_time res) \<Rightarrow>
   cli_world \<Rightarrow> 'a \<Rightarrow> cli_result" where
  "cli_main parse limit isoformat fromisoformat w argv =
     (let failed = (\<lambda>e. \<lparr>cr_end = Exited (Inl e), cr_written = None, cr_published = []\<rparr>) in
      case parse_command parse argv of
        Inl e \<Rightarrow> failed e
      | Inr (CaptureCommand c) \<Rightarrow>
          (case open_out (cw_cannot_write w) (cc_out c) of
             Inl e \<Rightarrow> failed e
           | Inr sink \<Rightarrow>
               (case capture isoformat (cc_count c) (cw_arrivals w c) of
                  (end, out) \<Rightarrow>
                    \<lparr>cr_end = (case end of StillWaiting \<Rightarrow> Running | Captured n \<Rightarrow> Exited (Inr 0) | CaptureRaised e \<Rightarrow> Exited (Inl e)),
                     cr_written = Some (sink, out), cr_published = []\<rparr>))
      | Inr (ReplayCommand c) \<Rightarrow>
          (case open_source (cw_stdin w) (cw_read w) (rc_source c) of
             Inl e \<Rightarrow> failed e
           | Inr content \<Rightarrow>
               (case replay limit fromisoformat (cw_connection w) (cw_start w) (cw_broker w) (file_lines content) (rc_speed c) of
                  (r, lg) \<Rightarrow>
                    \<lparr>cr_end = (case r of None \<Rightarrow> Running | Some (Inl e) \<Rightarrow> Exited (Inl e) | Some (Inr n) \<Rightarrow> Exited (Inr 0)),
                     cr_written = None,
                     cr_published = rl_published lg\<rparr>))
      | Inr (SampleCommand out) \<Rightarrow>
          (case open_out (cw_cannot_write w) out of
             Inl e \<Rightarrow> failed e
           | Inr sink \<Rightarrow>
               (case cw_sample w of (ms, stop) \<Rightarrow>
                case write_records isoformat ms stop [] of
                  (stop', lines) \<Rightarrow>
                    \<lparr>cr_end = (case stop' of OutOfFuel \<Rightarrow> Running | Raised e \<Rightarrow> Exited (Inl e) | StopIteration \<Rightarrow> Exited (Inr 0)),
                     cr_written = Some (sink, lines), cr_published = []\<rparr>)))"

text \<open>The instant at which a message was captured.\<close>

definition arrival :: "captured_message \<Rightarrow> int" where
  "arrival m = (case cm_captured_at m of Zoned w \<Rightarrow> wall_us w - offset_us w | Zoneless t \<Rightarrow> t)"

end
