(* ===== verification/Cli_Claims.thy ===== *)
theory Cli_Claims
  imports Cli_App
begin

text \<open>
  The properties of the command line: what a parsed command satisfies, the sample's independence of
  the environment, and the way of a message through a capture, a file and a replay. Claim numbers
  are those of the whole development.
\<close>

section \<open>Parsed commands\<close>

text \<open>A capture has a bound and a replay a pace, but for NaN, which no check rejects.\<close>

lemma parse_command_checks:
  "parse_command parse argv = Inr (CaptureCommand c) \<Longrightarrow>
     (cc_count c \<noteq> None \<or> cc_duration_seconds c \<noteq> None) \<and> (\<forall>n. cc_count c = Some n \<longrightarrow> 1 \<le> n) \<and>
     (\<forall>d. cc_duration_seconds c = Some d \<longrightarrow> \<not> fle d (Fin 0))"
  "parse_command parse argv = Inr (ReplayCommand r) \<Longrightarrow> (\<forall>v. rc_speed r = Some v \<longrightarrow> \<not> fle v (Fin 0))"
  by (auto simp: parse_command_def parser_error_def DEFAULT_SPEED_def split: namespace.splits option.splits if_splits)

lemma nan_speed_accepted:
  "parse_command (\<lambda>_ _. Inr (ReplayArgs host port (Some NaN) False source)) argv =
     Inr (ReplayCommand \<lparr>rc_host = host, rc_port = port, rc_speed = Some NaN, rc_source = source\<rparr>)"
  by (simp add: parse_command_def)

section \<open>The sample\<close>

text \<open>No setting the sample does not fix has a part in it.\<close>

lemma emission_loop_rates:
  assumes "sim_duplicate_rate cfg = sim_duplicate_rate cfg'" and "sim_out_of_order_rate cfg = sim_out_of_order_rate cfg'"
    and "sim_malformed_rate cfg = sim_malformed_rate cfg'" and "sim_missed_checkin_rate cfg = sim_missed_checkin_rate cfg'"
  shows "emission_loop g cfg wake readings st rs = emission_loop g cfg' wake readings st rs"
proof -
  have "emit_current cfg = emit_current cfg'"
    by (intro ext) (simp add: emit_current_def assms Let_def)
  then have "emit_wake cfg = emit_wake cfg'" by (intro ext) (simp add: emit_wake_def)
  then show ?thesis
    by (induction readings arbitrary: wake st rs) (simp_all split: prod.split)
qed

lemma sample_ignores_environment:
  "sample_records g seeded limit f base n = sample_records g seeded limit f base' n"
proof -
  have loop: "emission_loop g (sample_settings base) = emission_loop g (sample_settings base')"
    by (intro ext emission_loop_rates) (simp_all add: sample_settings_def)
  have "device_stream g seeded (sample_settings base) start interval n index =
      device_stream g seeded (sample_settings base') start interval n index" for start interval index
    unfolding device_stream_def device_emissions_def loop by (simp add: seed_text_def sample_settings_def)
  then have "device_stream g seeded (sample_settings base) start interval n =
      device_stream g seeded (sample_settings base') start interval n" for start interval by (intro ext)
  then have "build_streams g seeded (sample_settings base) SAMPLE_START n = build_streams g seeded (sample_settings base') SAMPLE_START n"
    unfolding build_streams_def by (simp add: sample_settings_def)
  then show ?thesis by (simp add: sample_records_def)
qed

section \<open>The properties\<close>

text \<open>
  C40: the pace of a replay. For a positive speed, every record of aware times gets an offset; the
  first is zero and they never decrease, whatever order the captured times have. A speed that is not
  positive raises \<open>ValueError\<close> before the first record, but NaN is let through, and every offset after
  the first is then NaN, so that no delay is ever made.
\<close>

theorem replay_paced:
  assumes "\<forall>t \<in> set ts. dt_ok t"
  shows "(flt (Fin 0) speed \<longrightarrow>
       (\<exists>offsets. replay_offsets (map Aware ts) speed = (offsets, StopIteration) \<and> length offsets = length ts \<and>
          sorted (Fin 0 # offsets) \<and> (ts \<noteq> [] \<longrightarrow> hd offsets = Fin 0))) \<and>
    (fle speed (Fin 0) \<longrightarrow> replay_offsets (map Aware ts) speed = ([], Raised ValueError)) \<and>
    (speed = NaN \<longrightarrow> ts \<noteq> [] \<longrightarrow>
       replay_offsets (map Aware ts) speed = (Fin 0 # replicate (length ts - 1) NaN, StopIteration))"
proof (intro conjI impI)
  assume "flt (Fin 0) speed"
  then show "\<exists>offsets. replay_offsets (map Aware ts) speed = (offsets, StopIteration) \<and>
      length offsets = length ts \<and> sorted (Fin 0 # offsets) \<and> (ts \<noteq> [] \<longrightarrow> hd offsets = Fin 0)"
    by (rule replay_offsets_instants [OF _ assms]) blast
next
  assume "fle speed (Fin 0)"
  then show "replay_offsets (map Aware ts) speed = ([], Raised ValueError)" by (simp add: replay_offsets_def)
next
  assume "speed = NaN" and "ts \<noteq> []"
  then show "replay_offsets (map Aware ts) speed = (Fin 0 # replicate (length ts - 1) NaN, StopIteration)"
    using replay_offsets_NaN [of "hd ts" "tl ts"] by (cases ts) simp_all
qed

theorem replay_paced_witness:
  "\<exists>offsets. replay_offsets (map Aware [5000000, 3000000, 9000000]) (Fin 100) = (offsets, StopIteration) \<and>
     length offsets = length [5000000 :: int, 3000000, 9000000] \<and> sorted (Fin 0 # offsets) \<and> hd offsets = Fin 0"
proof -
  have "\<forall>t \<in> set [5000000, 3000000, 9000000]. dt_ok t" by (simp add: dt_ok_def dt_min_def dt_max_def)
  from replay_paced [OF this, of "Fin 100"] show ?thesis by simp
qed

text \<open>
  C19: a capture replays as it was captured. The lines a capture command has written, whatever ended
  it, are read back by a replay command as the messages received, in order; with a working broker the
  replay publishes on their topics exactly the payloads captured, byte for byte, and exits with 0. The one
  exception is a delay that is infinite, which with ordinary clocks takes a speed so small that a gap overflows: the
  replay then sleeps for ever before that record, having published, unchanged, all those before it.
\<close>

theorem capture_then_replay:
  assumes "iso_inverse isoformat fromisoformat" and "1 \<le> limit"
    and "parse_command parse argv = Inr (CaptureCommand c)"
    and "cr_written (cli_main parse limit isoformat fromisoformat w argv) = Some (sink, out)"
    and "\<forall>m \<in> set (received (cw_arrivals w c)). cm_topic m \<noteq> [] \<and> dt_ok (arrival m)"
    and "parse_command parse argv' = Inr (ReplayCommand c')"
    and "open_source (cw_stdin w') (cw_read w') (rc_source c') = Inr (concat out)"
    and "cw_connection w' = None" and "\<forall>i. snd (cw_broker w' i) = None"
    and "rc_speed c' \<noteq> Some NaN"
  shows "let r = cli_main parse limit isoformat fromisoformat w' argv';
             ms = take (length out) (received (cw_arrivals w c));
             n = length (cr_published r)
         in (cr_end r = Exited (Inr 0) \<and> cr_published r = as_published ms) \<or>
            (cr_end r = Running \<and> strict_prefix (cr_published r) (as_published ms) \<and>
             delay_of (cw_start w') (cw_broker w') n (offset_at (rc_speed c') ms n) = PInf)"
proof -
  let ?ms = "take (length out) (received (cw_arrivals w c))"
  obtain r where cap: "capture isoformat (cc_count c) (cw_arrivals w c) = (r, out)"
    using assms(3,4) by (auto simp: cli_main_def Let_def split: sum.splits prod.splits)
  have again: "decoded_lines limit fromisoformat (file_lines (concat out)) = (?ms, StopIteration)"
    by (rule capture_reads_back [OF cap assms(1,2)]) (use assms(5) in blast)
  have speed: "case rc_speed c' of None \<Rightarrow> True | Some v \<Rightarrow> flt (Fin 0) v"
  proof (cases "rc_speed c'")
    case (Some v)
    then have "\<not> fle v (Fin 0)" using parse_command_checks(2) [OF assms(6)] by blast
    then show ?thesis using Some assms(10) not_flt_iff [of "Fin 0" v] by auto
  qed simp
  have zoned: "\<forall>m \<in> set ?ms. \<exists>v. cm_captured_at m = Zoned v \<and> dt_ok (wall_us v - offset_us v)"
  proof
    fix m assume "m \<in> set ?ms"
    then have m: "m \<in> set (received (cw_arrivals w c))" by (rule in_set_takeD)
    then show "\<exists>v. cm_captured_at m = Zoned v \<and> dt_ok (wall_us v - offset_us v)"
      using received_Zoned [OF m] assms(5) by (auto simp: arrival_def)
  qed
  obtain o2 lg where run: "replay limit fromisoformat None (cw_start w') (cw_broker w') (file_lines (concat out)) (rc_speed c') = (o2, lg)"
    by force
  have r: "cli_main parse limit isoformat fromisoformat w' argv' =
      \<lparr>cr_end = (case o2 of None \<Rightarrow> Running | Some (Inl e) \<Rightarrow> Exited (Inl e) | Some (Inr n) \<Rightarrow> Exited (Inr 0)),
       cr_written = None, cr_published = rl_published lg\<rparr>"
    using assms(6-8) run by (simp add: cli_main_def Let_def)
  from replay_ok [OF again assms(9) zoned speed run] show ?thesis
  proof (elim disjE conjE)
    assume "o2 = Some (Inr (length ?ms))"
    then show ?thesis using r replay_publishes [OF again run] by (simp add: Let_def)
  next
    assume o: "o2 = None" "length (rl_published lg) < length ?ms"
      "delay_of (cw_start w') (cw_broker w') (length (rl_published lg)) (offset_at (rc_speed c') ?ms (length (rl_published lg))) = PInf"
    have "strict_prefix (rl_published lg) (as_published ?ms)"
      using replay_publishes [OF again run] o(2) by (intro strict_prefixI) auto
    then show ?thesis using r o by (simp add: Let_def)
  qed
qed

definition demo_iso :: "wall_clock \<Rightarrow> ustr" where
  "demo_iso w = [of_bool (wall_us w < 0), nat \<bar>wall_us w\<bar>, of_bool (offset_us w < 0), nat \<bar>offset_us w\<bar>]"

definition demo_from_iso :: "ustr \<Rightarrow> captured_time res" where
  "demo_from_iso s =
     (case s of
        [a, b, c, d] \<Rightarrow> Inr (Zoned \<lparr>wall_us = (if a = 1 then - int b else int b), offset_us = (if c = 1 then - int d else int d)\<rparr>)
      | _ \<Rightarrow> Inl ValueError)"

lemma demo_iso_inverse: "iso_inverse demo_iso demo_from_iso"
  by (auto simp: iso_inverse_def demo_iso_def demo_from_iso_def)

definition demo_message :: captured_message where
  "demo_message = \<lparr>cm_topic = ascii ''planter/v1/a/telemetry'', cm_payload = [1, 255],
     cm_captured_at = Zoned \<lparr>wall_us = 7, offset_us = 0\<rparr>\<rparr>"

definition demo_world :: "capture_event list \<Rightarrow> ustr \<Rightarrow> cli_world" where
  "demo_world events input =
     \<lparr>cw_cannot_write = \<lambda>_. None, cw_stdin = input, cw_read = \<lambda>_. Inl OSError, cw_arrivals = \<lambda>_. events,
      cw_connection = None, cw_start = Fin 0, cw_broker = \<lambda>_. (Fin 0, None), cw_sample = ([], StopIteration)\<rparr>"

theorem capture_then_replay_witness:
  "cr_published (cli_main (\<lambda>_ args. Inr args) 1 demo_iso demo_from_iso
       (demo_world [] (record_line demo_iso demo_message @ [10])) (ReplayArgs [] 1883 (Some (Fin 10)) False DASH)) =
     [(ascii ''planter/v1/a/telemetry'', [1, 255])]"
proof -
  let ?parse = "\<lambda>_ args. Inr args" and ?out = "[record_line demo_iso demo_message @ [10]]"
  let ?events = "[Received (ascii ''planter/v1/a/telemetry'') [1, 255] 7, DurationOver]"
  let ?c = "CaptureArgs [] 1883 [] (Some 1) None DASH" and ?r = "ReplayArgs [] 1883 (Some (Fin 10)) False DASH"
  let ?cc = "\<lparr>cc_host = [], cc_port = 1883, cc_topic = [], cc_count = Some 1, cc_duration_seconds = None, cc_out = DASH\<rparr>"
  let ?rc = "\<lparr>rc_host = [], rc_port = 1883, rc_speed = Some (Fin 10), rc_source = DASH\<rparr>"
  have p: "parse_command ?parse ?c = Inr (CaptureCommand ?cc)" "parse_command ?parse ?r = Inr (ReplayCommand ?rc)"
    by (simp_all add: parse_command_def)
  have e: "encode_record demo_iso demo_message = Inr (record_line demo_iso demo_message)"
    by (rule record_line_Zoned) (simp add: demo_message_def)
  have m: "\<lparr>cm_topic = ascii ''planter/v1/a/telemetry'', cm_payload = [1, 255],
     cm_captured_at = Zoned \<lparr>wall_us = 7, offset_us = 0\<rparr>\<rparr> = demo_message" by (simp add: demo_message_def)
  have "capture demo_iso (Some 1) ?events = (Captured 1, ?out)"
    by (simp add: capture_def m e del: ascii_simps)
  then have w: "cr_written (cli_main ?parse 1 demo_iso demo_from_iso (demo_world ?events []) ?c) = Some (Stdout, ?out)"
    by (simp add: cli_main_def Let_def p(1) open_out_def demo_world_def)
  have r: "received (cw_arrivals (demo_world ?events []) ?cc) = [demo_message]"
    by (simp add: demo_world_def m del: ascii_simps)
  have t: "\<forall>m \<in> set (received (cw_arrivals (demo_world ?events []) ?cc)). cm_topic m \<noteq> [] \<and> dt_ok (arrival m)"
    unfolding r by (simp add: demo_message_def arrival_def dt_ok_def dt_min_def dt_max_def)
  have "open_source (cw_stdin (demo_world [] (concat ?out))) (cw_read (demo_world [] (concat ?out))) (rc_source ?rc) = Inr (concat ?out)"
    by (simp add: open_source_def demo_world_def)
  note replayed = capture_then_replay [OF demo_iso_inverse _ p(1) w t p(2) this]
  have first: "delay_of (Fin 0) (\<lambda>_. (Fin 0, None)) n (offset_at (Some (Fin 10)) [demo_message] n) \<noteq> PInf" if "n = 0" for n :: nat
    using that by (simp add: offset_at_def demo_message_def replay_offsets_def pace_def first_pacer_def yielding_def)
  from replayed show ?thesis
    using first by (auto simp: r demo_world_def Let_def strict_prefix_def prefix_Cons) (simp_all add: demo_message_def)
qed

end
