(* ===== verification/Migrations.thy ===== *)
theory Migrations
  imports Prelude
begin

text \<open>
  \<^verbatim>\<open>migrations/versions\<close>: the ten revisions as lists of statements, and what a statement does to the
  server's catalog, as far as later statements and readers depend on it. A statement that is not
  guarded raises if its object exists; a guarded one leaves an existing object alone. A view is
  replaced only by one that keeps its columns.
\<close>

section \<open>The catalog\<close>

record column =
  col_name :: string
  col_type :: string
  col_not_null :: bool
  col_default :: string

text \<open>The two forms of the view of the latest forecasts: over all rows, or per device and kind.\<close>

datatype latest_query = DistinctOn | PerDeviceAndKind "string list"

datatype relation =
    Table "column list" "string list list"
  | Rollup string "(string \<times> string) list"
  | View "string list" latest_query

record catalog =
  ct_relations :: "(string \<times> relation) list"
  ct_hypertables :: "(string \<times> string \<times> string) list"
  ct_columnstore :: "(string \<times> string \<times> string) list"
  ct_policies :: "(string \<times> string list) list"
  ct_indexes :: "(string \<times> string \<times> string list) list"
  ct_roles :: "string list"
  ct_usage :: "string list"
  ct_grants :: "(string \<times> string) list"
  ct_default_readers :: "string list"
  ct_read_only :: "string list"
  ct_version :: "string option"

definition empty_catalog :: catalog where
  "empty_catalog =
     \<lparr>ct_relations = [], ct_hypertables = [], ct_columnstore = [], ct_policies = [], ct_indexes = [], ct_roles = [],
      ct_usage = [], ct_grants = [], ct_default_readers = [], ct_read_only = [], ct_version = None\<rparr>"

section \<open>Statements\<close>

datatype ddl =
    CreateTable string "column list" "string list list"
  | DropTable string
  | CreateHypertable string string string
  | CreateRollupIfNotExists string string "(string \<times> string) list"
  | AddPolicyIfNotExists string "string list"
  | EnableColumnstore string string string
  | CreateIndex string string "string list"
  | CreateRoleUnlessExists string
  | GrantUsage string
  | GrantSelectAll string
  | GrantSelectByDefault string
  | SetReadOnly string
  | CreateView string "string list" "string list" latest_query
  | CreateOrReplaceView string "string list" "string list" latest_query
  | GrantSelect "string list" string

definition exists :: "string \<Rightarrow> catalog \<Rightarrow> bool" where
  "exists n c \<longleftrightarrow> map_of (ct_relations c) n \<noteq> None"

definition ensured :: "bool \<Rightarrow> catalog \<Rightarrow> catalog res" where
  "ensured b c = (if b then Inr c else Inl PsycopgError)"

text \<open>A new relation is readable by the roles the default privileges name.\<close>

definition add_relation :: "string \<Rightarrow> relation \<Rightarrow> catalog \<Rightarrow> catalog" where
  "add_relation n r c =
     c\<lparr>ct_relations := ct_relations c @ [(n, r)],
       ct_grants := fold (\<lambda>role gs. gs @ [(role, n)]) (ct_default_readers c) (ct_grants c)\<rparr>"

definition add_once :: "'a \<Rightarrow> 'a list \<Rightarrow> 'a list" where
  "add_once x xs = (if x \<in> set xs then xs else xs @ [x])"

fun apply_ddl :: "ddl \<Rightarrow> catalog \<Rightarrow> catalog res" where
  "apply_ddl (CreateTable n cols keys) c = ensured (\<not> exists n c) (add_relation n (Table cols keys) c)"
| "apply_ddl (DropTable n) c =
     ensured (exists n c)
       (c\<lparr>ct_relations := filter (\<lambda>(m, r). m \<noteq> n) (ct_relations c),
          ct_grants := filter (\<lambda>(role, m). m \<noteq> n) (ct_grants c),
          ct_indexes := filter (\<lambda>(i, m, ks). m \<noteq> n) (ct_indexes c)\<rparr>)"
| "apply_ddl (CreateHypertable n by chunk) c =
     (case map_of (ct_relations c) n of
        Some (Table cols keys) \<Rightarrow>
          ensured (map_of (ct_hypertables c) n = None \<and> (\<forall>key \<in> set keys. by \<in> set key))
            (c\<lparr>ct_hypertables := ct_hypertables c @ [(n, by, chunk)]\<rparr>)
      | _ \<Rightarrow> Inl PsycopgError)"
| "apply_ddl (CreateRollupIfNotExists n bucket cols) c =
     (if exists n c then Inr c
      else ensured (map_of (ct_hypertables c) ''telemetry'' \<noteq> None) (add_relation n (Rollup bucket cols) c))"
| "apply_ddl (AddPolicyIfNotExists n args) c =
     ensured (exists n c)
       (if map_of (ct_policies c) n = None then c\<lparr>ct_policies := ct_policies c @ [(n, args)]\<rparr> else c)"
| "apply_ddl (EnableColumnstore n segment order) c =
     ensured (map_of (ct_hypertables c) n \<noteq> None)
       (c\<lparr>ct_columnstore := add_once (n, segment, order) (filter (\<lambda>(m, s). m \<noteq> n) (ct_columnstore c))\<rparr>)"
| "apply_ddl (CreateIndex i n keys) c =
     ensured (map_of (ct_indexes c) i = None \<and> exists n c) (c\<lparr>ct_indexes := ct_indexes c @ [(i, n, keys)]\<rparr>)"
| "apply_ddl (CreateRoleUnlessExists role) c = Inr (c\<lparr>ct_roles := add_once role (ct_roles c)\<rparr>)"
| "apply_ddl (GrantUsage role) c =
     ensured (role \<in> set (ct_roles c)) (c\<lparr>ct_usage := add_once role (ct_usage c)\<rparr>)"
| "apply_ddl (GrantSelectAll role) c =
     ensured (role \<in> set (ct_roles c))
       (c\<lparr>ct_grants := fold (\<lambda>n. add_once (role, n)) (map fst (ct_relations c)) (ct_grants c)\<rparr>)"
| "apply_ddl (GrantSelectByDefault role) c =
     ensured (role \<in> set (ct_roles c)) (c\<lparr>ct_default_readers := add_once role (ct_default_readers c)\<rparr>)"
| "apply_ddl (SetReadOnly role) c =
     ensured (role \<in> set (ct_roles c)) (c\<lparr>ct_read_only := add_once role (ct_read_only c)\<rparr>)"
| "apply_ddl (CreateView n cols tables q) c =
     ensured (\<not> exists n c \<and> (\<forall>m \<in> set tables. exists m c)) (add_relation n (View cols q) c)"
| "apply_ddl (CreateOrReplaceView n cols tables q) c =
     (case map_of (ct_relations c) n of
        None \<Rightarrow> ensured (\<forall>m \<in> set tables. exists m c) (add_relation n (View cols q) c)
      | Some (View old q') \<Rightarrow>
          ensured ((\<forall>m \<in> set tables. exists m c) \<and> take (length old) cols = old)
            (c\<lparr>ct_relations := map (\<lambda>(m, r). if m = n then (m, View cols q) else (m, r)) (ct_relations c)\<rparr>)
      | Some r \<Rightarrow> Inl PsycopgError)"
| "apply_ddl (GrantSelect names role) c =
     ensured (role \<in> set (ct_roles c) \<and> (\<forall>n \<in> set names. exists n c))
       (c\<lparr>ct_grants := fold (\<lambda>n. add_once (role, n)) names (ct_grants c)\<rparr>)"

section \<open>The revisions\<close>

record migration =
  mg_revision :: string
  mg_down_revision :: "string option"
  mg_autocommit :: bool
  mg_upgrade :: "ddl list"
  mg_downgrade :: "ddl list option"

abbreviation (input) required :: "string \<Rightarrow> string \<Rightarrow> column" where
  "required n ty \<equiv> \<lparr>col_name = n, col_type = ty, col_not_null = True, col_default = ''''\<rparr>"

abbreviation (input) nullable :: "string \<Rightarrow> string \<Rightarrow> column" where
  "nullable n ty \<equiv> \<lparr>col_name = n, col_type = ty, col_not_null = False, col_default = ''''\<rparr>"

abbreviation (input) defaulted :: "string \<Rightarrow> string \<Rightarrow> string \<Rightarrow> column" where
  "defaulted n ty d \<equiv> \<lparr>col_name = n, col_type = ty, col_not_null = True, col_default = d\<rparr>"

definition telemetry_columns :: "column list" where
  "telemetry_columns =
     [required ''device_id'' ''text'', required ''measured_at'' ''timestamptz'',
      required ''water_level'' ''double precision'', required ''battery_voltage'' ''double precision'',
      required ''schema_version'' ''smallint'', defaulted ''received_at'' ''timestamptz'' ''now()'']"

definition dead_letter_columns :: "column list" where
  "dead_letter_columns =
     [defaulted ''id'' ''bigint'' ''identity'', required ''topic'' ''text'', required ''payload'' ''bytea'',
      required ''reason'' ''text'', defaulted ''received_at'' ''timestamptz'' ''now()'']"

definition m2_schema :: "ddl list" where
  "m2_schema =
     [CreateTable ''telemetry'' telemetry_columns [[''device_id'', ''measured_at'']],
      CreateTable ''dead_letter'' dead_letter_columns [[''id'']]]"

definition rev0001 :: migration where
  "rev0001 = \<lparr>mg_revision = ''0001'', mg_down_revision = None, mg_autocommit = False, mg_upgrade = m2_schema,
     mg_downgrade = Some [DropTable ''dead_letter'', DropTable ''telemetry'']\<rparr>"

definition devices_columns :: "column list" where
  "devices_columns =
     [required ''device_id'' ''text'', required ''first_seen'' ''timestamptz'', required ''last_seen'' ''timestamptz'',
      defaulted ''metadata'' ''jsonb'' ''{}'']"

definition rev0002 :: migration where
  "rev0002 = \<lparr>mg_revision = ''0002'', mg_down_revision = Some ''0001'', mg_autocommit = False,
     mg_upgrade = [CreateTable ''devices'' devices_columns [[''device_id'']]],
     mg_downgrade = Some [DropTable ''devices'']\<rparr>"

definition rev0003 :: migration where
  "rev0003 = \<lparr>mg_revision = ''0003'', mg_down_revision = Some ''0002'', mg_autocommit = False,
     mg_upgrade = [CreateHypertable ''telemetry'' ''measured_at'' ''1 day''], mg_downgrade = None\<rparr>"

text \<open>The columns of a rollup, each with the expression it holds per device and bucket.\<close>

definition rollup_columns :: "(string \<times> string) list" where
  "rollup_columns =
     [(''device_id'', ''device_id''), (''bucket'', ''time_bucket(measured_at)''), (''water_avg'', ''avg(water_level)''),
      (''water_min'', ''min(water_level)''), (''water_max'', ''max(water_level)''), (''battery_avg'', ''avg(battery_voltage)''),
      (''battery_min'', ''min(battery_voltage)''), (''sample_count'', ''count(*)'')]"

definition rev0004 :: migration where
  "rev0004 = \<lparr>mg_revision = ''0004'', mg_down_revision = Some ''0003'', mg_autocommit = True,
     mg_upgrade =
       [CreateRollupIfNotExists ''telemetry_hourly'' ''1 hour'' rollup_columns,
        CreateRollupIfNotExists ''telemetry_daily'' ''1 day'' rollup_columns,
        AddPolicyIfNotExists ''telemetry_hourly'' [''6 hours'', ''1 hour'', ''15 minutes''],
        AddPolicyIfNotExists ''telemetry_daily'' [''3 days'', ''1 day'', ''1 hour'']],
     mg_downgrade = None\<rparr>"

definition rev0005 :: migration where
  "rev0005 = \<lparr>mg_revision = ''0005'', mg_down_revision = Some ''0004'', mg_autocommit = True,
     mg_upgrade = [EnableColumnstore ''telemetry'' ''device_id'' ''measured_at DESC'',
        AddPolicyIfNotExists ''telemetry'' [''7 days'']],
     mg_downgrade = None\<rparr>"

definition ingest_events_columns :: "column list" where
  "ingest_events_columns =
     [defaulted ''id'' ''bigint'' ''identity'', required ''event'' ''text'', nullable ''device_id'' ''text'',
      nullable ''measured_at'' ''timestamptz'', defaulted ''occurred_at'' ''timestamptz'' ''now()'']"

definition rev0006 :: migration where
  "rev0006 = \<lparr>mg_revision = ''0006'', mg_down_revision = Some ''0005'', mg_autocommit = False,
     mg_upgrade = [CreateTable ''ingest_events'' ingest_events_columns [[''id'']],
        CreateIndex ''ingest_events_occurred_at_idx'' ''ingest_events'' [''occurred_at'']],
     mg_downgrade = None\<rparr>"

definition rev0007 :: migration where
  "rev0007 = \<lparr>mg_revision = ''0007'', mg_down_revision = Some ''0006'', mg_autocommit = False,
     mg_upgrade = [CreateRoleUnlessExists ''grafana_reader'', GrantUsage ''grafana_reader'',
        GrantSelectAll ''grafana_reader'', GrantSelectByDefault ''grafana_reader'', SetReadOnly ''grafana_reader''],
     mg_downgrade = None\<rparr>"

definition forecasts_columns :: "column list" where
  "forecasts_columns =
     [required ''device_id'' ''text'', required ''kind'' ''text'', required ''as_of'' ''timestamptz'',
      required ''status'' ''text'', required ''target_value'' ''double precision'',
      nullable ''latest_value'' ''double precision'', nullable ''crosses_at'' ''timestamptz'',
      nullable ''crosses_at_earliest'' ''timestamptz'', nullable ''crosses_at_latest'' ''timestamptz'',
      nullable ''slope_per_hour'' ''double precision'', nullable ''residual_mad'' ''double precision'',
      nullable ''fit_points'' ''integer'', nullable ''segment_points'' ''integer'',
      nullable ''fit_span_seconds'' ''double precision'', defaulted ''truncated'' ''boolean'' ''false'',
      defaulted ''computed_at'' ''timestamptz'' ''now()'']"

definition latest_columns :: "string list" where
  "latest_columns =
     [''device_id'', ''kind'', ''as_of'', ''status'', ''target_value'', ''latest_value'', ''crosses_at'',
      ''crosses_at_earliest'', ''crosses_at_latest'', ''slope_per_hour'', ''residual_mad'', ''fit_points'',
      ''segment_points'', ''fit_span_seconds'', ''truncated'', ''computed_at'', ''horizon_seconds'']"

definition rev0008 :: migration where
  "rev0008 = \<lparr>mg_revision = ''0008'', mg_down_revision = Some ''0007'', mg_autocommit = False,
     mg_upgrade = [CreateTable ''forecasts'' forecasts_columns [[''device_id'', ''kind'', ''as_of'']],
        CreateView ''forecasts_latest'' latest_columns [''forecasts''] DistinctOn,
        GrantSelect [''forecasts'', ''forecasts_latest''] ''grafana_reader''],
     mg_downgrade = None\<rparr>"

definition alert_events_columns :: "column list" where
  "alert_events_columns =
     [defaulted ''id'' ''bigint'' ''identity'', required ''device_id'' ''text'', required ''kind'' ''text'',
      required ''state'' ''text'', required ''as_of'' ''timestamptz'', nullable ''crosses_at'' ''timestamptz'',
      nullable ''horizon_seconds'' ''double precision'', required ''threshold_seconds'' ''double precision'',
      defaulted ''notified'' ''boolean'' ''false'', nullable ''notify_error'' ''text'',
      defaulted ''occurred_at'' ''timestamptz'' ''now()'']"

definition rev0009 :: migration where
  "rev0009 = \<lparr>mg_revision = ''0009'', mg_down_revision = Some ''0008'', mg_autocommit = False,
     mg_upgrade = [CreateTable ''alert_events'' alert_events_columns [[''id''], [''device_id'', ''kind'', ''as_of'', ''state'']],
        CreateIndex ''alert_events_state_idx'' ''alert_events'' [''device_id'', ''kind'', ''as_of DESC''],
        GrantSelect [''alert_events''] ''grafana_reader''],
     mg_downgrade = None\<rparr>"

definition rev0010 :: migration where
  "rev0010 = \<lparr>mg_revision = ''0010'', mg_down_revision = Some ''0009'', mg_autocommit = False,
     mg_upgrade = [CreateOrReplaceView ''forecasts_latest'' latest_columns [''devices'', ''forecasts'']
          (PerDeviceAndKind [''water'', ''battery'']),
        GrantSelect [''forecasts_latest''] ''grafana_reader''],
     mg_downgrade = None\<rparr>"

definition migrations :: "migration list" where
  "migrations = [rev0001, rev0002, rev0003, rev0004, rev0005, rev0006, rev0007, rev0008, rev0009, rev0010]"

text \<open>One chain with one head: each revision names the one before it.\<close>

lemma migrations_chain:
  "map mg_down_revision migrations = None # map Some (butlast (map mg_revision migrations)) \<and>
   distinct (map mg_revision migrations)"
  by (simp add: migrations_def rev0001_def rev0002_def rev0003_def rev0004_def rev0005_def rev0006_def rev0007_def
      rev0008_def rev0009_def rev0010_def)

end
