(* ===== verification/Migrate.thy ===== *)
theory Migrate
  imports Migrations Py_Float Simulator_Publisher
begin

text \<open>
  \<^verbatim>\<open>migrate.py\<close>: waiting for the server, stamping a database of the M2 init script, and upgrading to
  the head revision. Alembic runs the pending revisions in one transaction, which an autocommit
  block of a revision splits; a process may be killed between any two actions, and then the server
  keeps what was committed.
\<close>

section \<open>Running the revisions\<close>

datatype action = Execute ddl | Stamp string | Commit

definition actions_of :: "migration \<Rightarrow> action list" where
  "actions_of m =
     (if mg_autocommit m then Commit # concat (map (\<lambda>s. [Execute s, Commit]) (mg_upgrade m))
      else map Execute (mg_upgrade m)) @ [Stamp (mg_revision m)]"

definition pending :: "string option \<Rightarrow> migration list" where
  "pending version =
     (case version of
        None \<Rightarrow> migrations
      | Some v \<Rightarrow> tl (dropWhile (\<lambda>m. mg_revision m \<noteq> v) migrations))"

definition upgrade_plan :: "string option \<Rightarrow> action list" where
  "upgrade_plan version = concat (map actions_of (pending version)) @ [Commit]"

text \<open>The committed catalog after some actions, from a committed and a working one.\<close>

fun perform :: "action list \<Rightarrow> catalog \<Rightarrow> catalog \<Rightarrow> catalog \<times> unit res" where
  "perform [] committed working = (committed, Inr ())"
| "perform (Execute s # as) committed working =
     (case apply_ddl s working of
        Inl e \<Rightarrow> (committed, Inl e)
      | Inr working' \<Rightarrow> perform as committed working')"
| "perform (Stamp v # as) committed working = perform as committed (working\<lparr>ct_version := Some v\<rparr>)"
| "perform (Commit # as) committed working = perform as working working"

definition BASELINE_REVISION :: string where
  "BASELINE_REVISION = ''0001''"

definition is_pre_alembic_m2 :: "catalog \<Rightarrow> bool" where
  "is_pre_alembic_m2 c \<longleftrightarrow> exists ''telemetry'' c \<and> ct_version c = None"

definition upgrade_actions :: "catalog \<Rightarrow> action list" where
  "upgrade_actions c =
     (if is_pre_alembic_m2 c then [Stamp BASELINE_REVISION, Commit] @ upgrade_plan (Some BASELINE_REVISION)
      else upgrade_plan (ct_version c))"

definition upgrade :: "catalog \<Rightarrow> catalog \<times> unit res" where
  "upgrade c = perform (upgrade_actions c) c c"

definition killed_upgrade :: "nat \<Rightarrow> catalog \<Rightarrow> catalog" where
  "killed_upgrade k c = fst (perform (take k (upgrade_actions c)) c c)"

text \<open>One step down; a revision without a downgrade raises.\<close>

definition downgrade :: "migration \<Rightarrow> catalog \<Rightarrow> catalog \<times> unit res" where
  "downgrade m c =
     (case mg_downgrade m of
        None \<Rightarrow> (c, Inl NotImplementedError)
      | Some ss \<Rightarrow> perform (map Execute ss @ [Commit]) c (c\<lparr>ct_version := mg_down_revision m\<rparr>))"

section \<open>Waiting for the server\<close>

text \<open>
  \<open>connects i\<close> is what connection attempt \<open>i\<close> raises, \<open>now i\<close> the clock after its failure. The
  result carries the number of half-second sleeps.
\<close>

partial_function (option) wait_from ::
  "(nat \<Rightarrow> py_exc option) \<Rightarrow> (nat \<Rightarrow> pyfloat) \<Rightarrow> pyfloat \<Rightarrow> nat \<Rightarrow> (nat \<times> unit res) option" where
  "wait_from connects now deadline i =
     (case connects i of
        None \<Rightarrow> Some (i, Inr ())
      | Some e \<Rightarrow>
          if e = OperationalError \<and> \<not> flt deadline (now i) then wait_from connects now deadline (i + 1)
          else Some (i, Inl e))"

definition wait_for_db ::
  "(nat \<Rightarrow> py_exc option) \<Rightarrow> pyfloat \<Rightarrow> (nat \<Rightarrow> pyfloat) \<Rightarrow> pyfloat \<Rightarrow> (nat \<times> unit res) option" where
  "wait_for_db connects start now timeout = wait_from connects now (fadd start timeout) 0"

section \<open>The wait ends\<close>

declare wait_from.simps [code]

definition keeps_waiting :: "(nat \<Rightarrow> py_exc option) \<Rightarrow> (nat \<Rightarrow> pyfloat) \<Rightarrow> pyfloat \<Rightarrow> nat \<Rightarrow> bool" where
  "keeps_waiting connects now deadline i \<longleftrightarrow> connects i = Some OperationalError \<and> \<not> flt deadline (now i)"

lemma wait_from_ends:
  assumes "i \<le> k" and "\<not> keeps_waiting connects now deadline k"
    and "\<forall>j. i \<le> j \<and> j < k \<longrightarrow> keeps_waiting connects now deadline j"
  shows "wait_from connects now deadline i = Some (k, case connects k of None \<Rightarrow> Inr () | Some e \<Rightarrow> Inl e)"
  using assms
proof (induction rule: inc_induct)
  case base
  then show ?case
    by (subst wait_from.simps) (auto simp: keeps_waiting_def split: option.splits)
next
  case (step i)
  have "keeps_waiting connects now deadline i" using step by simp
  moreover have "\<forall>j. Suc i \<le> j \<and> j < k \<longrightarrow> keeps_waiting connects now deadline j" using step.prems by auto
  ultimately show ?case using step.IH step.prems(1)
    by (subst wait_from.simps) (simp add: keeps_waiting_def)
qed

lemma wait_for_db_ends:
  assumes "\<not> keeps_waiting connects now (fadd start timeout) n"
  obtains k where "k \<le> n" "\<not> keeps_waiting connects now (fadd start timeout) k"
    "\<forall>j < k. keeps_waiting connects now (fadd start timeout) j"
    "wait_for_db connects start now timeout = Some (k, case connects k of None \<Rightarrow> Inr () | Some e \<Rightarrow> Inl e)"
proof -
  define k where "k = (LEAST k. \<not> keeps_waiting connects now (fadd start timeout) k)"
  have "\<not> keeps_waiting connects now (fadd start timeout) k" "k \<le> n"
    using LeastI [of "\<lambda>k. \<not> keeps_waiting connects now (fadd start timeout) k" n]
      Least_le [of "\<lambda>k. \<not> keeps_waiting connects now (fadd start timeout) k" n] assms by (auto simp: k_def)
  moreover have "keeps_waiting connects now (fadd start timeout) j" if "j < k" for j
    using not_less_Least [of j "\<lambda>k. \<not> keeps_waiting connects now (fadd start timeout) k"] that by (auto simp: k_def)
  ultimately show ?thesis
    using that [of k] wait_from_ends [of 0 k connects now "fadd start timeout"] by (simp add: wait_for_db_def)
qed

text \<open>A clock that advances by the half second slept passes the deadline.\<close>

lemma clock_passes:
  assumes "\<forall>i. now i = Fin (t i)" and "\<forall>i. t i + 1 / 2 \<le> t (Suc i)"
    and "2 * (D - t 0) < of_nat n"
  shows "flt (Fin D) (now n)"
proof -
  have "t 0 + of_nat n / 2 \<le> t n" for n
  proof (induction n)
    case (Suc n)
    have "t 0 + of_nat (Suc n) / 2 = t 0 + of_nat n / 2 + (1 / 2 :: rat)" by (simp add: add_divide_distrib)
    also have "\<dots> \<le> t n + 1 / 2" using Suc by simp
    also have "\<dots> \<le> t (Suc n)" using assms(2) by simp
    finally show ?case .
  qed simp
  from this [of n] have "D < t n" using assms(3) by (simp add: field_simps)
  then show ?thesis by (simp add: assms(1))
qed

section \<open>Killed and run again\<close>

text \<open>Every catalog that can be found committed during some actions.\<close>

fun commits :: "action list \<Rightarrow> catalog \<Rightarrow> catalog \<Rightarrow> catalog list" where
  "commits [] committed working = [committed]"
| "commits (Execute s # as) committed working =
     (case apply_ddl s working of Inl e \<Rightarrow> [committed] | Inr working' \<Rightarrow> commits as committed working')"
| "commits (Stamp v # as) committed working = commits as committed (working\<lparr>ct_version := Some v\<rparr>)"
| "commits (Commit # as) committed working = committed # commits as working working"

lemma commits_first: "committed \<in> set (commits as committed working)"
  by (induction as committed working rule: commits.induct) (auto split: sum.splits)

lemma perform_commits: "fst (perform (take k as) committed working) \<in> set (commits as committed working)"
proof (induction as committed working arbitrary: k rule: commits.induct)
  case (2 s as committed working)
  then show ?case by (cases k) (auto split: sum.splits simp: commits_first)
next
  case (3 v as committed working)
  then show ?case by (cases k) (simp_all add: commits_first)
next
  case (4 as committed working)
  then show ?case by (cases k) simp_all
qed simp

lemma killed_commits: "killed_upgrade k c \<in> set (commits (upgrade_actions c) c c)"
  by (simp add: killed_upgrade_def perform_commits)

text \<open>The database of the M2 init script: the first revision's tables, without Alembic's.\<close>

definition m2_catalog :: catalog where
  "m2_catalog = fst (perform (map Execute m2_schema @ [Commit]) empty_catalog empty_catalog)"

text \<open>What can be found committed on the way from an empty catalog or from that of the init script.\<close>

definition at_0003 :: "nat \<Rightarrow> catalog" where
  "at_0003 i = killed_upgrade (8 + 2 * i) empty_catalog"

definition at_0004 :: "nat \<Rightarrow> catalog" where
  "at_0004 i = killed_upgrade (18 + 2 * i) empty_catalog"

definition m2_stamped :: catalog where
  "m2_stamped = m2_catalog\<lparr>ct_version := Some BASELINE_REVISION\<rparr>"

definition head_catalog :: catalog where
  "head_catalog = fst (upgrade empty_catalog)"

lemma from_empty_catalog:
  "set (commits (upgrade_actions empty_catalog) empty_catalog empty_catalog) = set [empty_catalog, at_0003 0, at_0003 1, at_0003 2, at_0003 3, at_0003 4, at_0004 0, at_0004 1, at_0004 2, head_catalog]"
  "upgrade empty_catalog = (head_catalog, Inr ())"
  by code_simp+

lemma from_m2_catalog:
  "set (commits (upgrade_actions m2_catalog) m2_catalog m2_catalog) = set [m2_catalog, m2_stamped, at_0003 0, at_0003 1, at_0003 2, at_0003 3, at_0003 4, at_0004 0, at_0004 1, at_0004 2, head_catalog]"
  "upgrade m2_catalog = (head_catalog, Inr ())"
  by code_simp+

lemma from_m2_stamped:
  "set (commits (upgrade_actions m2_stamped) m2_stamped m2_stamped) = set [m2_stamped, at_0003 0, at_0003 1, at_0003 2, at_0003 3, at_0003 4, at_0004 0, at_0004 1, at_0004 2, head_catalog]"
  "upgrade m2_stamped = (head_catalog, Inr ())"
  by code_simp+

lemma from_at_0003_0:
  "set (commits (upgrade_actions (at_0003 0)) (at_0003 0) (at_0003 0)) = set [at_0003 0, at_0003 1, at_0003 2, at_0003 3, at_0003 4, at_0004 0, at_0004 1, at_0004 2, head_catalog]"
  "upgrade (at_0003 0) = (head_catalog, Inr ())"
  by code_simp+

lemma from_at_0003_1:
  "set (commits (upgrade_actions (at_0003 1)) (at_0003 1) (at_0003 1)) = set [at_0003 1, at_0003 2, at_0003 3, at_0003 4, at_0004 0, at_0004 1, at_0004 2, head_catalog]"
  "upgrade (at_0003 1) = (head_catalog, Inr ())"
  by code_simp+

lemma from_at_0003_2:
  "set (commits (upgrade_actions (at_0003 2)) (at_0003 2) (at_0003 2)) = set [at_0003 2, at_0003 3, at_0003 4, at_0004 0, at_0004 1, at_0004 2, head_catalog]"
  "upgrade (at_0003 2) = (head_catalog, Inr ())"
  by code_simp+

lemma from_at_0003_3:
  "set (commits (upgrade_actions (at_0003 3)) (at_0003 3) (at_0003 3)) = set [at_0003 3, at_0003 4, at_0004 0, at_0004 1, at_0004 2, head_catalog]"
  "upgrade (at_0003 3) = (head_catalog, Inr ())"
  by code_simp+

lemma from_at_0003_4:
  "set (commits (upgrade_actions (at_0003 4)) (at_0003 4) (at_0003 4)) = set [at_0003 4, at_0004 0, at_0004 1, at_0004 2, head_catalog]"
  "upgrade (at_0003 4) = (head_catalog, Inr ())"
  by code_simp+

lemma from_at_0004_0:
  "set (commits (upgrade_actions (at_0004 0)) (at_0004 0) (at_0004 0)) = set [at_0004 0, at_0004 1, at_0004 2, head_catalog]"
  "upgrade (at_0004 0) = (head_catalog, Inr ())"
  by code_simp+

lemma from_at_0004_1:
  "set (commits (upgrade_actions (at_0004 1)) (at_0004 1) (at_0004 1)) = set [at_0004 1, at_0004 2, head_catalog]"
  "upgrade (at_0004 1) = (head_catalog, Inr ())"
  by code_simp+

lemma from_at_0004_2:
  "set (commits (upgrade_actions (at_0004 2)) (at_0004 2) (at_0004 2)) = set [at_0004 2, head_catalog]"
  "upgrade (at_0004 2) = (head_catalog, Inr ())"
  by code_simp+

lemma from_head_catalog:
  "set (commits (upgrade_actions head_catalog) head_catalog head_catalog) = set [head_catalog]"
  "upgrade head_catalog = (head_catalog, Inr ())"
  by code_simp+

definition upgradable :: "catalog set" where
  "upgradable = {empty_catalog, m2_catalog, m2_stamped, at_0003 0, at_0003 1, at_0003 2, at_0003 3, at_0003 4,
     at_0004 0, at_0004 1, at_0004 2, head_catalog}"

lemmas from_upgradable =
  from_empty_catalog from_m2_catalog from_m2_stamped from_at_0003_0 from_at_0003_1 from_at_0003_2 from_at_0003_3
  from_at_0003_4 from_at_0004_0 from_at_0004_1 from_at_0004_2 from_head_catalog

lemma upgradable_commits: "c \<in> upgradable \<Longrightarrow> set (commits (upgrade_actions c) c c) \<subseteq> upgradable"
  unfolding upgradable_def insert_iff empty_iff
  by (elim disjE FalseE; simp only: from_upgradable list.set) blast+

lemma upgradable_upgrade: "c \<in> upgradable \<Longrightarrow> upgrade c = (head_catalog, Inr ())"
  unfolding upgradable_def insert_iff empty_iff
  by (elim disjE FalseE; simp only: from_upgradable)

lemma killed_upgradable: "c \<in> upgradable \<Longrightarrow> fold killed_upgrade ks c \<in> upgradable"
proof (induction ks arbitrary: c)
  case (Cons k ks)
  have "killed_upgrade k c \<in> upgradable" using upgradable_commits [OF Cons.prems] killed_commits by blast
  then show ?case using Cons.IH by simp
qed simp

lemma upgradable_starts: "empty_catalog \<in> upgradable" "m2_catalog \<in> upgradable"
  by (simp_all add: upgradable_def)

lemma head_catalog_facts:
  "ct_version head_catalog = Some ''0010''"
  "map_of (ct_hypertables head_catalog) ''telemetry'' = Some (''measured_at'', ''1 day'')"
  "list_all (\<lambda>(n, r). List.member (ct_grants head_catalog) (''grafana_reader'', n)) (ct_relations head_catalog)"
  by code_simp+

text \<open>Only the first two revisions go down, and what they did is undone.\<close>

lemma downgrade_first:
  "downgrade rev0002 (fst (perform (map Execute (mg_upgrade rev0002) @ [Stamp ''0002'', Commit]) m2_stamped m2_stamped)) =
     (m2_stamped, Inr ())"
  "downgrade rev0001 m2_stamped = (empty_catalog, Inr ())"
  by code_simp+

lemma downgrade_later: "m \<in> set (drop 2 migrations) \<Longrightarrow> downgrade m c = (c, Inl NotImplementedError)"
  by (auto simp: downgrade_def migrations_def rev0003_def rev0004_def rev0005_def rev0006_def rev0007_def rev0008_def
      rev0009_def rev0010_def)

end
