(* ===== verification/Migrate_Config.thy ===== *)
theory Migrate_Config
  imports Migrate
begin

text \<open>
  The configuration \<^verbatim>\<open>migrate.py\<close> hands Alembic: the DSN rewritten for SQLAlchemy, stored as an option
  of a \<^verbatim>\<open>ConfigParser\<close>, whose interpolation refuses a lone percent sign. libpq's parser and
  SQLAlchemy's rendering of a URL are parameters.
\<close>

section \<open>The URL\<close>

record sa_url =
  ur_username :: "string option"
  ur_password :: "string option"
  ur_host :: "string option"
  ur_port :: "int option"
  ur_database :: "string option"
  ur_query :: "(string \<times> string) list"

definition SQLALCHEMY_PREFIX :: string where
  "SQLALCHEMY_PREFIX = ''postgresql+psycopg://''"

definition sqlalchemy_url ::
  "(string \<Rightarrow> (string \<times> string) list res) \<Rightarrow> (string \<Rightarrow> int res) \<Rightarrow> (sa_url \<Rightarrow> string) \<Rightarrow> string \<Rightarrow> string res" where
  "sqlalchemy_url conninfo_to_dict int_of render dsn =
     (if take (length SQLALCHEMY_PREFIX) dsn = SQLALCHEMY_PREFIX then Inr dsn
      else
        rbind (conninfo_to_dict dsn) (\<lambda>params.
        rbind (case map_of params ''port'' of
                 None \<Rightarrow> Inr None
               | Some p \<Rightarrow> if p = [] then Inr None else rbind (int_of p) (\<lambda>n. Inr (Some n))) (\<lambda>port.
        Inr (render
          \<lparr>ur_username = map_of params ''user'', ur_password = map_of params ''password'',
           ur_host = map_of params ''host'', ur_port = port, ur_database = map_of params ''dbname'',
           ur_query = filter (\<lambda>(k, v). k \<notin> {''port'', ''user'', ''password'', ''host'', ''dbname''}) params\<rparr>))))"

section \<open>Storing an option\<close>

text \<open>\<^verbatim>\<open>BasicInterpolation.before_set\<close>: pairs of percent signs and references \<^verbatim>\<open>%(name)s\<close> are dropped.\<close>

fun drop_pairs :: "string \<Rightarrow> string" where
  "drop_pairs (a # b # s) =
     (if a = CHR ''%'' \<and> b = CHR ''%'' then drop_pairs s else a # drop_pairs (b # s))"
| "drop_pairs s = s"

definition after_reference :: "string \<Rightarrow> string option" where
  "after_reference s =
     (if take 2 s = ''%('' then
        (let name = takeWhile (\<lambda>c. c \<noteq> CHR '')'') (drop 2 s); rest = drop (2 + length name) s
         in if name \<noteq> [] \<and> take 2 rest = '')s'' then Some (drop 2 rest) else None)
      else None)"

lemma after_reference_shorter: "after_reference (c # s) = Some r \<Longrightarrow> length r \<le> length s"
  by (auto simp: after_reference_def Let_def split: if_splits)

function drop_references :: "string \<Rightarrow> string" where
  "drop_references [] = []"
| "drop_references (c # s) =
     (case after_reference (c # s) of Some r \<Rightarrow> drop_references r | None \<Rightarrow> c # drop_references s)"
  by pat_completeness auto

termination
  by (relation "measure length") (auto dest: after_reference_shorter)

definition set_main_option :: "string \<Rightarrow> string res" where
  "set_main_option v = (if CHR ''%'' \<in> set (drop_references (drop_pairs v)) then Inl ValueError else Inr v)"

definition build_config ::
  "(string \<Rightarrow> (string \<times> string) list res) \<Rightarrow> (string \<Rightarrow> int res) \<Rightarrow> (sa_url \<Rightarrow> string) \<Rightarrow> string \<Rightarrow> string \<Rightarrow> (string \<times> string) res" where
  "build_config conninfo_to_dict int_of render scripts dsn =
     rbind (set_main_option scripts) (\<lambda>location.
     rbind (sqlalchemy_url conninfo_to_dict int_of render dsn) (\<lambda>url.
     rbind (set_main_option url) (\<lambda>u. Inr (location, u))))"

section \<open>The process\<close>

text \<open>The environment of Alembic reads the option back; unset, it falls back to the settings' DSN.\<close>

definition database_url ::
  "(string \<Rightarrow> (string \<times> string) list res) \<Rightarrow> (string \<Rightarrow> int res) \<Rightarrow> (sa_url \<Rightarrow> string) \<Rightarrow> string option \<Rightarrow> string \<Rightarrow> string res" where
  "database_url conninfo_to_dict int_of render configured dsn =
     (case configured of
        Some url \<Rightarrow> if url \<noteq> [] then Inr url else sqlalchemy_url conninfo_to_dict int_of render dsn
      | None \<Rightarrow> sqlalchemy_url conninfo_to_dict int_of render dsn)"

text \<open>\<open>upgrade\<close> of a DSN: the configuration is built before the server is asked anything.\<close>

definition upgrade_dsn ::
  "(string \<Rightarrow> (string \<times> string) list res) \<Rightarrow> (string \<Rightarrow> int res) \<Rightarrow> (sa_url \<Rightarrow> string) \<Rightarrow> string \<Rightarrow> string \<Rightarrow>
   catalog \<Rightarrow> catalog \<times> unit res" where
  "upgrade_dsn conninfo_to_dict int_of render scripts dsn c =
     (case build_config conninfo_to_dict int_of render scripts dsn of
        Inl e \<Rightarrow> (c, Inl e)
      | Inr config \<Rightarrow> upgrade c)"

definition migrate_main ::
  "(string \<Rightarrow> (string \<times> string) list res) \<Rightarrow> (string \<Rightarrow> int res) \<Rightarrow> (sa_url \<Rightarrow> string) \<Rightarrow> string \<Rightarrow> string \<Rightarrow>
   (nat \<Rightarrow> py_exc option) \<Rightarrow> pyfloat \<Rightarrow> (nat \<Rightarrow> pyfloat) \<Rightarrow> catalog \<Rightarrow> (catalog \<times> unit res) option" where
  "migrate_main conninfo_to_dict int_of render scripts dsn connects start now c =
     map_option (\<lambda>(sleeps, r). case r of
         Inl e \<Rightarrow> (c, Inl e)
       | Inr u \<Rightarrow> upgrade_dsn conninfo_to_dict int_of render scripts dsn c)
       (wait_for_db connects start now (Fin 60))"

section \<open>A percent-encoded URL is refused\<close>

text \<open>Percent-encoding: every percent sign is followed by a hexadecimal digit.\<close>

fun percent_encoded :: "string \<Rightarrow> bool" where
  "percent_encoded [] = True"
| "percent_encoded (c # s) =
     ((c = CHR ''%'' \<longrightarrow> s \<noteq> [] \<and> hd s \<in> set ''0123456789ABCDEFabcdef'') \<and> percent_encoded s)"

lemma drop_pairs_encoded: "percent_encoded s \<Longrightarrow> drop_pairs s = s"
  by (induction s rule: drop_pairs.induct) auto

lemma after_reference_encoded: "percent_encoded s \<Longrightarrow> after_reference s = None"
  by (cases s; cases "tl s") (auto simp: after_reference_def)

lemma drop_references_encoded: "percent_encoded s \<Longrightarrow> drop_references s = s"
proof (induction s)
  case (Cons c s)
  have "after_reference (c # s) = None" by (rule after_reference_encoded [OF Cons.prems])
  then show ?case using Cons by simp
qed simp

lemma set_main_option_encoded:
  "percent_encoded v \<Longrightarrow> set_main_option v = (if CHR ''%'' \<in> set v then Inl ValueError else Inr v)"
  by (simp add: set_main_option_def drop_pairs_encoded drop_references_encoded)

lemma set_main_option_plain: "CHR ''%'' \<notin> set v \<Longrightarrow> set_main_option v = Inr v"
proof -
  assume v: "CHR ''%'' \<notin> set v"
  then have "percent_encoded v" by (induction v) auto
  then show ?thesis using v by (simp add: set_main_option_encoded)
qed

lemma build_config_refuses:
  assumes "sqlalchemy_url conninfo_to_dict int_of render dsn = Inr url"
    and "percent_encoded url" and "CHR ''%'' \<in> set url" and "CHR ''%'' \<notin> set scripts"
  shows "build_config conninfo_to_dict int_of render scripts dsn = Inl ValueError"
  using assms by (simp add: build_config_def set_main_option_plain set_main_option_encoded)

lemma build_config_accepts:
  assumes "sqlalchemy_url conninfo_to_dict int_of render dsn = Inr url"
    and "CHR ''%'' \<notin> set url" and "CHR ''%'' \<notin> set scripts"
  shows "build_config conninfo_to_dict int_of render scripts dsn = Inr (scripts, url)"
  using assms by (simp add: build_config_def set_main_option_plain)

text \<open>So a DSN whose rewriting is percent-encoded leaves the database as it was.\<close>

lemma upgrade_dsn_refuses:
  assumes "sqlalchemy_url conninfo_to_dict int_of render dsn = Inr url"
    and "percent_encoded url" and "CHR ''%'' \<in> set url" and "CHR ''%'' \<notin> set scripts"
  shows "upgrade_dsn conninfo_to_dict int_of render scripts dsn c = (c, Inl ValueError)"
  using build_config_refuses [OF assms] by (simp add: upgrade_dsn_def)

lemma upgrade_dsn_accepts:
  assumes "sqlalchemy_url conninfo_to_dict int_of render dsn = Inr url"
    and "CHR ''%'' \<notin> set url" and "CHR ''%'' \<notin> set scripts"
  shows "upgrade_dsn conninfo_to_dict int_of render scripts dsn = upgrade"
  using build_config_accepts [OF assms] by (simp add: upgrade_dsn_def fun_eq_iff)

end
