(* ===== verification/Migrate_Claims.thy ===== *)
theory Migrate_Claims
  imports Migrate_Config
begin

text \<open>
  The properties of the migration runner. Claim numbers are those of the whole development.
\<close>

lemma half_seconds:
  fixes x :: rat
  obtains n :: nat where "2 * x < of_nat n" "of_nat n \<le> 2 * max 0 x + 1"
proof (cases "0 \<le> x")
  case True
  let ?n = "nat \<lfloor>2 * x\<rfloor> + 1"
  have "0 \<le> \<lfloor>2 * x\<rfloor>" using True by simp
  then have n: "(of_nat ?n :: rat) = of_int \<lfloor>2 * x\<rfloor> + 1" by simp
  have "2 * x < of_nat ?n" "of_nat ?n \<le> 2 * max 0 x + 1"
    unfolding n using True floor_correct [of "2 * x"] by simp_all
  then show ?thesis by (rule that)
next
  case False
  then have "2 * x < of_nat 0" "of_nat 0 \<le> 2 * max 0 x + 1" by simp_all
  then show ?thesis by (rule that)
qed

text \<open>
  C8: the wait for the server ends. On a clock that advances by the half second slept between two
  attempts, the loop returns, after a number of sleeps bounded by the time to the deadline; every
  attempt before the last failed with \<open>OperationalError\<close>; it returns normally exactly if the last
  attempt connects, and raises what that attempt raised, which is another error or comes after the
  deadline.
\<close>

theorem wait_for_db_returns:
  assumes "\<forall>i. now i = Fin (t i)" and "\<forall>i. t i + 1 / 2 \<le> t (Suc i)" and "fadd start timeout = Fin D"
  shows "\<exists>k r. wait_for_db connects start now timeout = Some (k, r) \<and>
    of_nat k \<le> 2 * max 0 (D - t 0) + 1 \<and> (\<forall>j < k. connects j = Some OperationalError) \<and>
    (case r of
       Inr u \<Rightarrow> connects k = None
     | Inl e \<Rightarrow> connects k = Some e \<and> (e = OperationalError \<longrightarrow> D < t k))"
proof -
  obtain n where n: "2 * (D - t 0) < of_nat n" "of_nat n \<le> 2 * max 0 (D - t 0) + 1" by (rule half_seconds)
  have "\<not> keeps_waiting connects now (fadd start timeout) n"
    using clock_passes [OF assms(1,2) n(1)] by (simp add: keeps_waiting_def assms(3))
  from wait_for_db_ends [OF this] obtain k where k: "k \<le> n" "\<not> keeps_waiting connects now (fadd start timeout) k"
    "\<forall>j < k. keeps_waiting connects now (fadd start timeout) j"
    "wait_for_db connects start now timeout = Some (k, case connects k of None \<Rightarrow> Inr () | Some e \<Rightarrow> Inl e)" .
  have "(of_nat k :: rat) \<le> of_nat n" using k(1) by simp
  then have "of_nat k \<le> 2 * max 0 (D - t 0) + 1" using n(2) by linarith
  moreover have "\<forall>j < k. connects j = Some OperationalError" using k(3) by (simp add: keeps_waiting_def)
  moreover have "case (case connects k of None \<Rightarrow> Inr () | Some e \<Rightarrow> Inl e) of
       Inr u \<Rightarrow> connects k = None
     | Inl e \<Rightarrow> connects k = Some e \<and> (e = OperationalError \<longrightarrow> D < t k)"
    using k(2) assms by (auto simp: keeps_waiting_def split: option.splits)
  ultimately show ?thesis using k(4) by blast
qed

theorem wait_for_db_returns_witness:
  "\<exists>k r. wait_for_db (\<lambda>i. Some OperationalError) (Fin 0) (\<lambda>i. Fin (of_nat i)) (Fin 60) = Some (k, r) \<and>
     of_nat k \<le> (121 :: rat)"
proof -
  have "fl 60 = Fin 60" by (intro fl_representable representable_of_int [of 60, simplified])
  then have "fadd (Fin 0) (Fin 60) = Fin 60" by simp
  from wait_for_db_returns [of "\<lambda>i. Fin (of_nat i)" of_nat, OF _ _ this, of "\<lambda>i. Some OperationalError"]
  show ?thesis by fastforce
qed

text \<open>
  C14: a killed migration is harmless. From an empty database, and from one of the M2 init script,
  however often the process was killed, between whatever two actions, the next complete upgrade
  succeeds and reaches one and the same catalog, at revision 0010, which a further upgrade leaves as
  it is; telemetry is then partitioned by its time, a day per chunk, and the dashboard's role can read every relation.
\<close>

theorem upgrade_survives_kills:
  "upgrade (fold killed_upgrade ks empty_catalog) = (head_catalog, Inr ()) \<and>
   upgrade (fold killed_upgrade ks m2_catalog) = (head_catalog, Inr ()) \<and>
   upgrade head_catalog = (head_catalog, Inr ()) \<and> ct_version head_catalog = Some ''0010'' \<and>
   map_of (ct_hypertables head_catalog) ''telemetry'' = Some (''measured_at'', ''1 day'') \<and>
   list_all (\<lambda>(n, r). List.member (ct_grants head_catalog) (''grafana_reader'', n)) (ct_relations head_catalog)"
  using upgradable_upgrade [OF killed_upgradable [OF upgradable_starts(1)], of ks]
    upgradable_upgrade [OF killed_upgradable [OF upgradable_starts(2)], of ks] from_head_catalog(2) head_catalog_facts
  by simp

end
