(* ===== verification/Ops_Server.thy ===== *)
theory Ops_Server
  imports Health Json_Laws
begin

text \<open>
  \<^verbatim>\<open>ops.py\<close> and what the two \<^verbatim>\<open>ops.py\<close> of the services add: collectors, the registry, the application with
  its keys, the handlers it registers for its two paths, and what a handler returns in a state of the
  service. How aiohttp finds the handler of a request and what it sends is not modelled; what the
  operating system and prometheus_client do is a parameter: binding a port, the metrics of the process
  and the platform, and the Prometheus text of a list of families with its content type.
\<close>

section \<open>Collectors and the registry\<close>

text \<open>A collector is a live view: it is evaluated in the state a request finds.\<close>

datatype family = CounterFamily string string int | GaugeFamily string string pyfloat | LibraryFamily string

type_synonym 's collector = "'s \<Rightarrow> family list"

definition counters_collector :: "('s \<Rightarrow> (string \<times> int) list) \<Rightarrow> string \<Rightarrow> (string \<Rightarrow> string) \<Rightarrow> 's collector" where
  "counters_collector entries prefix help s =
     map (\<lambda>(name, doc, v). CounterFamily name doc v) (collect_counters prefix help (entries s))"

definition gauges_collector :: "('s \<Rightarrow> analytics_service) \<Rightarrow> 's collector" where
  "gauges_collector service s = map (\<lambda>(name, doc, v). GaugeFamily name doc v) (analytics_gauges (service s))"

record library_metrics =
  process_families :: "family list"
  platform_families :: "family list"
  generate_latest :: "family list \<Rightarrow> ustr"
  CONTENT_TYPE_LATEST :: string

definition build_registry ::
  "library_metrics \<Rightarrow> ('s \<Rightarrow> (string \<times> int) list) \<Rightarrow> string \<Rightarrow> (string \<Rightarrow> string) \<Rightarrow> 's collector list \<Rightarrow> 's collector list" where
  "build_registry lib entries prefix help extra =
     [counters_collector entries prefix help] @ extra @ [\<lambda>s. process_families lib, \<lambda>s. platform_families lib]"

section \<open>The application\<close>

text \<open>What a handler hands to aiohttp: the status, the text of the body, the headers it sets itself.\<close>

record response =
  rs_status :: int
  rs_text :: ustr
  rs_headers :: "(string \<times> string) list"

text \<open>The application: what is stored under its two keys, and the handlers registered with \<^verbatim>\<open>add_get\<close>.\<close>

record 's app_keys =
  app_healthz :: "'s \<Rightarrow> int \<times> json"
  app_registry :: "'s collector list"

type_synonym 's handler = "'s app_keys \<Rightarrow> 's \<Rightarrow> response"

record 's ops_app =
  app_keys :: "'s app_keys"
  app_routes :: "(string \<times> 's handler) list"

definition answer_healthz :: "'s handler" where
  "answer_healthz app s =
     (case app_healthz app s of (status, body) \<Rightarrow>
        \<lparr>rs_status = status, rs_text = dumps default_style body, rs_headers = []\<rparr>)"

definition answer_metrics :: "library_metrics \<Rightarrow> 's handler" where
  "answer_metrics lib app s =
     \<lparr>rs_status = 200, rs_text = generate_latest lib (concat (map (\<lambda>c. c s) (app_registry app))),
      rs_headers = [(''Content-Type'', CONTENT_TYPE_LATEST lib)]\<rparr>"

definition start_ops_server ::
  "library_metrics \<Rightarrow> (string \<Rightarrow> int \<Rightarrow> int res) \<Rightarrow> string \<Rightarrow> int \<Rightarrow> ('s \<Rightarrow> int \<times> json) \<Rightarrow> 's collector list \<Rightarrow>
   ('s ops_app \<times> int) res" where
  "start_ops_server lib bind host port healthz registry =
     (let app = \<lparr>app_keys = \<lparr>app_healthz = healthz, app_registry = registry\<rparr>,
                 app_routes = [(''/healthz'', answer_healthz), (''/metrics'', answer_metrics lib)]\<rparr>
      in rbind (bind host port) (\<lambda>bound_port. Inr (app, bound_port)))"

section \<open>The two services\<close>

definition json_int :: "int \<Rightarrow> json" where
  "json_int i = JNum (ascii (show_int i))"

definition json_entries :: "(string \<times> int) list \<Rightarrow> json" where
  "json_entries entries = JObj (map (\<lambda>(name, v). (ascii name, json_int v)) entries)"

definition ingest_body :: "ingest_health \<Rightarrow> json" where
  "ingest_body h = JObj
     [(ascii ''status'', JStr (ascii (ih_status h))), (ascii ''broker_connected'', JBool (ih_broker_connected h)),
      (ascii ''db_connected'', JBool (ih_db_connected h)),
      (ascii ''counters'', json_entries (ingest_entries (ih_counters h)))]"

definition start_ingest_ops ::
  "library_metrics \<Rightarrow> (string \<Rightarrow> int \<Rightarrow> int res) \<Rightarrow> string \<Rightarrow> int \<Rightarrow> ('p service ops_app \<times> int) res" where
  "start_ingest_ops lib bind host port =
     start_ops_server lib bind host port (\<lambda>s. case ingest_healthz s of (status, h) \<Rightarrow> (status, ingest_body h))
       (build_registry lib (\<lambda>s. ingest_entries (w_counters (s_world s))) ''planter_ingestion_'' ingest_help [])"

text \<open>
  The analytics endpoint reads the monotonic clock at the request, so its state is paired with that
  reading. \<open>float_text\<close> is \<^verbatim>\<open>float.__repr__\<close>.
\<close>

definition analytics_body :: "(pyfloat \<Rightarrow> ustr) \<Rightarrow> analytics_health \<Rightarrow> json" where
  "analytics_body float_text h = JObj
     [(ascii ''status'', JStr (ascii (ah_status h))), (ascii ''last_pass_ok'', JBool (ah_last_pass_ok h)),
      (ascii ''seconds_since_last_pass'',
        (case ah_seconds_since_last_pass h of None \<Rightarrow> JNull | Some x \<Rightarrow> JNum (float_text x))),
      (ascii ''counters'', json_entries (analytics_entries (ah_counters h)))]"

definition start_analytics_ops ::
  "library_metrics \<Rightarrow> (pyfloat \<Rightarrow> ustr) \<Rightarrow> (string \<Rightarrow> int \<Rightarrow> int res) \<Rightarrow> string \<Rightarrow> int \<Rightarrow> pyfloat \<Rightarrow>
   ((analytics_service \<times> pyfloat) ops_app \<times> int) res" where
  "start_analytics_ops lib float_text bind host port interval =
     start_ops_server lib bind host port
       (\<lambda>(s, now). case analytics_healthz s interval now of (status, h) \<Rightarrow> (status, analytics_body float_text h))
       (build_registry lib (\<lambda>(s, now). analytics_entries (p_counters (an_world s))) ''planter_analytics_'' default_help
         [gauges_collector fst])"

end
