(* ===== verification/Ops_Laws.thy ===== *)
theory Ops_Laws
  imports Ops_Server
begin

text \<open>
  What a client of the ops endpoints reads: the JSON of a health answer parses back, with the fields
  of the state it was asked in; metrics list every counter under its name.
\<close>

section \<open>Decimal numbers are JSON numbers\<close>

lemma digit_char_digit: "d < 10 \<Longrightarrow> digit (of_char (digit_char d))"
  by (simp add: digit_char_def digit_def)

lemma show_nat_ascii_digits: "list_all digit (ascii (show_nat n))"
proof (induction n rule: show_nat.induct)
  case (1 n)
  then show ?case
    by (subst show_nat.simps) (simp add: digit_char_digit)
qed

lemma show_nat_head: "\<exists>c cs. ascii (show_nat n) = c # cs \<and> digit c \<and> (c = 48 \<longrightarrow> cs = [])"
proof (induction n rule: show_nat.induct)
  case (1 n)
  show ?case
  proof (cases "n < 10")
    case True
    then show ?thesis by (subst show_nat.simps) (simp add: digit_char_digit)
  next
    case False
    then obtain c cs where c: "ascii (show_nat (n div 10)) = c # cs" "digit c" "c = 48 \<longrightarrow> cs = []" using 1 by blast
    have "c \<noteq> 48"
    proof
      assume "c = 48"
      then have "ascii (show_nat (n div 10)) = [48]" using c by simp
      moreover have "m = 0" if "ascii (show_nat m) = [48]" for m
      proof (cases "m < 10")
        case True
        then have "show_nat m = [digit_char m]" by (subst show_nat.simps) simp
        then show ?thesis using that True by (simp add: digit_char_def)
      next
        case False
        then have "show_nat m = show_nat (m div 10) @ [digit_char (m mod 10)]" by (subst show_nat.simps) simp
        moreover have "show_nat k \<noteq> []" for k by (subst show_nat.simps) simp
        ultimately show ?thesis using that by (simp add: ascii_def Cons_eq_append_conv)
      qed
      ultimately show False using False by fastforce
    qed
    then show ?thesis using False c by (subst show_nat.simps) simp
  qed
qed

lemma takeWhile_digits: "list_all digit s \<Longrightarrow> takeWhile digit s = s \<and> dropWhile digit s = [] \<and> filter digit s = s"
  by (induction s) auto

lemma show_int_number:
  assumes "length (show_int i) \<le> MAX_STR_DIGITS"
  shows "number_ok (ascii (show_int i))"
proof -
  define sign where "sign = (if i < 0 then [45] else [] :: ustr)"
  define n where "n = nat \<bar>i\<bar>"
  have s: "ascii (show_int i) = sign @ ascii (show_nat n)" by (simp add: show_int_def sign_def n_def)
  obtain c cs where c: "ascii (show_nat n) = c # cs" "digit c" "c = 48 \<longrightarrow> cs = []" using show_nat_head by blast
  have all: "list_all digit (c # cs)" using show_nat_ascii_digits [of n] c(1) by simp
  have "length (show_int i) = length (sign @ c # cs)" using s c(1) by (metis ascii_def length_map)
  then have len: "length (c # cs) \<le> MAX_STR_DIGITS" using assms by simp
  have "c \<noteq> 45" using c(2) by (auto simp: digit_def)
  then have "lex_integer (sign @ c # cs) = Some (sign @ c # cs, [])"
    using takeWhile_digits [OF all] c by (simp add: lex_integer_def sign_def Let_def)
  moreover have "filter digit sign = []" by (simp add: sign_def digit_def)
  then have "filter digit (sign @ c # cs) = c # cs" using takeWhile_digits [OF all] by simp
  ultimately show ?thesis
    using len by (simp add: number_ok_def lex_number_def lex_fraction_def lex_exponent_def s c(1) del: filter.simps)
qed

section \<open>Health bodies parse back\<close>

text \<open>The names of the fields and the statuses are ASCII texts.\<close>

lemma ascii_chars: "list_all (char_ok True) (ascii s)"
proof -
  have "char_ok True (of_char c)" for c
    unfolding char_ok_def surrogate_def using nat_of_char_less_256 [of c] by linarith
  then show ?thesis by (simp add: ascii_def list_all_iff)
qed

definition entries_shown :: "(string \<times> int) list \<Rightarrow> bool" where
  "entries_shown entries \<longleftrightarrow> distinct (map fst entries) \<and> (\<forall>(name, v) \<in> set entries. length (show_int v) \<le> MAX_STR_DIGITS)"

lemma json_entries_ok:
  assumes "entries_shown entries"
  shows "printable True (json_entries entries)" and "fits (Suc n) (json_entries entries)"
proof -
  have names: "map fst (map (\<lambda>(name, v). (ascii name, json_int v)) entries) = map ascii (map fst entries)"
    by (induction entries) auto
  have "inj_on ascii A" for A by (auto simp: inj_on_def ascii_inj)
  then have "distinct (map ascii (map fst entries))"
    using assms distinct_map [of ascii "map fst entries"] by (simp add: entries_shown_def del: map_map)
  then have "distinct (map fst (map (\<lambda>(name, v). (ascii name, json_int v)) entries))" unfolding names .
  moreover have "\<forall>(name, v) \<in> set entries. printable True (json_int v)"
    using assms show_int_number unfolding entries_shown_def json_int_def by fastforce
  ultimately show "printable True (json_entries entries)"
    unfolding json_entries_def printable.simps list_all_iff using ascii_chars by (fastforce simp: list_all_iff)
  show "fits (Suc n) (json_entries entries)"
    by (auto simp: json_entries_def json_int_def list_all_iff)
qed

lemma default_style_ok: "style_ok default_style" "ensure_ascii default_style"
  by (simp_all add: style_ok_def default_style_def blank_def)

lemma body_reads:
  assumes "printable True j" and "fits limit j"
  shows "loads limit (dumps default_style j) = Inr j"
  using loads_dumps [OF default_style_ok(1), of j limit "[]"] assms default_style_ok(2) by simp

lemma ingest_body_reads:
  assumes "entries_shown (ingest_entries (ih_counters h))" and "2 \<le> limit"
  shows "loads limit (dumps default_style (ingest_body h)) = Inr (ingest_body h)"
proof (rule body_reads)
  have "fits (limit - 1) (json_entries (ingest_entries (ih_counters h)))"
    using json_entries_ok(2) [OF assms(1), of "limit - 2"] assms(2) by (simp add: numeral_2_eq_2 Suc_diff_Suc)
  then show "fits limit (ingest_body h)" using assms(2) by (simp add: ingest_body_def)
  show "printable True (ingest_body h)"
    using json_entries_ok(1) [OF assms(1)] by (simp add: ingest_body_def ascii_chars del: ascii_simps) (simp add: ascii_inj)
qed

lemma analytics_body_reads:
  assumes "entries_shown (analytics_entries (ah_counters h))" and "2 \<le> limit"
    and "\<And>x. ah_seconds_since_last_pass h = Some x \<Longrightarrow> number_ok (float_text x)"
  shows "loads limit (dumps default_style (analytics_body float_text h)) = Inr (analytics_body float_text h)"
proof (rule body_reads)
  have "fits (limit - 1) (json_entries (analytics_entries (ah_counters h)))"
    using json_entries_ok(2) [OF assms(1), of "limit - 2"] assms(2) by (simp add: numeral_2_eq_2 Suc_diff_Suc)
  then show "fits limit (analytics_body float_text h)"
    using assms(2) by (simp add: analytics_body_def split: option.split)
  show "printable True (analytics_body float_text h)"
    using json_entries_ok(1) [OF assms(1)] assms(3)
    by (simp add: analytics_body_def ascii_chars del: ascii_simps split: option.split) (simp add: ascii_inj)
qed

text \<open>The scraped counters: one family per field, under the prefix of the service.\<close>

lemma counters_scraped:
  "[(name, v). CounterFamily name doc v \<leftarrow> counters_collector entries prefix help s] =
     map (\<lambda>(name, v). (prefix @ name, v)) (entries s)"
proof -
  have "[(name, v). CounterFamily name doc v \<leftarrow> map (\<lambda>(name, doc, v). CounterFamily name doc v) (collect_counters prefix help es)] =
     map (\<lambda>(name, v). (prefix @ name, v)) es" for es
    by (induction es) (auto simp: collect_counters_def)
  then show ?thesis by (simp add: counters_collector_def)
qed

end
