(* ===== verification/Service_Process.thy ===== *)
theory Service_Process
  imports Ops_Laws
begin

text \<open>
  What surrounds the loops of the two \<^verbatim>\<open>run\<close> functions: signal handlers, the ops server, the task that
  logs the counters, and the \<^verbatim>\<open>finally\<close> that takes them down. Both services have the same shape, stated
  once over a step function.
\<close>

section \<open>Waiting for a message\<close>

text \<open>
  \<^verbatim>\<open>_next_message\<close>: what the race between the client's next message (or its exception) and the stop event
  returns, once something has happened; a message wins a tie.
\<close>

definition next_message :: "'m res option \<Rightarrow> bool \<Rightarrow> 'm option res option" where
  "next_message get stopped =
     (case get of
        Some (Inr m) \<Rightarrow> Some (Inr (Some m))
      | Some (Inl e) \<Rightarrow> Some (Inl e)
      | None \<Rightarrow> if stopped then Some (Inr None) else None)"

text \<open>
  The consuming step is the body of the loop over what the race returns. In the step relation a stop
  that ties with a buffered message is seen first; taking the message and then noticing the stop leads
  to the same state as draining it.
\<close>

lemma consume_by_race:
  assumes "\<not> s_stop s"
  shows "consume_step decode msg faults s =
    (case next_message (case s_queue s of [] \<Rightarrow> None | item # rest \<Rightarrow> Some (Inr item)) (s_stop s) of
       Some (Inr (Some item)) \<Rightarrow> take_one decode msg faults item (tl (s_queue s)) s
     | _ \<Rightarrow> s)"
  using assms by (simp add: consume_step_def next_message_def split: list.split)

lemma tie_immaterial:
  assumes "s_queue s = item # rest" and "handle_in decode msg faults item s = (Inr u, s')"
  shows "(take_one decode msg faults item rest s)\<lparr>s_phase := Draining\<rparr> =
    drain_step decode msg faults (s\<lparr>s_phase := Draining\<rparr>)"
  using assms by (auto simp: drain_step_def take_one_def handle_in_def split: prod.splits sum.splits)

section \<open>A process\<close>

type_synonym log_line = "string \<times> (string \<times> int) list"

text \<open>The loop takes a step, the sleep of the stats task is over, or that task dies of an exception.\<close>

datatype 'e live_event = StatsDue | StatsDied py_exc | Step 'e

text \<open>The stats task: created and running, ended by an exception of its own, or cancelled.\<close>

datatype stats_task = Ticking | Failed py_exc | Cancelled

record ('s, 'a) process =
  pr_state :: 's
  pr_handlers :: "string list"
  pr_app :: "'a ops_app option"
  pr_port :: "int option"
  pr_stats :: "stats_task option"
  pr_log :: "log_line list"
  pr_result :: "unit res option"

text \<open>\<open>ended\<close> is how the loop left the \<^verbatim>\<open>try\<close>, once it has.\<close>

definition live_step ::
  "('e \<Rightarrow> 's \<Rightarrow> 's) \<Rightarrow> ('s \<Rightarrow> unit res option) \<Rightarrow> ('s \<Rightarrow> (string \<times> int) list) \<Rightarrow> 'e live_event \<Rightarrow>
   ('s, 'a) process \<Rightarrow> ('s, 'a) process" where
  "live_step step ended entries ev p =
     (if ended (pr_state p) \<noteq> None then p
      else case ev of
          StatsDue \<Rightarrow> if pr_stats p = Some Ticking then p\<lparr>pr_log := pr_log p @ [(''stats'', entries (pr_state p))]\<rparr> else p
        | StatsDied e \<Rightarrow> if pr_stats p = Some Ticking then p\<lparr>pr_stats := Some (Failed e)\<rparr> else p
        | Step e \<Rightarrow> p\<lparr>pr_state := step e (pr_state p)\<rparr>)"

definition handled_signals :: "string list \<Rightarrow> string list" where
  "handled_signals supported = filter (\<lambda>g. g \<in> set supported) [''SIGINT'', ''SIGTERM'']"

text \<open>The steps of the \<^verbatim>\<open>finally\<close>, in order.\<close>

datatype cleanup = CancelStats | AwaitStats | CleanupOps | RemoveHandler string | LogShutdown

definition cleanup_steps :: "string list \<Rightarrow> cleanup list" where
  "cleanup_steps handled = [CancelStats, AwaitStats, CleanupOps] @ map RemoveHandler handled @ [LogShutdown]"

text \<open>
  One step, with the exception it raises. Awaiting the task raises what the task died of; its own
  cancellation is suppressed. Of \<^verbatim>\<open>ops_runner.cleanup()\<close> and \<^verbatim>\<open>remove_signal_handler\<close> the environment says
  whether they raise.
\<close>

fun cleanup_step ::
  "('s \<Rightarrow> (string \<times> int) list) \<Rightarrow> (cleanup \<Rightarrow> py_exc option) \<Rightarrow> cleanup \<Rightarrow> ('s, 'a) process \<Rightarrow>
   py_exc option \<times> ('s, 'a) process" where
  "cleanup_step entries fails CancelStats p =
     (None, if pr_stats p = Some Ticking then p\<lparr>pr_stats := Some Cancelled\<rparr> else p)"
| "cleanup_step entries fails AwaitStats p = (case pr_stats p of Some (Failed e) \<Rightarrow> Some e | _ \<Rightarrow> None, p)"
| "cleanup_step entries fails CleanupOps p =
     (case fails CleanupOps of Some e \<Rightarrow> (Some e, p) | None \<Rightarrow> (None, p\<lparr>pr_app := None\<rparr>))"
| "cleanup_step entries fails (RemoveHandler g) p =
     (case fails (RemoveHandler g) of
        Some e \<Rightarrow> (Some e, p)
      | None \<Rightarrow> (None, p\<lparr>pr_handlers := removeAll g (pr_handlers p)\<rparr>))"
| "cleanup_step entries fails LogShutdown p =
     (None, p\<lparr>pr_log := pr_log p @ [(''shutdown'', entries (pr_state p))]\<rparr>)"

text \<open>
  The \<^verbatim>\<open>finally\<close> of a block that ended with \<open>r\<close>: the first step that raises skips the rest, and its
  exception replaces \<open>r\<close>. Awaiting a task that still runs does not return.
\<close>

fun run_cleanup ::
  "('s \<Rightarrow> (string \<times> int) list) \<Rightarrow> (cleanup \<Rightarrow> py_exc option) \<Rightarrow> unit res \<Rightarrow> cleanup list \<Rightarrow> ('s, 'a) process \<Rightarrow>
   ('s, 'a) process" where
  "run_cleanup entries fails r [] p = p\<lparr>pr_result := Some r\<rparr>"
| "run_cleanup entries fails r (st # sts) p =
     (if st = AwaitStats \<and> pr_stats p = Some Ticking then p
      else case cleanup_step entries fails st p of
          (Some e, p') \<Rightarrow> p'\<lparr>pr_result := Some (Inl e)\<rparr>
        | (None, p') \<Rightarrow> run_cleanup entries fails r sts p')"

definition run_process ::
  "('e \<Rightarrow> 's \<Rightarrow> 's) \<Rightarrow> ('s \<Rightarrow> unit res option) \<Rightarrow> ('s \<Rightarrow> (string \<times> int) list) \<Rightarrow> string list \<Rightarrow>
   (cleanup \<Rightarrow> py_exc option) \<Rightarrow> ('a ops_app \<times> int) res \<Rightarrow> log_line list \<Rightarrow> 's \<Rightarrow> 'e live_event list \<Rightarrow>
   ('s, 'a) process" where
  "run_process step ended entries supported fails server greeting s evs =
     (let p0 = \<lparr>pr_state = s, pr_handlers = handled_signals supported, pr_app = None, pr_port = None, pr_stats = None,
                pr_log = [], pr_result = None\<rparr>
      in case server of
           Inl e \<Rightarrow> p0\<lparr>pr_result := Some (Inl e)\<rparr>
         | Inr (app, port) \<Rightarrow>
             let p = fold (live_step step ended entries) evs
                       (p0\<lparr>pr_app := Some app, pr_port := Some port, pr_stats := Some Ticking, pr_log := greeting\<rparr>)
             in case ended (pr_state p) of
                  None \<Rightarrow> p
                | Some r \<Rightarrow> run_cleanup entries fails r (cleanup_steps (handled_signals supported)) p)"

section \<open>The two services\<close>

definition ingest_ended :: "'p service \<Rightarrow> unit res option" where
  "ingest_ended s = (case s_phase s of Stopped \<Rightarrow> Some (Inr ()) | Crashed e \<Rightarrow> Some (Inl e) | _ \<Rightarrow> None)"

definition ingest_process ::
  "library_metrics \<Rightarrow> (string \<Rightarrow> int \<Rightarrow> int res) \<Rightarrow> ('p \<Rightarrow> decoded) \<Rightarrow> (constraint \<Rightarrow> string) \<Rightarrow> ingest_settings \<Rightarrow>
   string \<Rightarrow> int \<Rightarrow> string list \<Rightarrow> (cleanup \<Rightarrow> py_exc option) \<Rightarrow> 'p tables \<Rightarrow> 'p event live_event list \<Rightarrow> ('p service, 'p service) process" where
  "ingest_process lib bind decode msg cfg host port supported fails t evs =
     run_process (service_step decode msg cfg) ingest_ended (\<lambda>s. ingest_entries (w_counters (s_world s))) supported fails
       (start_ingest_ops lib bind host port) [] (start_service cfg t) evs"

definition analytics_ended :: "analytics_service \<Rightarrow> unit res option" where
  "analytics_ended s = (case an_phase s of Finished \<Rightarrow> Some (Inr ()) | Died e \<Rightarrow> Some (Inl e) | _ \<Rightarrow> None)"

definition analytics_process ::
  "library_metrics \<Rightarrow> (pyfloat \<Rightarrow> ustr) \<Rightarrow> (string \<Rightarrow> int \<Rightarrow> int res) \<Rightarrow> tie_break \<Rightarrow> (py_datetime \<Rightarrow> string) \<Rightarrow>
   analytics_settings \<Rightarrow> string \<Rightarrow> int \<Rightarrow> string list \<Rightarrow> (cleanup \<Rightarrow> py_exc option) \<Rightarrow> store_tables \<Rightarrow> analytics_event live_event list \<Rightarrow>
   (analytics_service, analytics_service \<times> pyfloat) process" where
  "analytics_process lib float_text bind tie stamp cfg host port supported fails t evs =
     run_process (analytics_step tie stamp cfg) analytics_ended (\<lambda>s. analytics_entries (p_counters (an_world s))) supported fails
       (start_analytics_ops lib float_text bind host port (interval_seconds cfg))
       (if ntfy_url cfg = [] then [(''notifications_disabled'', [])] else []) (start_analytics t) evs"

section \<open>What the shell owes\<close>

definition counted_up :: "(string \<times> int) list \<Rightarrow> (string \<times> int) list \<Rightarrow> bool" where
  "counted_up xs ys \<longleftrightarrow> list_all2 (\<lambda>(m, a) (n, b). m = n \<and> a \<le> b) xs ys"

text \<open>
  While the loop runs, the handlers, the server and the stats task are there. Once it has ended, the
  steps of the \<^verbatim>\<open>finally\<close> have been taken up to the first that raised: if the stats task had died, nothing
  is taken down and its exception is the result; if the server's cleanup raised, the server and the
  handlers are left; if the removal of a handler raised, that handler and the later ones are left; and
  otherwise all three are gone, the result is the loop's, and the last line logged are the final counters.
  The counters logged never fall.
\<close>

definition shell_ok ::
  "('s \<Rightarrow> unit res option) \<Rightarrow> ('s \<Rightarrow> (string \<times> int) list) \<Rightarrow> string list \<Rightarrow> (cleanup \<Rightarrow> py_exc option) \<Rightarrow> log_line list \<Rightarrow>
   ('s, 'a) process \<Rightarrow> bool" where
  "shell_ok ended entries supported fails greeting p \<longleftrightarrow>
     (\<exists>lines. pr_log p = greeting @ lines \<and> sorted_wrt counted_up (map snd lines)) \<and>
     (case ended (pr_state p) of
        None \<Rightarrow>
          pr_result p = None \<and> pr_handlers p = handled_signals supported \<and> pr_app p \<noteq> None \<and>
          (pr_stats p = Some Ticking \<or> (\<exists>e. pr_stats p = Some (Failed e)))
      | Some r \<Rightarrow>
          (case pr_stats p of
             Some (Failed e) \<Rightarrow> pr_result p = Some (Inl e) \<and> pr_app p \<noteq> None \<and> pr_handlers p = handled_signals supported
           | stats \<Rightarrow>
               stats = Some Cancelled \<and>
               (case fails CleanupOps of
                  Some e \<Rightarrow> pr_result p = Some (Inl e) \<and> pr_app p \<noteq> None \<and> pr_handlers p = handled_signals supported
                | None \<Rightarrow>
                    pr_app p = None \<and>
                    (case dropWhile (\<lambda>g. fails (RemoveHandler g) = None) (handled_signals supported) of
                       g # gs \<Rightarrow> pr_result p = map_option Inl (fails (RemoveHandler g)) \<and> pr_handlers p = g # gs
                     | [] \<Rightarrow> pr_result p = Some r \<and> pr_handlers p = [] \<and>
                         last (pr_log p) = (''shutdown'', entries (pr_state p))))))"

section \<open>Counters that never fall\<close>

lemma counted_up_refl [simp]: "counted_up xs xs"
  by (auto simp: counted_up_def list_all2_same)

lemma counted_up_trans: "counted_up xs ys \<Longrightarrow> counted_up ys zs \<Longrightarrow> counted_up xs zs"
  unfolding counted_up_def by (rule list_all2_trans) auto

text \<open>
  The interface both loops offer to the shell around them: steps never lower a counter. What the shell
  logs is then a rising sequence.
\<close>

locale counting_loop =
  fixes step :: "'e \<Rightarrow> 's \<Rightarrow> 's" and entries :: "'s \<Rightarrow> (string \<times> int) list"
  assumes step_counts: "counted_up (entries s) (entries (step e s))"
begin

definition live_ok :: "log_line list \<Rightarrow> string list \<Rightarrow> 'a ops_app \<Rightarrow> ('s, 'a) process \<Rightarrow> bool" where
  "live_ok greeting handled app p \<longleftrightarrow>
     pr_result p = None \<and> pr_handlers p = handled \<and> pr_app p = Some app \<and>
     (pr_stats p = Some Ticking \<or> (\<exists>e. pr_stats p = Some (Failed e))) \<and>
     (\<exists>new. pr_log p = greeting @ map (Pair ''stats'') new \<and> sorted_wrt counted_up (new @ [entries (pr_state p)]))"

lemma sorted_extend: "sorted_wrt counted_up (new @ [x]) \<Longrightarrow> counted_up x y \<Longrightarrow> sorted_wrt counted_up (new @ [y])"
  by (auto simp: sorted_wrt_append intro: counted_up_trans)

lemma live_step_ok:
  assumes "live_ok greeting handled app p"
  shows "live_ok greeting handled app (live_step step ended entries ev p)"
proof -
  obtain new where new: "pr_log p = greeting @ map (Pair ''stats'') new" "sorted_wrt counted_up (new @ [entries (pr_state p)])"
    using assms by (auto simp: live_ok_def)
  have "sorted_wrt counted_up ((new @ [entries (pr_state p)]) @ [entries (pr_state p)])"
    using new(2) by (auto simp: sorted_wrt_append)
  then have due: "\<exists>n. pr_log p @ [(''stats'', entries (pr_state p))] = greeting @ map (Pair ''stats'') n \<and>
      sorted_wrt counted_up (n @ [entries (pr_state p)])"
    using new(1) by (intro exI [of _ "new @ [entries (pr_state p)]"]) simp
  have stepped: "\<exists>n. pr_log p = greeting @ map (Pair ''stats'') n \<and> sorted_wrt counted_up (n @ [entries (step e (pr_state p))])" for e
    using new sorted_extend [OF new(2) step_counts] by blast
  show ?thesis
    using assms due stepped by (cases ev) (auto simp: live_step_def live_ok_def)
qed

lemma live_ok: "live_ok greeting handled app p \<Longrightarrow> live_ok greeting handled app (fold (live_step step ended entries) evs p)"
  by (induction evs arbitrary: p) (simp_all add: live_step_ok)

lemma live_keeps:
  assumes "P (pr_state p)" and "\<And>e s. P s \<Longrightarrow> P (step e s)"
  shows "P (pr_state (fold (live_step step ended entries) evs p))"
  using assms(1)
proof (induction evs arbitrary: p)
  case (Cons ev evs)
  have "P (pr_state (live_step step ended entries ev p))"
    using Cons.prems assms(2) by (simp add: live_step_def split: live_event.split)
  then show ?case using Cons.IH by simp
qed simp

end

text \<open>The steps of the \<^verbatim>\<open>finally\<close>, run in order.\<close>

lemma run_cleanup_state [simp]: "pr_state (run_cleanup entries fails r sts p) = pr_state p"
proof (induction sts arbitrary: p)
  case (Cons st sts)
  then show ?case by (cases st) (simp_all split: option.split stats_task.split)
qed simp

lemma run_cleanup_cancelled: "pr_stats p = Some Cancelled \<Longrightarrow> pr_stats (run_cleanup entries fails r sts p) = Some Cancelled"
proof (induction sts arbitrary: p)
  case (Cons st sts)
  then show ?case by (cases st) (simp_all split: option.split)
qed simp

lemma cleanup_cancels:
  assumes "pr_stats p = Some Ticking"
  shows "pr_stats (run_cleanup entries fails r (cleanup_steps handled) p) = Some Cancelled"
proof -
  let ?p = "p\<lparr>pr_stats := Some Cancelled\<rparr>"
  have "run_cleanup entries fails r (cleanup_steps handled) p =
    run_cleanup entries fails r ([AwaitStats, CleanupOps] @ map RemoveHandler handled @ [LogShutdown]) ?p"
    using assms by (simp add: cleanup_steps_def)
  moreover have "pr_stats ?p = Some Cancelled" by simp
  ultimately show ?thesis by (metis run_cleanup_cancelled)
qed

lemma run_removals:
  assumes "distinct handlers" and "pr_handlers p = handlers"
  shows "run_cleanup entries fails r (map RemoveHandler handlers @ [LogShutdown]) p =
    (case dropWhile (\<lambda>g. fails (RemoveHandler g) = None) handlers of
       [] \<Rightarrow> p\<lparr>pr_handlers := [], pr_log := pr_log p @ [(''shutdown'', entries (pr_state p))], pr_result := Some r\<rparr>
     | g # gs \<Rightarrow> p\<lparr>pr_handlers := g # gs, pr_result := map_option Inl (fails (RemoveHandler g))\<rparr>)"
  using assms
proof (induction handlers arbitrary: p)
  case (Cons g gs)
  show ?case
  proof (cases "fails (RemoveHandler g)")
    case None
    have r: "removeAll g (g # gs) = gs" using Cons.prems(1) by simp
    have "run_cleanup entries fails r (map RemoveHandler gs @ [LogShutdown]) (p\<lparr>pr_handlers := gs\<rparr>) =
      (case dropWhile (\<lambda>g. fails (RemoveHandler g) = None) gs of
         [] \<Rightarrow> p\<lparr>pr_handlers := [], pr_log := pr_log p @ [(''shutdown'', entries (pr_state p))], pr_result := Some r\<rparr>
       | g # gs \<Rightarrow> p\<lparr>pr_handlers := g # gs, pr_result := map_option Inl (fails (RemoveHandler g))\<rparr>)"
      using Cons.IH [of "p\<lparr>pr_handlers := gs\<rparr>"] Cons.prems(1)
      by (cases "dropWhile (\<lambda>g. fails (RemoveHandler g) = None) gs") (simp_all del: dropWhile_eq_Nil_conv)
    then show ?thesis using None r Cons.prems(2) by (simp del: removeAll.simps)
  next
    case (Some e)
    have "p\<lparr>pr_handlers := g # gs\<rparr> = p" using Cons.prems(2) by simp
    then show ?thesis using Some by simp
  qed
next
  case Nil
  then show ?case by simp
qed

text \<open>The process once its server is bound, and what becomes of it.\<close>

definition up_process :: "string list \<Rightarrow> 'a ops_app \<Rightarrow> int \<Rightarrow> log_line list \<Rightarrow> 's \<Rightarrow> ('s, 'a) process" where
  "up_process handled app port greeting s =
     \<lparr>pr_state = s, pr_handlers = handled, pr_app = Some app, pr_port = Some port, pr_stats = Some Ticking,
      pr_log = greeting, pr_result = None\<rparr>"

lemma run_process_up:
  assumes "server = Inr (app, port)"
  shows "run_process step ended entries supported fails server greeting s evs =
    (let p = fold (live_step step ended entries) evs (up_process (handled_signals supported) app port greeting s)
     in case ended (pr_state p) of
          None \<Rightarrow> p
        | Some r \<Rightarrow> run_cleanup entries fails r (cleanup_steps (handled_signals supported)) p)"
  by (simp only: run_process_def assms up_process_def Let_def sum.case prod.case process.simps)

lemma handled_distinct: "distinct (handled_signals supported)"
  by (simp add: handled_signals_def)

context counting_loop
begin

lemma cleanup_shell:
  assumes l: "live_ok greeting (handled_signals supported) app p" and e: "ended (pr_state p) = Some r"
  shows "shell_ok ended entries supported fails greeting (run_cleanup entries fails r (cleanup_steps (handled_signals supported)) p)"
proof -
  obtain new where new: "pr_log p = greeting @ map (Pair ''stats'') new" "sorted_wrt counted_up (new @ [entries (pr_state p)])"
    using l by (auto simp: live_ok_def)
  have snds: "map (snd \<circ> Pair ''stats'') new = new" by (induction new) simp_all
  have lines: "\<exists>ls. pr_log p = greeting @ ls \<and> sorted_wrt counted_up (map snd ls)"
    using new snds by (auto simp: sorted_wrt_append)
  have down: "\<exists>ls. pr_log p @ [(''shutdown'', entries (pr_state p))] = greeting @ ls \<and> sorted_wrt counted_up (map snd ls)"
    using new by (intro exI [of _ "map (Pair ''stats'') new @ [(''shutdown'', entries (pr_state p))]"]) (simp add: snds)
  show ?thesis
  proof (cases "pr_stats p = Some Ticking")
    case False
    then obtain x where x: "pr_stats p = Some (Failed x)" using l by (auto simp: live_ok_def)
    have "run_cleanup entries fails r (cleanup_steps (handled_signals supported)) p = p\<lparr>pr_result := Some (Inl x)\<rparr>"
      by (simp add: cleanup_steps_def x)
    then show ?thesis using l e x lines by (auto simp: shell_ok_def live_ok_def)
  next
    case True
    let ?p = "p\<lparr>pr_stats := Some Cancelled\<rparr>"
    have first: "run_cleanup entries fails r (cleanup_steps (handled_signals supported)) p =
      (case fails CleanupOps of Some x \<Rightarrow> ?p\<lparr>pr_result := Some (Inl x)\<rparr>
       | None \<Rightarrow> run_cleanup entries fails r (map RemoveHandler (handled_signals supported) @ [LogShutdown]) (?p\<lparr>pr_app := None\<rparr>))"
      using True by (simp add: cleanup_steps_def split: option.split)
    show ?thesis
    proof (cases "fails CleanupOps")
      case (Some x)
      then show ?thesis using l e lines by (simp add: first shell_ok_def live_ok_def)
    next
      case None
      have h: "pr_handlers (?p\<lparr>pr_app := None\<rparr>) = handled_signals supported" using l by (simp add: live_ok_def)
      show ?thesis
        using l e lines down None
        by (cases "dropWhile (\<lambda>g. fails (RemoveHandler g) = None) (handled_signals supported)")
           (auto simp: first run_removals [OF handled_distinct h] shell_ok_def live_ok_def simp del: dropWhile_eq_Nil_conv)
    qed
  qed
qed

lemma shell:
  assumes "server = Inr (app, port)"
  shows "shell_ok ended entries supported fails greeting (run_process step ended entries supported fails server greeting s evs)"
proof -
  let ?p0 = "up_process (handled_signals supported) app port greeting s"
  define p where "p = fold (live_step step ended entries) evs ?p0"
  have "live_ok greeting (handled_signals supported) app ?p0" by (simp add: up_process_def live_ok_def)
  then have l: "live_ok greeting (handled_signals supported) app p" unfolding p_def by (rule live_ok)
  note r = run_process_up [OF assms, of step ended entries supported fails greeting s evs, folded p_def]
  show ?thesis
  proof (cases "ended (pr_state p)")
    case None
    obtain new where new: "pr_log p = greeting @ map (Pair ''stats'') new" "sorted_wrt counted_up (new @ [entries (pr_state p)])"
      using l by (auto simp: live_ok_def)
    have snds: "map (snd \<circ> Pair ''stats'') new = new" by (induction new) simp_all
    show ?thesis using l None new snds by (auto simp: r shell_ok_def live_ok_def sorted_wrt_append)
  next
    case (Some x)
    then show ?thesis using cleanup_shell [where ended = ended, OF l Some] by (simp add: r)
  qed
qed

lemma shell_state:
  assumes "P s" and "\<And>e s. P s \<Longrightarrow> P (step e s)"
  shows "P (pr_state (run_process step ended entries supported fails server greeting s evs))"
proof (cases server)
  case (Inl e)
  then show ?thesis using assms(1) by (simp add: run_process_def Let_def)
next
  case (Inr ap)
  obtain app port where ap: "ap = (app, port)" by force
  define p where "p = fold (live_step step ended entries) evs (up_process (handled_signals supported) app port greeting s)"
  have "P (pr_state p)" unfolding p_def
    by (rule live_keeps) (use assms in \<open>simp_all add: up_process_def\<close>)
  then show ?thesis
    using run_process_up [OF Inr [unfolded ap], of step ended entries supported fails greeting s evs, folded p_def]
    by (cases "ended (pr_state p)") simp_all
qed

end

text \<open>A port that is taken ends \<^verbatim>\<open>run\<close> before its \<^verbatim>\<open>try\<close>: the signal handlers stay, and the loop takes no step.\<close>

definition never_up :: "string list \<Rightarrow> 's \<Rightarrow> py_exc \<Rightarrow> ('s, 'a) process \<Rightarrow> bool" where
  "never_up supported s e p \<longleftrightarrow>
     pr_state p = s \<and> pr_handlers p = handled_signals supported \<and> pr_app p = None \<and> pr_stats p = None \<and> pr_log p = [] \<and>
     pr_result p = Some (Inl e)"

lemma port_taken: "never_up supported s e (run_process step ended entries supported fails (Inl e) greeting s evs)"
  by (simp add: run_process_def never_up_def Let_def)

section \<open>Both loops are counting loops\<close>

definition above :: "(string \<times> int) list \<Rightarrow> 'p world \<Rightarrow> bool" where
  "above n w \<longleftrightarrow> counted_up n (ingest_entries (w_counters w))"

lemma above_handle_one: "keeps (above n) (handle_one decode msg item)"
proof -
  have stmt: "keeps (above n) (run_stmt st)" for st :: "'p tables \<Rightarrow> 'b \<times> 'p tables"
    by (auto simp: keeps_def above_def run_stmt_def execute_def Let_def split: prod.split fault.split list.split)
  have more: "keeps (above n) (count f)" if "\<And>c. counted_up (ingest_entries c) (ingest_entries (f c))" for f
    using that by (auto simp: keeps_def above_def intro: counted_up_trans)
  have note_it: "keeps (above n) (note_arrival r)" for r
    unfolding keeps_def
    by (auto simp: note_arrival_def above_def counted_up_def ingest_entries_def list_all2_Cons2 split: option.split sum.split)
  have reading: "keeps (above n) (write_reading r)" for r
    by (auto simp: write_reading_def settle_insert_def counted_up_def ingest_entries_def intro!: keeps_andthen stmt more)
  have dead: "keeps (above n) (write_dead_letter d)" for d
    by (auto simp: write_dead_letter_def counted_up_def ingest_entries_def intro!: keeps_andthen stmt more)
  show ?thesis
    by (auto simp: handle_one_def split: sum.split outcome.split intro!: keeps_andthen note_it reading dead)
qed

abbreviation ingest_counts :: "'p service \<Rightarrow> (string \<times> int) list" where
  "ingest_counts s \<equiv> ingest_entries (w_counters (s_world s))"

lemma handle_in_counts: "handle_in decode msg faults item s = (r, s') \<Longrightarrow> counted_up (ingest_counts s) (ingest_counts s')"
proof -
  assume h: "handle_in decode msg faults item s = (r, s')"
  obtain q w where w: "handle_one decode msg item ((s_world s)\<lparr>w_faults := faults\<rparr>) = (q, w)" by force
  have "above (ingest_counts s) w"
    by (rule keepsD [OF above_handle_one _ w]) (simp add: above_def)
  then show ?thesis using h w by (auto simp: handle_in_def above_def)
qed

lemma take_one_counts: "counted_up (ingest_counts s) (ingest_counts (take_one decode msg faults item rest s))"
  using handle_in_counts [of decode msg faults item "s\<lparr>s_queue := rest, s_pending := s_pending s @ [item]\<rparr>"]
  by (auto simp: take_one_def split: prod.split sum.split)

lemma work_counts: "counted_up (ingest_counts s) (ingest_counts (work_step decode msg faults s))"
proof (cases "s_phase s")
  case Replaying
  then show ?thesis using handle_in_counts [of decode msg faults "hd (s_pending s)" s]
    by (auto simp: work_step_def replay_step_def split: prod.split sum.split)
next
  case Consuming
  then show ?thesis using take_one_counts by (auto simp: work_step_def consume_step_def split: list.split)
next
  case Draining
  then show ?thesis using take_one_counts by (auto simp: work_step_def drain_step_def split: list.split)
next
  case Flushing
  then show ?thesis using handle_in_counts [of decode msg faults "hd (s_pending s)" s]
    by (auto simp: work_step_def flush_step_def drop_pending_def split: prod.split sum.split list.split)
qed (simp_all add: work_step_def)

interpretation ingest: counting_loop "service_step decode msg cfg" "\<lambda>s. ingest_entries (w_counters (s_world s))"
proof
  fix s and e :: "'a event"
  show "counted_up (ingest_counts s) (ingest_counts (service_step decode msg cfg e s))"
    by (cases e) (auto simp: work_counts connect_db_def connect_broker_def subscribe_step_def backoff_step_def
        drop_pending_def deliver_def split: phase.split option.split)
qed

definition pass_above :: "(string \<times> int) list \<Rightarrow> pass_world \<Rightarrow> bool" where
  "pass_above n w \<longleftrightarrow> counted_up n (analytics_entries (p_counters w))"

lemma pass_above_forecast: "keeps (pass_above n) (process_forecast stamp cfg d m previous fr)"
proof -
  have call: "keeps (pass_above n) (store_call stmt)" for stmt :: "store_tables \<Rightarrow> 'b \<times> store_tables"
    unfolding keeps_def using store_call_fields [of stmt] by (metis pass_above_def prod.collapse)
  have more: "keeps (pass_above n) (bump f)" if "\<And>c. counted_up (analytics_entries c) (analytics_entries (f c))" for f
    unfolding bump_def by (rule keeps_modify) (auto simp: pass_above_def intro: counted_up_trans that)
  have post: "keeps (pass_above n) (post_ntfy title message)" for title message
    by (auto simp: keeps_def post_ntfy_def pass_above_def Let_def)
  have up: "counted_up (analytics_entries c) (analytics_entries (c\<lparr>alerts_fired := alerts_fired c + 1\<rparr>))"
    "counted_up (analytics_entries c) (analytics_entries (c\<lparr>alerts_cleared := alerts_cleared c + 1\<rparr>))"
    "counted_up (analytics_entries c) (analytics_entries (c\<lparr>notify_failures := notify_failures c + 1\<rparr>))"
    "counted_up (analytics_entries c) (analytics_entries (c\<lparr>forecasts_written := forecasts_written c + 1\<rparr>))" for c
    by (simp_all add: counted_up_def analytics_entries_def)
  have announce: "keeps (pass_above n) (announce stamp cfg d m fc h tr event)" for fc h tr event
    by (auto simp: announce_def announce_firing_def up split: option.splits sum.splits intro!: keeps_andthen more post call)
  have alert: "keeps (pass_above n) (handle_alert stamp cfg d m fc previous)" for fc
    by (auto simp: handle_alert_decide split: option.splits sum.splits intro!: keeps_andthen call announce)
  show ?thesis
    by (auto simp: process_forecast_def insert_forecast_def up split: option.splits sum.splits
        intro!: keeps_andthen call more alert)
qed

lemma pass_above_run: "keeps (pass_above n) (run_pass tie stamp cfg connect since)"
  by (rule run_pass_keeps) (simp add: pass_above_def, simp add: pass_above_def, rule pass_above_forecast)

abbreviation analytics_counts :: "analytics_service \<Rightarrow> (string \<times> int) list" where
  "analytics_counts s \<equiv> analytics_entries (p_counters (an_world s))"

lemma tick_counts: "counted_up (analytics_counts s) (analytics_counts (tick tie stamp cfg connect faults replies began ended s))"
proof -
  obtain r w where w: "run_pass tie stamp cfg connect (an_last_data_now s) ((an_world s)\<lparr>p_faults := faults, p_replies := replies\<rparr>) = (r, w)"
    by force
  have "pass_above (analytics_counts s) w"
    by (rule keepsD [OF pass_above_run _ w]) (simp add: pass_above_def)
  then have up: "counted_up (analytics_counts s) (analytics_entries (p_counters w))" by (simp add: pass_above_def)
  have "counted_up (analytics_counts s) (analytics_counts (after_pass r (s\<lparr>an_world := w\<rparr>)))"
  proof (rule counted_up_trans [OF up])
    show "counted_up (analytics_entries (p_counters w)) (analytics_counts (after_pass r (s\<lparr>an_world := w\<rparr>)))"
      by (simp add: after_pass_def Let_def counted_up_def analytics_entries_def split: sum.split)
  qed
  then show ?thesis using up w by (auto simp: tick_def split: sum.split)
qed

interpretation analytics: counting_loop "analytics_step tie stamp cfg" "\<lambda>s. analytics_entries (p_counters (an_world s))"
proof
  fix s e
  show "counted_up (analytics_counts s) (analytics_counts (analytics_step tie stamp cfg e s))"
    by (cases e) (auto simp: tick_counts)
qed

end
