(* ===== verification/Ops_Claims.thy ===== *)
theory Ops_Claims
  imports Service_Process Analytics_Claims
begin

text \<open>
  The properties of the ops endpoints and of the processes around the two loops. Claim numbers are
  those of the whole development.
\<close>

text \<open>The handler registered for \<^verbatim>\<open>/healthz\<close>, and what it returns in a state.\<close>

definition healthz_returns :: "'s ops_app \<Rightarrow> 's \<Rightarrow> int \<Rightarrow> ustr \<Rightarrow> bool" where
  "healthz_returns app s status t \<longleftrightarrow>
     (\<exists>handler. map_of (app_routes app) ''/healthz'' = Some handler \<and>
        rs_status (handler (app_keys app) s) = status \<and> rs_text (handler (app_keys app) s) = t)"

lemma healthz_answer:
  assumes "start_ops_server lib bind host port healthz registry = Inr (app, bound)"
    and "healthz s = (status, body)"
  shows "healthz_returns app s status (dumps default_style body)"
  using assms by (auto simp: start_ops_server_def Let_def healthz_returns_def answer_healthz_def)

lemma ingest_entries_names: "map fst (ingest_entries c) = [''ingested'', ''deduplicated'', ''dead_lettered'', ''out_of_order'']"
  by (simp add: ingest_entries_def)

lemma analytics_entries_names: "map fst (analytics_entries c) =
    [''passes'', ''pass_failures'', ''forecasts_written'', ''alerts_fired'', ''alerts_cleared'', ''notify_failures'']"
  by (simp add: analytics_entries_def)

text \<open>
  C27: what ingestion's health endpoint answers. In every reachable state the handler registered for
  \<open>/healthz\<close> returns 200 if the service is subscribed with its writer connected, and has not yet left the
  client context, and 503 otherwise, never anything else. The text is JSON that parses back to the status,
  the two connection flags, and the four counters. The flags stay up while a subscribed client closes;
  they differ only while the broker is being connected or subscribed to, or a client is closing whose
  subscription failed. The counters are taken to have at most 4300 digits, Python's limit for the text of
  an integer, and the client's JSON reader to admit two levels of nesting.
\<close>

theorem ingest_health_served:
  assumes "reach decode msg cfg ok t s" and "start_ingest_ops lib bind host port = Inr (app, bound)" and "2 \<le> limit"
    and "\<forall>(name, v) \<in> set (ingest_entries (w_counters (s_world s))). length (show_int v) \<le> 4300"
  shows "let up = s_phase s \<in> {Replaying, Consuming, Draining} \<or> (\<exists>cause. s_phase s = Closing True cause);
             db = up \<or> s_phase s \<in> {DbUp, Subscribing} \<or> (\<exists>cause. s_phase s = Closing False cause)
         in \<exists>t. healthz_returns app s (if up then 200 else 503) t \<and>
              loads limit t = Inr (JObj
                [(ascii ''status'', JStr (ascii (if up then ''healthy'' else ''unhealthy''))),
                 (ascii ''broker_connected'', JBool up),
                 (ascii ''db_connected'', JBool db),
                 (ascii ''counters'', JObj (map (\<lambda>(name, v). (ascii name, JNum (ascii (show_int v))))
                   (ingest_entries (w_counters (s_world s)))))])"
proof -
  let ?up = "s_phase s \<in> {Replaying, Consuming, Draining} \<or> (\<exists>cause. s_phase s = Closing True cause)"
  let ?db = "?up \<or> s_phase s \<in> {DbUp, Subscribing} \<or> (\<exists>cause. s_phase s = Closing False cause)"
  have flags: "broker_connected s \<longleftrightarrow> ?up" "db_connected s \<longleftrightarrow> ?db"
    using reach_flags [OF assms(1)] by (cases "s_phase s"; auto simp: flags_ok_def broker_phase_def db_phase_def)+
  obtain status h where h: "ingest_healthz s = (status, h)" by force
  then have hs: "status = (if ?up then 200 else 503)"
    "ih_counters h = w_counters (s_world s)"
    "ih_status h = (if ?up then ''healthy'' else ''unhealthy'')"
    "ih_broker_connected h = ?up" "ih_db_connected h = ?db"
    by (auto simp: ingest_healthz_def Let_def flags status_text_def)
  have shown: "entries_shown (ingest_entries (ih_counters h))"
    using assms(4) by (simp add: entries_shown_def ingest_entries_names hs(2) MAX_STR_DIGITS_def)
  have answer: "healthz_returns app s status (dumps default_style (ingest_body h))"
    using assms(2) unfolding start_ingest_ops_def by (rule healthz_answer) (simp add: h)
  then show ?thesis
    using ingest_body_reads [OF shown assms(3)] unfolding Let_def
    by (intro exI [of _ "dumps default_style (ingest_body h)"] conjI) (simp_all only: hs ingest_body_def json_entries_def json_int_def)
qed

definition no_library :: library_metrics where
  "no_library = \<lparr>process_families = [], platform_families = [], generate_latest = \<lambda>fs. [], CONTENT_TYPE_LATEST = []\<rparr>"

text \<open>Ingestion, subscribed, with its client closing on a lost database connection.\<close>

definition ingest_closing :: "nat service" where
  "ingest_closing = run_events demo_decode demo_msg demo_settings [Connect None, Connect None, Subscribed None, Work [], BrokerLost]
     (start_service demo_settings empty_tables)"

lemma ingest_closing_state: "s_phase ingest_closing = Closing True (Some MqttError)"
  "w_counters (s_world ingest_closing) = zero_counters"
  by (simp_all add: ingest_closing_def run_events_def start_service_def connect_db_def connect_broker_def subscribe_step_def
      work_step_def replay_step_def)

lemma ingest_closing_reach: "reach demo_decode demo_msg demo_settings (\<lambda>_ _. True) empty_tables ingest_closing"
  unfolding ingest_closing_def by (rule run_events_reach) (rule reach.start)

theorem ingest_health_served_witness:
  "\<exists>app t t'. start_ingest_ops no_library (\<lambda>h p. Inr 8080) ''127.0.0.1'' 8080 = Inr (app, 8080) \<and>
     healthz_returns app ingest_closing 200 t \<and>
     healthz_returns app (start_service demo_settings empty_tables :: nat service) 503 t'"
proof -
  let ?start = "start_service demo_settings empty_tables :: nat service"
  obtain app :: "nat service ops_app" where app: "start_ingest_ops no_library (\<lambda>h p. Inr 8080) ''127.0.0.1'' 8080 = Inr (app, 8080 :: int)"
    by (simp add: start_ingest_ops_def start_ops_server_def Let_def)
  have z: "show_int 0 = ''0''" by code_simp
  have "\<forall>(name, v) \<in> set (ingest_entries (w_counters (s_world ingest_closing))). length (show_int v) \<le> 4300"
    using ingest_closing_state(2) z by (simp add: ingest_entries_def zero_counters_def)
  from ingest_health_served [OF ingest_closing_reach app _ this, of 2]
  have "\<exists>t. healthz_returns app ingest_closing 200 t" using ingest_closing_state by (auto simp: Let_def)
  moreover have "\<forall>(name, v) \<in> set (ingest_entries (w_counters (s_world ?start))). length (show_int v) \<le> 4300"
    using z by (simp add: ingest_entries_def zero_counters_def start_service_def)
  from ingest_health_served [OF reach.start app _ this, of 2]
  have "\<exists>t. healthz_returns app ?start 503 t" by (auto simp: Let_def start_service_def)
  ultimately show ?thesis using app by blast
qed

text \<open>
  C35: what the health endpoint of analytics answers. In every reachable state, at a clock reading
  \<open>now\<close>, the handler registered for \<open>/healthz\<close> returns 200 exactly if the latest pass succeeded and ended at most two intervals
  and thirty seconds ago, in which case a pass has succeeded since the start, and 503 otherwise; the
  text parses back to the verdict, the flag, the age of the latest pass (null before the first), and
  the counters. As before the counters have at most 4300 digits; the text of the age is a JSON number,
  as that of every finite float is.
\<close>

theorem analytics_health_served:
  assumes "analytics_reach tie stamp cfg t s"
    and "start_analytics_ops lib float_text bind host port (interval_seconds cfg) = Inr (app, bound)"
    and "2 \<le> limit"
    and "\<forall>(name, v) \<in> set (analytics_entries (p_counters (an_world s))). length (show_int v) \<le> 4300"
    and "\<forall>e. last_pass_monotonic s = Some e \<longrightarrow> number_ok (float_text (fsub now e))"
  shows "let ok = last_pass_ok s \<and> (\<exists>e. last_pass_monotonic s = Some e \<and>
               fle (fsub now e) (fadd (fmul (interval_seconds cfg) (Fin 2)) (Fin 30)));
             status = if ok then 200 else 503
         in (ok \<longrightarrow> 1 \<le> passes (p_counters (an_world s))) \<and>
            (\<exists>t. healthz_returns app (s, now) status t \<and> loads limit t = Inr (JObj
              [(ascii ''status'', JStr (ascii (if ok then ''healthy'' else ''unhealthy''))),
               (ascii ''last_pass_ok'', JBool (last_pass_ok s)),
               (ascii ''seconds_since_last_pass'',
                 (case last_pass_monotonic s of None \<Rightarrow> JNull | Some e \<Rightarrow> JNum (float_text (fsub now e)))),
               (ascii ''counters'', JObj (map (\<lambda>(name, v). (ascii name, JNum (ascii (show_int v))))
                 (analytics_entries (p_counters (an_world s)))))]))"
proof -
  let ?ok = "last_pass_ok s \<and> (\<exists>e. last_pass_monotonic s = Some e \<and>
    fle (fsub now e) (fadd (fmul (interval_seconds cfg) (Fin 2)) (Fin 30)))"
  obtain status h where h: "analytics_healthz s (interval_seconds cfg) now = (status, h)" by force
  then have hs: "status = (if ?ok then 200 else 503)" "ah_counters h = p_counters (an_world s)"
    "ah_status h = (if ?ok then ''healthy'' else ''unhealthy'')" "ah_last_pass_ok h = last_pass_ok s"
    "ah_seconds_since_last_pass h = map_option (\<lambda>e. fsub now e) (last_pass_monotonic s)"
    by (auto simp: analytics_healthz_def Let_def status_text_def overdue_after_def OVERDUE_FACTOR_def
        OVERDUE_GRACE_SECONDS_def split: option.splits)
  have shown: "entries_shown (analytics_entries (ah_counters h))"
    using assms(4) by (simp add: entries_shown_def analytics_entries_names hs(2) MAX_STR_DIGITS_def)
  have number: "ah_seconds_since_last_pass h = Some x \<Longrightarrow> number_ok (float_text x)" for x
    using assms(5) by (auto simp: hs(5))
  have answer: "healthz_returns app (s, now) status (dumps default_style (analytics_body float_text h))"
    using assms(2) unfolding start_analytics_ops_def by (rule healthz_answer) (simp add: h)
  have seconds: "(case map_option (\<lambda>e. fsub now e) (last_pass_monotonic s) of None \<Rightarrow> JNull | Some x \<Rightarrow> JNum (float_text x)) =
      (case last_pass_monotonic s of None \<Rightarrow> JNull | Some e \<Rightarrow> JNum (float_text (fsub now e)))"
    by (simp split: option.split)
  have passed: "?ok \<longrightarrow> 1 \<le> passes (p_counters (an_world s))"
    using reach_attempts [OF assms(1)] by (auto simp: attempts_counted_def)
  have reads: "loads limit (dumps default_style (analytics_body float_text h)) = Inr (analytics_body float_text h)"
    by (rule analytics_body_reads [OF shown assms(3) number])
  show ?thesis
    unfolding Let_def
    using answer [unfolded analytics_body_def json_entries_def json_int_def hs seconds] passed
      reads [unfolded analytics_body_def json_entries_def json_int_def hs seconds]
    by (intro conjI exI) (simp_all only:)
qed

text \<open>A first pass over an empty database, and the text of a float that is an integer.\<close>

definition no_tables :: store_tables where
  "no_tables = \<lparr>st_telemetry = [], st_forecasts = Map.empty, st_alerts = []\<rparr>"

definition first_pass :: analytics_service where
  "first_pass = analytics_step (\<lambda>_. Firing) (\<lambda>_. []) default_settings (Tick None [] [] (Fin 0) (Fin 1)) (start_analytics no_tables)"

definition whole_text :: "pyfloat \<Rightarrow> ustr" where
  "whole_text x = (case x of Fin r \<Rightarrow> ascii (show_int \<lfloor>r\<rfloor> @ ''.0'') | _ \<Rightarrow> [])"

lemma run_pass_no_tables:
  assumes "p_tables w = no_tables" and "p_faults w = []"
  shows "run_pass tie stamp default_settings None None w = (Inr None, w\<lparr>p_devices := 0\<rparr>)"
proof -
  have kinds: "\<not> (\<exists>m \<in> set METRICS. metric_kind m \<notin> set WINDOW_KINDS)"
    by (auto simp: METRICS_def WINDOW_KINDS_def WATER_def BATTERY_def)
  have "data_now no_tables = None" by (simp add: data_now_def no_tables_def)
  moreover have "w\<lparr>p_faults := []\<rparr> = w" using assms(2) by simp
  ultimately show ?thesis
    using kinds assms by (simp add: run_pass_def default_metrics andthen_def store_call_def execute_def modify_def ret_def)
qed

lemma first_pass_state: "last_pass_ok first_pass" "last_pass_monotonic first_pass = Some (Fin 1)"
  "p_counters (an_world first_pass) = zero_analytics_counters\<lparr>passes := 1\<rparr>"
proof -
  have st: "an_phase (start_analytics no_tables) = Passing" "\<not> an_stop (start_analytics no_tables)"
    "an_last_data_now (start_analytics no_tables) = None" "p_tables (an_world (start_analytics no_tables)) = no_tables"
    "p_counters (an_world (start_analytics no_tables)) = zero_analytics_counters"
    by (simp_all add: start_analytics_def)
  then show "last_pass_ok first_pass" "last_pass_monotonic first_pass = Some (Fin 1)"
    "p_counters (an_world first_pass) = zero_analytics_counters\<lparr>passes := 1\<rparr>"
    by (simp_all add: first_pass_def tick_def run_pass_no_tables after_pass_def Let_def)
       (simp add: zero_analytics_counters_def)
qed

theorem analytics_health_served_witness:
  "\<exists>app t t'. start_analytics_ops no_library whole_text (\<lambda>h p. Inr p) ''127.0.0.1'' 8081 (interval_seconds default_settings) =
       Inr (app, 8081) \<and>
     healthz_returns app (first_pass, Fin 31) 200 t \<and>
     loads 2 t = Inr (JObj
       [(ascii ''status'', JStr (ascii ''healthy'')), (ascii ''last_pass_ok'', JBool True),
        (ascii ''seconds_since_last_pass'', JNum (ascii ''30.0'')),
        (ascii ''counters'', JObj (map (\<lambda>(name, v). (ascii name, JNum (ascii (show_int v))))
           (analytics_entries (zero_analytics_counters\<lparr>passes := 1\<rparr>))))]) \<and>
     healthz_returns app (start_analytics no_tables, Fin 31) 503 t'"
proof -
  obtain app where app: "start_analytics_ops no_library whole_text (\<lambda>h p. Inr p) ''127.0.0.1'' 8081
      (interval_seconds default_settings) = Inr (app, 8081)"
    by (simp add: start_analytics_ops_def start_ops_server_def Let_def)
  have z: "show_int 0 = ''0''" "show_int 1 = ''1''" by code_simp+
  have r: "analytics_reach (\<lambda>_. Firing) (\<lambda>_. []) default_settings no_tables first_pass"
    unfolding first_pass_def by (intro analytics_reach.intros)
  have "fsub (Fin 31) (Fin 1) = Fin 30" using small_Fin [of 30] by simp
  then have age: "fsub (Fin 31) (Fin 1) = Fin 30" "whole_text (Fin 30) = ascii ''30.0''" by (simp, code_simp)
  have limit: "fle (Fin 30) (fadd (fmul (interval_seconds default_settings) (Fin 2)) (Fin 30))"
    using small_Fin [of 60] small_Fin [of 90] by (simp add: default_settings_def)
  have "\<forall>(name, v) \<in> set (analytics_entries (p_counters (an_world first_pass))). length (show_int v) \<le> 4300"
    using z by (simp add: first_pass_state analytics_entries_def zero_analytics_counters_def)
  moreover have n: "number_ok (ascii ''30.0'')" by code_simp
  have "\<forall>e. last_pass_monotonic first_pass = Some e \<longrightarrow> number_ok (whole_text (fsub (Fin 31) e))"
    unfolding first_pass_state using n by (metis age option.inject)
  ultimately obtain t where t: "healthz_returns app (first_pass, Fin 31) 200 t" "loads 2 t = Inr (JObj
       [(ascii ''status'', JStr (ascii ''healthy'')), (ascii ''last_pass_ok'', JBool True),
        (ascii ''seconds_since_last_pass'', JNum (ascii ''30.0'')),
        (ascii ''counters'', JObj (map (\<lambda>(name, v). (ascii name, JNum (ascii (show_int v))))
           (analytics_entries (zero_analytics_counters\<lparr>passes := 1\<rparr>))))])"
    using analytics_health_served [OF r app, of 2 "Fin 31"] limit age
    by (auto simp: Let_def first_pass_state)
  have "\<forall>(name, v) \<in> set (analytics_entries (p_counters (an_world (start_analytics no_tables)))). length (show_int v) \<le> 4300"
    using z by (simp add: analytics_entries_def start_analytics_def zero_analytics_counters_def)
  from analytics_health_served [OF analytics_reach.start app _ this, of 2 "Fin 31"]
  obtain t' where "healthz_returns app (start_analytics no_tables, Fin 31) 503 t'"
    by (auto simp: Let_def start_analytics_def)
  with app t show ?thesis by blast
qed

text \<open>
  C5: what a process leaves behind. If its ops server cannot be bound, a run of ingestion or of analytics
  ends with that exception before its loop takes a step, and its signal handlers stay installed. Once the
  server is bound, the run is at every moment in a reachable state of its loop. While the loop has not
  ended, the handlers, the server and the stats task are in place. When it has, normally or by an
  exception, and no step of the clean-up raises, all three are gone, the result is the loop's, and the last
  line logged are the final counters; a step that raises (a stats task that died, the server's cleanup, the
  removal of a handler) leaves in place exactly what the steps after it would have taken down, and its
  exception is the result. The counters logged along the way never fall.
\<close>

theorem processes_clean_up:
  fixes t :: "'p tables"
  shows "(let p = ingest_process lib bind decode msg cfg host port supported fails t evs
      in case start_ingest_ops lib bind host port :: ('p service ops_app \<times> int) res of
           Inl e \<Rightarrow> never_up supported (start_service cfg t) e p
         | Inr _ \<Rightarrow>
             reach decode msg cfg (\<lambda>_ _. True) t (pr_state p) \<and>
             shell_ok ingest_ended (\<lambda>s. ingest_entries (w_counters (s_world s))) supported fails [] p) \<and>
    (let p = analytics_process lib float_text abind tie stamp acfg ahost aport supported fails atables aevs
      in case start_analytics_ops lib float_text abind ahost aport (interval_seconds acfg) of
           Inl e \<Rightarrow> never_up supported (start_analytics atables) e p
         | Inr _ \<Rightarrow>
             analytics_reach tie stamp acfg atables (pr_state p) \<and>
             shell_ok analytics_ended (\<lambda>s. analytics_entries (p_counters (an_world s))) supported fails
               (if ntfy_url acfg = [] then [(''notifications_disabled'', [])] else []) p)"
proof -
  have i: "reach decode msg cfg (\<lambda>_ _. True) t (pr_state (ingest_process lib bind decode msg cfg host port supported fails t evs))"
    unfolding ingest_process_def
    by (rule ingest.shell_state [where P = "reach decode msg cfg (\<lambda>_ _. True) t"]) (auto intro: reach.intros)
  have a: "analytics_reach tie stamp acfg atables
      (pr_state (analytics_process lib float_text abind tie stamp acfg ahost aport supported fails atables aevs))"
    unfolding analytics_process_def
    by (rule analytics.shell_state [where P = "analytics_reach tie stamp acfg atables"]) (auto intro: analytics_reach.intros)
  show ?thesis
    using i a unfolding Let_def
    by (auto simp: ingest_process_def analytics_process_def port_taken split: sum.split
        intro!: ingest.shell analytics.shell)
qed

text \<open>A clean stop of ingestion, a stop whose server does not come down, and a taken port.\<close>

definition stopping :: "nat event live_event list" where
  "stopping = [StatsDue, Step StopSignal, Step (Connect None), StatsDue, Step (Work [])]"

definition demo_process :: "(cleanup \<Rightarrow> py_exc option) \<Rightarrow> (string \<Rightarrow> int \<Rightarrow> int res) \<Rightarrow> (nat service, nat service) process" where
  "demo_process fails bind = ingest_process no_library bind demo_decode demo_msg demo_settings ''127.0.0.1'' 8080
     [''SIGINT'', ''SIGTERM''] fails empty_tables stopping"

theorem processes_clean_up_witness:
  "(let p = demo_process (\<lambda>_. None) (\<lambda>h p. Inr p)
    in pr_result p = Some (Inr ()) \<and> pr_handlers p = [] \<and> pr_app p = None) \<and>
   (let p = demo_process (\<lambda>c. if c = CleanupOps then Some OSError else None) (\<lambda>h p. Inr p)
    in pr_result p = Some (Inl OSError) \<and> pr_handlers p = [''SIGINT'', ''SIGTERM''] \<and> pr_app p \<noteq> None) \<and>
   never_up [''SIGINT'', ''SIGTERM''] (start_service demo_settings empty_tables) OSError (demo_process (\<lambda>_. None) (\<lambda>h p. Inl OSError))"
proof -
  obtain app :: "nat service ops_app" where app: "start_ingest_ops no_library (\<lambda>h p. Inr p) ''127.0.0.1'' 8080 = Inr (app, 8080)"
    by (simp add: start_ingest_ops_def start_ops_server_def Let_def)
  have taken: "start_ingest_ops no_library (\<lambda>h p. Inl OSError) ''127.0.0.1'' 8080 = (Inl OSError :: (nat service ops_app \<times> int) res)"
    by (simp add: start_ingest_ops_def start_ops_server_def Let_def)
  define p where "p = fold (live_step (service_step demo_decode demo_msg demo_settings) ingest_ended ingest_counts) stopping
    (up_process (handled_signals [''SIGINT'', ''SIGTERM'']) app 8080 [] (start_service demo_settings empty_tables))"
  have p: "ingest_ended (pr_state p) = Some (Inr ())" "pr_stats p = Some Ticking"
    by (simp_all add: p_def stopping_def live_step_def up_process_def ingest_ended_def start_service_def connect_db_def
        work_step_def flush_step_def)
  have run: "demo_process fails (\<lambda>h p. Inr p) = run_cleanup ingest_counts fails (Inr ()) (cleanup_steps (handled_signals [''SIGINT'', ''SIGTERM''])) p" for fails
    unfolding demo_process_def ingest_process_def run_process_up [OF app] Let_def p_def [symmetric] p(1) option.case by (rule refl)
  have ends: "ingest_ended (pr_state (demo_process fails (\<lambda>h p. Inr p))) = Some (Inr ())"
      "pr_stats (demo_process fails (\<lambda>h p. Inr p)) = Some Cancelled" for fails
    unfolding run using p by (simp_all add: cleanup_cancels)
  note up = processes_clean_up [of no_library "\<lambda>h p. Inr p" demo_decode demo_msg demo_settings "''127.0.0.1''" 8080
      "[''SIGINT'', ''SIGTERM'']" _ empty_tables stopping, folded demo_process_def, THEN conjunct1, unfolded Let_def app sum.case,
      THEN conjunct2]
  show ?thesis
    using up [of "\<lambda>_. None"] up [of "\<lambda>c. if c = CleanupOps then Some OSError else None"] ends
      processes_clean_up [of no_library "\<lambda>h p. Inl OSError" demo_decode demo_msg demo_settings "''127.0.0.1''" 8080
      "[''SIGINT'', ''SIGTERM'']" "\<lambda>_. None" empty_tables stopping, folded demo_process_def, THEN conjunct1, unfolded Let_def taken sum.case]
    by (simp add: Let_def shell_ok_def handled_signals_def)
qed

end
