(* ===== verification/Traffic.thy ===== *)
theory Traffic
  imports Publisher_Claims Ingest_Handler
begin

text \<open>
  From the simulator to the tables: what ingestion has stored once it has handled the messages a
  simulator published, delivered in any order and any number of times.
\<close>

section \<open>Messages\<close>

text \<open>What \<^verbatim>\<open>publish\<close> is called with for an emission: topic and payload.\<close>

definition message_of :: "nat \<Rightarrow> wire_text \<Rightarrow> emission \<Rightarrow> bytes item res" where
  "message_of limit f e =
     rbind (emission_payload limit f e) (\<lambda>p. Inr (telemetry_topic (device_id (em_reading e)), p))"

section \<open>The tables after a list of outcomes\<close>

lemma handle_all_tables:
  assumes "w_faults w = []" and "latest_aware w"
    and "list_all2 (\<lambda>item out. classify decode msg (fst item) (snd item) = Inr out) items outs"
  shows "\<exists>w'. handle_all decode msg items w = (Inr (), w') \<and> w_tables w' = fold apply_outcome outs (w_tables w)"
  using assms(3,1,2)
proof (induction arbitrary: w rule: list_all2_induct)
  case (Cons item items out outs)
  obtain w1 where w1: "handle_one decode msg item w = (Inr (), w1)" "w_faults w1 = []" "latest_aware w1"
    "w_tables w1 = apply_outcome out (w_tables w)"
    using handle_one_works [OF Cons.prems Cons.hyps(1)] by blast
  from Cons.IH [OF w1(2,3)] show ?case by (auto simp: w1(1,4) andthen_def)
qed (simp add: act_simps)

fun rejected :: "'p outcome \<Rightarrow> (string \<times> 'p \<times> string) list" where
  "rejected (ValidReading r) = []"
| "rejected (DeadLetter t p why) = [(t, p, why)]"

lemma apply_outcome_dead: "t_dead_letter (apply_outcome out t) = t_dead_letter t @ rejected out"
  by (cases out) (auto simp: store_reading_def upsert_device_def insert_reading_def record_dedupe_def insert_dead_letter_def
      Let_def split: option.split)

lemma fold_dead: "t_dead_letter (fold apply_outcome outs t) = t_dead_letter t @ concat (map rejected outs)"
  by (induction outs arbitrary: t) (simp_all add: apply_outcome_dead)

lemma fold_pipeline: "pipeline_state (fold apply_outcome outs t) = fold pipe_outcome outs (pipeline_state t)"
  by (induction outs arbitrary: t) (simp_all add: pipeline_apply_outcome)

lemma fold_readings:
  assumes "compatible outs"
  shows "fst (fold pipe_outcome outs p) k = Some row \<longleftrightarrow>
    fst p k = Some row \<or> fst p k = None \<and> (\<exists>r. ValidReading r \<in> set outs \<and> reading_key r = k \<and> reading_row r = row)"
  using assms
proof (induction outs arbitrary: p)
  case (Cons out outs)
  have rest: "compatible outs" using Cons.prems by (simp add: compatible_agreeing)
  note IH = Cons.IH [OF rest]
  show ?case
  proof (cases out)
    case (ValidReading r)
    have first: "fst (pipe_reading r p) k = (if k = reading_key r \<and> fst p k = None then Some (reading_row r) else fst p k)"
      by (cases p; cases "fst p (reading_key r)") (auto simp: pipe_reading_def)
    have same: "reading_row s = reading_row r" if "ValidReading s \<in> set outs" "reading_key s = reading_key r" for s
      using Cons.prems that ValidReading unfolding compatible_def by (meson list.set_intros)
    have sets: "(\<exists>s. ValidReading s \<in> set (out # outs) \<and> reading_key s = k \<and> reading_row s = row) \<longleftrightarrow>
        reading_key r = k \<and> reading_row r = row \<or>
        (\<exists>s. ValidReading s \<in> set outs \<and> reading_key s = k \<and> reading_row s = row)"
      using ValidReading by auto
    have step: "fst (fold pipe_outcome (out # outs) p) k = fst (fold pipe_outcome outs (pipe_reading r p)) k"
      using ValidReading by simp
    show ?thesis
    proof (cases "k = reading_key r \<and> fst p k = None")
      case True
      then show ?thesis unfolding step IH sets using first same by auto
    next
      case False
      then show ?thesis unfolding step IH sets using first by auto
    qed
  next
    case (DeadLetter t q why)
    then show ?thesis by (simp add: IH)
  qed
qed simp

lemma fold_devices:
  "snd (fold pipe_outcome outs p) d = None \<longleftrightarrow> snd p d = None \<and> (\<forall>r. ValidReading r \<in> set outs \<longrightarrow> device_id r \<noteq> d)"
proof (induction outs arbitrary: p)
  case (Cons out outs)
  show ?case
  proof (cases out)
    case (ValidReading r)
    have first: "snd (pipe_reading r p) d = None \<longleftrightarrow> snd p d = None \<and> device_id r \<noteq> d"
      by (auto simp: pipe_reading_def split: prod.split)
    have "snd (fold pipe_outcome (out # outs) p) d = None \<longleftrightarrow>
        snd (pipe_reading r p) d = None \<and> (\<forall>r. ValidReading r \<in> set outs \<longrightarrow> device_id r \<noteq> d)"
      using ValidReading by (simp only: fold_simps pipe_outcome.simps Cons.IH)
    then show ?thesis unfolding first using ValidReading by auto
  next
    case (DeadLetter t q why)
    then show ?thesis by (simp add: Cons.IH)
  qed
qed simp

section \<open>Delivered traffic\<close>

text \<open>
  What the classifier makes of the message of an emission: the reading itself, or a dead letter with
  the message's topic and payload.
\<close>

definition outcome_of :: "emission \<Rightarrow> string \<times> bytes \<Rightarrow> bytes outcome \<Rightarrow> bool" where
  "outcome_of e item out \<longleftrightarrow>
     (if em_corruption e = None then out = ValidReading (em_reading e) else \<exists>why. out = DeadLetter (fst item) (snd item) why)"

lemma message_classified:
  assumes "telemetry_ok (em_reading e)" and "wire_text_ok f (em_reading e)"
    and "pydantic_reads limit f decode (em_reading e)" and "1 \<le> limit"
  shows "\<exists>item out. message_of limit f e = Inr item \<and> classify decode msg (fst item) (snd item) = Inr out \<and> outcome_of e item out"
proof -
  obtain p where p: "emission_payload limit f e = Inr p"
    "case em_corruption e of
       None \<Rightarrow> classify decode msg (telemetry_topic (device_id (em_reading e))) p = Inr (ValidReading (em_reading e))
     | Some mode \<Rightarrow> Wire_Laws.dead_lettered decode msg (telemetry_topic (device_id (em_reading e))) p"
    using emission_classified [OF assms] by blast
  then show ?thesis
    by (cases "em_corruption e") (auto simp: message_of_def outcome_of_def Wire_Laws.dead_lettered_def)
qed

lemma pick_outcomes:
  assumes "\<And>item. item \<in> set items \<Longrightarrow> \<exists>e out. e \<in> set es \<and> message_of limit f e = Inr item \<and>
      classify decode msg (fst item) (snd item) = Inr out \<and> outcome_of e item out"
  shows "\<exists>outs. list_all2 (\<lambda>item out. classify decode msg (fst item) (snd item) = Inr out) items outs \<and>
    (\<forall>out \<in> set outs. \<exists>e \<in> set es. \<exists>item \<in> set items. message_of limit f e = Inr item \<and> outcome_of e item out)"
  using assms
proof (induction items)
  case (Cons item items)
  have "\<exists>outs. list_all2 (\<lambda>item out. classify decode msg (fst item) (snd item) = Inr out) items outs \<and>
    (\<forall>out \<in> set outs. \<exists>e \<in> set es. \<exists>item \<in> set items. message_of limit f e = Inr item \<and> outcome_of e item out)"
    by (rule Cons.IH, rule Cons.prems) simp
  then obtain outs where outs: "list_all2 (\<lambda>item out. classify decode msg (fst item) (snd item) = Inr out) items outs"
    "\<forall>out \<in> set outs. \<exists>e \<in> set es. \<exists>item \<in> set items. message_of limit f e = Inr item \<and> outcome_of e item out"
    by blast
  obtain e out where "e \<in> set es" "message_of limit f e = Inr item"
    "classify decode msg (fst item) (snd item) = Inr out" "outcome_of e item out"
    using Cons.prems [of item] by auto
  then show ?case using outs by (intro exI [of _ "out # outs"]) (simp, blast)
qed simp

text \<open>Every emission of delivered traffic has its outcome among those of the items.\<close>

lemma outcome_present:
  assumes "list_all2 (\<lambda>item out. classify decode msg (fst item) (snd item) = Inr out) items outs"
    and "item \<in> set items" and "classify decode msg (fst item) (snd item) = Inr out"
  shows "out \<in> set outs"
  using assms by (induction items outs rule: list_all2_induct) auto

definition sound :: "emission list \<Rightarrow> telemetry \<Rightarrow> bool" where
  "sound es r \<longleftrightarrow> (\<exists>e \<in> set es. em_corruption e = None \<and> em_reading e = r)"

theorem traffic_stored:
  assumes "\<forall>e \<in> set es. telemetry_ok (em_reading e) \<and> wire_text_ok f (em_reading e) \<and> pydantic_reads limit f decode (em_reading e)"
    and "1 \<le> limit"
    and keys: "\<forall>r r'. sound es r \<longrightarrow> sound es r' \<longrightarrow> reading_key r = reading_key r' \<longrightarrow> reading_row r = reading_row r'"
    and delivered: "Inr ` set items = message_of limit f ` set es"
    and "w_faults w = []" and "latest_aware w" and "w_tables w = empty_tables"
  shows "\<exists>w'. handle_all decode msg items w = (Inr (), w') \<and>
    (\<forall>k row. t_telemetry (w_tables w') k = Some row \<longleftrightarrow> (\<exists>r. sound es r \<and> reading_key r = k \<and> reading_row r = row)) \<and>
    (\<forall>d. t_devices (w_tables w') d = None \<longleftrightarrow> (\<forall>r. sound es r \<longrightarrow> device_id r \<noteq> d)) \<and>
    (\<lambda>(t, p, why). Inr (t, p)) ` set (t_dead_letter (w_tables w')) = message_of limit f ` {e \<in> set es. em_corruption e \<noteq> None}"
proof -
  have classified: "\<exists>item out. message_of limit f e = Inr item \<and> classify decode msg (fst item) (snd item) = Inr out \<and> outcome_of e item out"
    if "e \<in> set es" for e
    using message_classified [of e] assms(1,2) that by blast
  have "\<exists>e out. e \<in> set es \<and> message_of limit f e = Inr item \<and>
      classify decode msg (fst item) (snd item) = Inr out \<and> outcome_of e item out" if "item \<in> set items" for item
  proof -
    have "Inr item \<in> message_of limit f ` set es" using that unfolding delivered [symmetric] by (rule imageI)
    then obtain e where e: "e \<in> set es" "message_of limit f e = Inr item" by auto
    then show ?thesis using classified [OF e(1)] by auto
  qed
  then obtain outs where outs: "list_all2 (\<lambda>item out. classify decode msg (fst item) (snd item) = Inr out) items outs"
    "\<And>out. out \<in> set outs \<Longrightarrow> \<exists>e \<in> set es. \<exists>item \<in> set items. message_of limit f e = Inr item \<and> outcome_of e item out"
    using pick_outcomes [of items es limit f decode msg] by blast
  have present: "\<exists>item out. message_of limit f e = Inr item \<and> out \<in> set outs \<and> outcome_of e item out" if e: "e \<in> set es" for e
  proof -
    obtain item out where i: "message_of limit f e = Inr item" "classify decode msg (fst item) (snd item) = Inr out"
      "outcome_of e item out" using classified [OF e] by blast
    have "(Inr item :: bytes item res) \<in> Inr ` set items" unfolding delivered using e i(1) by force
    then have "item \<in> set items" by auto
    then show ?thesis using outcome_present [OF outs(1) _ i(2)] i by blast
  qed
  have valid: "ValidReading r \<in> set outs \<longleftrightarrow> sound es r" for r
  proof
    assume "ValidReading r \<in> set outs"
    then obtain e item where e: "e \<in> set es" "outcome_of e item (ValidReading r)" using outs(2) by blast
    then show "sound es r" by (auto simp: outcome_of_def sound_def split: if_splits)
  next
    assume "sound es r"
    then obtain e where e: "e \<in> set es" "em_corruption e = None" "em_reading e = r" by (auto simp: sound_def)
    then show "ValidReading r \<in> set outs" using present [OF e(1)] by (auto simp: outcome_of_def)
  qed
  have compat: "compatible outs" using keys unfolding compatible_def valid by blast
  obtain w' where w': "handle_all decode msg items w = (Inr (), w')" "w_tables w' = fold apply_outcome outs (w_tables w)"
    using handle_all_tables [OF assms(5,6) outs(1)] by blast
  have pipe: "(t_telemetry (w_tables w'), t_devices (w_tables w')) = fold pipe_outcome outs (Map.empty, Map.empty)"
    using fold_pipeline [of outs "w_tables w"] by (simp add: w'(2) assms(7) pipeline_state_def empty_tables_def)
  have "t_telemetry (w_tables w') k = Some row \<longleftrightarrow> (\<exists>r. sound es r \<and> reading_key r = k \<and> reading_row r = row)" for k row
    using fold_readings [OF compat, of "(Map.empty, Map.empty)" k row] unfolding pipe [symmetric] valid by simp
  moreover have "t_devices (w_tables w') d = None \<longleftrightarrow> (\<forall>r. sound es r \<longrightarrow> device_id r \<noteq> d)" for d
    using fold_devices [of outs "(Map.empty, Map.empty)" d] unfolding pipe [symmetric] valid by simp
  moreover have "(\<lambda>(t, p, why). Inr (t, p)) ` set (t_dead_letter (w_tables w')) =
      message_of limit f ` {e \<in> set es. em_corruption e \<noteq> None}" (is "?l = ?r")
  proof (intro equalityI subsetI)
    have dead: "t_dead_letter (w_tables w') = concat (map rejected outs)"
      using fold_dead [of outs "w_tables w"] by (simp add: w'(2) assms(7) empty_tables_def)
    show "x \<in> ?r" if x: "x \<in> ?l" for x
    proof -
      obtain d where d: "d \<in> set (concat (map rejected outs))" "x = (case d of (t, p, why) \<Rightarrow> Inr (t, p))"
        using x unfolding dead by (elim imageE) blast
      obtain t p why where tp: "d = (t, p, why)" by (rule prod_cases3)
      obtain out where o: "out \<in> set outs" "(t, p, why) \<in> set (rejected out)" using d(1) tp by auto
      have out: "out = DeadLetter t p why" using o(2) by (cases out) auto
      obtain e item where "e \<in> set es" "message_of limit f e = Inr item" "outcome_of e item out" using outs(2) [OF o(1)] by blast
      then show ?thesis using d(2) tp out by (force simp: outcome_of_def split: if_splits)
    qed
    show "x \<in> ?l" if x: "x \<in> ?r" for x
    proof -
      obtain e where e: "e \<in> set es" "em_corruption e \<noteq> None" "x = message_of limit f e" using x by auto
      obtain item out where i: "message_of limit f e = Inr item" "out \<in> set outs" "outcome_of e item out"
        using present [OF e(1)] by blast
      then obtain why where "out = DeadLetter (fst item) (snd item) why" using e(2) by (auto simp: outcome_of_def)
      then have "(fst item, snd item, why) \<in> set (t_dead_letter (w_tables w'))" unfolding dead using i(2) by force
      then show ?thesis using e(3) i(1) by force
    qed
  qed
  ultimately show ?thesis using w'(1) by blast
qed

text \<open>
  The traffic of a fleet: what the simulator's settings allow has the premises on the readings, those on
  the libraries' texts aside.
\<close>

theorem fleet_traffic_stored:
  assumes g: "rng_ok g" and cfg: "sim_settings_ok cfg" "sim_device_count cfg \<le> 10 ^ 20"
    and t: "build_streams g seeded cfg (Aware start) n = Inr t"
    and iv: "timedelta_of us_per_second (sim_interval_seconds cfg) = Inr interval" "0 < interval"
    and texts: "\<forall>e \<in> set (fst t). wire_text_ok f (em_reading e) \<and> pydantic_reads limit f decode (em_reading e)" "1 \<le> limit"
    and delivered: "Inr ` set items = message_of limit f ` set (fst t)"
    and w: "w_faults w = []" "latest_aware w" "w_tables w = empty_tables"
  shows "\<exists>w'. handle_all decode msg items w = (Inr (), w') \<and>
    (\<forall>k row. t_telemetry (w_tables w') k = Some row \<longleftrightarrow> (\<exists>r. sound (fst t) r \<and> reading_key r = k \<and> reading_row r = row)) \<and>
    (\<forall>d. t_devices (w_tables w') d = None \<longleftrightarrow> (\<forall>r. sound (fst t) r \<longrightarrow> device_id r \<noteq> d)) \<and>
    (\<lambda>(t, p, why). Inr (t, p)) ` set (t_dead_letter (w_tables w')) = message_of limit f ` {e \<in> set (fst t). em_corruption e \<noteq> None}"
proof (rule traffic_stored [OF _ texts(2) _ delivered w])
  have ok: "\<forall>e \<in> set (fst t). telemetry_ok (em_reading e)" using fleet_sorted [OF g cfg t] by blast
  then show "\<forall>e \<in> set (fst t). telemetry_ok (em_reading e) \<and> wire_text_ok f (em_reading e) \<and> pydantic_reads limit f decode (em_reading e)"
    using texts(1) by blast
  show "\<forall>r r'. sound (fst t) r \<longrightarrow> sound (fst t) r' \<longrightarrow> reading_key r = reading_key r' \<longrightarrow> reading_row r = reading_row r'"
  proof (intro allI impI)
    fix r r' assume "sound (fst t) r" and "sound (fst t) r'" and key: "reading_key r = reading_key r'"
    then obtain e e' where e: "e \<in> set (fst t)" "em_reading e = r" "e' \<in> set (fst t)" "em_reading e' = r'"
      unfolding sound_def by blast
    obtain a b where "measured_at r = Aware a" "measured_at r' = Aware b"
      using ok e unfolding telemetry_ok_def by blast
    then have "instant (measured_at r) = instant (measured_at r')" "device_id r = device_id r'"
      using key by (simp_all add: reading_key_def)
    then have "r = r'" using fleet_keys [OF g cfg t iv e(1,3)] e(2,4) by simp
    then show "reading_row r = reading_row r'" by simp
  qed
qed

section \<open>The property\<close>

text \<open>
  C16: what the simulator sends is what the tables hold. Take emissions of readings the contract admits,
  any two undamaged ones with one key agreeing in their values (as those of a fleet do), and the messages
  published for them, delivered in any order and each any number of times, at least once. Handled
  without failures on empty tables, they leave a row under a key exactly if an undamaged emission has
  that key and those values, a device row exactly for the devices that sent an undamaged reading, and
  as dead letters exactly the topics and payloads of the damaged emissions.
\<close>

theorem simulated_traffic_stored:
  assumes "\<forall>e \<in> set es. telemetry_ok (em_reading e) \<and> wire_text_ok f (em_reading e) \<and> pydantic_reads limit f decode (em_reading e)"
    and "1 \<le> limit"
    and "\<forall>e \<in> set es. \<forall>e' \<in> set es. em_corruption e = None \<longrightarrow> em_corruption e' = None \<longrightarrow>
      reading_key (em_reading e) = reading_key (em_reading e') \<longrightarrow> reading_row (em_reading e) = reading_row (em_reading e')"
    and "Inr ` set items = message_of limit f ` set es"
    and "w_faults w = []" and "latest_aware w" and "w_tables w = empty_tables"
  shows "\<exists>w'. handle_all decode msg items w = (Inr (), w') \<and>
    (\<forall>k row. t_telemetry (w_tables w') k = Some row \<longleftrightarrow>
       (\<exists>e \<in> set es. em_corruption e = None \<and> reading_key (em_reading e) = k \<and> reading_row (em_reading e) = row)) \<and>
    (\<forall>d. t_devices (w_tables w') d \<noteq> None \<longleftrightarrow> (\<exists>e \<in> set es. em_corruption e = None \<and> device_id (em_reading e) = d)) \<and>
    (\<lambda>(t, p, why). Inr (t, p)) ` set (t_dead_letter (w_tables w')) = message_of limit f ` {e \<in> set es. em_corruption e \<noteq> None}"
proof -
  have keys: "\<forall>r r'. sound es r \<longrightarrow> sound es r' \<longrightarrow> reading_key r = reading_key r' \<longrightarrow> reading_row r = reading_row r'"
    using assms(3) unfolding sound_def by blast
  obtain w' where w': "handle_all decode msg items w = (Inr (), w')"
    "\<And>k row. t_telemetry (w_tables w') k = Some row \<longleftrightarrow> (\<exists>r. sound es r \<and> reading_key r = k \<and> reading_row r = row)"
    "\<And>d. t_devices (w_tables w') d = None \<longleftrightarrow> (\<forall>r. sound es r \<longrightarrow> device_id r \<noteq> d)"
    "(\<lambda>(t, p, why). Inr (t, p)) ` set (t_dead_letter (w_tables w')) = message_of limit f ` {e \<in> set es. em_corruption e \<noteq> None}"
    using traffic_stored [OF assms(1,2) keys assms(4-7)] by blast
  have rows: "(\<exists>r. sound es r \<and> reading_key r = k \<and> reading_row r = row) \<longleftrightarrow>
      (\<exists>e \<in> set es. em_corruption e = None \<and> reading_key (em_reading e) = k \<and> reading_row (em_reading e) = row)" for k row
    unfolding sound_def by blast
  have devices: "(\<forall>r. sound es r \<longrightarrow> device_id r \<noteq> d) \<longleftrightarrow>
      \<not> (\<exists>e \<in> set es. em_corruption e = None \<and> device_id (em_reading e) = d)" for d
    unfolding sound_def by blast
  show ?thesis
  proof (intro exI conjI allI)
    show "t_devices (w_tables w') d \<noteq> None \<longleftrightarrow>
        (\<exists>e \<in> set es. em_corruption e = None \<and> device_id (em_reading e) = d)" for d
      unfolding w'(3) devices not_not ..
  qed (fact w'(1), fact w'(2) [unfolded rows], fact w'(4))
qed

theorem simulated_traffic_stored_witness:
  "\<exists>p q w'. let good = \<lparr>em_publish_at = Aware 0, em_reading = wire_reading, em_corruption = None, em_kind = Normal\<rparr>;
       bad = \<lparr>em_publish_at = Aware 5, em_reading = wire_reading, em_corruption = Some TRUNCATED, em_kind = Normal\<rparr>
     in message_of 10 demo_wire good = Inr p \<and> message_of 10 demo_wire bad = Inr q \<and>
        handle_all demo_decode (\<lambda>_. []) [q, p, p] \<lparr>w_tables = empty_tables, w_faults = [], w_counters = zero_counters,
          w_latest = Map.empty\<rparr> = (Inr (), w') \<and>
        t_telemetry (w_tables w') (''planter-00'', 0) = Some (reading_row wire_reading) \<and>
        t_devices (w_tables w') ''planter-00'' \<noteq> None \<and>
        (\<lambda>(t, p, why). Inr (t, p)) ` set (t_dead_letter (w_tables w')) = {Inr q :: bytes item res}"
proof -
  let ?good = "\<lparr>em_publish_at = Aware 0, em_reading = wire_reading, em_corruption = None, em_kind = Normal\<rparr>"
  let ?bad = "\<lparr>em_publish_at = Aware 5, em_reading = wire_reading, em_corruption = Some TRUNCATED, em_kind = Normal\<rparr>"
  let ?w = "\<lparr>w_tables = empty_tables, w_faults = [], w_counters = zero_counters, w_latest = Map.empty\<rparr> :: bytes world"
  have ok: "telemetry_ok wire_reading" "wire_text_ok demo_wire wire_reading" "pydantic_reads 10 demo_wire demo_decode wire_reading"
    by (fact wire_reading_ok demo_wire_ok demo_decode_reads)+
  obtain p q where pq: "message_of 10 demo_wire ?good = Inr p" "message_of 10 demo_wire ?bad = Inr q"
    using message_classified [of ?good demo_wire 10 demo_decode "\<lambda>_. []"]
      message_classified [of ?bad demo_wire 10 demo_decode "\<lambda>_. []"] ok by fastforce
  have h: "\<forall>e \<in> set [?good, ?bad]. telemetry_ok (em_reading e) \<and> wire_text_ok demo_wire (em_reading e) \<and>
      pydantic_reads 10 demo_wire demo_decode (em_reading e)"
    "\<forall>e \<in> set [?good, ?bad]. \<forall>e' \<in> set [?good, ?bad]. em_corruption e = None \<longrightarrow> em_corruption e' = None \<longrightarrow>
      reading_key (em_reading e) = reading_key (em_reading e') \<longrightarrow> reading_row (em_reading e) = reading_row (em_reading e')"
    "Inr ` set [q, p, p] = message_of 10 demo_wire ` set [?good, ?bad]"
    "w_faults ?w = []" "latest_aware ?w" "w_tables ?w = empty_tables"
    using ok pq by (auto simp: latest_aware_def)
  from simulated_traffic_stored [OF h(1) _ h(2-6), of "\<lambda>_. []"] obtain w' where
    w': "handle_all demo_decode (\<lambda>_. []) [q, p, p] ?w = (Inr (), w')"
    "\<And>k row. t_telemetry (w_tables w') k = Some row \<longleftrightarrow>
       (\<exists>e \<in> set [?good, ?bad]. em_corruption e = None \<and> reading_key (em_reading e) = k \<and> reading_row (em_reading e) = row)"
    "\<And>d. t_devices (w_tables w') d \<noteq> None \<longleftrightarrow>
       (\<exists>e \<in> set [?good, ?bad]. em_corruption e = None \<and> device_id (em_reading e) = d)"
    "(\<lambda>(t, p, why). Inr (t, p)) ` set (t_dead_letter (w_tables w')) =
       message_of 10 demo_wire ` {e \<in> set [?good, ?bad]. em_corruption e \<noteq> None}" by auto
  have "{e \<in> set [?good, ?bad]. em_corruption e \<noteq> None} = {?bad}" by auto
  moreover have "t_telemetry (w_tables w') (''planter-00'', 0) = Some (reading_row wire_reading)"
    "t_devices (w_tables w') ''planter-00'' \<noteq> None"
    unfolding w'(2,3) by (simp_all add: reading_key_def wire_reading_def)
  ultimately show ?thesis using w'(1,4) pq unfolding Let_def by (intro exI [of _ p] exI [of _ q] exI [of _ w']) simp
qed

end
