(* ===== verification/Json_Log.thy ===== *)
theory Json_Log
  imports Json_Laws Py_Float
begin

text \<open>
  \<^verbatim>\<open>jsonlog.py\<close>: a log record as one line of JSON. The record's attributes are those the logging
  library keeps itself, which the formatter drops, and the caller's \<^verbatim>\<open>extra\<close>; a value that is no
  JSON is printed as its \<^verbatim>\<open>str\<close>.
\<close>

section \<open>The formatter\<close>

datatype extra_value = JsonValue json | OtherValue ustr

record log_record =
  lr_created :: pyfloat
  lr_levelname :: ustr
  lr_name :: ustr
  lr_message :: ustr
  lr_attributes :: "(ustr \<times> extra_value) list"
  lr_exception :: "ustr option"

text \<open>\<open>probe\<close> are the attributes of a record made by the library.\<close>

definition RESERVED :: "ustr list \<Rightarrow> ustr list" where
  "RESERVED probe = probe @ [ascii ''message'', ascii ''asctime'']"

fun json_of :: "extra_value \<Rightarrow> json" where
  "json_of (JsonValue j) = j"
| "json_of (OtherValue s) = JStr s"

definition log_style :: json_style where
  "log_style = \<lparr>ensure_ascii = False, item_separator = ascii '', '', key_separator = ascii '': ''\<rparr>"

definition base_fields :: "ustr \<Rightarrow> ustr \<Rightarrow> log_record \<Rightarrow> (ustr \<times> json) list" where
  "base_fields service ts r =
     [(ascii ''ts'', JStr ts), (ascii ''level'', JStr (lr_levelname r)), (ascii ''service'', JStr service),
      (ascii ''logger'', JStr (lr_name r)), (ascii ''event'', JStr (lr_message r))]"

definition with_extra :: "ustr list \<Rightarrow> (ustr \<times> extra_value) list \<Rightarrow> (ustr \<times> json) list \<Rightarrow> (ustr \<times> json) list" where
  "with_extra probe attributes line =
     fold (\<lambda>(key, v) line. if key \<in> set (RESERVED probe) then line else AList.update key (json_of v) line) attributes line"

definition with_exception :: "log_record \<Rightarrow> (ustr \<times> json) list \<Rightarrow> (ustr \<times> json) list" where
  "with_exception r line =
     (case lr_exception r of None \<Rightarrow> line | Some t \<Rightarrow> AList.update (ascii ''exc'') (JStr t) line)"

definition log_fields :: "ustr list \<Rightarrow> ustr \<Rightarrow> ustr \<Rightarrow> log_record \<Rightarrow> (ustr \<times> json) list" where
  "log_fields probe service ts r =
     with_exception r (with_extra probe (lr_attributes r) (base_fields service ts r))"

text \<open>\<open>timestamp\<close> is \<^verbatim>\<open>datetime.fromtimestamp(..., UTC).isoformat()\<close>.\<close>

definition format_record :: "(pyfloat \<Rightarrow> ustr res) \<Rightarrow> ustr list \<Rightarrow> ustr \<Rightarrow> log_record \<Rightarrow> ustr res" where
  "format_record timestamp probe service r =
     rbind (timestamp (lr_created r)) (\<lambda>ts. Inr (dumps log_style (JObj (log_fields probe service ts r))))"

section \<open>One readable line\<close>

lemma update_pred:
  "list_all (\<lambda>(k, v). P v) kvs \<Longrightarrow> P v \<Longrightarrow> list_all (\<lambda>(k, v). P v) (AList.update k v kvs)"
  by (induction kvs) auto

lemma with_extra_pred:
  assumes "list_all (\<lambda>(k, v). P v) line" and "list_all (\<lambda>(k, v). P (json_of v)) attributes"
  shows "list_all (\<lambda>(k, v). P v) (with_extra probe attributes line)"
  using assms unfolding with_extra_def
proof (induction attributes arbitrary: line)
  case (Cons a attributes)
  obtain k v where a: "a = (k, v)" by (cases a)
  then have "P (json_of v)" using Cons.prems(2) by simp
  then have "list_all (\<lambda>(k, v). P v) (if k \<in> set (RESERVED probe) then line else AList.update k (json_of v) line)"
    using Cons.prems(1) update_pred by auto
  then show ?case using Cons.IH Cons.prems(2) a by simp
qed simp

lemma with_extra_distinct: "distinct (map fst line) \<Longrightarrow> distinct (map fst (with_extra probe attributes line))"
  unfolding with_extra_def
  by (induction attributes arbitrary: line) (auto simp: distinct_update)

lemma log_fields_ok:
  assumes "list_all (\<lambda>(k, v). printable False (json_of v) \<and> fits n (json_of v)) (lr_attributes r)"
  shows "printable False (JObj (log_fields probe service ts r))" and "fits (Suc n) (JObj (log_fields probe service ts r))"
proof -
  have chars: "list_all (char_ok False) s" for s by (simp add: list_all_iff char_ok_def)
  let ?P = "\<lambda>v. printable False v \<and> fits n v"
  have "list_all (\<lambda>(k, v). ?P v) (base_fields service ts r)" by (simp add: base_fields_def chars)
  then have "list_all (\<lambda>(k, v). ?P v) (with_extra probe (lr_attributes r) (base_fields service ts r))"
    using assms by (rule with_extra_pred)
  then have all: "list_all (\<lambda>(k, v). ?P v) (log_fields probe service ts r)"
    by (auto simp: log_fields_def with_exception_def chars intro!: update_pred [of ?P] split: option.split)
  have "distinct (map fst (base_fields service ts r))" by (simp add: base_fields_def)
  then have "distinct (map fst (log_fields probe service ts r))"
    by (auto simp: log_fields_def with_exception_def with_extra_distinct distinct_update split: option.split)
  then show "printable False (JObj (log_fields probe service ts r))"
    using all by (auto simp: list_all_iff chars char_ok_def)
  show "fits (Suc n) (JObj (log_fields probe service ts r))"
    using all by (auto simp: list_all_iff)
qed

theorem log_line_reads_back:
  assumes "format_record timestamp probe service r = Inr line"
    and "list_all (\<lambda>(k, v). printable False (json_of v) \<and> fits n (json_of v)) (lr_attributes r)" and "n < limit"
  shows "(\<forall>c \<in> set line. 32 \<le> c) \<and>
    (\<exists>ts. timestamp (lr_created r) = Inr ts \<and> loads limit line = Inr (JObj (log_fields probe service ts r)))"
proof -
  obtain ts where ts: "timestamp (lr_created r) = Inr ts" "line = dumps log_style (JObj (log_fields probe service ts r))"
    using assms(1) by (auto simp: format_record_def rbind_def split: sum.splits)
  note ok = log_fields_ok [OF assms(2), of probe service ts]
  have style: "style_ok log_style" "ensure_ascii log_style = False"
    by (simp_all add: style_ok_def log_style_def blank_def)
  have seps: "\<forall>u \<in> set (item_separator log_style) \<union> set (key_separator log_style). 32 \<le> u"
    by (simp add: log_style_def)
  have "printable (ensure_ascii log_style) (JObj (log_fields probe service ts r))"
    unfolding style(2) by (rule ok(1))
  note shown = dumps_visible [OF seps this]
  have "fits limit (JObj (log_fields probe service ts r))"
  proof (rule fits_mono [OF ok(2)])
    show "Suc n \<le> limit" using assms(3) by simp
  qed
  then have "loads limit (dumps log_style (JObj (log_fields probe service ts r)) @ []) = Inr (JObj (log_fields probe service ts r))"
    by (intro loads_dumps style) (simp_all add: style(2) ok(1) del: printable.simps)
  then show ?thesis using ts shown by auto
qed

text \<open>The event is the message unless the caller's \<^verbatim>\<open>extra\<close> has a key of that name.\<close>

lemma with_extra_keeps: "key \<notin> fst ` set attributes \<Longrightarrow> map_of (with_extra probe attributes line) key = map_of line key"
  unfolding with_extra_def
  by (induction attributes arbitrary: line) (auto simp: update_conv)

lemma log_event:
  assumes "ascii ''event'' \<notin> fst ` set (lr_attributes r)"
  shows "map_of (log_fields probe service ts r) (ascii ''event'') = Some (JStr (lr_message r))"
  using with_extra_keeps [OF assms, of probe "base_fields service ts r"]
  by (simp add: log_fields_def with_exception_def base_fields_def update_conv split: option.split)

end
