(* ===== verification/Forecast_View.thy ===== *)
theory Forecast_View
  imports Analytics_Store Migrations
begin

text \<open>
  The view of the latest forecasts in its two forms: that of revision 0008 and the corrected one of
  revision 0010. The rows of the table are a list with distinct keys (the primary key).
\<close>

section \<open>The two queries\<close>

type_synonym forecast_rows = "((string \<times> string \<times> int) \<times> forecast_row) list"

record latest_row =
  la_device :: string
  la_kind :: string
  la_as_of :: int
  la_forecast :: forecast_row
  la_horizon_seconds :: "pyfloat option"

fun newest :: "(int \<times> forecast_row) list \<Rightarrow> (int \<times> forecast_row) option" where
  "newest [] = None"
| "newest (x # xs) =
     (case newest xs of None \<Rightarrow> Some x | Some y \<Rightarrow> if fst y < fst x then Some x else Some y)"

definition rows_of :: "string \<Rightarrow> string \<Rightarrow> forecast_rows \<Rightarrow> (int \<times> forecast_row) list" where
  "rows_of d k rows = map (\<lambda>((d', k', a), r). (a, r)) (filter (\<lambda>((d', k', a), r). d' = d \<and> k' = k) rows)"

text \<open>The seconds from the watermark to the crossing, and \<^verbatim>\<open>greatest\<close>, which ignores nulls.\<close>

definition epoch_seconds :: "int \<Rightarrow> forecast_row \<Rightarrow> pyfloat option" where
  "epoch_seconds a r = map_option (\<lambda>t. total_seconds (t - a)) (fr_crosses_at r)"

definition greatest :: "pyfloat option \<Rightarrow> pyfloat \<Rightarrow> pyfloat" where
  "greatest v b = (case v of None \<Rightarrow> b | Some x \<Rightarrow> py_max x b)"

definition latest_row_of :: "(int \<Rightarrow> forecast_row \<Rightarrow> pyfloat option) \<Rightarrow> string \<Rightarrow> string \<Rightarrow> forecast_rows \<Rightarrow> latest_row list" where
  "latest_row_of horizon d k rows =
     (case newest (rows_of d k rows) of
        None \<Rightarrow> []
      | Some (a, r) \<Rightarrow> [\<lparr>la_device = d, la_kind = k, la_as_of = a, la_forecast = r, la_horizon_seconds = horizon a r\<rparr>])"

definition distinct_on_rows :: "forecast_rows \<Rightarrow> latest_row list" where
  "distinct_on_rows rows =
     concat (map (\<lambda>(d, k). latest_row_of (\<lambda>a r. Some (greatest (epoch_seconds a r) (Fin 0))) d k rows)
       (remdups (map (\<lambda>((d, k, a), r). (d, k)) rows)))"

definition per_device_rows :: "string list \<Rightarrow> string list \<Rightarrow> forecast_rows \<Rightarrow> latest_row list" where
  "per_device_rows kinds devices rows =
     concat (map (\<lambda>d. concat (map (\<lambda>k. latest_row_of
         (\<lambda>a r. if fr_crosses_at r = None then None else Some (greatest (epoch_seconds a r) (Fin 0))) d k rows) kinds)) devices)"

fun view_rows :: "latest_query \<Rightarrow> string list \<Rightarrow> forecast_rows \<Rightarrow> latest_row list" where
  "view_rows DistinctOn devices rows = distinct_on_rows rows"
| "view_rows (PerDeviceAndKind kinds) devices rows = per_device_rows kinds devices rows"

section \<open>What the correction changed\<close>

definition null_horizon :: "latest_row \<Rightarrow> latest_row" where
  "null_horizon l = (if fr_crosses_at (la_forecast l) = None then l\<lparr>la_horizon_seconds := None\<rparr> else l)"

lemma newest_None [simp]: "newest xs = None \<longleftrightarrow> xs = []"
  by (cases xs) (auto split: option.splits)

lemma newest_Some: "newest xs = Some x \<Longrightarrow> x \<in> set xs \<and> (\<forall>y \<in> set xs. fst y \<le> fst x)"
proof (induction xs arbitrary: x)
  case (Cons z zs)
  show ?case
  proof (cases "newest zs")
    case None
    then show ?thesis using Cons.prems by simp
  next
    case (Some y)
    then show ?thesis using Cons.IH [OF Some] Cons.prems by (fastforce split: if_splits)
  qed
qed simp

lemma latest_row_of_null:
  "latest_row_of (\<lambda>a r. if fr_crosses_at r = None then None else Some (greatest (epoch_seconds a r) (Fin 0))) d k rows =
   map null_horizon (latest_row_of (\<lambda>a r. Some (greatest (epoch_seconds a r) (Fin 0))) d k rows)"
  by (auto simp: latest_row_of_def null_horizon_def split: option.split)

lemma latest_row_of_absent: "(d, k) \<notin> (\<lambda>((d, k, a), r). (d, k)) ` set rows \<Longrightarrow> latest_row_of h d k rows = []"
proof -
  assume "(d, k) \<notin> (\<lambda>((d, k, a), r). (d, k)) ` set rows"
  then have "rows_of d k rows = []" by (force simp: rows_of_def filter_empty_conv)
  then show ?thesis by (simp add: latest_row_of_def)
qed

lemma latest_row_of_key: "l \<in> set (latest_row_of h d k rows) \<Longrightarrow> la_device l = d \<and> la_kind l = k"
  by (auto simp: latest_row_of_def split: option.splits)

lemma distinct_on_rows_set:
  "set (distinct_on_rows rows) = (\<Union>d k. set (latest_row_of (\<lambda>a r. Some (greatest (epoch_seconds a r) (Fin 0))) d k rows))"
    (is "_ = (\<Union>d k. set (?L d k))")
proof -
  let ?keys = "(\<lambda>((d, k, a), r). (d, k)) ` set rows"
  have "set (distinct_on_rows rows) = (\<Union>(d, k) \<in> ?keys. set (?L d k))"
    unfolding distinct_on_rows_def set_concat set_map set_remdups by auto
  also have "\<dots> = (\<Union>d k. set (?L d k))"
  proof (intro equalityI subsetI)
    fix l assume "l \<in> (\<Union>d k. set (?L d k))"
    then obtain d k where l: "l \<in> set (?L d k)" by blast
    then have "(d, k) \<in> ?keys" using latest_row_of_absent [of d k rows] by fastforce
    then show "l \<in> (\<Union>(d, k) \<in> ?keys. set (?L d k))" using l by blast
  qed blast
  finally show ?thesis .
qed

text \<open>
  The corrected view has the rows of the old one for the devices of the roster and the listed kinds,
  but for the horizon, which is null where there is no crossing: no status without a crossing reads as
  zero days left.
\<close>

theorem view_corrected:
  "set (view_rows (PerDeviceAndKind kinds) devices rows) =
     null_horizon ` {l \<in> set (view_rows DistinctOn devices rows). la_device l \<in> set devices \<and> la_kind l \<in> set kinds}"
proof -
  let ?L = "\<lambda>d k. set (latest_row_of (\<lambda>a r. Some (greatest (epoch_seconds a r) (Fin 0))) d k rows)"
  have "set (view_rows (PerDeviceAndKind kinds) devices rows) = (\<Union>d \<in> set devices. \<Union>k \<in> set kinds. null_horizon ` ?L d k)"
    by (simp add: per_device_rows_def latest_row_of_null)
  also have "\<dots> = null_horizon ` {l \<in> (\<Union>d k. ?L d k). la_device l \<in> set devices \<and> la_kind l \<in> set kinds}"
    using latest_row_of_key by fast
  also have "\<dots> = null_horizon ` {l \<in> set (view_rows DistinctOn devices rows). la_device l \<in> set devices \<and> la_kind l \<in> set kinds}"
    by (simp add: distinct_on_rows_set)
  finally show ?thesis .
qed

lemma view_shows_newest:
  assumes "l \<in> set (view_rows q devices rows)" and "((la_device l, la_kind l, a), r) \<in> set rows"
  shows "a \<le> la_as_of l"
proof -
  obtain h d k where l: "l \<in> set (latest_row_of h d k rows)"
    using assms(1) by (cases q) (auto simp: distinct_on_rows_def per_device_rows_def)
  then have k: "la_device l = d" "la_kind l = k" using latest_row_of_key by blast+
  have a: "(a, r) \<in> set (rows_of d k rows)" using assms(2) k by (force simp: rows_of_def)
  obtain x where x: "newest (rows_of d k rows) = Some x" "la_as_of l = fst x"
    using l by (cases "newest (rows_of d k rows)") (auto simp: latest_row_of_def)
  show ?thesis using newest_Some [OF x(1)] a x(2) by fastforce
qed

end
