(* ===== verification/Spec2Isabelle.thy ===== *)
theory Spec2Isabelle
  imports Forecast_Claims Ingest_Claims Analytics_Claims Simulator_Claims Publisher_Claims Cli_Claims Migrate_Claims Ops_Claims
    Traffic Entry_Points Json_Log Forecast_View
begin

text \<open>
  A verification library for \<^verbatim>\<open>planter-telemetry\<close>, the Python package under
  \<^verbatim>\<open>src/src/planter_telemetry\<close>.

  \<^bold>\<open>The program.\<close> Planters publish readings over MQTT. \<^emph>\<open>Ingestion\<close> receives them, validates each
  against the message contract, and writes it to a Postgres table, idempotently under the key
  (device, measuring time); what does not validate goes to a dead-letter table. \<^emph>\<open>Analytics\<close>
  reads that table in passes, forecasts per device and metric when a tank is empty or a battery
  flat, keeps the forecasts and the decisions to alert in two more tables, and pushes a notification
  for a decision it recorded itself. A \<^emph>\<open>simulator\<close> publishes the readings of a fleet with injected
  imperfections. The \<^emph>\<open>command line\<close> captures and replays messages. \<^emph>\<open>Migrations\<close> build the tables. The
  two services answer \<^verbatim>\<open>/healthz\<close> and \<^verbatim>\<open>/metrics\<close>. The parts share the contract and the database,
  nothing else.

  \<^bold>\<open>Foundations.\<close> \<open>Prelude\<close> has exceptions as values (\<open>py_exc\<close>, \<open>'a res\<close>), code that mutates
  state and may raise (\<open>act\<close>: the state reached is kept), and the list notions. \<open>Binary64\<close> rounds
  exact rationals to IEEE 754 binary64, \<open>Py_Float\<close> has Python's floats with infinities and NaN,
  \<open>Py_Stats\<close> the functions of \<^verbatim>\<open>statistics\<close>, \<open>Py_Time\<close> the bounded \<^verbatim>\<open>datetime\<close> and \<^verbatim>\<open>timedelta\<close>
  with their exceptions, \<open>Py_Random\<close> draws from a generator and \<^verbatim>\<open>round\<close>, \<open>Py_Generator\<close> the
  traces of generators and \<^verbatim>\<open>heapq.merge\<close>, \<open>Py_Bytes\<close> bytes as 8-bit words with UTF-8 and base64,
  \<open>Json\<close> the printer and the reader of \<^verbatim>\<open>json\<close>, with the round trip in \<open>Json_Laws\<close>. \<open>Float_Bounds\<close> is
  the bookkeeping that shows that nothing overflows.

  \<^bold>\<open>Interfaces.\<close> Six locales carry arguments that several parts share. \<open>rounding\<close> (\<open>Binary64\<close>):
  a monotone, idempotent rounding, interpreted on binary64. \<open>segmenter\<close> (\<open>Segments\<close>): cutting a list at
  breaks, interpreted on the cut of the source. \<open>codec\<close> and \<open>exact_codec\<close> (\<open>Codec\<close>): an encoder with its
  inverse, interpreted on UTF-8 and base64. \<open>idempotent_consumer\<close> (\<open>Idempotent_Fold\<close>): a consumer whose
  result depends only on the set of its messages, interpreted on the tables of ingestion.
  \<open>counting_loop\<close> (\<open>Service_Process\<close>): a loop whose steps never lower a
  counter, interpreted on both services.

  \<^bold>\<open>Forecasting\<close> (\<^verbatim>\<open>analytics/model.py\<close>). \<open>Segments\<close>: samples, metrics, series, and the cut at
  refills and gaps. \<open>Theil_Sen\<close>: the estimator with its rank interval. \<open>Forecast\<close>: the entry point
  and the record it returns. \<open>Alerts\<close>: the transition rule. Laws: \<open>Fit_Laws\<close> (finite numbers,
  robustness), \<open>Exact_Line\<close> (exact data give the exact line), \<open>Crossing\<close> (monotone
  extrapolation), \<open>Forecast_Laws\<close> (statuses, their precedence, the band). \<open>Demo_Series\<close> has a
  family of series that can be computed exactly. \<open>Forecast_Claims\<close> has C1 to C4, C6, C7 and C9 to C13.

  \<^bold>\<open>Ingestion\<close> (\<^verbatim>\<open>contract.py\<close>, \<^verbatim>\<open>ingestion/\<close>). \<open>Contract\<close>: topics, ids, the telemetry record and
  its validation. \<open>Ingest_Core\<close>: the classifier. \<open>Ingest_Db\<close>: the tables and statements.
  \<open>Ingest_Handler\<close>: one message through classifier, counters and statements. \<open>Ingest_Service\<close>: the
  run loop as a step function over events of the environment (\<open>service_step\<close>), reachable states by
  induction. The client buffers and acknowledges from the moment it is connected until it is closed, so
  the waits for \<^verbatim>\<open>client.subscribe\<close> and for \<^verbatim>\<open>__aexit__\<close> are phases (\<open>Subscribing\<close>, \<open>Closing\<close>) in which
  messages arrive. Four fields of the state are history, not code: what was acknowledged, what the final
  flush or a crash gave up, what of the present buffer the code cannot reach (\<open>s_exposed\<close>), and what went
  down with a client (\<open>s_window\<close>). \<open>Ingest_Laws\<close> and \<open>Ingest_Safety\<close> have the invariants over reachable states, the
  account of acknowledged messages, the causes of a crash, and the calm runs. \<open>Ingest_Claims\<close> has C17,
  C18 and C20 to C26.

  \<^bold>\<open>Analytics\<close> (\<^verbatim>\<open>analytics/\<close>). \<open>Analytics_Store\<close>: \<^verbatim>\<open>db.py\<close>. \<open>Analytics_Service\<close>: settings,
  notification, the pass and the interval loop (\<open>analytics_step\<close>). \<open>Analytics_Laws\<close>,
  \<open>Analytics_Pass\<close>, \<open>Analytics_Rerun\<close>, \<open>Analytics_Converge\<close> show that a pass settles one view of
  the tables after another, so that repeating a pass changes nothing and a pass that failed anywhere
  is repaired by the next. \<open>Window_Laws\<close> and \<open>End_To_End\<close> connect it with what ingestion stores.
  \<open>Analytics_Loop\<close> has the invariants of the loop, \<open>Demo_Fleet\<close> a computed example. \<open>Forecast_View\<close>
  is the view of the latest forecasts before and after its correction. \<open>Analytics_Claims\<close> has C28 to
  C34.

  \<^bold>\<open>Simulator\<close> (\<^verbatim>\<open>simulator/\<close>). \<open>Simulator_Dynamics\<close>: the physics of one device.
  \<open>Simulator_Stream\<close>: imperfections, merge, fleet. \<open>Simulator_Wire\<close>: payloads and the three ways of
  damaging one. \<open>Simulator_Publisher\<close>: connecting with retries, pacing, heartbeat, shutting down, as
  traces of effects, with a signal at any point of the set-up, of the loop, of its handler, and of the
  \<^verbatim>\<open>finally\<close>. \<open>Dynamics_Laws\<close> bounds every quantity, \<open>Stream_Laws\<close> accounts for every reading
  (sent, held back, or missed by the draw of its wake-up),
  \<open>Fleet_Laws\<close> shows that devices are independent, \<open>Wire_Laws\<close> follows a payload into the classifier of
  ingestion, \<open>Publisher_Laws\<close> orders the effects. \<open>Traffic\<close> composes simulator and ingestion: what the
  tables hold once the messages of a fleet were handled, in any order and with repetitions.
  \<open>Simulator_Claims\<close> has C36 to C38, \<open>Publisher_Claims\<close> C15 and C39, \<open>Traffic\<close> C16.

  \<^bold>\<open>Command line\<close> (\<^verbatim>\<open>cli/\<close>). \<open>Cli_Records\<close>: the line format. \<open>Cli_Replay\<close>: schedule, replay, capture.
  \<open>Cli_App\<close>: the declared arguments, their checks, the sample, the dispatch (\<open>cli_main\<close>). \<open>Replay_Laws\<close>
  has the round trip of a capture through its file. \<open>Cli_Claims\<close> has C19 and C40.

  \<^bold>\<open>Migrations\<close> (\<^verbatim>\<open>migrate.py\<close>, \<^verbatim>\<open>migrations/\<close>). \<open>Migrations\<close>: the ten revisions as statements on the
  server's catalog (\<open>apply_ddl\<close>). \<open>Migrate\<close>: Alembic's run, one transaction that autocommit blocks
  split, killed between any two actions; the wait for the server. \<open>Migrate_Config\<close>: the DSN, the
  configuration, whose interpolation refuses a percent-encoded URL, and the process. \<open>Migrate_Claims\<close>
  has C8 and C14.

  \<^bold>\<open>Processes\<close> (\<^verbatim>\<open>ops.py\<close>, both \<^verbatim>\<open>ops.py\<close> of the services, the outer part of both \<^verbatim>\<open>run\<close> functions,
  the \<^verbatim>\<open>__main__\<close> modules, \<^verbatim>\<open>jsonlog.py\<close>). \<open>Health\<close>: the verdicts and metric families. \<open>Ops_Server\<close>:
  collectors, registry, application, and what the handlers it registers return; the dispatch of a request
  and the sending of the response are aiohttp's. \<open>Ops_Laws\<close>: health bodies parse back.
  \<open>Service_Process\<close>: signal handlers, server and stats task around either loop, and the steps of its
  \<^verbatim>\<open>finally\<close>, each of which may raise.
  \<open>Entry_Points\<close>: settings with their bounds, the main modules, and what the bounds give (the wait
  between reconnects is positive and bounded). \<open>Json_Log\<close>: a log record as one readable line.
  \<open>Ops_Claims\<close> has C5, C27 and C35.

  \<^bold>\<open>State and effects.\<close> Each service is a record of its variables, its tables and scripts of what
  the environment will do (database faults, replies of the push server); a handler is a function on
  it. Database statements run through \<open>execute\<close>, which performs the statement or raises, in
  autocommit, as the source configures it. The loops are step functions with a phase for each place
  where the code waits for its environment; reachability is inductive, and the properties hold for all
  interleavings of events. The publisher and the command line, which keep little state, return the
  list of their effects with how they ended.

  \<^bold>\<open>Bounds and fuel.\<close> Generators are observed for a number of wake-ups, an argument of every
  theorem, so the theorems hold for all of them; \<open>extends\<close> says that observing longer only adds. The
  publisher meets one scripted turn per emission and says \<open>OutOfFuel\<close> when the script is shorter. The
  wait for the server is a partial function, and C8 proves that it returns. The JSON reader has the
  interpreter's nesting limit as a parameter and the limit of 4300 digits of an integer. A replay whose delay is infinite has the result
  \<open>None\<close>: \<^verbatim>\<open>asyncio.sleep\<close> does not return, and C19 says so. All other
  recursion is structural or has a measure. Floats are exact in their rounding; magnitudes
  are bounded by powers of two well above what the contract admits.

  \<^bold>\<open>Not modelled, and why.\<close> The sign of zero and the order of a list with NaN (no branch of the
  source depends on them). Time zones other than fixed offsets (all stored instants are UTC).
  Characters above 255 in the strings of the services (topics and ids are ASCII by contract; texts of
  the command line and of JSON are lists of code points). The normal quantile of the rank interval is
  the constant \<open>Z95\<close>. Parameters stand for what is not in the repository: pydantic's JSON decoding and
  messages, the moments psycopg fails, the server's choice among equal rows, the random generator,
  \<^verbatim>\<open>strftime\<close>, argparse, libpq's and SQLAlchemy's URL functions, the texts of floats, aiohttp's sockets and
  the Prometheus text format. That a wait for a message which
  the stop event cancels leaves the client's buffer as it is, is taken from the library. Of the catalog,
  the bodies of views and rollups and the intervals of
  policies are kept as labels; every statement takes effect whole or not at all, which for a materialized
  view created with its data leaves out the moments in which it exists unfilled. Columns the server fills in, gaps of identity columns, Alembic's offline
  mode (it prints SQL), the texts of log lines other than the counters, and the installation of the log
  handler write nothing that another part reads.
\<close>

end
